(* ===== verification/Js_Prelude.thy ===== *)
theory Js_Prelude
  imports Main "HOL-Library.AList"
begin

text \<open>
  The parts of the JavaScript language and its standard library that the DBPod front end
  uses, and the generic lemmas and interfaces that every component theory shares.

  \<^item> A JavaScript string is a sequence of code units. It is modelled as an Isabelle
    \<open>string\<close>: each \<open>char\<close> is a code unit in the Latin-1 range. The whitespace and case tables
    below are the ones ECMAScript prescribes for that range.
  \<^item> A \<open>Map\<close> iterates in insertion order, and \<open>set\<close> on a present key keeps its place. It is
    an association list; \<open>AList.update\<close>, \<open>AList.delete\<close> and \<open>map_of\<close> are \<open>set\<close>, \<open>delete\<close>
    and \<open>get\<close>.
  \<^item> A \<open>Set\<close> is a list in insertion order (\<open>js_set_add\<close>, \<open>js_set_delete\<close>).
  \<^item> \<open>undefined\<close> and \<open>null\<close> are \<open>None\<close>. An array read out of range is \<open>None\<close> (\<open>js_at\<close>).
\<close>

named_theorems js_list \<open>facts about the array operations\<close>
named_theorems js_str \<open>facts about the string operations\<close>
named_theorems js_map \<open>facts about maps and sets in insertion order\<close>

type_synonym ('k, 'v) js_map = "('k \<times> 'v) list"
type_synonym 'a js_set = "'a list"

subsection \<open>Arrays\<close>

text \<open>\<open>xs[i]\<close>: \<open>undefined\<close> outside the array, for negative indices too.\<close>

definition js_at :: "'a list \<Rightarrow> int \<Rightarrow> 'a option" where
  "js_at xs i = (if 0 \<le> i \<and> i < int (length xs) then Some (xs ! nat i) else None)"

text \<open>\<open>xs.findIndex(P)\<close> and \<open>xs.indexOf(x)\<close>: \<open>-1\<close> when there is no such element.\<close>

primrec find_index :: "('a \<Rightarrow> bool) \<Rightarrow> 'a list \<Rightarrow> int" where
  "find_index P [] = -1"
| "find_index P (x # xs) =
     (if P x then 0 else let i = find_index P xs in if i < 0 then -1 else i + 1)"

definition index_of :: "'a \<Rightarrow> 'a list \<Rightarrow> int" where
  "index_of x xs = find_index (\<lambda>y. y = x) xs"

text \<open>
  \<open>xs.splice(start, deleteCount, ...items)\<close>, the array afterwards. A negative \<open>start\<close> counts
  from the end, and both arguments are clamped to the array.
\<close>

definition js_splice :: "int \<Rightarrow> nat \<Rightarrow> 'a list \<Rightarrow> 'a list \<Rightarrow> 'a list" where
  "js_splice start del items xs =
     (let n = int (length xs);
          s = nat (if start < 0 then max 0 (n + start) else min start n)
      in take s xs @ items @ drop (s + del) xs)"

subsection \<open>Maps and sets in insertion order\<close>

definition js_set_add :: "'a \<Rightarrow> 'a js_set \<Rightarrow> 'a js_set" where
  "js_set_add x xs = (if x \<in> set xs then xs else xs @ [x])"

definition js_set_delete :: "'a \<Rightarrow> 'a js_set \<Rightarrow> 'a js_set" where
  "js_set_delete x xs = filter (\<lambda>y. y \<noteq> x) xs"

text \<open>\<open>new Set(xs)\<close> and \<open>new Map(entries)\<close>.\<close>

definition js_set_of :: "'a list \<Rightarrow> 'a js_set" where
  "js_set_of xs = foldl (\<lambda>s x. js_set_add x s) [] xs"

definition js_map_of :: "('k \<times> 'v) list \<Rightarrow> ('k, 'v) js_map" where
  "js_map_of es = foldl (\<lambda>m (k, v). AList.update k v m) [] es"

subsection \<open>Strings\<close>

text \<open>\<open>s ? \<dots> : \<dots>\<close> on an optional string: \<open>undefined\<close>, \<open>null\<close> and the empty string are falsy.\<close>

definition truthy_str :: "string option \<Rightarrow> bool" where
  "truthy_str s = (case s of None \<Rightarrow> False | Some t \<Rightarrow> t \<noteq> [])"

text \<open>The operator \<open>??\<close>.\<close>

definition nullish :: "'a option \<Rightarrow> 'a \<Rightarrow> 'a" where
  "nullish x d = (case x of None \<Rightarrow> d | Some y \<Rightarrow> y)"

definition nullish_opt :: "'a option \<Rightarrow> 'a option \<Rightarrow> 'a option" where
  "nullish_opt x y = (case x of None \<Rightarrow> y | Some z \<Rightarrow> Some z)"

abbreviation code :: "char \<Rightarrow> nat" where
  "code c \<equiv> of_char c"

text \<open>WhiteSpace and LineTerminator of ECMAScript, as \<open>trim\<close> and \<open>\s\<close> use them.\<close>

definition is_space :: "char \<Rightarrow> bool" where
  "is_space c = (let n = code c in (9 \<le> n \<and> n \<le> 13) \<or> n = 32 \<or> n = 160)"

definition trim_start :: "string \<Rightarrow> string" where
  "trim_start s = dropWhile is_space s"

definition trim_end :: "string \<Rightarrow> string" where
  "trim_end s = rev (dropWhile is_space (rev s))"

definition trim :: "string \<Rightarrow> string" where
  "trim s = trim_end (trim_start s)"

definition is_upper :: "char \<Rightarrow> bool" where
  "is_upper c = (let n = code c in 65 \<le> n \<and> n \<le> 90)"

definition is_lower :: "char \<Rightarrow> bool" where
  "is_lower c = (let n = code c in 97 \<le> n \<and> n \<le> 122)"

definition is_digit :: "char \<Rightarrow> bool" where
  "is_digit c = (let n = code c in 48 \<le> n \<and> n \<le> 57)"

text \<open>\<open>[A-Za-z_]\<close>, and \<open>\w\<close>, that is \<open>[A-Za-z0-9_]\<close>.\<close>

definition is_ident_start :: "char \<Rightarrow> bool" where
  "is_ident_start c = (is_upper c \<or> is_lower c \<or> c = CHR ''_'')"

definition is_word :: "char \<Rightarrow> bool" where
  "is_word c = (is_ident_start c \<or> is_digit c)"

text \<open>\<open>toLowerCase\<close> and \<open>toUpperCase\<close> on one code unit of the Latin-1 range.\<close>

definition to_lower_char :: "char \<Rightarrow> char" where
  "to_lower_char c = (let n = code c in
     if is_upper c \<or> (192 \<le> n \<and> n \<le> 222 \<and> n \<noteq> 215) then char_of (n + 32) else c)"

definition to_upper_char :: "char \<Rightarrow> char" where
  "to_upper_char c = (let n = code c in
     if is_lower c \<or> (224 \<le> n \<and> n \<le> 254 \<and> n \<noteq> 247) then char_of (n - 32) else c)"

definition to_lower :: "string \<Rightarrow> string" where
  "to_lower s = map to_lower_char s"

definition to_upper :: "string \<Rightarrow> string" where
  "to_upper s = map to_upper_char s"

definition starts_with :: "string \<Rightarrow> string \<Rightarrow> bool" where
  "starts_with s p = (take (length p) s = p)"

text \<open>\<open>s.slice(a, b)\<close> for \<open>0 \<le> a\<close> and \<open>0 \<le> b\<close>.\<close>

definition slice :: "'a list \<Rightarrow> nat \<Rightarrow> nat \<Rightarrow> 'a list" where
  "slice s a b = take (b - a) (drop a s)"

text \<open>\<open>s.indexOf(p, from)\<close> for a position \<open>from\<close>; \<open>None\<close> stands for \<open>-1\<close>.\<close>

fun find_sub :: "string \<Rightarrow> string \<Rightarrow> nat option" where
  "find_sub p s =
     (if starts_with s p then Some 0
      else case s of [] \<Rightarrow> None | _ # s' \<Rightarrow> map_option Suc (find_sub p s'))"

declare find_sub.simps [simp del]

definition index_of_from :: "string \<Rightarrow> string \<Rightarrow> nat \<Rightarrow> nat option" where
  "index_of_from s p from = map_option (\<lambda>k. from + k) (find_sub p (drop from s))"

fun join :: "string \<Rightarrow> string list \<Rightarrow> string" where
  "join sep [] = []"
| "join sep [x] = x"
| "join sep (x # y # ys) = x @ sep @ join sep (y # ys)"

text \<open>\<open>s.split(c)\<close> for a separator of one character.\<close>

fun split_on :: "char \<Rightarrow> string \<Rightarrow> string list" where
  "split_on c [] = [[]]"
| "split_on c (x # xs) =
     (if x = c then [] # split_on c xs
      else case split_on c xs of [] \<Rightarrow> [[x]] | f # fs \<Rightarrow> (x # f) # fs)"

text \<open>\<open>String(n)\<close> for a natural number.\<close>

definition digit_char :: "nat \<Rightarrow> char" where
  "digit_char d = char_of (48 + d)"

fun show_nat :: "nat \<Rightarrow> string" where
  "show_nat n = (if n < 10 then [digit_char n] else show_nat (n div 10) @ [digit_char (n mod 10)])"

declare show_nat.simps [simp del]

definition show_int :: "int \<Rightarrow> string" where
  "show_int i = (if i < 0 then ''-'' @ show_nat (nat (- i)) else show_nat (nat i))"

text \<open>\<open>new TextEncoder().encode(s).length\<close>: a code unit above U+007F takes two bytes.\<close>

definition utf8_length :: "string \<Rightarrow> nat" where
  "utf8_length s = sum_list (map (\<lambda>c. if code c < 128 then 1 else 2) s)"

text \<open>The ellipsis U+2026, at its Windows-1252 position.\<close>

definition ellipsis :: string where
  "ellipsis = [char_of (133 :: nat)]"

subsection \<open>Computations that may throw\<close>

text \<open>\<open>xs.map(f)\<close> for a function that may throw: the first exception is the result.\<close>

fun map_throw :: "('a \<Rightarrow> 'e + 'b) \<Rightarrow> 'a list \<Rightarrow> 'e + 'b list" where
  "map_throw f [] = Inr []"
| "map_throw f (x # xs) = (case f x of
     Inl e \<Rightarrow> Inl e
   | Inr y \<Rightarrow> (case map_throw f xs of Inl e \<Rightarrow> Inl e | Inr ys \<Rightarrow> Inr (y # ys)))"

lemma map_throw_cong [fundef_cong]:
  "xs = ys \<Longrightarrow> (\<And>x. x \<in> set ys \<Longrightarrow> f x = g x) \<Longrightarrow> map_throw f xs = map_throw g ys"
proof -
  have "(\<And>x. x \<in> set ys \<Longrightarrow> f x = g x) \<Longrightarrow> map_throw f ys = map_throw g ys"
    by (induction ys) (auto split: sum.splits)
  then show "xs = ys \<Longrightarrow> (\<And>x. x \<in> set ys \<Longrightarrow> f x = g x) \<Longrightarrow> map_throw f xs = map_throw g ys" by simp
qed

lemma map_throw_Inr: "map_throw f xs = Inr ys \<longleftrightarrow> list_all2 (\<lambda>x y. f x = Inr y) xs ys"
proof (induction xs arbitrary: ys)
  case (Cons x xs)
  have "map_throw f (x # xs) = Inr ys \<longleftrightarrow> (\<exists>z zs. ys = z # zs \<and> f x = Inr z \<and> map_throw f xs = Inr zs)"
    by (auto split: sum.splits)
  then show ?case by (simp add: Cons list_all2_Cons1)
qed auto

lemma map_throw_total: "(\<And>x. x \<in> set xs \<Longrightarrow> f x = Inr (g x)) \<Longrightarrow> map_throw f xs = Inr (map g xs)"
  by (induction xs) auto

subsection \<open>Lemmas on arrays\<close>

lemma js_at_Some [js_list]:
  "js_at xs i = Some x \<longleftrightarrow> 0 \<le> i \<and> i < int (length xs) \<and> xs ! nat i = x"
  by (auto simp: js_at_def)

lemma js_at_None [js_list]: "js_at xs i = None \<longleftrightarrow> i < 0 \<or> int (length xs) \<le> i"
  by (auto simp: js_at_def)

lemma js_at_nth [simp]: "n < length xs \<Longrightarrow> js_at xs (int n) = Some (xs ! n)"
  by (simp add: js_at_def)

lemma js_at_in_set: "js_at xs i = Some x \<Longrightarrow> x \<in> set xs"
  by (auto simp: js_at_Some)

lemma find_index_ge: "-1 \<le> find_index P xs"
  by (induction xs) (auto simp: Let_def)

lemma find_index_lt: "find_index P xs < int (length xs)"
  by (induction xs) (auto simp: Let_def)

lemma find_index_neg [js_list]: "find_index P xs < 0 \<longleftrightarrow> (\<forall>x\<in>set xs. \<not> P x)"
  by (induction xs) (auto simp: Let_def)

lemma find_index_nonneg [js_list]: "0 \<le> find_index P xs \<longleftrightarrow> (\<exists>x\<in>set xs. P x)"
  using find_index_neg [of P xs] by (auto simp: not_less)

lemma find_index_sat:
  "0 \<le> find_index P xs \<Longrightarrow> P (xs ! nat (find_index P xs))"
  by (induction xs) (auto simp: Let_def nat_add_distrib split: if_splits)

lemma find_index_first:
  "int k < find_index P xs \<Longrightarrow> \<not> P (xs ! k)"
proof (induction xs arbitrary: k)
  case (Cons x xs)
  then show ?case
    by (cases k) (auto simp: Let_def split: if_splits)
qed simp

lemma find_index_append_first:
  "P x \<Longrightarrow> (\<And>y. y \<in> set xs \<Longrightarrow> \<not> P y) \<Longrightarrow> find_index P (xs @ x # ys) = int (length xs)"
  by (induction xs) auto

lemma index_of_ge: "-1 \<le> index_of x xs"
  by (simp add: index_of_def find_index_ge)

lemma index_of_lt: "index_of x xs < int (length xs)"
  by (simp add: index_of_def find_index_lt)

lemma index_of_nonneg [js_list]: "0 \<le> index_of x xs \<longleftrightarrow> x \<in> set xs"
  by (simp add: index_of_def find_index_nonneg)

lemma nth_index_of: "x \<in> set xs \<Longrightarrow> xs ! nat (index_of x xs) = x"
  using find_index_sat [of "\<lambda>y. y = x" xs] by (simp add: index_of_def find_index_nonneg)

lemma index_of_nth: "distinct xs \<Longrightarrow> k < length xs \<Longrightarrow> index_of (xs ! k) xs = int k"
proof -
  assume d: "distinct xs" and k: "k < length xs"
  let ?i = "index_of (xs ! k) xs"
  have i: "0 \<le> ?i" using k by (simp add: index_of_nonneg)
  have "xs ! nat ?i = xs ! k" using k by (simp add: nth_index_of)
  moreover have "nat ?i < length xs" using index_of_lt [of "xs ! k" xs] i by linarith
  ultimately have "nat ?i = k" using d k by (simp add: nth_eq_iff_index_eq)
  then show ?thesis using i by linarith
qed

lemma find_SomeD: "find P xs = Some x \<Longrightarrow> P x \<and> x \<in> set xs"
  by (induction xs) (auto split: if_splits)

lemma filter_neq_id [js_list]: "a \<notin> set xs \<Longrightarrow> filter (\<lambda>x. x \<noteq> a) xs = xs"
  by (induction xs) auto

lemma distinct_filter_none:
  assumes "distinct xs" "a \<in> set xs" "filter (\<lambda>x. x \<noteq> a) xs = []"
  shows "xs = [a]"
proof -
  obtain us vs where xs: "xs = us @ a # vs" using split_list [OF assms(2)] by blast
  have "us = []" "vs = []" using assms(1,3) unfolding xs by (simp_all add: filter_neq_id)
  then show ?thesis using xs by simp
qed

lemma length_js_splice_insert: "length (js_splice i 0 ys xs) = length xs + length ys"
  by (auto simp: js_splice_def Let_def)

subsection \<open>Lemmas on maps and sets\<close>

lemma map_of_update [simp, js_map]:
  "map_of (AList.update k v m) k' = (if k' = k then Some v else map_of m k')"
  by (simp add: update_conv)

lemma map_of_adelete [simp, js_map]:
  "map_of (AList.delete k m) k' = (if k' = k then None else map_of m k')"
  by (cases "k' = k") (simp_all add: delete_conv')

lemma set_js_set_add [simp, js_map]: "set (js_set_add x xs) = insert x (set xs)"
  by (auto simp: js_set_add_def)

lemma set_js_set_delete [simp, js_map]: "set (js_set_delete x xs) = set xs - {x}"
  by (auto simp: js_set_delete_def)

lemma distinct_js_set_add [simp]: "distinct (js_set_add x xs) = distinct xs"
  by (auto simp: js_set_add_def)

lemma distinct_js_set_delete [simp]: "distinct xs \<Longrightarrow> distinct (js_set_delete x xs)"
  by (simp add: js_set_delete_def)

lemma foldl_js_set_add:
  "set (foldl (\<lambda>s x. js_set_add x s) s xs) = set s \<union> set xs
   \<and> (distinct s \<longrightarrow> distinct (foldl (\<lambda>s x. js_set_add x s) s xs))"
  by (induction xs arbitrary: s) auto

lemma set_js_set_of [simp, js_map]: "set (js_set_of xs) = set xs"
  using foldl_js_set_add [of "[]" xs] by (simp add: js_set_of_def)

lemma distinct_js_set_of [simp]: "distinct (js_set_of xs)"
  using foldl_js_set_add [of "[]" xs] by (simp add: js_set_of_def)

lemma truthy_str_simps [simp]:
  "truthy_str None = False"
  "truthy_str (Some t) = (t \<noteq> [])"
  by (simp_all add: truthy_str_def)

lemma nullish_simps [simp]:
  "nullish None d = d"
  "nullish (Some x) d = x"
  "nullish_opt None y = y"
  "nullish_opt (Some x) y = Some x"
  by (simp_all add: nullish_def nullish_opt_def)

lemma set_update_subset: "set (AList.update k v xs) \<subseteq> insert (k, v) (set xs)"
  by (induction xs) auto

lemma set_delete_subset: "set (AList.delete k xs) \<subseteq> set xs"
  by (simp add: AList.delete_eq)

lemma snd_update_subset: "snd ` set (AList.update k v xs) \<subseteq> insert v (snd ` set xs)"
  using set_update_subset [of k v xs] by force

lemma snd_delete_subset: "snd ` set (AList.delete k xs) \<subseteq> snd ` set xs"
  using set_delete_subset by (rule image_mono)

lemma update_fresh: "k \<notin> fst ` set xs \<Longrightarrow> AList.update k v xs = xs @ [(k, v)]"
  by (induction xs) auto

text \<open>Entries with distinct keys, and distinct elements, are kept as they are.\<close>

lemma js_map_of_distinct:
  assumes "distinct (map fst es)" shows "js_map_of es = es"
proof -
  have "distinct (map fst (acc @ es)) \<Longrightarrow> foldl (\<lambda>m (k, v). AList.update k v m) acc es = acc @ es"
    for acc
  proof (induction es arbitrary: acc)
    case (Cons e es)
    obtain k v where e: "e = (k, v)" by (cases e)
    have "k \<notin> fst ` set acc" using Cons.prems e by auto
    then have "AList.update k v acc = acc @ [(k, v)]" by (rule update_fresh)
    then show ?case using Cons.IH [of "acc @ [e]"] Cons.prems e by simp
  qed simp
  from this [of "[]"] assms show ?thesis by (simp add: js_map_of_def)
qed

lemma js_set_of_distinct: "distinct xs \<Longrightarrow> js_set_of xs = xs"
proof -
  have "distinct (acc @ xs) \<Longrightarrow> foldl (\<lambda>s x. js_set_add x s) acc xs = acc @ xs" for acc
    by (induction xs arbitrary: acc) (auto simp: js_set_add_def)
  from this [of "[]"] show "distinct xs \<Longrightarrow> js_set_of xs = xs" by (simp add: js_set_of_def)
qed

subsection \<open>Lemmas on strings\<close>

lemma dropWhile_idem: "dropWhile P (dropWhile P xs) = dropWhile P xs"
  by (induction xs) auto

lemma trim_start_end: "trim_start (trim_end s) = trim_end (trim_start s)"
proof (cases "\<exists>c\<in>set s. \<not> is_space c")
  case True
  have split: "dropWhile P (rev (dropWhile P (rev xs))) = rev (dropWhile P (rev (dropWhile P xs)))"
    if "\<exists>c\<in>set xs. \<not> P c" for P :: "char \<Rightarrow> bool" and xs
    using that
  proof (induction xs)
    case (Cons x xs)
    show ?case
    proof (cases "P x")
      case px: True
      then have ex: "\<exists>c\<in>set xs. \<not> P c" using Cons.prems by auto
      then have "\<exists>c\<in>set (rev xs). \<not> P c" by simp
      then have "dropWhile P (rev xs @ [x]) = dropWhile P (rev xs) @ [x]"
        by (metis dropWhile_append1)
      then show ?thesis using Cons.IH [OF ex] px by simp
    next
      case False
      then have "dropWhile P (rev xs @ [x]) \<noteq> [] \<and> last (dropWhile P (rev xs @ [x])) = x"
        by (induction "rev xs") (auto simp: dropWhile_append3)
      then obtain ys where "dropWhile P (rev xs @ [x]) = ys @ [x]" by (metis append_butlast_last_id)
      then show ?thesis using False by simp
    qed
  qed simp
  show ?thesis unfolding trim_start_def trim_end_def by (rule split [OF True])
next
  case False
  then have "dropWhile is_space s = []" "dropWhile is_space (rev s) = []" by (simp_all add: dropWhile_eq_Nil_conv)
  then show ?thesis unfolding trim_start_def trim_end_def by (simp only: rev.simps dropWhile.simps)
qed

lemma trim_idem [simp]: "trim (trim s) = trim s"
proof -
  have "trim_end (trim_end t) = trim_end t" for t by (simp add: trim_end_def dropWhile_idem)
  moreover have "trim_start (trim_start t) = trim_start t" for t by (simp add: trim_start_def dropWhile_idem)
  ultimately show ?thesis by (simp add: trim_def trim_start_end)
qed

lemma length_to_lower [simp]: "length (to_lower s) = length s"
  by (simp add: to_lower_def)

lemma trim_Nil [simp]: "trim [] = []"
  by (simp add: trim_def trim_start_def trim_end_def)

end
