(* ===== verification/Workspace_Store.thy ===== *)
theory Workspace_Store
  imports Js_Prelude
begin

text \<open>
  The workspace store, \<open>src/entities/workspace/workspaceStore.ts\<close>: the tabs of one connection,
  their result tabs, the tab groups (panels) they are seated in, and the reducer that every
  user action and every asynchronous execution event goes through. \<open>workspaceReducer\<close> returns
  \<open>None\<close> where the TypeScript would throw a \<open>TypeError\<close> on an undefined array element.
\<close>

subsection \<open>State\<close>

datatype transaction_state = TxIdle | InTransaction | FailedTransaction

record result_tab =
  rt_id :: string
  rt_title :: string
  rt_isPinned :: bool
  rt_isRunning :: bool

record table_data_target =
  td_relationOid :: nat
  td_schema :: string
  td_name :: string

datatype table_data_mode = PropertiesMode | DataMode

datatype tab_kind = QueryKind | TableDataKind | RoutineDefinitionKind

record query_tab =
  qt_id :: string
  qt_title :: string
  qt_kind :: tab_kind
  qt_tableData :: "table_data_target option"
  qt_tableDataMode :: "table_data_mode option"
  qt_routineOid :: "nat option"
  qt_resultTabs :: "result_tab list"
  qt_activeResultTabId :: "string option"
  qt_runningExecutionId :: "string option"
  qt_sessionId :: "string option"
  qt_transactionState :: "transaction_state option"

record tab_group =
  g_id :: string
  g_tabIds :: "string list"
  g_activeTabId :: "string option"

record workspace_state =
  ws_tabs :: "query_tab list"
  ws_activeTabId :: "string option"
  ws_tabGroups :: "tab_group list option"
  ws_nextTabNumber :: nat
  ws_nextResultNumber :: nat

text \<open>The cycling actions carry \<open>1\<close> or \<open>-1\<close>.\<close>

datatype direction = Forward | Backward

fun dir_int :: "direction \<Rightarrow> int" where
  "dir_int Forward = 1"
| "dir_int Backward = -1"

text \<open>The optional parameters of \<open>TAB_ADDED\<close> besides the tab id.\<close>

record tab_added =
  ta_title :: "string option"
  ta_tableData :: "table_data_target option"
  ta_routineOid :: "nat option"
  ta_split :: bool
  ta_groupId :: "string option"

datatype workspace_action =
    TAB_ADDED string tab_added
  | TABLE_DATA_MODE_SET string table_data_mode
  | TAB_CLOSED string
  | TAB_RENAMED string string
  | TAB_ACTIVATED string
  | TAB_ACTIVATED_BY_INDEX int
  | TAB_CYCLED direction
  | RESULT_CYCLED direction
  | PANEL_CYCLED direction
  | RESULT_ADDED string string
  | RESULT_CLOSED string string
  | RESULT_ACTIVATED string string
  | RESULT_PIN_TOGGLED string string
  | EXECUTION_STARTED string string string "string option"
  | SESSION_OPENED string string
  | EXECUTION_ENDED string string "transaction_state option"

subsection \<open>The reducer\<close>

definition emptyWorkspace :: workspace_state where
  "emptyWorkspace = \<lparr>ws_tabs = [], ws_activeTabId = None, ws_tabGroups = None,
     ws_nextTabNumber = 1, ws_nextResultNumber = 1\<rparr>"

definition updateTab ::
  "workspace_state \<Rightarrow> string \<Rightarrow> (query_tab \<Rightarrow> query_tab) \<Rightarrow> workspace_state" where
  "updateTab s tabId fn = s\<lparr>ws_tabs := map (\<lambda>t. if qt_id t = tabId then fn t else t) (ws_tabs s)\<rparr>"

definition getTabGroups :: "workspace_state \<Rightarrow> tab_group list" where
  "getTabGroups s = nullish (ws_tabGroups s)
     [\<lparr>g_id = ''main'', g_tabIds = map qt_id (ws_tabs s), g_activeTabId = ws_activeTabId s\<rparr>]"

definition activateTab :: "workspace_state \<Rightarrow> string \<Rightarrow> workspace_state" where
  "activateTab s tabId =
     (if ws_activeTabId s = Some tabId \<or> \<not> (\<exists>t\<in>set (ws_tabs s). qt_id t = tabId) then s
      else s\<lparr>ws_activeTabId := Some tabId,
             ws_tabGroups := Some (map (\<lambda>g. if tabId \<in> set (g_tabIds g)
               then g\<lparr>g_activeTabId := Some tabId\<rparr> else g) (getTabGroups s))\<rparr>)"

text \<open>The tab that \<open>TAB_ADDED\<close> creates, and the action itself.\<close>

definition newTab :: "workspace_state \<Rightarrow> string \<Rightarrow> tab_added \<Rightarrow> query_tab" where
  "newTab s tabId a =
     \<lparr>qt_id = tabId,
      qt_title = nullish (ta_title a) (''Query '' @ show_nat (ws_nextTabNumber s)),
      qt_kind = (if ta_routineOid a \<noteq> None then RoutineDefinitionKind
                 else if ta_tableData a \<noteq> None then TableDataKind else QueryKind),
      qt_tableData = ta_tableData a,
      qt_tableDataMode = (if ta_tableData a \<noteq> None then Some DataMode else None),
      qt_routineOid = ta_routineOid a,
      qt_resultTabs = [],
      qt_activeResultTabId = None, qt_runningExecutionId = None,
      qt_sessionId = None, qt_transactionState = None\<rparr>"

definition addTargetIndex :: "workspace_state \<Rightarrow> tab_added \<Rightarrow> int" where
  "addTargetIndex s a = max 0 (find_index
     (\<lambda>g. if truthy_str (ta_groupId a) then Some (g_id g) = ta_groupId a
          else nullish (ws_activeTabId s) [] \<in> set (g_tabIds g))
     (getTabGroups s))"

definition tabAdded :: "workspace_state \<Rightarrow> string \<Rightarrow> tab_added \<Rightarrow> workspace_state option" where
  "tabAdded s tabId a =
     (let groups = getTabGroups s;
          groupIndex = addTargetIndex s a;
          finish = (\<lambda>tabGroups. s\<lparr>ws_tabs := ws_tabs s @ [newTab s tabId a],
             ws_activeTabId := Some tabId,
             ws_tabGroups := Some tabGroups,
             ws_nextTabNumber := (if truthy_str (ta_title a) then ws_nextTabNumber s
                                  else ws_nextTabNumber s + 1)\<rparr>)
      in if ta_split a \<and> ws_tabs s \<noteq> []
         then Some (finish (js_splice (groupIndex + 1) 0
                [\<lparr>g_id = tabId, g_tabIds = [tabId], g_activeTabId = Some tabId\<rparr>] groups))
         else (case js_at groups groupIndex of
             None \<Rightarrow> None
           | Some grp \<Rightarrow> Some (finish (groups[nat groupIndex :=
               grp\<lparr>g_tabIds := g_tabIds grp @ [tabId], g_activeTabId := Some tabId\<rparr>]))))"

definition tabClosed :: "workspace_state \<Rightarrow> string \<Rightarrow> workspace_state" where
  "tabClosed s tabId =
     (let groups = getTabGroups s;
          groupIndex = find_index (\<lambda>g. tabId \<in> set (g_tabIds g)) groups
      in case js_at groups groupIndex of
          None \<Rightarrow> s
        | Some grp \<Rightarrow>
          (let idx = index_of tabId (g_tabIds grp);
               tabs = filter (\<lambda>t. qt_id t \<noteq> tabId) (ws_tabs s);
               tabIds = filter (\<lambda>i. i \<noteq> tabId) (g_tabIds grp);
               nextGroup = grp\<lparr>g_tabIds := tabIds,
                 g_activeTabId := (if g_activeTabId grp = Some tabId
                    then js_at tabIds (min idx (int (length tabIds) - 1))
                    else g_activeTabId grp)\<rparr>;
               tabGroups = take (nat groupIndex) groups
                 @ (if tabIds \<noteq> [] then [nextGroup] else [])
                 @ drop (Suc (nat groupIndex)) groups;
               activeTabId = (if ws_activeTabId s = Some tabId
                 then nullish_opt (g_activeTabId nextGroup)
                        (Option.bind (js_at tabGroups (min groupIndex (int (length tabGroups) - 1)))
                           g_activeTabId)
                 else ws_activeTabId s)
           in s\<lparr>ws_tabs := tabs, ws_activeTabId := activeTabId,
                ws_tabGroups := (if tabGroups \<noteq> [] then Some tabGroups else None)\<rparr>))"

definition tabActivatedByIndex :: "workspace_state \<Rightarrow> int \<Rightarrow> workspace_state" where
  "tabActivatedByIndex s index =
     (let grp = find (\<lambda>g. nullish (ws_activeTabId s) [] \<in> set (g_tabIds g)) (getTabGroups s);
          tabId = Option.bind grp (\<lambda>g. js_at (g_tabIds g) index)
      in if truthy_str tabId then activateTab s (the tabId) else s)"

definition cycleIndex :: "int \<Rightarrow> direction \<Rightarrow> nat \<Rightarrow> nat" where
  "cycleIndex idx d len = nat ((max 0 idx + dir_int d + int len) mod int len)"

definition tabCycled :: "workspace_state \<Rightarrow> direction \<Rightarrow> workspace_state" where
  "tabCycled s d =
     (let tabIds = concat (map g_tabIds (getTabGroups s))
      in if tabIds = [] then s
         else activateTab s
           (tabIds ! cycleIndex (index_of (nullish (ws_activeTabId s) []) tabIds) d (length tabIds)))"

text \<open>\<open>t.resultTabs[next].id\<close> throws when some tab with that id has fewer results.\<close>

definition resultCycled :: "workspace_state \<Rightarrow> direction \<Rightarrow> workspace_state option" where
  "resultCycled s d =
     (case find (\<lambda>t. Some (qt_id t) = ws_activeTabId s) (ws_tabs s) of
        None \<Rightarrow> Some s
      | Some tab \<Rightarrow>
        if length (qt_resultTabs tab) < 2 then Some s
        else
          (let idx = find_index (\<lambda>r. Some (rt_id r) = qt_activeResultTabId tab) (qt_resultTabs tab);
               next = cycleIndex idx d (length (qt_resultTabs tab))
           in if \<exists>t\<in>set (ws_tabs s). qt_id t = qt_id tab \<and> length (qt_resultTabs t) \<le> next then None
              else Some (updateTab s (qt_id tab)
                (\<lambda>t. t\<lparr>qt_activeResultTabId := Some (rt_id (qt_resultTabs t ! next))\<rparr>))))"

definition panelCycled :: "workspace_state \<Rightarrow> direction \<Rightarrow> workspace_state" where
  "panelCycled s d =
     (let groups = getTabGroups s
      in if groups = [] then s
         else
           (let idx = find_index (\<lambda>g. nullish (ws_activeTabId s) [] \<in> set (g_tabIds g)) groups;
                g = groups ! cycleIndex idx d (length groups);
                tabId = nullish_opt (g_activeTabId g) (js_at (g_tabIds g) 0)
            in if truthy_str tabId then activateTab s (the tabId) else s))"

definition resultAdded :: "workspace_state \<Rightarrow> string \<Rightarrow> string \<Rightarrow> workspace_state" where
  "resultAdded s tabId resultTabId =
     (updateTab s tabId (\<lambda>t. t\<lparr>
        qt_resultTabs := qt_resultTabs t @ [\<lparr>rt_id = resultTabId,
          rt_title = ''Result '' @ show_nat (ws_nextResultNumber s),
          rt_isPinned = False, rt_isRunning = False\<rparr>],
        qt_activeResultTabId := Some resultTabId\<rparr>))
     \<lparr>ws_nextResultNumber := ws_nextResultNumber s + 1\<rparr>"

definition closeResult :: "string \<Rightarrow> query_tab \<Rightarrow> query_tab" where
  "closeResult resultTabId t =
     (let idx = find_index (\<lambda>r. rt_id r = resultTabId) (qt_resultTabs t);
          resultTabs = filter (\<lambda>r. rt_id r \<noteq> resultTabId) (qt_resultTabs t);
          activeResultTabId = (if qt_activeResultTabId t = Some resultTabId
            then map_option rt_id (js_at resultTabs (min idx (int (length resultTabs) - 1)))
            else qt_activeResultTabId t)
      in t\<lparr>qt_resultTabs := resultTabs, qt_activeResultTabId := activeResultTabId\<rparr>)"

text \<open>The map over \<open>resultTabs\<close> that changes the entry with one id.\<close>

definition updateResult :: "string \<Rightarrow> (result_tab \<Rightarrow> result_tab) \<Rightarrow> query_tab \<Rightarrow> query_tab" where
  "updateResult rid f t = t\<lparr>qt_resultTabs := map (\<lambda>r. if rt_id r = rid then f r else r) (qt_resultTabs t)\<rparr>"

definition startExecution ::
  "string \<Rightarrow> string \<Rightarrow> string option \<Rightarrow> query_tab \<Rightarrow> query_tab" where
  "startExecution resultTabId executionId sessionId t =
     updateResult resultTabId (\<lambda>r. r\<lparr>rt_isRunning := True\<rparr>)
       (t\<lparr>qt_runningExecutionId := Some executionId,
          qt_sessionId := nullish_opt sessionId (qt_sessionId t)\<rparr>)"

definition endExecution :: "string \<Rightarrow> transaction_state option \<Rightarrow> query_tab \<Rightarrow> query_tab" where
  "endExecution resultTabId tx t =
     updateResult resultTabId (\<lambda>r. r\<lparr>rt_isRunning := False\<rparr>)
       (t\<lparr>qt_runningExecutionId := None,
          qt_transactionState := nullish_opt tx (qt_transactionState t)\<rparr>)"

fun workspaceReducer :: "workspace_state \<Rightarrow> workspace_action \<Rightarrow> workspace_state option" where
  "workspaceReducer s (TAB_ADDED tabId a) = tabAdded s tabId a"
| "workspaceReducer s (TABLE_DATA_MODE_SET tabId mode) =
     Some (updateTab s tabId (\<lambda>t. t\<lparr>qt_tableDataMode := Some mode\<rparr>))"
| "workspaceReducer s (TAB_CLOSED tabId) = Some (tabClosed s tabId)"
| "workspaceReducer s (TAB_RENAMED tabId title) =
     Some (updateTab s tabId (\<lambda>t. t\<lparr>qt_title := title\<rparr>))"
| "workspaceReducer s (TAB_ACTIVATED tabId) = Some (activateTab s tabId)"
| "workspaceReducer s (TAB_ACTIVATED_BY_INDEX index) = Some (tabActivatedByIndex s index)"
| "workspaceReducer s (TAB_CYCLED d) = Some (tabCycled s d)"
| "workspaceReducer s (RESULT_CYCLED d) = resultCycled s d"
| "workspaceReducer s (PANEL_CYCLED d) = Some (panelCycled s d)"
| "workspaceReducer s (RESULT_ADDED tabId rid) = Some (resultAdded s tabId rid)"
| "workspaceReducer s (RESULT_CLOSED tabId rid) = Some (updateTab s tabId (closeResult rid))"
| "workspaceReducer s (RESULT_ACTIVATED tabId rid) =
     Some (updateTab s tabId (\<lambda>t. t\<lparr>qt_activeResultTabId := Some rid\<rparr>))"
| "workspaceReducer s (RESULT_PIN_TOGGLED tabId rid) =
     Some (updateTab s tabId (updateResult rid (\<lambda>r. r\<lparr>rt_isPinned := \<not> rt_isPinned r\<rparr>)))"
| "workspaceReducer s (EXECUTION_STARTED tabId rid executionId sessionId) =
     Some (updateTab s tabId (startExecution rid executionId sessionId))"
| "workspaceReducer s (SESSION_OPENED tabId sessionId) =
     Some (updateTab s tabId (\<lambda>t. t\<lparr>qt_sessionId := Some sessionId\<rparr>))"
| "workspaceReducer s (EXECUTION_ENDED tabId rid tx) =
     Some (updateTab s tabId (endExecution rid tx))"


subsection \<open>Well-formed workspaces\<close>

definition tab_ids :: "workspace_state \<Rightarrow> string list" where
  "tab_ids s = map qt_id (ws_tabs s)"

text \<open>Result ids are distinct, and the active result is one of them unless there is none.\<close>

definition tab_inv :: "query_tab \<Rightarrow> bool" where
  "tab_inv t = (distinct (map rt_id (qt_resultTabs t)) \<and>
     (case qt_activeResultTabId t of
        None \<Rightarrow> qt_resultTabs t = []
      | Some r \<Rightarrow> r \<in> rt_id ` set (qt_resultTabs t)))"

text \<open>
  The groups partition the tabs, none is empty, each shows one of its own tabs, and the group
  of the active tab shows the active tab.
\<close>

definition group_inv :: "string option \<Rightarrow> tab_group \<Rightarrow> bool" where
  "group_inv active g = ((\<exists>a\<in>set (g_tabIds g). g_activeTabId g = Some a) \<and>
     (\<forall>a. active = Some a \<longrightarrow> a \<in> set (g_tabIds g) \<longrightarrow> g_activeTabId g = Some a))"

definition groups_inv :: "string set \<Rightarrow> string option \<Rightarrow> tab_group list \<Rightarrow> bool" where
  "groups_inv ids active gs = (distinct (map g_id gs) \<and> distinct (concat (map g_tabIds gs)) \<and>
     \<Union> (set ` g_tabIds ` set gs) = ids \<and> (\<forall>g\<in>set gs. group_inv active g))"

definition ws_inv :: "workspace_state \<Rightarrow> bool" where
  "ws_inv s = (distinct (tab_ids s) \<and> [] \<notin> set (tab_ids s) \<and>
     (case ws_activeTabId s of None \<Rightarrow> ws_tabs s = [] | Some a \<Rightarrow> a \<in> set (tab_ids s)) \<and>
     (case ws_tabGroups s of None \<Rightarrow> True
      | Some gs \<Rightarrow> gs \<noteq> [] \<and> groups_inv (set (tab_ids s)) (ws_activeTabId s) gs) \<and>
     (\<forall>t\<in>set (ws_tabs s). tab_inv t))"

text \<open>
  What the callers of \<open>dispatch\<close> guarantee: new tabs and results get a fresh id from
  \<open>crypto.randomUUID()\<close>, and only a result the tab shows is activated.
\<close>

fun action_ok :: "workspace_state \<Rightarrow> workspace_action \<Rightarrow> bool" where
  "action_ok s (TAB_ADDED tabId a) =
     (tabId \<noteq> [] \<and> tabId \<notin> set (tab_ids s) \<and> tabId \<notin> g_id ` set (getTabGroups s))"
| "action_ok s (RESULT_ADDED tabId rid) =
     (\<forall>t\<in>set (ws_tabs s). qt_id t = tabId \<longrightarrow> rid \<notin> rt_id ` set (qt_resultTabs t))"
| "action_ok s (RESULT_ACTIVATED tabId rid) =
     (\<forall>t\<in>set (ws_tabs s). qt_id t = tabId \<longrightarrow> rid \<in> rt_id ` set (qt_resultTabs t))"
| "action_ok s _ = True"

lemma updateTab_simps [simp]:
  "tab_ids (updateTab s i f) = map (\<lambda>t. qt_id (if qt_id t = i then f t else t)) (ws_tabs s)"
  "ws_activeTabId (updateTab s i f) = ws_activeTabId s"
  "ws_tabGroups (updateTab s i f) = ws_tabGroups s"
  "ws_nextTabNumber (updateTab s i f) = ws_nextTabNumber s"
  "ws_nextResultNumber (updateTab s i f) = ws_nextResultNumber s"
  "ws_tabs (updateTab s i f) = map (\<lambda>t. if qt_id t = i then f t else t) (ws_tabs s)"
  by (simp_all add: updateTab_def tab_ids_def comp_def)

text \<open>An update that keeps the tab's id and its own invariant keeps the workspace invariant.\<close>

lemma updateTab_inv:
  assumes inv: "ws_inv s"
    and ids: "\<And>t. t \<in> set (ws_tabs s) \<Longrightarrow> qt_id t = i \<Longrightarrow> qt_id (f t) = qt_id t"
    and tabs: "\<And>t. t \<in> set (ws_tabs s) \<Longrightarrow> qt_id t = i \<Longrightarrow> tab_inv t \<Longrightarrow> tab_inv (f t)"
  shows "ws_inv (updateTab s i f)"
proof -
  have "tab_ids (updateTab s i f) = tab_ids s"
    using ids by (simp add: tab_ids_def)
  then show ?thesis
    using inv tabs by (auto simp: ws_inv_def split: option.splits)
qed

lemma tab_inv_frame [simp]:
  "tab_inv (t\<lparr>qt_title := x1\<rparr>) = tab_inv t"
  "tab_inv (t\<lparr>qt_tableDataMode := x2\<rparr>) = tab_inv t"
  "tab_inv (t\<lparr>qt_runningExecutionId := x3\<rparr>) = tab_inv t"
  "tab_inv (t\<lparr>qt_sessionId := x4\<rparr>) = tab_inv t"
  "tab_inv (t\<lparr>qt_transactionState := x5\<rparr>) = tab_inv t"
  by (simp_all add: tab_inv_def split: option.splits)

lemma tab_inv_updateResult:
  "(\<And>r. rt_id (f r) = rt_id r) \<Longrightarrow> tab_inv t \<Longrightarrow> tab_inv (updateResult rid f t)"
proof -
  assume f: "\<And>r. rt_id (f r) = rt_id r" and t: "tab_inv t"
  have "map rt_id (qt_resultTabs (updateResult rid f t)) = map rt_id (qt_resultTabs t)"
    by (simp add: updateResult_def f)
  moreover from this have
    "rt_id ` set (qt_resultTabs (updateResult rid f t)) = rt_id ` set (qt_resultTabs t)"
    by (metis image_set)
  moreover have "qt_activeResultTabId (updateResult rid f t) = qt_activeResultTabId t"
    and "(qt_resultTabs (updateResult rid f t) = []) = (qt_resultTabs t = [])"
    by (simp_all add: updateResult_def)
  ultimately show ?thesis using t by (simp add: tab_inv_def split: option.splits)
qed

lemma qt_id_updateResult [simp]: "qt_id (updateResult rid f t) = qt_id t"
  by (simp add: updateResult_def)

lemma startExecution_simps [simp]:
  "qt_id (startExecution rid e sid t) = qt_id t"
  "tab_inv t \<Longrightarrow> tab_inv (startExecution rid e sid t)"
  by (auto simp: startExecution_def intro!: tab_inv_updateResult)

lemma endExecution_simps [simp]:
  "qt_id (endExecution rid tx t) = qt_id t"
  "tab_inv t \<Longrightarrow> tab_inv (endExecution rid tx t)"
  by (auto simp: endExecution_def intro!: tab_inv_updateResult)

lemma min_index_in_range:
  "xs \<noteq> [] \<Longrightarrow> 0 \<le> i \<Longrightarrow> \<exists>x\<in>set xs. js_at xs (min i (int (length xs) - 1)) = Some x"
proof -
  assume "xs \<noteq> []" "0 \<le> i"
  then have "0 \<le> min i (int (length xs) - 1)" "min i (int (length xs) - 1) < int (length xs)"
    by (auto simp: Suc_le_eq)
  then have "js_at xs (min i (int (length xs) - 1)) = Some (xs ! nat (min i (int (length xs) - 1)))"
    by (simp add: js_at_def)
  then show ?thesis by (auto dest: js_at_in_set)
qed

lemma closeResult_inv:
  assumes "tab_inv t"
  shows "tab_inv (closeResult rid t)"
proof (cases "qt_activeResultTabId t = Some rid")
  case True
  let ?rs = "filter (\<lambda>r. rt_id r \<noteq> rid) (qt_resultTabs t)"
  let ?i = "find_index (\<lambda>r. rt_id r = rid) (qt_resultTabs t)"
  from assms True have "rid \<in> rt_id ` set (qt_resultTabs t)" by (simp add: tab_inv_def)
  then have i: "0 \<le> ?i" by (auto simp: find_index_nonneg)
  have d: "distinct (map rt_id ?rs)" using assms by (simp add: tab_inv_def distinct_map_filter)
  show ?thesis
  proof (cases "?rs = []")
    case True
    then show ?thesis using \<open>qt_activeResultTabId t = Some rid\<close>
      by (simp add: closeResult_def tab_inv_def js_at_def)
  next
    case False
    from min_index_in_range [OF this i] obtain r where
      "r \<in> set ?rs" "js_at ?rs (min ?i (int (length ?rs) - 1)) = Some r" by blast
    then show ?thesis using d True by (auto simp: closeResult_def tab_inv_def Let_def)
  qed
next
  case False
  then show ?thesis using assms
    by (auto simp: closeResult_def tab_inv_def Let_def distinct_map_filter split: option.splits)
qed


subsection \<open>Groups\<close>

lemma group_of_active_exists:
  "groups_inv ids active gs \<Longrightarrow> a \<in> ids \<Longrightarrow> \<exists>g\<in>set gs. a \<in> set (g_tabIds g)"
  by (auto simp: groups_inv_def)

lemma groups_inv_shows:
  "groups_inv ids active gs \<Longrightarrow> h \<in> set gs \<Longrightarrow> \<exists>b\<in>set (g_tabIds h). g_activeTabId h = Some b"
  by (simp add: groups_inv_def group_inv_def)

text \<open>Every tab sits in one group only.\<close>

lemma groups_inv_unique:
  assumes "groups_inv ids active (xs @ g # ys)" and "a \<in> set (g_tabIds g)"
    and "h \<in> set (xs @ ys)"
  shows "a \<notin> set (g_tabIds h)"
  using assms by (fastforce simp: groups_inv_def)

lemma getTabGroups_inv:
  assumes "ws_inv s" "ws_tabs s \<noteq> []"
  shows "getTabGroups s \<noteq> []"
    and "groups_inv (set (tab_ids s)) (ws_activeTabId s) (getTabGroups s)"
proof -
  show "getTabGroups s \<noteq> []"
    using assms by (auto simp: getTabGroups_def ws_inv_def nullish_def split: option.splits)
  show "groups_inv (set (tab_ids s)) (ws_activeTabId s) (getTabGroups s)"
  proof (cases "ws_tabGroups s")
    case None
    then show ?thesis using assms
      by (auto simp: getTabGroups_def ws_inv_def groups_inv_def group_inv_def tab_ids_def
          split: option.splits)
  next
    case (Some gs)
    then show ?thesis using assms by (simp add: getTabGroups_def ws_inv_def)
  qed
qed

lemma ws_inv_empty_groups:
  assumes "ws_inv s" "ws_tabs s = []"
  shows "ws_tabGroups s = None" and "ws_activeTabId s = None"
proof -
  show "ws_tabGroups s = None"
  proof (rule ccontr)
    assume "ws_tabGroups s \<noteq> None"
    then obtain g gs where "ws_tabGroups s = Some (g # gs)" "groups_inv {} (ws_activeTabId s) (g # gs)"
      using assms by (auto simp: ws_inv_def tab_ids_def neq_Nil_conv split: option.splits)
    then show False by (auto simp: groups_inv_def group_inv_def)
  qed
  show "ws_activeTabId s = None"
    using assms by (auto simp: ws_inv_def tab_ids_def split: option.splits)
qed

text \<open>Activating a tab of the partition: its group shows it, the others are unchanged.\<close>

lemma groups_inv_activate:
  assumes gi: "groups_inv ids active gs" and a: "a \<in> ids"
  shows "groups_inv ids (Some a)
    (map (\<lambda>g. if a \<in> set (g_tabIds g) then g\<lparr>g_activeTabId := Some a\<rparr> else g) gs)"
proof -
  define f :: "tab_group \<Rightarrow> tab_group" where "f = (\<lambda>g. if a \<in> set (g_tabIds g) then g\<lparr>g_activeTabId := Some a\<rparr> else g)"
  have f: "g_id (f g) = g_id g" "g_tabIds (f g) = g_tabIds g"
    "group_inv active g \<Longrightarrow> group_inv (Some a) (f g)" for g :: tab_group
    by (auto simp: f_def group_inv_def)
  show ?thesis
    using gi f unfolding groups_inv_def f_def [symmetric] by (simp add: comp_def)
qed

lemma activateTab_inv: "ws_inv s \<Longrightarrow> ws_inv (activateTab s a)"
proof -
  assume inv: "ws_inv s"
  show ?thesis
  proof (cases "ws_activeTabId s = Some a \<or> \<not> (\<exists>t\<in>set (ws_tabs s). qt_id t = a)")
    case True
    then show ?thesis using inv by (simp add: activateTab_def)
  next
    case False
    then have a: "a \<in> set (tab_ids s)" and ne: "ws_tabs s \<noteq> []"
      by (auto simp: tab_ids_def)
    from groups_inv_activate [OF getTabGroups_inv(2) [OF inv ne] a] getTabGroups_inv(1) [OF inv ne]
    show ?thesis using inv False a
      by (simp add: activateTab_def ws_inv_def tab_ids_def)
  qed
qed

lemma activateTab_tabs [simp]: "ws_tabs (activateTab s a) = ws_tabs s"
  by (simp add: activateTab_def)

lemma activateTab_active:
  "a \<in> set (tab_ids s) \<Longrightarrow> ws_activeTabId (activateTab s a) = Some a"
  by (auto simp: activateTab_def tab_ids_def)


text \<open>Seating a new tab: in an existing group, or in a group of its own.\<close>

lemma groups_inv_add_to:
  assumes "groups_inv ids active (xs @ g # ys)" and "a \<notin> ids"
  shows "groups_inv (insert a ids) (Some a)
    (xs @ g\<lparr>g_tabIds := g_tabIds g @ [a], g_activeTabId := Some a\<rparr> # ys)"
  using assms by (auto simp: groups_inv_def group_inv_def)

lemma groups_inv_split:
  assumes "groups_inv ids active (xs @ ys)" and "a \<notin> ids" and "a \<notin> g_id ` set (xs @ ys)"
  shows "groups_inv (insert a ids) (Some a)
    (xs @ \<lparr>g_id = a, g_tabIds = [a], g_activeTabId = Some a\<rparr> # ys)"
  using assms by (auto simp: groups_inv_def group_inv_def)

lemma addTargetIndex_bounds:
  "0 \<le> addTargetIndex s a"
  "getTabGroups s \<noteq> [] \<Longrightarrow> addTargetIndex s a < int (length (getTabGroups s))"
  using find_index_lt [of _ "getTabGroups s"] by (auto simp: addTargetIndex_def)

lemma list_update_split: "n < length xs \<Longrightarrow> xs[n := y] = take n xs @ y # drop (Suc n) xs"
  by (rule upd_conv_take_nth_drop)

lemma tab_inv_newTab [simp]: "tab_inv (newTab s tabId a)"
  by (simp add: tab_inv_def newTab_def)

lemma qt_id_newTab [simp]: "qt_id (newTab s tabId a) = tabId"
  by (simp add: newTab_def)

text \<open>What is left to show for \<open>TAB_ADDED\<close> once the new groups are known.\<close>

lemma ws_inv_with_new_tab:
  assumes "ws_inv s" "tabId \<noteq> []" "tabId \<notin> set (tab_ids s)" "gs \<noteq> []"
    and "groups_inv (insert tabId (set (tab_ids s))) (Some tabId) gs"
  shows "ws_inv (s\<lparr>ws_tabs := ws_tabs s @ [newTab s tabId a], ws_activeTabId := Some tabId,
           ws_tabGroups := Some gs, ws_nextTabNumber := n\<rparr>)"
  using assms by (auto simp: ws_inv_def tab_ids_def split: option.splits)

lemma tabAdded_inv:
  assumes inv: "ws_inv s" and ok: "action_ok s (TAB_ADDED tabId a)"
  shows "\<exists>s'. tabAdded s tabId a = Some s' \<and> ws_inv s'"
proof (cases "ws_tabs s = []")
  case True
  from ws_inv_empty_groups [OF inv True]
  have g: "getTabGroups s = [\<lparr>g_id = ''main'', g_tabIds = [], g_activeTabId = None\<rparr>]"
    using True by (simp add: getTabGroups_def)
  have i: "addTargetIndex s a = 0"
    using addTargetIndex_bounds [of s a] g by simp
  have "groups_inv (insert tabId (set (tab_ids s))) (Some tabId)
      [\<lparr>g_id = ''main'', g_tabIds = [tabId], g_activeTabId = Some tabId\<rparr>]"
    using True by (simp add: groups_inv_def group_inv_def tab_ids_def)
  from ws_inv_with_new_tab [OF inv _ _ _ this] ok show ?thesis
    using True g i by (simp add: tabAdded_def js_at_def)
next
  case False
  let ?gs = "getTabGroups s"
  let ?i = "addTargetIndex s a"
  note gi = getTabGroups_inv [OF inv False]
  note ib = addTargetIndex_bounds(1) [of s a] addTargetIndex_bounds(2) [OF gi(1), of a]
  have n: "nat ?i < length ?gs" using ib by linarith
  show ?thesis
  proof (cases "ta_split a")
    case True
    have "groups_inv (set (tab_ids s)) (ws_activeTabId s)
        (take (Suc (nat ?i)) ?gs @ drop (Suc (nat ?i)) ?gs)"
      using gi(2) by simp
    from groups_inv_split [OF this, of tabId] ok
    have "groups_inv (insert tabId (set (tab_ids s))) (Some tabId) (take (Suc (nat ?i)) ?gs @
        \<lparr>g_id = tabId, g_tabIds = [tabId], g_activeTabId = Some tabId\<rparr> # drop (Suc (nat ?i)) ?gs)"
      by simp
    moreover have "js_splice (?i + 1) 0 ys ?gs = take (Suc (nat ?i)) ?gs @ ys @ drop (Suc (nat ?i)) ?gs" for ys
    proof -
      have "nat (min (?i + 1) (int (length ?gs))) = Suc (nat ?i)" using ib by linarith
      then show ?thesis using ib by (simp add: js_splice_def Let_def)
    qed
    ultimately show ?thesis
      using ws_inv_with_new_tab [OF inv, of tabId] ok True False by (simp add: tabAdded_def Let_def)
  next
    case noSplit: False
    have "groups_inv (set (tab_ids s)) (ws_activeTabId s)
        (take (nat ?i) ?gs @ ?gs ! nat ?i # drop (Suc (nat ?i)) ?gs)"
      using gi(2) n by (simp add: id_take_nth_drop [symmetric])
    from groups_inv_add_to [OF this, of tabId] ok
    have "groups_inv (insert tabId (set (tab_ids s))) (Some tabId) (?gs[nat ?i :=
        (?gs ! nat ?i)\<lparr>g_tabIds := g_tabIds (?gs ! nat ?i) @ [tabId], g_activeTabId := Some tabId\<rparr>])"
      using n by (simp add: list_update_split)
    from ws_inv_with_new_tab [OF inv _ _ _ this] gi(1) ok noSplit False show ?thesis
      using ib by (simp add: tabAdded_def Let_def js_at_def)
  qed
qed


text \<open>Closing a tab: its group shrinks, or goes with its last tab.\<close>

lemma groups_inv_shrink:
  assumes gi: "groups_inv ids active (xs @ g # ys)" and a: "a \<in> set (g_tabIds g)"
    and b: "b \<in> set (g_tabIds g)" "b \<noteq> a"
    and act: "active' = (if active = Some a then Some b else active)"
    and gact: "gact = (if g_activeTabId g = Some a then Some b else g_activeTabId g)"
  shows "groups_inv (ids - {a}) active'
    (xs @ g\<lparr>g_tabIds := filter (\<lambda>i. i \<noteq> a) (g_tabIds g), g_activeTabId := gact\<rparr> # ys)"
proof -
  have others: "a \<notin> set (g_tabIds h)" "b \<notin> set (g_tabIds h)" if "h \<in> set (xs @ ys)" for h
    using groups_inv_unique [OF gi] a b that by blast+
  have hi: "group_inv active h" if "h \<in> set (xs @ g # ys)" for h
    using gi that by (auto simp: groups_inv_def)
  have "group_inv active' h" if "h \<in> set (xs @ ys)" for h
    using hi [of h] others [OF that] that act by (auto simp: group_inv_def)
  moreover have "group_inv active'
      (g\<lparr>g_tabIds := filter (\<lambda>i. i \<noteq> a) (g_tabIds g), g_activeTabId := gact\<rparr>)"
    using hi [of g] b act gact a by (auto simp: group_inv_def)
  moreover have "\<Union> (set ` g_tabIds ` set (xs @ ys)) \<inter> {a} = {}"
    using others(1) by auto
  ultimately show ?thesis using gi by (auto simp: groups_inv_def)
qed

lemma groups_inv_drop:
  assumes gi: "groups_inv ids active (xs @ g # ys)" and a: "g_tabIds g = [a]"
    and act: "active \<noteq> Some a \<and> active' = active \<or> (\<exists>h\<in>set (xs @ ys). active' = g_activeTabId h)"
  shows "groups_inv (ids - {a}) active' (xs @ ys)"
proof -
  have others: "a \<notin> set (g_tabIds h)" if "h \<in> set (xs @ ys)" for h
    using groups_inv_unique [OF gi, of a h] a that by simp
  have hi: "group_inv active h" if "h \<in> set (xs @ ys)" for h
    using gi that by (auto simp: groups_inv_def)
  have uniq: "h = h'" if h: "h \<in> set (xs @ ys)" and h': "h' \<in> set (xs @ ys)"
      and x: "x \<in> set (g_tabIds h)" "x \<in> set (g_tabIds h')" for h h' x
  proof -
    have d: "distinct (concat (map g_tabIds (xs @ ys)))" using gi by (auto simp: groups_inv_def)
    obtain us vs where uv: "xs @ ys = us @ h # vs" using split_list [OF h] by blast
    have "h' \<notin> set us \<union> set vs" using d x unfolding uv by fastforce
    then show ?thesis using h' unfolding uv by auto
  qed
  have "group_inv active' h" if h: "h \<in> set (xs @ ys)" for h
    using act
  proof
    assume "active \<noteq> Some a \<and> active' = active"
    then show ?thesis using hi [OF h] by simp
  next
    assume "\<exists>k\<in>set (xs @ ys). active' = g_activeTabId k"
    then obtain k where k: "k \<in> set (xs @ ys)" "active' = g_activeTabId k" by blast
    from hi [OF k(1)] obtain c where "c \<in> set (g_tabIds k)" "g_activeTabId k = Some c"
      by (auto simp: group_inv_def)
    then show ?thesis using uniq [OF h k(1)] hi [OF h] k by (auto simp: group_inv_def)
  qed
  moreover have "\<Union> (set ` g_tabIds ` set (xs @ ys)) \<inter> {a} = {}"
    using others by auto
  ultimately show ?thesis using gi a by (auto simp: groups_inv_def)
qed

lemma tabClosed_unknown: "tabId \<notin> \<Union> (set ` g_tabIds ` set (getTabGroups s)) \<Longrightarrow> tabClosed s tabId = s"
proof -
  assume "tabId \<notin> \<Union> (set ` g_tabIds ` set (getTabGroups s))"
  then have "find_index (\<lambda>g. tabId \<in> set (g_tabIds g)) (getTabGroups s) < 0"
    by (auto simp: find_index_neg)
  then show ?thesis by (simp add: tabClosed_def js_at_def)
qed


text \<open>The group, its place and the closed tab's place in it, for a tab of the workspace.\<close>

lemma tabClosed_known:
  assumes inv: "ws_inv s" and a: "tabId \<in> set (tab_ids s)"
  obtains xs g ys where "getTabGroups s = xs @ g # ys" and "tabId \<in> set (g_tabIds g)"
    and "find_index (\<lambda>g. tabId \<in> set (g_tabIds g)) (getTabGroups s) = int (length xs)"
proof -
  let ?P = "\<lambda>g. tabId \<in> set (g_tabIds g)"
  let ?i = "find_index ?P (getTabGroups s)"
  have "ws_tabs s \<noteq> []" using a by (auto simp: tab_ids_def)
  from group_of_active_exists [OF getTabGroups_inv(2) [OF inv this] a]
  have i: "0 \<le> ?i" by (simp add: find_index_nonneg)
  then have n: "nat ?i < length (getTabGroups s)" using find_index_lt [of ?P "getTabGroups s"] by linarith
  show thesis
    by (rule that [OF id_take_nth_drop [OF n]]) (use find_index_sat [OF i] i n in auto)
qed

text \<open>\<open>tabClosed\<close> with the group found: the groups afterwards and the tab that becomes active.\<close>

lemma tabClosed_eq:
  fixes g :: tab_group
  assumes "getTabGroups s = xs @ g # ys"
    and "find_index (\<lambda>g. tabId \<in> set (g_tabIds g)) (getTabGroups s) = int (length xs)"
  defines "ids \<equiv> filter (\<lambda>i. i \<noteq> tabId) (g_tabIds g)"
  defines "gact \<equiv> (if g_activeTabId g = Some tabId
      then js_at ids (min (index_of tabId (g_tabIds g)) (int (length ids) - 1)) else g_activeTabId g)"
  defines "gs \<equiv> xs @ (if ids \<noteq> [] then [g\<lparr>g_tabIds := ids, g_activeTabId := gact\<rparr>] else []) @ ys"
  shows "tabClosed s tabId = s\<lparr>ws_tabs := filter (\<lambda>t. qt_id t \<noteq> tabId) (ws_tabs s),
    ws_activeTabId := (if ws_activeTabId s = Some tabId
      then nullish_opt gact (Option.bind (js_at gs (min (int (length xs)) (int (length gs) - 1))) g_activeTabId)
      else ws_activeTabId s),
    ws_tabGroups := (if gs \<noteq> [] then Some gs else None)\<rparr>"
proof -
  have at: "js_at (xs @ g # ys) (int (length xs)) = Some g" by (simp add: js_at_def)
  show ?thesis
    unfolding tabClosed_def Let_def assms(2) unfolding assms(1) at ids_def gact_def gs_def
    by simp
qed

lemma ws_inv_without_tab:
  assumes inv: "ws_inv s" and gs: "gs \<noteq> []" "groups_inv (set (tab_ids s) - {tabId}) (Some b) gs"
    and b: "b \<in> set (tab_ids s)" "b \<noteq> tabId"
  shows "ws_inv (s\<lparr>ws_tabs := filter (\<lambda>t. qt_id t \<noteq> tabId) (ws_tabs s), ws_activeTabId := Some b,
     ws_tabGroups := Some gs\<rparr>)"
proof -
  have "qt_id ` {x \<in> set (ws_tabs s). qt_id x \<noteq> tabId} = qt_id ` set (ws_tabs s) - {tabId}" by auto
  then show ?thesis using assms by (simp add: ws_inv_def tab_ids_def distinct_map_filter)
qed

lemma ws_inv_active:
  assumes "ws_inv s" "ws_tabs s \<noteq> []"
  obtains b where "ws_activeTabId s = Some b" and "b \<in> set (tab_ids s)"
  using assms by (auto simp: ws_inv_def split: option.splits)

lemma tabClosed_inv_shrink:
  assumes inv: "ws_inv s" and ne: "ws_tabs s \<noteq> []"
    and gs: "getTabGroups s = xs @ g # ys" and ag: "tabId \<in> set (g_tabIds g)"
    and fi: "find_index (\<lambda>g. tabId \<in> set (g_tabIds g)) (getTabGroups s) = int (length xs)"
    and more: "filter (\<lambda>i. i \<noteq> tabId) (g_tabIds g) \<noteq> []"
  shows "ws_inv (tabClosed s tabId)"
proof -
  let ?ids = "filter (\<lambda>i. i \<noteq> tabId) (g_tabIds g)"
  let ?idx = "index_of tabId (g_tabIds g)"
  note gi = getTabGroups_inv(2) [OF inv ne, unfolded gs]
  have gact: "ws_activeTabId s = Some tabId \<Longrightarrow> g_activeTabId g = Some tabId"
    using gi ag by (auto simp: groups_inv_def group_inv_def)
  have "0 \<le> ?idx" using ag by (simp add: index_of_nonneg)
  from min_index_in_range [OF more this] obtain b where
    b: "b \<in> set (g_tabIds g)" "b \<noteq> tabId" and at: "js_at ?ids (min ?idx (int (length ?ids) - 1)) = Some b"
    by auto
  obtain c where c: "ws_activeTabId s = Some c" "c \<in> set (tab_ids s)"
    using ws_inv_active [OF inv ne] by blast
  let ?act = "if ws_activeTabId s = Some tabId then b else c"
  have act: "(if ws_activeTabId s = Some tabId then Some b else ws_activeTabId s) = Some ?act"
    using c by simp
  have "?act \<in> set (tab_ids s)" "?act \<noteq> tabId" using b c gi by (auto simp: groups_inv_def)
  from ws_inv_without_tab [OF inv _ groups_inv_shrink [OF gi ag b act [symmetric] refl] this]
  show ?thesis
    unfolding tabClosed_eq [OF gs fi] using more at gact c by auto
qed

lemma tabClosed_inv_drop:
  assumes inv: "ws_inv s" and ne: "ws_tabs s \<noteq> []"
    and gs: "getTabGroups s = xs @ g # ys" and ag: "g_tabIds g = [tabId]"
    and fi: "find_index (\<lambda>g. tabId \<in> set (g_tabIds g)) (getTabGroups s) = int (length xs)"
  shows "ws_inv (tabClosed s tabId)"
proof -
  note gi = getTabGroups_inv(2) [OF inv ne, unfolded gs]
  have gact: "g_activeTabId g = Some tabId" using gi ag by (simp add: groups_inv_def group_inv_def)
  have i0: "index_of tabId [tabId] = 0" by (simp add: index_of_def)
  show ?thesis
  proof (cases "xs @ ys = []")
    case True
    then have "set (tab_ids s) = {tabId}" using gi ag by (simp add: groups_inv_def)
    then have "filter (\<lambda>t. qt_id t \<noteq> tabId) (ws_tabs s) = []" by (auto simp: tab_ids_def filter_empty_conv)
    moreover have "ws_activeTabId s = Some tabId"
      using ws_inv_active [OF inv ne] \<open>set (tab_ids s) = {tabId}\<close> by auto
    ultimately show ?thesis unfolding tabClosed_eq [OF gs fi] using True ag gact i0
      by (simp add: ws_inv_def tab_ids_def js_at_def)
  next
    case False
    from min_index_in_range [OF False, of "int (length xs)"] obtain h where
      h: "h \<in> set (xs @ ys)" and at: "js_at (xs @ ys) (min (int (length xs)) (int (length (xs @ ys)) - 1)) = Some h"
      by auto
    obtain c where c: "ws_activeTabId s = Some c" "c \<in> set (tab_ids s)"
      using ws_inv_active [OF inv ne] by blast
    obtain b where b: "b \<in> set (g_tabIds h)" "g_activeTabId h = Some b"
      using groups_inv_shows [OF gi, of h] h by auto
    have bn: "b \<noteq> tabId" using groups_inv_unique [OF gi, of tabId h] ag h b by auto
    let ?act = "if ws_activeTabId s = Some tabId then b else c"
    have "groups_inv (set (tab_ids s) - {tabId}) (Some ?act) (xs @ ys)"
      by (rule groups_inv_drop [OF gi ag]) (use b c h in \<open>auto intro!: bexI [of _ h]\<close>)
    moreover have "?act \<in> set (tab_ids s)" "?act \<noteq> tabId"
      using b bn c h gi by (auto simp: groups_inv_def)
    ultimately have "ws_inv (s\<lparr>ws_tabs := filter (\<lambda>t. qt_id t \<noteq> tabId) (ws_tabs s),
        ws_activeTabId := Some ?act, ws_tabGroups := Some (xs @ ys)\<rparr>)"
      using ws_inv_without_tab [OF inv False] by blast
    then show ?thesis unfolding tabClosed_eq [OF gs fi] using ag gact i0 at b c False
      by (auto simp: js_at_def)
  qed
qed

lemma tabClosed_inv:
  assumes inv: "ws_inv s"
  shows "ws_inv (tabClosed s tabId)"
proof (cases "tabId \<in> set (tab_ids s)")
  case False
  have "tabId \<notin> \<Union> (set ` g_tabIds ` set (getTabGroups s))"
  proof (cases "ws_tabs s = []")
    case True
    then show ?thesis using ws_inv_empty_groups [OF inv] by (simp add: getTabGroups_def)
  next
    case ne: False
    then show ?thesis using getTabGroups_inv(2) [OF inv ne] False by (auto simp: groups_inv_def)
  qed
  then show ?thesis using inv by (simp add: tabClosed_unknown)
next
  case True
  then have ne: "ws_tabs s \<noteq> []" by (auto simp: tab_ids_def)
  obtain xs g ys where gs: "getTabGroups s = xs @ g # ys" and ag: "tabId \<in> set (g_tabIds g)"
    and fi: "find_index (\<lambda>g. tabId \<in> set (g_tabIds g)) (getTabGroups s) = int (length xs)"
    using tabClosed_known [OF inv True] by blast
  have "distinct (g_tabIds g)"
    using getTabGroups_inv(2) [OF inv ne] gs by (simp add: groups_inv_def)
  then have "filter (\<lambda>i. i \<noteq> tabId) (g_tabIds g) = [] \<Longrightarrow> g_tabIds g = [tabId]"
    using ag by (simp add: distinct_filter_none)
  then show ?thesis
    using tabClosed_inv_shrink [OF inv ne gs ag fi] tabClosed_inv_drop [OF inv ne gs _ fi] by blast
qed


subsection \<open>Cycling\<close>

lemma cycleIndex_lt: "0 < len \<Longrightarrow> cycleIndex i d len < len"
  by (simp add: cycleIndex_def nat_less_iff)

lemma resultCycled_inv:
  assumes inv: "ws_inv s"
  shows "\<exists>s'. resultCycled s d = Some s' \<and> ws_inv s'"
proof (cases "find (\<lambda>t. Some (qt_id t) = ws_activeTabId s) (ws_tabs s)")
  case None
  then show ?thesis using inv by (simp add: resultCycled_def)
next
  case (Some tab)
  then have tab: "tab \<in> set (ws_tabs s)" by (auto simp: find_Some_iff)
  show ?thesis
  proof (cases "length (qt_resultTabs tab) < 2")
    case True
    then show ?thesis using inv Some by (simp add: resultCycled_def)
  next
    case False
    define n where "n = cycleIndex (find_index (\<lambda>r. Some (rt_id r) = qt_activeResultTabId tab)
        (qt_resultTabs tab)) d (length (qt_resultTabs tab))"
    have n: "n < length (qt_resultTabs tab)"
      unfolding n_def by (rule cycleIndex_lt) (use False in linarith)
    have len: "n < length (qt_resultTabs t)" if "t \<in> set (ws_tabs s)" "qt_id t = qt_id tab" for t
    proof -
      have "t = tab" using inv that tab by (auto simp: ws_inv_def tab_ids_def distinct_map inj_on_def)
      then show ?thesis using n by simp
    qed
    have "ws_inv (updateTab s (qt_id tab)
        (\<lambda>t. t\<lparr>qt_activeResultTabId := Some (rt_id (qt_resultTabs t ! n))\<rparr>))"
      by (rule updateTab_inv [OF inv]) (use len in \<open>auto simp: tab_inv_def\<close>)
    moreover have "\<not> (\<exists>t\<in>set (ws_tabs s). qt_id t = qt_id tab \<and> length (qt_resultTabs t) \<le> n)"
      using len leD by blast
    ultimately show ?thesis
      using Some False unfolding resultCycled_def Let_def by (simp add: n_def [symmetric])
  qed
qed

lemma tabCycled_inv: "ws_inv s \<Longrightarrow> ws_inv (tabCycled s d)"
  by (simp add: tabCycled_def Let_def activateTab_inv)

lemma panelCycled_inv: "ws_inv s \<Longrightarrow> ws_inv (panelCycled s d)"
  by (simp add: panelCycled_def Let_def activateTab_inv)

lemma tabActivatedByIndex_inv: "ws_inv s \<Longrightarrow> ws_inv (tabActivatedByIndex s i)"
  by (simp add: tabActivatedByIndex_def Let_def activateTab_inv)

lemma ws_inv_nextResult: "ws_inv (s\<lparr>ws_nextResultNumber := n\<rparr>) = ws_inv s"
  by (simp add: ws_inv_def tab_ids_def split: option.splits)

lemma resultAdded_inv:
  assumes "ws_inv s" "action_ok s (RESULT_ADDED tabId rid)"
  shows "ws_inv (resultAdded s tabId rid)"
proof -
  have "ws_inv (updateTab s tabId (\<lambda>t. t\<lparr>
        qt_resultTabs := qt_resultTabs t @ [\<lparr>rt_id = rid,
          rt_title = ''Result '' @ show_nat (ws_nextResultNumber s),
          rt_isPinned = False, rt_isRunning = False\<rparr>],
        qt_activeResultTabId := Some rid\<rparr>))"
    by (rule updateTab_inv [OF assms(1)]) (use assms(2) in \<open>auto simp: tab_inv_def\<close>)
  then show ?thesis unfolding resultAdded_def by (simp only: ws_inv_nextResult)
qed

lemma qt_id_closeResult [simp]: "qt_id (closeResult rid t) = qt_id t"
  by (simp add: closeResult_def Let_def)

lemma ws_inv_emptyWorkspace: "ws_inv emptyWorkspace"
  by (simp add: ws_inv_def emptyWorkspace_def tab_ids_def)

lemma workspaceReducer_inv:
  assumes inv: "ws_inv s" and ok: "action_ok s a"
  shows "\<exists>s'. workspaceReducer s a = Some s' \<and> ws_inv s'"
proof (cases a)
  case (TAB_ADDED i x)
  then show ?thesis using inv ok tabAdded_inv by simp
next
  case (RESULT_CYCLED d)
  then show ?thesis using inv resultCycled_inv by simp
next
  case (RESULT_ADDED i r)
  then show ?thesis using inv ok resultAdded_inv by simp
next
  case (RESULT_ACTIVATED i r)
  have "ws_inv (updateTab s i (\<lambda>t. t\<lparr>qt_activeResultTabId := Some r\<rparr>))"
    by (rule updateTab_inv [OF inv]) (use ok RESULT_ACTIVATED in \<open>auto simp: tab_inv_def\<close>)
  then show ?thesis using RESULT_ACTIVATED by simp
next
  case (RESULT_PIN_TOGGLED i r)
  have "ws_inv (updateTab s i (updateResult r (\<lambda>r. r\<lparr>rt_isPinned := \<not> rt_isPinned r\<rparr>)))"
    by (rule updateTab_inv [OF inv]) (auto intro: tab_inv_updateResult)
  then show ?thesis using RESULT_PIN_TOGGLED by simp
qed (simp_all add: inv tabClosed_inv activateTab_inv tabActivatedByIndex_inv tabCycled_inv
      panelCycled_inv closeResult_inv updateTab_inv)

end
