(* ===== verification/Contracts.thy ===== *)
theory Contracts
  imports Js_Prelude
begin

text \<open>
  The two interfaces that several components of the front end implement.

  \<^item> \<open>guarded_machine\<close>: a reducer that may throw, the guard its callers respect and the
    invariant it keeps. The client lemma: a run whose every action respects the guard
    never throws and ends in a well-formed state.
  \<^item> \<open>keyed_store\<close>: a store addressed by a key (a connection, a result tab), whose operations
    read and write the entry of their key only. The client lemma: in any interleaving of
    operations, the entry of a key is what the operations on that key alone make of it.
    \<open>keyed_store_inv\<close> is the same contract for a store that needs an invariant for it.
\<close>

subsection \<open>Runs of a reducer\<close>

fun run_actions :: "('s \<Rightarrow> 'a \<Rightarrow> 's option) \<Rightarrow> 's \<Rightarrow> 'a list \<Rightarrow> 's option" where
  "run_actions step s [] = Some s"
| "run_actions step s (a # as) = Option.bind (step s a) (\<lambda>s'. run_actions step s' as)"

fun run_ok :: "('s \<Rightarrow> 'a \<Rightarrow> 's option) \<Rightarrow> ('s \<Rightarrow> 'a \<Rightarrow> bool) \<Rightarrow> 's \<Rightarrow> 'a list \<Rightarrow> bool" where
  "run_ok step ok s [] = True"
| "run_ok step ok s (a # as) =
     (ok s a \<and> (case step s a of None \<Rightarrow> True | Some s' \<Rightarrow> run_ok step ok s' as))"

locale guarded_machine =
  fixes step :: "'s \<Rightarrow> 'a \<Rightarrow> 's option"
    and ok :: "'s \<Rightarrow> 'a \<Rightarrow> bool"
    and inv :: "'s \<Rightarrow> bool"
  assumes step_inv: "inv s \<Longrightarrow> ok s a \<Longrightarrow> \<exists>s'. step s a = Some s' \<and> inv s'"
begin

lemma run_inv:
  "inv s \<Longrightarrow> run_ok step ok s as \<Longrightarrow> \<exists>s'. run_actions step s as = Some s' \<and> inv s'"
proof (induction as arbitrary: s)
  case (Cons a as)
  then obtain s' where "step s a = Some s'" "inv s'" using step_inv by force
  with Cons show ?case by simp
qed simp

end

subsection \<open>Stores addressed by a key\<close>

definition run_ops :: "('o \<Rightarrow> 'k \<Rightarrow> 'st \<Rightarrow> 'st) \<Rightarrow> ('o \<times> 'k) list \<Rightarrow> 'st \<Rightarrow> 'st" where
  "run_ops apply_op ops st = fold (\<lambda>(p, k). apply_op p k) ops st"

locale keyed_store_inv =
  fixes view :: "'st \<Rightarrow> 'k \<Rightarrow> 'v"
    and apply_op :: "'o \<Rightarrow> 'k \<Rightarrow> 'st \<Rightarrow> 'st"
    and inv :: "'st \<Rightarrow> bool"
  assumes op_inv: "inv st \<Longrightarrow> inv (apply_op p k st)"
    and inv_frame: "inv st \<Longrightarrow> k' \<noteq> k \<Longrightarrow> view (apply_op p k st) k' = view st k'"
    and inv_local: "inv st \<Longrightarrow> inv st' \<Longrightarrow> view st k = view st' k \<Longrightarrow>
      view (apply_op p k st) k = view (apply_op p k st') k"
begin

lemma run_ops_inv: "inv st \<Longrightarrow> inv (run_ops apply_op ops st)"
proof (induction ops arbitrary: st)
  case (Cons q ops)
  then show ?case using op_inv by (cases q) (simp add: run_ops_def)
qed (simp add: run_ops_def)

lemma run_view_local:
  "inv st \<Longrightarrow> inv st' \<Longrightarrow> view st k = view st' k \<Longrightarrow>
   view (run_ops apply_op ops st) k = view (run_ops apply_op (filter (\<lambda>q. snd q = k) ops) st') k"
proof (induction ops arbitrary: st st')
  case (Cons q ops)
  obtain p k' where q: "q = (p, k')" by (cases q)
  have inv: "inv (apply_op p k' st)" "inv (apply_op p k' st')" using Cons.prems op_inv by simp_all
  show ?case
  proof (cases "k' = k")
    case True
    from Cons.prems have "view (apply_op p k st) k = view (apply_op p k st') k"
      by (rule inv_local)
    from Cons.IH [OF _ _ this] inv True q show ?thesis by (simp add: run_ops_def)
  next
    case False
    with Cons.prems have "view (apply_op p k' st) k = view st' k" by (simp add: inv_frame)
    from Cons.IH [OF inv(1) Cons.prems(2) this] False q show ?thesis by (simp add: run_ops_def)
  qed
qed (simp add: run_ops_def)

lemma run_projection:
  "inv st \<Longrightarrow>
   view (run_ops apply_op ops st) k = view (run_ops apply_op (filter (\<lambda>q. snd q = k) ops) st) k"
  by (rule run_view_local) (rule refl | assumption)+

lemma run_untouched:
  "inv st \<Longrightarrow> k \<notin> snd ` set ops \<Longrightarrow> view (run_ops apply_op ops st) k = view st k"
proof -
  assume inv: "inv st" and "k \<notin> snd ` set ops"
  then have none: "filter (\<lambda>q. snd q = k) ops = []" by (force simp: filter_empty_conv)
  show ?thesis using run_projection [OF inv, of ops k] unfolding none by (simp add: run_ops_def)
qed

end

text \<open>A store whose operations are independent in every state, well-formed or not.\<close>

locale keyed_store =
  fixes view :: "'st \<Rightarrow> 'k \<Rightarrow> 'v"
    and apply_op :: "'o \<Rightarrow> 'k \<Rightarrow> 'st \<Rightarrow> 'st"
  assumes view_frame: "k' \<noteq> k \<Longrightarrow> view (apply_op p k st) k' = view st k'"
    and view_local: "view st k = view st' k \<Longrightarrow> view (apply_op p k st) k = view (apply_op p k st') k"

sublocale keyed_store \<subseteq> always: keyed_store_inv view apply_op "\<lambda>_. True"
  by unfold_locales (simp, rule view_frame, assumption, rule view_local)

context keyed_store
begin

lemma projection:
  "view (run_ops apply_op ops st) k = view (run_ops apply_op (filter (\<lambda>q. snd q = k) ops) st) k"
  using always.run_projection by simp

lemma untouched: "k \<notin> snd ` set ops \<Longrightarrow> view (run_ops apply_op ops st) k = view st k"
  using always.run_untouched by simp

end

end
