(* ===== verification/Workspace_Dispatch.thy ===== *)
theory Workspace_Dispatch
  imports Workspace_Store Contracts
begin

text \<open>
  The module state around the reducer, still \<open>src/entities/workspace/workspaceStore.ts\<close>: the
  map from connections to workspaces that asynchronous executions dispatch into, the result
  ids of a tab, and the propagation of a saved query to the other tabs that show it. The
  trace \<open>wst_emits\<close> lists the connections whose subscribers were notified, oldest first.
\<close>

record workspace_store =
  wst_states :: "(string, workspace_state) js_map"
  wst_emits :: "string list"

text \<open>\<open>None\<close>: the reducer threw, and the caller sees the exception.\<close>

definition dispatchWorkspace ::
  "workspace_store \<Rightarrow> string \<Rightarrow> workspace_action \<Rightarrow> workspace_store option" where
  "dispatchWorkspace st conn action =
     (case map_of (wst_states st) conn of
        None \<Rightarrow> Some st
      | Some s \<Rightarrow> map_option
          (\<lambda>s'. st\<lparr>wst_states := AList.update conn s' (wst_states st),
                   wst_emits := wst_emits st @ [conn]\<rparr>)
          (workspaceReducer s action))"

definition resultIds :: "query_tab \<Rightarrow> string list" where
  "resultIds tab = (if qt_kind tab = TableDataKind then [qt_id tab @ '':data'']
                    else map rt_id (qt_resultTabs tab))"

text \<open>
  \<open>syncSavedQueryTabs\<close>: the loop over every tab of every workspace, with the drafts it updates
  and the ids it pushes.
\<close>

fun syncTabs ::
  "(string, string) js_map \<Rightarrow> string \<Rightarrow> string \<Rightarrow> string \<Rightarrow> string option \<Rightarrow> query_tab list
   \<Rightarrow> (string, string) js_map \<times> string list \<Rightarrow> (string, string) js_map \<times> string list" where
  "syncTabs ids qid sql prev ex [] acc = acc"
| "syncTabs ids qid sql prev ex (tab # tabs) (drafts, moved) =
     (if Some (qt_id tab) = ex \<or> map_of ids (qt_id tab) \<noteq> Some qid
      then syncTabs ids qid sql prev ex tabs (drafts, moved)
      else if nullish (map_of drafts (qt_id tab)) [] \<noteq> prev
      then syncTabs ids qid sql prev ex tabs (drafts, moved)
      else syncTabs ids qid sql prev ex tabs
             (AList.update (qt_id tab) sql drafts, moved @ [qt_id tab]))"

definition syncSavedQueryTabs ::
  "(string, workspace_state) js_map \<Rightarrow> (string, string) js_map \<Rightarrow> (string, string) js_map
   \<Rightarrow> string \<Rightarrow> string \<Rightarrow> string option \<Rightarrow> string option
   \<Rightarrow> (string, string) js_map \<times> string list" where
  "syncSavedQueryTabs states ids drafts qid sql previousSql exceptTabId =
     (case previousSql of
        None \<Rightarrow> (drafts, [])
      | Some prev \<Rightarrow>
          if prev = sql then (drafts, [])
          else syncTabs ids qid sql prev exceptTabId (concat (map (ws_tabs \<circ> snd) states)) (drafts, []))"

subsection \<open>The reducer as a guarded machine\<close>

interpretation wsm: guarded_machine workspaceReducer action_ok ws_inv
  by unfold_locales (rule workspaceReducer_inv)

text \<open>
  Dispatch as a store operation: an exception leaves the map as it was, since the assignment
  comes after the reducer.
\<close>

definition dispatch_op :: "workspace_action \<Rightarrow> string \<Rightarrow> workspace_store \<Rightarrow> workspace_store" where
  "dispatch_op action conn st = nullish (dispatchWorkspace st conn action) st"

definition workspace_of :: "workspace_store \<Rightarrow> string \<Rightarrow> workspace_state option" where
  "workspace_of st conn = map_of (wst_states st) conn"

lemma workspace_of_dispatch_op:
  "workspace_of (dispatch_op action conn st) c =
     (if c = conn then map_option (\<lambda>s. nullish (workspaceReducer s action) s) (workspace_of st conn)
      else workspace_of st c)"
  by (auto simp: workspace_of_def dispatch_op_def dispatchWorkspace_def nullish_def
      split: option.splits)

lemma dispatch_op_closed:
  "workspace_of st c = None \<Longrightarrow> workspace_of (dispatch_op action conn st) c = None"
  by (cases "c = conn") (simp_all add: workspace_of_dispatch_op)

interpretation wsd: keyed_store workspace_of dispatch_op
  by unfold_locales (simp_all add: workspace_of_dispatch_op)

subsection \<open>The order of the tabs and what cycling does with it\<close>

definition tab_order :: "workspace_state \<Rightarrow> string list" where
  "tab_order s = concat (map g_tabIds (getTabGroups s))"

lemma map_g_tabIds_activate:
  "map g_tabIds (map (\<lambda>g. if a \<in> set (g_tabIds g) then g\<lparr>g_activeTabId := Some a\<rparr> else g) gs)
   = map g_tabIds gs"
  by simp

lemma tab_order_activateTab [simp]: "tab_order (activateTab s a) = tab_order s"
proof (cases "ws_activeTabId s = Some a \<or> \<not> (\<exists>t\<in>set (ws_tabs s). qt_id t = a)")
  case True
  then show ?thesis by (simp add: activateTab_def)
next
  case False
  then have "getTabGroups (activateTab s a) =
      map (\<lambda>g. if a \<in> set (g_tabIds g) then g\<lparr>g_activeTabId := Some a\<rparr> else g) (getTabGroups s)"
    by (simp add: activateTab_def getTabGroups_def [of "s\<lparr>ws_activeTabId := _, ws_tabGroups := Some _\<rparr>"])
  then show ?thesis unfolding tab_order_def by (simp only: map_g_tabIds_activate)
qed

lemma tab_order_inv:
  assumes "ws_inv s" "ws_tabs s \<noteq> []"
  shows "distinct (tab_order s)" and "set (tab_order s) = set (tab_ids s)"
  using getTabGroups_inv(2) [OF assms] by (simp_all add: tab_order_def groups_inv_def)

lemma cycleIndex_of_nat:
  assumes "i < n"
  shows "cycleIndex (int i) d n = nat ((int i + dir_int d) mod int n)"
  using mod_add_self2 [of "int i + dir_int d" "int n"] by (simp add: cycleIndex_def)

text \<open>One step of cycling, from a known position in the order.\<close>

lemma tabCycled_step:
  fixes d :: direction
  assumes inv: "ws_inv s" and i: "i < length (tab_order s)" "ws_activeTabId s = Some (tab_order s ! i)"
  defines "j \<equiv> nat ((int i + dir_int d) mod int (length (tab_order s)))"
  shows "ws_activeTabId (tabCycled s d) = Some (tab_order s ! j)"
    and "tab_order (tabCycled s d) = tab_order s" and "ws_inv (tabCycled s d)"
    and "j < length (tab_order s)" and "ws_tabs (tabCycled s d) = ws_tabs s"
proof -
  have ne: "ws_tabs s \<noteq> []" using ws_inv_empty_groups [OF inv] i by auto
  note ord = tab_order_inv [OF inv ne]
  have idx: "index_of (tab_order s ! i) (tab_order s) = int i"
    by (rule index_of_nth [OF ord(1) i(1)])
  have j: "cycleIndex (int i) d (length (tab_order s)) = j"
    unfolding j_def by (rule cycleIndex_of_nat [OF i(1)])
  have step: "tabCycled s d = activateTab s (tab_order s ! j)"
    using i idx j unfolding tabCycled_def Let_def tab_order_def [symmetric] by auto
  show lt: "j < length (tab_order s)" using i j cycleIndex_lt [of "length (tab_order s)"] by fastforce
  then have "tab_order s ! j \<in> set (tab_ids s)" using ord(2) nth_mem by blast
  then show "ws_activeTabId (tabCycled s d) = Some (tab_order s ! j)"
    by (simp add: step activateTab_active)
  show "tab_order (tabCycled s d) = tab_order s" "ws_inv (tabCycled s d)"
    "ws_tabs (tabCycled s d) = ws_tabs s"
    using inv by (simp_all add: step activateTab_inv)
qed

lemma tabCycled_forward_iterate:
  assumes "ws_inv s" "i < length (tab_order s)" "ws_activeTabId s = Some (tab_order s ! i)"
  shows "ws_activeTabId (((\<lambda>s. tabCycled s Forward) ^^ k) s)
           = Some (tab_order s ! ((i + k) mod length (tab_order s)))
       \<and> tab_order (((\<lambda>s. tabCycled s Forward) ^^ k) s) = tab_order s
       \<and> ws_inv (((\<lambda>s. tabCycled s Forward) ^^ k) s)"
proof (induction k)
  case 0
  then show ?case using assms by simp
next
  case (Suc k)
  let ?s = "((\<lambda>s. tabCycled s Forward) ^^ k) s"
  let ?n = "length (tab_order s)"
  have lt: "(i + k) mod ?n < ?n" using assms(2) by (intro mod_less_divisor) linarith
  from Suc have st: "ws_inv ?s" "tab_order ?s = tab_order s"
    "ws_activeTabId ?s = Some (tab_order ?s ! ((i + k) mod ?n))" by simp_all
  have "nat ((int ((i + k) mod ?n) + 1) mod int ?n) = nat (int ((i + k) mod ?n + 1) mod int ?n)"
    by (simp add: add.commute)
  also have "\<dots> = ((i + k) mod ?n + 1) mod ?n"
    by (simp only: nat_mod_as_int)
  also have "\<dots> = (i + Suc k) mod ?n"
    by (simp add: mod_simps)
  finally have "nat ((int ((i + k) mod ?n) + dir_int Forward) mod int ?n) = (i + Suc k) mod ?n"
    by simp
  with tabCycled_step [OF st(1) _ st(3), of Forward] lt st(2) show ?case by simp
qed

subsection \<open>Executions\<close>

lemma end_startExecution:
  "endExecution r tx (startExecution r e sid t) =
     t\<lparr>qt_runningExecutionId := None, qt_sessionId := nullish_opt sid (qt_sessionId t),
       qt_transactionState := nullish_opt tx (qt_transactionState t),
       qt_resultTabs := map (\<lambda>x. if rt_id x = r then x\<lparr>rt_isRunning := False\<rparr> else x) (qt_resultTabs t)\<rparr>"
proof -
  have "map (\<lambda>x. if rt_id x = r then x\<lparr>rt_isRunning := False\<rparr> else x)
      (map (\<lambda>x. if rt_id x = r then x\<lparr>rt_isRunning := True\<rparr> else x) rs)
    = map (\<lambda>x. if rt_id x = r then x\<lparr>rt_isRunning := False\<rparr> else x) rs" for rs :: "result_tab list"
    by simp
  then show ?thesis by (simp add: endExecution_def startExecution_def updateResult_def)
qed

subsection \<open>Saved-query propagation\<close>

definition sync_target ::
  "(string, string) js_map \<Rightarrow> string \<Rightarrow> string \<Rightarrow> string option \<Rightarrow> (string, string) js_map \<Rightarrow> string \<Rightarrow> bool" where
  "sync_target ids qid prev ex drafts t \<longleftrightarrow>
     Some t \<noteq> ex \<and> map_of ids t = Some qid \<and> nullish (map_of drafts t) [] = prev"

lemma syncTabs_char:
  assumes "prev \<noteq> sql"
  shows "syncTabs ids qid sql prev ex tabs (drafts, moved) = (drafts', moved') \<Longrightarrow>
    (\<forall>t. map_of drafts' t = (if t \<in> qt_id ` set tabs \<and> sync_target ids qid prev ex drafts t
           then Some sql else map_of drafts t)) \<and>
    (\<exists>new. moved' = moved @ new \<and> distinct new \<and>
       set new = {t \<in> qt_id ` set tabs. sync_target ids qid prev ex drafts t})"
proof (induction tabs arbitrary: drafts moved)
  case Nil
  then show ?case by simp
next
  case (Cons tab tabs)
  let ?i = "qt_id tab"
  show ?case
  proof (cases "sync_target ids qid prev ex drafts ?i")
    case False
    then have eq: "syncTabs ids qid sql prev ex tabs (drafts, moved) = (drafts', moved')"
      using Cons.prems by (auto simp: sync_target_def split: if_splits)
    from Cons.IH [OF eq] False show ?thesis by (auto simp: image_iff)
  next
    case True
    then have eq: "syncTabs ids qid sql prev ex tabs (AList.update ?i sql drafts, moved @ [?i]) = (drafts', moved')"
      using Cons.prems by (auto simp: sync_target_def split: if_splits)
    have st: "sync_target ids qid prev ex (AList.update ?i sql drafts) t \<longleftrightarrow>
        t \<noteq> ?i \<and> sync_target ids qid prev ex drafts t" for t
      using assms by (auto simp: sync_target_def)
    from Cons.IH [OF eq] obtain new where new: "moved' = moved @ [?i] @ new" "distinct new"
      "set new = {t \<in> qt_id ` set tabs. t \<noteq> ?i \<and> sync_target ids qid prev ex drafts t}"
      unfolding st by auto
    have "\<exists>new. moved' = moved @ new \<and> distinct new \<and>
        set new = {t \<in> qt_id ` set (tab # tabs). sync_target ids qid prev ex drafts t}"
      by (rule exI [of _ "?i # new"]) (use new True in auto)
    then show ?thesis using Cons.IH [OF eq] True unfolding st by auto
  qed
qed

subsection \<open>Properties\<close>

text \<open>Claim C2: however user actions and execution events are interleaved, starting from the
  empty workspace the reducer never throws, and the workspace stays well-formed: tab ids are
  unique, the panels partition the tabs, no panel is empty, every panel shows one of its own
  tabs, the active tab is shown by its panel, and the active result of a tab is one of its
  results.\<close>

theorem reducer_runs_well_formed:
  assumes "run_ok workspaceReducer action_ok emptyWorkspace as"
  shows "\<exists>s. run_actions workspaceReducer emptyWorkspace as = Some s \<and> ws_inv s"
  by (rule wsm.run_inv [OF ws_inv_emptyWorkspace assms])

definition example_add :: tab_added where
  "example_add = \<lparr>ta_title = None, ta_tableData = None, ta_routineOid = None, ta_split = True, ta_groupId = None\<rparr>"

theorem reducer_runs_well_formed_witness:
  "\<exists>s. run_actions workspaceReducer emptyWorkspace
      [TAB_ADDED ''a'' example_add, TAB_ADDED ''b'' example_add, RESULT_ADDED ''a'' ''r'',
       RESULT_ACTIVATED ''a'' ''r'', TAB_CYCLED Forward, TAB_CLOSED ''a''] = Some s \<and> ws_inv s"
  by (rule reducer_runs_well_formed) code_simp


text \<open>Pressing "next tab" repeatedly walks through every tab of every panel in the
  order they are displayed and comes back: after \<open>k\<close> steps from position \<open>i\<close> of \<open>n\<close> tabs the
  active tab is the one at position \<open>(i + k) mod n\<close>, and "previous tab" undoes "next tab".\<close>

theorem tab_cycling_visits_all:
  assumes "ws_inv s" "i < length (tab_order s)" "ws_activeTabId s = Some (tab_order s ! i)"
  shows "ws_activeTabId (((\<lambda>s. tabCycled s Forward) ^^ k) s)
           = Some (tab_order s ! ((i + k) mod length (tab_order s)))
       \<and> ws_activeTabId (tabCycled (tabCycled s Forward) Backward) = ws_activeTabId s"
proof
  show "ws_activeTabId (((\<lambda>s. tabCycled s Forward) ^^ k) s)
           = Some (tab_order s ! ((i + k) mod length (tab_order s)))"
    using tabCycled_forward_iterate [OF assms] by blast
  let ?n = "length (tab_order s)"
  let ?j = "nat ((int i + 1) mod int ?n)"
  note f = tabCycled_step [OF assms, of Forward]
  from tabCycled_step(1) [OF f(3), of ?j Backward] f
  have "ws_activeTabId (tabCycled (tabCycled s Forward) Backward)
      = Some (tab_order s ! nat ((int ?j - 1) mod int ?n))" by simp
  moreover have "nat ((int ?j - 1) mod int ?n) = i"
  proof -
    have "0 \<le> (int i + 1) mod int ?n" using assms(2) by (intro pos_mod_sign) linarith
    then have "(int ?j - 1) mod int ?n = (int i + 1 - 1) mod int ?n"
      by (simp add: mod_simps)
    then show ?thesis using assms(2) by simp
  qed
  ultimately show "ws_activeTabId (tabCycled (tabCycled s Forward) Backward) = ws_activeTabId s"
    using assms(3) by simp
qed

definition example_ws :: workspace_state where
  "example_ws = the (run_actions workspaceReducer emptyWorkspace
     [TAB_ADDED ''a'' example_add, TAB_ADDED ''b'' example_add,
      TAB_ADDED ''c'' (example_add\<lparr>ta_split := False\<rparr>)])"

lemma example_ws_inv: "ws_inv example_ws"
proof -
  have "run_ok workspaceReducer action_ok emptyWorkspace
     [TAB_ADDED ''a'' example_add, TAB_ADDED ''b'' example_add,
      TAB_ADDED ''c'' (example_add\<lparr>ta_split := False\<rparr>)]" by code_simp
  from wsm.run_inv [OF ws_inv_emptyWorkspace this] show ?thesis by (auto simp: example_ws_def)
qed

theorem tab_cycling_visits_all_witness:
  "ws_activeTabId (((\<lambda>s. tabCycled s Forward) ^^ 4) example_ws)
     = Some (tab_order example_ws ! ((2 + 4) mod length (tab_order example_ws)))
   \<and> ws_activeTabId (tabCycled (tabCycled example_ws Forward) Backward) = ws_activeTabId example_ws"
proof -
  have "2 < length (tab_order example_ws)" "ws_activeTabId example_ws = Some (tab_order example_ws ! 2)"
    by code_simp+
  from tab_cycling_visits_all [OF example_ws_inv this, of 4] show ?thesis .
qed

text \<open>Closing the active tab of a panel that holds other tabs makes the tab after it
  active, or the new last tab when it was the last one; the panel keeps showing the active tab,
  and every other panel and every other tab stays as it was.\<close>

theorem close_active_tab_selects_neighbour:
  assumes inv: "ws_inv s" and act: "ws_activeTabId s = Some a"
    and gs: "getTabGroups s = xs @ g # ys" and ids: "g_tabIds g = us @ a # vs" and more: "us @ vs \<noteq> []"
  shows "ws_activeTabId (tabClosed s a) = Some (if vs \<noteq> [] then hd vs else last us)
    \<and> getTabGroups (tabClosed s a) = xs @ g\<lparr>g_tabIds := us @ vs,
         g_activeTabId := ws_activeTabId (tabClosed s a)\<rparr> # ys
    \<and> ws_tabs (tabClosed s a) = filter (\<lambda>t. qt_id t \<noteq> a) (ws_tabs s)"
proof -
  have ne: "ws_tabs s \<noteq> []" using inv act by (auto simp: ws_inv_def tab_ids_def)
  note gi = getTabGroups_inv(2) [OF inv ne, unfolded gs]
  have "distinct (g_tabIds g)" using gi by (simp add: groups_inv_def)
  then have d: "distinct (us @ a # vs)" unfolding ids .
  have gact: "g_activeTabId g = Some a" using gi ids act by (simp add: groups_inv_def group_inv_def)
  have fi: "find_index (\<lambda>g. a \<in> set (g_tabIds g)) (getTabGroups s) = int (length xs)"
    unfolding gs by (rule find_index_append_first) (use groups_inv_unique [OF gi, of a] ids in auto)
  have f: "filter (\<lambda>i. i \<noteq> a) (us @ a # vs) = us @ vs"
    using d by (simp add: filter_neq_id)
  have idx: "index_of a (us @ a # vs) = int (length us)"
    unfolding index_of_def by (rule find_index_append_first) (use d in auto)
  have "js_at (us @ vs) (min (int (length us)) (int (length (us @ vs)) - 1))
      = Some (if vs \<noteq> [] then hd vs else last us)"
  proof (cases vs)
    case Nil
    then have "int (length us) - 1 = int (length us - 1)" using more by (cases us) auto
    then show ?thesis using Nil more by (simp add: last_conv_nth del: of_nat_diff)
  next
    case (Cons v ws)
    then show ?thesis by (simp add: js_at_def)
  qed
  with more gact act show ?thesis
    unfolding tabClosed_eq [OF gs fi] ids f idx
    by (simp add: getTabGroups_def [of "s\<lparr>ws_tabs := _, ws_activeTabId := _, ws_tabGroups := Some _\<rparr>"])
qed

theorem close_active_tab_selects_neighbour_witness:
  "ws_activeTabId (tabClosed example_ws ''c'') = Some ''b''
    \<and> getTabGroups (tabClosed example_ws ''c'') =
        [hd (getTabGroups example_ws)] @ (getTabGroups example_ws ! 1)\<lparr>g_tabIds := [''b''] @ [],
         g_activeTabId := ws_activeTabId (tabClosed example_ws ''c'')\<rparr> # []
    \<and> ws_tabs (tabClosed example_ws ''c'') = filter (\<lambda>t. qt_id t \<noteq> ''c'') (ws_tabs example_ws)"
proof -
  have h: "ws_activeTabId example_ws = Some ''c''"
    "getTabGroups example_ws = [hd (getTabGroups example_ws)] @ (getTabGroups example_ws ! 1) # []"
    "g_tabIds (getTabGroups example_ws ! 1) = [''b''] @ ''c'' # []"
    by code_simp+
  from close_active_tab_selects_neighbour [OF example_ws_inv h] show ?thesis by simp
qed

text \<open>Executions of different connections never disturb each other. In any
  interleaving of dispatched actions, the workspace of a connection is the one its own actions
  produce, and a connection that was closed (it has no workspace) is never resurrected by
  a late event.\<close>

theorem dispatch_isolated_per_connection:
  "workspace_of (run_ops dispatch_op ops st) c
     = workspace_of (run_ops dispatch_op (filter (\<lambda>q. snd q = c) ops) st) c
   \<and> (workspace_of st c = None \<longrightarrow> workspace_of (run_ops dispatch_op ops st) c = None)"
proof
  show "workspace_of (run_ops dispatch_op ops st) c
     = workspace_of (run_ops dispatch_op (filter (\<lambda>q. snd q = c) ops) st) c"
    by (rule wsd.projection)
  show "workspace_of st c = None \<longrightarrow> workspace_of (run_ops dispatch_op ops st) c = None"
    by (induction ops arbitrary: st) (auto simp: run_ops_def dispatch_op_closed)
qed

theorem dispatch_isolated_per_connection_witness:
  "workspace_of (run_ops dispatch_op
      [(TAB_CLOSED ''a'', ''x''), (TAB_CYCLED Forward, ''y'')] \<lparr>wst_states = [(''x'', example_ws)], wst_emits = []\<rparr>) ''x''
     = workspace_of (run_ops dispatch_op (filter (\<lambda>q. snd q = ''x'')
      [(TAB_CLOSED ''a'', ''x''), (TAB_CYCLED Forward, ''y'')]) \<lparr>wst_states = [(''x'', example_ws)], wst_emits = []\<rparr>) ''x''
   \<and> workspace_of (run_ops dispatch_op
      [(TAB_CLOSED ''a'', ''x''), (TAB_CYCLED Forward, ''y'')] \<lparr>wst_states = [(''x'', example_ws)], wst_emits = []\<rparr>) ''y'' = None"
proof
  let ?st = "\<lparr>wst_states = [(''x'', example_ws)], wst_emits = []\<rparr>"
  let ?ops = "[(TAB_CLOSED ''a'', ''x''), (TAB_CYCLED Forward, ''y'')]"
  show "workspace_of (run_ops dispatch_op ?ops ?st) ''x''
     = workspace_of (run_ops dispatch_op (filter (\<lambda>q. snd q = ''x'') ?ops) ?st) ''x''"
    using dispatch_isolated_per_connection [of ?ops ?st "''x''"] by blast
  have "workspace_of ?st ''y'' = None" by (simp add: workspace_of_def)
  then show "workspace_of (run_ops dispatch_op ?ops ?st) ''y'' = None"
    using dispatch_isolated_per_connection [of ?ops ?st "''y''"] by blast
qed

text \<open>An execution of one query tab does not touch the others. Starting an
  execution and ending it marks exactly the result it fills, and afterwards the tab is no
  longer running, its session and transaction state are the ones the execution reported, and
  every other tab, the panels and the active tab are unchanged.\<close>

theorem execution_round_trip:
  assumes "workspaceReducer s (EXECUTION_STARTED i r e sid) = Some s1"
    and "workspaceReducer s1 (EXECUTION_ENDED i r tx) = Some s2"
  shows "ws_tabs s2 = map (\<lambda>t. if qt_id t = i
      then t\<lparr>qt_runningExecutionId := None, qt_sessionId := nullish_opt sid (qt_sessionId t),
             qt_transactionState := nullish_opt tx (qt_transactionState t),
             qt_resultTabs := map (\<lambda>x. if rt_id x = r then x\<lparr>rt_isRunning := False\<rparr> else x) (qt_resultTabs t)\<rparr>
      else t) (ws_tabs s)
    \<and> (\<forall>t\<in>set (ws_tabs s1). qt_id t = i \<longrightarrow> qt_runningExecutionId t = Some e)
    \<and> ws_tabGroups s2 = ws_tabGroups s \<and> ws_activeTabId s2 = ws_activeTabId s"
proof -
  have s1: "s1 = updateTab s i (startExecution r e sid)" using assms(1) by simp
  have s2: "s2 = updateTab s1 i (endExecution r tx)" using assms(2) by simp
  have tabs: "ws_tabs s2 = map (\<lambda>t. if qt_id t = i then endExecution r tx (startExecution r e sid t) else t) (ws_tabs s)"
    unfolding s1 s2 by simp
  have running: "\<forall>t\<in>set (ws_tabs s1). qt_id t = i \<longrightarrow> qt_runningExecutionId t = Some e"
  proof (intro ballI impI)
    fix t assume t: "t \<in> set (ws_tabs s1)" and i: "qt_id t = i"
    have "t \<in> (\<lambda>u. if qt_id u = i then startExecution r e sid u else u) ` set (ws_tabs s)"
      using t unfolding s1 by (simp add: updateTab_def)
    then obtain u where u: "t = (if qt_id u = i then startExecution r e sid u else u)" by blast
    show "qt_runningExecutionId t = Some e"
    proof (cases "qt_id u = i")
      case True
      then show ?thesis using u by (simp add: startExecution_def updateResult_def)
    next
      case False
      then show ?thesis using u i by simp
    qed
  qed
  have frame: "ws_tabGroups s2 = ws_tabGroups s" "ws_activeTabId s2 = ws_activeTabId s"
    unfolding s1 s2 by simp_all
  show ?thesis
    unfolding tabs end_startExecution using running frame by (intro conjI) (rule refl | assumption)+
qed

theorem execution_round_trip_witness:
  "ws_tabs (the (workspaceReducer (the (workspaceReducer example_ws (EXECUTION_STARTED ''a'' ''r'' ''e'' (Some ''s''))))
      (EXECUTION_ENDED ''a'' ''r'' (Some InTransaction)))) = map (\<lambda>t. if qt_id t = ''a''
      then t\<lparr>qt_runningExecutionId := None, qt_sessionId := nullish_opt (Some ''s'') (qt_sessionId t),
             qt_transactionState := nullish_opt (Some InTransaction) (qt_transactionState t),
             qt_resultTabs := map (\<lambda>x. if rt_id x = ''r'' then x\<lparr>rt_isRunning := False\<rparr> else x) (qt_resultTabs t)\<rparr>
      else t) (ws_tabs example_ws)"
proof -
  have "workspaceReducer example_ws (EXECUTION_STARTED ''a'' ''r'' ''e'' (Some ''s''))
      = Some (the (workspaceReducer example_ws (EXECUTION_STARTED ''a'' ''r'' ''e'' (Some ''s''))))"
    "workspaceReducer s (EXECUTION_ENDED ''a'' ''r'' (Some InTransaction))
      = Some (the (workspaceReducer s (EXECUTION_ENDED ''a'' ''r'' (Some InTransaction))))" for s
    by simp_all
  from execution_round_trip [OF this] show ?thesis by (rule conjunct1)
qed

text \<open>Saving a query moves on exactly the tabs, in every open connection, that are
  bound to it and still show the text it had before the save; the tab that saved and every tab
  with work of its own keep their draft, and the ids reported are the tabs that changed,
  each once.\<close>

theorem sync_saved_query_exact:
  assumes "syncSavedQueryTabs states ids drafts qid sql (Some prev) ex = (drafts', moved)"
  shows "(\<forall>t. map_of drafts' t =
      (if t \<in> set moved then Some sql else map_of drafts t))
    \<and> distinct moved
    \<and> set moved = {t. prev \<noteq> sql \<and> (\<exists>s\<in>snd ` set states. t \<in> set (tab_ids s)) \<and>
        sync_target ids qid prev ex drafts t}"
proof (cases "prev = sql")
  case True
  then show ?thesis using assms by (simp add: syncSavedQueryTabs_def)
next
  case False
  let ?tabs = "concat (map (ws_tabs \<circ> snd) states)"
  have "syncTabs ids qid sql prev ex ?tabs (drafts, []) = (drafts', moved)"
    using assms False by (simp add: syncSavedQueryTabs_def)
  from syncTabs_char [OF False this]
  have d: "\<forall>t. map_of drafts' t = (if t \<in> qt_id ` set ?tabs \<and> sync_target ids qid prev ex drafts t
           then Some sql else map_of drafts t)"
    and m: "distinct moved" "set moved = {t \<in> qt_id ` set ?tabs. sync_target ids qid prev ex drafts t}"
    by auto
  have "qt_id ` set ?tabs = {t. \<exists>s\<in>snd ` set states. t \<in> set (tab_ids s)}"
    by (auto simp: tab_ids_def)
  with d m False show ?thesis by auto
qed

theorem sync_saved_query_exact_witness:
  "(\<forall>t. map_of [(''a'', ''new''), (''b'', ''mine'')] t =
      (if t \<in> set [''a''] then Some ''new'' else map_of [(''a'', ''old''), (''b'', ''mine'')] t))
    \<and> distinct [''a'']
    \<and> set [''a''] = {t. ''old'' \<noteq> ''new'' \<and> (\<exists>s\<in>snd ` set [(''x'', example_ws)]. t \<in> set (tab_ids s)) \<and>
        sync_target [(''a'', ''q''), (''b'', ''q'')] ''q'' ''old'' (Some ''c'') [(''a'', ''old''), (''b'', ''mine'')] t}"
proof -
  have "syncSavedQueryTabs [(''x'', example_ws)] [(''a'', ''q''), (''b'', ''q'')]
      [(''a'', ''old''), (''b'', ''mine'')] ''q'' ''new'' (Some ''old'') (Some ''c'')
      = ([(''a'', ''new''), (''b'', ''mine'')], [''a''])"
    by code_simp
  from sync_saved_query_exact [OF this] show ?thesis .
qed

end
