(* ===== verification/Db_Types.thy ===== *)
theory Db_Types
  imports Workspace_Store
begin

text \<open>
  The messages that cross the boundary to the backend, \<open>src/generated/ipc-types.ts\<close>: database
  values, column and table metadata, application errors, the events of a running query and
  the row changes of an edited result. Object identifiers, attribute numbers and counts are
  the integers that the backend sends; a JavaScript object that is used as a dictionary is
  a map in insertion order.
\<close>

record app_error =
  ae_code :: string
  ae_message :: string
  ae_retryable :: bool
  ae_sqlState :: "string option"
  ae_position :: "int option"
  ae_detail :: "string option"
  ae_hint :: "string option"

datatype tls_mode = VerifyFull | VerifyCa | Insecure

datatype environment = Local | Dev | Stage | Prod

record connection_profile =
  cp_id :: string
  cp_name :: string
  cp_environment :: environment
  cp_color :: "string option"
  cp_host :: string
  cp_port :: int
  cp_database :: string
  cp_username :: string
  cp_tlsMode :: tls_mode
  cp_readOnly :: bool
  cp_queryTimeoutMs :: int
  cp_maxRows :: int
  cp_hasStoredCredential :: bool

datatype temporal_type = DateT | TimeT | TimetzT | TimestampT | TimestamptzT | IntervalT

datatype json_type = JsonT | JsonbT

record array_dimension =
  ad_lowerBound :: int
  ad_length :: int

datatype db_value =
    VNull
  | VBoolean bool
  | VInteger string
  | VDecimal string
  | VFloat string
  | VText string
  | VUuid string
  | VTemporal temporal_type string
  | VJson string json_type
  | VBinary (bin_encoding: string) (bin_value: "string option") (bin_byteLength: nat)
      (bin_truncated: bool) (bin_handle: "string option")
  | VArray (arr_dimensions: "array_dimension list") (arr_values: "db_value list") (arr_elementTypeOid: nat)
  | VEnum string string
  | VNetwork string string
  | VRange string string
  | VComposite string string
  | VUnknown string nat string

datatype column_category =
    BooleanC | IntegerC | DecimalC | FloatC | TextC | BinaryC | UuidC | TemporalC | JsonC
  | ArrayC | EnumC | NetworkC | RangeC | CompositeC | UnknownC

record column_source =
  cs_relationOid :: nat
  cs_attributeNumber :: int

record column_meta =
  cm_index :: int
  cm_name :: string
  cm_pgTypeOid :: nat
  cm_pgTypeName :: string
  cm_category :: column_category
  cm_source :: "column_source option"
  cm_nullable :: "bool option"
  cm_editable :: bool

record table_column_metadata =
  tc_attributeNumber :: int
  tc_name :: string
  tc_pgTypeOid :: nat
  tc_pgTypeName :: string
  tc_nullable :: bool
  tc_defaultExpr :: "string option"
  tc_comment :: "string option"
  tc_isGenerated :: bool
  tc_isPrimaryKey :: bool

record table_metadata =
  tm_relationOid :: nat
  tm_schema :: string
  tm_name :: string
  tm_kind :: string
  tm_columns :: "table_column_metadata list"
  tm_primaryKey :: "int list"
  tm_uniqueKeys :: "int list list"
  tm_rowLevelSecurity :: bool

datatype query_stream_event =
    EvStarted (ev_executionId: string) (ev_backendPid: nat) (ev_startedAt: string)
  | EvColumns (ev_executionId: string) (ev_columns: "column_meta list")
  | EvRows (ev_executionId: string) (ev_sequence: int) (ev_rows: "db_value list list")
  | EvNotice (ev_executionId: string) (ev_severity: string) (ev_text: string)
  | EvCommand (ev_executionId: string) (ev_commandTag: string) (ev_affectedRows: "int option")
  | EvCompleted (ev_executionId: string) (ev_rowCount: int) (ev_truncated: bool) (ev_durationMs: int)
      (ev_transactionState: transaction_state)
  | EvFailed (ev_executionId: string) (ev_error: app_error) (ev_durationMs: int)
      (ev_transactionState: transaction_state)
  | EvCancelled (ev_executionId: string) (ev_receivedRowCount: int) (ev_durationMs: int)
      (ev_transactionState: transaction_state)

record execution_accepted =
  xa_executionId :: string
  xa_sessionId :: string

record result_page =
  pg_rows :: "db_value list list"
  pg_nextOffset :: int
  pg_hasMore :: bool

datatype insert_cell_draft = DraftValue db_value | DraftNull | DraftDefault

record primary_key_value =
  pv_attributeNumber :: int
  pv_columnName :: string
  pv_value :: "db_value option"

record row_identity =
  ri_relationOid :: nat
  ri_primaryKey :: "primary_key_value list"
  ri_xmin :: "string option"

datatype row_change =
    UpdateChange (rc_rowId: string) (rc_identity: row_identity)
      (rc_originals: "(string, db_value) js_map") (rc_changes: "(string, db_value) js_map")
  | InsertChange (rc_rowId: string) (rc_values: "(string, insert_cell_draft) js_map")
  | DeleteChange (rc_rowId: string) (rc_identity: row_identity)
      (rc_originals: "(string, db_value) js_map")

record updated_row =
  ur_rowId :: string
  ur_operation :: string
  ur_values :: "(string, db_value) js_map"
  ur_xmin :: "string option"

record row_conflict =
  rcf_rowId :: string
  rcf_reason :: string
  rcf_current :: "(string, db_value) js_map option"

datatype changes_commit_event =
    CeStarted int
  | CeProgress int
  | CeCompleted "updated_row list"
  | CeConflict "row_conflict list"
  | CeFailed app_error

end
