(* ===== verification/Edit_Store.thy ===== *)
theory Edit_Store
  imports Db_Types Contracts
begin

text \<open>
  The edit buffer of a result, \<open>src/entities/result/editStore.ts\<close>: per result tab the cell
  drafts by row index and column name, the rows marked for deletion, the rows to insert, the
  number of pending edits the user interface shows, and the lock that a running commit holds.
  \<open>eds_emits\<close> is the trace of tabs whose listeners were called. \<open>addInsert\<close> on a locked tab
  throws, which is the value \<open>None\<close>; \<open>crypto.randomUUID()\<close> is an argument.
\<close>

subsection \<open>State\<close>

text \<open>A draft of a cell, with \<open>None\<close> for the SQL NULL.\<close>

type_synonym cell_draft = "string option"

datatype insert_cell = CellValue string | CellNull | CellDefault

record insert_draft =
  id_draftId :: string
  id_cells :: "(string, insert_cell) js_map"

record edit_snapshot =
  es_updates :: "(int, (string, cell_draft) js_map) js_map"
  es_deletes :: "int js_set"
  es_inserts :: "insert_draft list"
  es_pendingCount :: nat
  es_locked :: bool

record edit_store =
  eds_states :: "(string, edit_snapshot) js_map"
  eds_emits :: "string list"

definition EMPTY_EDITS :: edit_snapshot where
  "EMPTY_EDITS = \<lparr>es_updates = [], es_deletes = [], es_inserts = [], es_pendingCount = 0, es_locked = False\<rparr>"

definition emptyEditStore :: edit_store where
  "emptyEditStore = \<lparr>eds_states = [], eds_emits = []\<rparr>"

subsection \<open>Operations\<close>

definition getEdits :: "edit_store \<Rightarrow> string \<Rightarrow> edit_snapshot" where
  "getEdits st tab = nullish (map_of (eds_states st) tab) EMPTY_EDITS"

definition pendingOf :: "edit_snapshot \<Rightarrow> nat" where
  "pendingOf s = foldl (\<lambda>a m. a + length m) 0 (map snd (es_updates s))
     + length (es_deletes s) + length (es_inserts s)"

definition commitEdits :: "edit_store \<Rightarrow> string \<Rightarrow> edit_snapshot \<Rightarrow> edit_store" where
  "commitEdits st tab s = st\<lparr>
     eds_states := AList.update tab (s\<lparr>es_pendingCount := pendingOf s\<rparr>) (eds_states st),
     eds_emits := eds_emits st @ [tab]\<rparr>"

definition setCellIn :: "int \<Rightarrow> string \<Rightarrow> cell_draft option \<Rightarrow> edit_snapshot \<Rightarrow> edit_snapshot" where
  "setCellIn i column draft s =
     (let row0 = nullish (map_of (es_updates s) i) [];
          row = (case draft of None \<Rightarrow> AList.delete column row0 | Some d \<Rightarrow> AList.update column d row0)
      in s\<lparr>es_updates := (if row = [] then AList.delete i (es_updates s)
                          else AList.update i row (es_updates s))\<rparr>)"

definition setCell ::
  "edit_store \<Rightarrow> string \<Rightarrow> int \<Rightarrow> string \<Rightarrow> cell_draft option \<Rightarrow> edit_store" where
  "setCell st tab i column draft =
     (if es_locked (getEdits st tab) then st
      else commitEdits st tab (setCellIn i column draft (getEdits st tab)))"

definition toggleDelete :: "edit_store \<Rightarrow> string \<Rightarrow> int \<Rightarrow> edit_store" where
  "toggleDelete st tab i =
     (let s = getEdits st tab in
      if es_locked s then st
      else commitEdits st tab (s\<lparr>es_deletes :=
        (if i \<in> set (es_deletes s) then js_set_delete i (es_deletes s) else js_set_add i (es_deletes s))\<rparr>))"

definition addInsert ::
  "edit_store \<Rightarrow> string \<Rightarrow> string \<Rightarrow> (string, insert_cell) js_map \<Rightarrow> edit_store option" where
  "addInsert st tab draftId cells =
     (let s = getEdits st tab in
      if es_locked s then None
      else Some (commitEdits st tab
        (s\<lparr>es_inserts := es_inserts s @ [\<lparr>id_draftId = draftId, id_cells = cells\<rparr>]\<rparr>)))"

definition setInsertCell ::
  "edit_store \<Rightarrow> string \<Rightarrow> string \<Rightarrow> string \<Rightarrow> insert_cell \<Rightarrow> edit_store" where
  "setInsertCell st tab draftId column cell =
     (let s = getEdits st tab in
      if es_locked s then st
      else commitEdits st tab (s\<lparr>es_inserts := map (\<lambda>d. if id_draftId d = draftId
        then d\<lparr>id_cells := AList.update column cell (id_cells d)\<rparr> else d) (es_inserts s)\<rparr>))"

definition removeInsert :: "edit_store \<Rightarrow> string \<Rightarrow> string \<Rightarrow> edit_store" where
  "removeInsert st tab draftId =
     (let s = getEdits st tab in
      if es_locked s then st
      else commitEdits st tab
        (s\<lparr>es_inserts := filter (\<lambda>d. id_draftId d \<noteq> draftId) (es_inserts s)\<rparr>))"

definition clearEdits :: "edit_store \<Rightarrow> string \<Rightarrow> edit_store" where
  "clearEdits st tab = st\<lparr>eds_states := AList.delete tab (eds_states st),
     eds_emits := eds_emits st @ [tab]\<rparr>"

definition setLocked :: "edit_store \<Rightarrow> string \<Rightarrow> bool \<Rightarrow> edit_store" where
  "setLocked st tab locked = commitEdits st tab ((getEdits st tab)\<lparr>es_locked := locked\<rparr>)"

text \<open>The new index of a row after the rows of \<open>removed\<close> are gone.\<close>

definition rebase :: "int list \<Rightarrow> int \<Rightarrow> int" where
  "rebase removed i = i - int (length (filter (\<lambda>r. r < i) removed))"

definition keptUpdates ::
  "int list \<Rightarrow> int list \<Rightarrow> edit_snapshot \<Rightarrow> (int \<times> (string, cell_draft) js_map) list" where
  "keptUpdates resolved removed s = map (\<lambda>(i, cells). (rebase removed i, cells))
     (filter (\<lambda>(i, cells). i \<notin> set resolved) (es_updates s))"

definition keptDeletes :: "int list \<Rightarrow> int list \<Rightarrow> edit_snapshot \<Rightarrow> int list" where
  "keptDeletes resolved removed s = map (rebase removed) (filter (\<lambda>i. i \<notin> set resolved) (es_deletes s))"

definition resolveRows :: "edit_store \<Rightarrow> string \<Rightarrow> int list \<Rightarrow> int list \<Rightarrow> edit_store" where
  "resolveRows st tab resolved removed =
     (let s = getEdits st tab in
      commitEdits st tab (s\<lparr>es_updates := js_map_of (keptUpdates resolved removed s),
                            es_deletes := js_set_of (keptDeletes resolved removed s)\<rparr>))"

text \<open>All operations on one tab, as one step.\<close>

datatype edit_op =
    SetCell int string "cell_draft option"
  | ToggleDelete int
  | AddInsert string "(string, insert_cell) js_map"
  | SetInsertCell string string insert_cell
  | RemoveInsert string
  | ClearEdits
  | SetLocked bool
  | ResolveRows "int list" "int list"

fun edit_step :: "edit_store \<Rightarrow> edit_op \<times> string \<Rightarrow> edit_store option" where
  "edit_step st (SetCell i c d, tab) = Some (setCell st tab i c d)"
| "edit_step st (ToggleDelete i, tab) = Some (toggleDelete st tab i)"
| "edit_step st (AddInsert u cells, tab) = addInsert st tab u cells"
| "edit_step st (SetInsertCell u c x, tab) = Some (setInsertCell st tab u c x)"
| "edit_step st (RemoveInsert u, tab) = Some (removeInsert st tab u)"
| "edit_step st (ClearEdits, tab) = Some (clearEdits st tab)"
| "edit_step st (SetLocked b, tab) = Some (setLocked st tab b)"
| "edit_step st (ResolveRows resolved removed, tab) = Some (resolveRows st tab resolved removed)"

subsection \<open>Well-formed buffers\<close>

text \<open>
  The contents of a buffer, independent of the order of insertion: the draft of a cell, and
  the number of edits the buffer holds.
\<close>

definition draft_at :: "edit_snapshot \<Rightarrow> int \<Rightarrow> string \<Rightarrow> cell_draft option" where
  "draft_at s i c = Option.bind (map_of (es_updates s) i) (\<lambda>m. map_of m c)"

definition edited_cells :: "edit_snapshot \<Rightarrow> (int \<times> string) set" where
  "edited_cells s = (SIGMA i : fst ` set (es_updates s). {c. draft_at s i c \<noteq> None})"

definition buffer_ok :: "edit_snapshot \<Rightarrow> bool" where
  "buffer_ok s \<longleftrightarrow> distinct (map fst (es_updates s))
     \<and> (\<forall>m \<in> snd ` set (es_updates s). m \<noteq> [] \<and> distinct (map fst m))
     \<and> distinct (es_deletes s) \<and> distinct (map id_draftId (es_inserts s))"

definition edits_inv :: "edit_store \<Rightarrow> bool" where
  "edits_inv st \<longleftrightarrow> (\<forall>s \<in> snd ` set (eds_states st). buffer_ok s \<and> es_pendingCount s = pendingOf s)"

text \<open>
  What the callers respect: inserts go to an unlocked buffer under a fresh id, and the rows
  a conflict resolution removes are among the rows it resolves, without repetition.
\<close>

fun edit_ok :: "edit_store \<Rightarrow> edit_op \<times> string \<Rightarrow> bool" where
  "edit_ok st (AddInsert u cells, tab) \<longleftrightarrow>
     \<not> es_locked (getEdits st tab) \<and> u \<notin> id_draftId ` set (es_inserts (getEdits st tab))"
| "edit_ok st (ResolveRows resolved removed, tab) \<longleftrightarrow> distinct removed \<and> set removed \<subseteq> set resolved"
| "edit_ok st (_, tab) \<longleftrightarrow> True"

subsection \<open>Rebasing of row indices\<close>

lemma length_filter_less_eq_card:
  "distinct removed \<Longrightarrow> length (filter (\<lambda>r. r < i) removed) = card {r \<in> set removed. r < (i::int)}"
  by (metis distinct_filter distinct_card set_filter)

lemma rebase_less:
  assumes "distinct removed" "i < j" "i \<notin> set removed"
  shows "rebase removed i < rebase removed j"
proof -
  let ?A = "{r \<in> set removed. r < i}" and ?B = "{r \<in> set removed. r < j}"
  have "?B = ?A \<union> {r \<in> set removed. i < r \<and> r < j}" using assms(2,3) by (auto simp: order.strict_iff_order)
  then have "card ?B \<le> card ?A + card {r \<in> set removed. i < r \<and> r < j}"
    by (simp add: card_Un_le)
  moreover have "card {r \<in> set removed. i < r \<and> r < j} \<le> card {i<..<j}"
    by (rule card_mono) auto
  ultimately have "int (card ?B) - int (card ?A) < j - i" using assms(2) by auto
  then show ?thesis by (simp add: rebase_def length_filter_less_eq_card [OF assms(1)])
qed

lemma rebase_inj:
  assumes "distinct removed" shows "inj_on (rebase removed) (- set removed)"
proof (rule linorder_inj_onI')
  fix i j :: int assume "i \<in> - set removed" "i < j"
  then have "rebase removed i < rebase removed j" using rebase_less [OF assms] by simp
  then show "rebase removed i \<noteq> rebase removed j" by simp
qed

subsection \<open>Preservation\<close>

lemma foldl_add_length: "foldl (\<lambda>a m. a + length m) n ms = n + sum_list (map length ms)"
  by (induction ms arbitrary: n) auto

lemma pendingOf_eq:
  "pendingOf s = sum_list (map (length \<circ> snd) (es_updates s)) + length (es_deletes s) + length (es_inserts s)"
  by (simp add: pendingOf_def foldl_add_length)

lemma pendingOf_locked [simp]: "pendingOf (s\<lparr>es_locked := b\<rparr>) = pendingOf s"
  by (simp add: pendingOf_def)

lemma pendingOf_count [simp]: "pendingOf (s\<lparr>es_pendingCount := n\<rparr>) = pendingOf s"
  by (simp add: pendingOf_def)

lemma buffer_ok_count [simp]: "buffer_ok (s\<lparr>es_pendingCount := n\<rparr>) = buffer_ok s"
  by (simp add: buffer_ok_def)

lemma buffer_ok_EMPTY [simp]: "buffer_ok EMPTY_EDITS"
  by (simp add: EMPTY_EDITS_def buffer_ok_def)

lemma buffer_ok_getEdits: "edits_inv st \<Longrightarrow> buffer_ok (getEdits st tab)"
proof (cases "map_of (eds_states st) tab")
  case (Some s)
  moreover assume "edits_inv st"
  ultimately show ?thesis
    using map_of_SomeD [OF Some] unfolding getEdits_def edits_inv_def by force
qed (simp add: getEdits_def)

lemma edits_inv_commit:
  assumes "edits_inv st" "buffer_ok s" shows "edits_inv (commitEdits st tab s)"
  using assms snd_update_subset [of tab "s\<lparr>es_pendingCount := pendingOf s\<rparr>" "eds_states st"]
  unfolding edits_inv_def commitEdits_def by fastforce

lemma buffer_ok_updates:
  "buffer_ok s \<Longrightarrow> distinct (map fst us) \<Longrightarrow> snd ` set us \<subseteq> insert m (snd ` set (es_updates s))
   \<Longrightarrow> m \<noteq> [] \<Longrightarrow> distinct (map fst m) \<Longrightarrow> buffer_ok (s\<lparr>es_updates := us\<rparr>)"
  unfolding buffer_ok_def by (simp del: ball_simps) blast

lemma buffer_ok_updates_sub:
  "buffer_ok s \<Longrightarrow> distinct (map fst us) \<Longrightarrow> snd ` set us \<subseteq> snd ` set (es_updates s)
   \<Longrightarrow> buffer_ok (s\<lparr>es_updates := us\<rparr>)"
  unfolding buffer_ok_def by (simp del: ball_simps) blast

lemma buffer_ok_setCellIn:
  assumes "buffer_ok s" shows "buffer_ok (setCellIn i c d s)"
proof -
  let ?old = "nullish (map_of (es_updates s) i) []"
  let ?row = "case d of None \<Rightarrow> AList.delete c ?old | Some d \<Rightarrow> AList.update c d ?old"
  have keys: "distinct (map fst (es_updates s))" using assms by (simp add: buffer_ok_def)
  have "distinct (map fst ?old)"
  proof (cases "map_of (es_updates s) i")
    case (Some m)
    then show ?thesis using assms map_of_SomeD [OF Some] unfolding buffer_ok_def by force
  qed simp
  then have row: "distinct (map fst ?row)"
    by (simp add: distinct_delete distinct_update split: option.splits)
  show ?thesis
  proof (cases "?row = []")
    case True
    then show ?thesis
      using buffer_ok_updates_sub [OF assms distinct_delete [OF keys] snd_delete_subset, of i]
      by (simp add: setCellIn_def Let_def)
  next
    case False
    then show ?thesis
      using buffer_ok_updates [OF assms distinct_update [OF keys] snd_update_subset False row, of i]
      by (simp add: setCellIn_def Let_def)
  qed
qed

lemma buffer_ok_resolve:
  assumes ok: "buffer_ok s" and d: "distinct removed" and sub: "set removed \<subseteq> set resolved"
  shows "js_map_of (keptUpdates resolved removed s) = keptUpdates resolved removed s"
    and "js_set_of (keptDeletes resolved removed s) = keptDeletes resolved removed s"
    and "buffer_ok (s\<lparr>es_updates := keptUpdates resolved removed s,
                       es_deletes := keptDeletes resolved removed s\<rparr>)"
proof -
  let ?us = "keptUpdates resolved removed s" and ?ds = "keptDeletes resolved removed s"
  let ?fs = "filter (\<lambda>(i, cells). i \<notin> set resolved) (es_updates s)"
  have inj: "inj_on (rebase removed) (- set resolved)"
    using rebase_inj [OF d] sub by (blast intro: inj_on_subset)
  have fst_us: "map fst ?us = map (rebase removed) (map fst ?fs)"
    by (simp add: keptUpdates_def case_prod_beta)
  have "distinct (map fst ?fs)" using ok unfolding buffer_ok_def by (simp add: distinct_map_filter)
  then have us: "distinct (map fst ?us)"
    unfolding fst_us by (rule distinct_map [THEN iffD2, OF conjI]) (auto intro: inj_on_subset [OF inj])
  then show "js_map_of ?us = ?us" by (rule js_map_of_distinct)
  have "distinct (filter (\<lambda>i. i \<notin> set resolved) (es_deletes s))"
    using ok unfolding buffer_ok_def by simp
  then have ds: "distinct ?ds"
    unfolding keptDeletes_def
    by (rule distinct_map [THEN iffD2, OF conjI]) (auto intro: inj_on_subset [OF inj])
  then show "js_set_of ?ds = ?ds" by (rule js_set_of_distinct)
  have "snd ` set ?us \<subseteq> snd ` set (es_updates s)" unfolding keptUpdates_def by force
  then show "buffer_ok (s\<lparr>es_updates := ?us, es_deletes := ?ds\<rparr>)"
    using ok us ds unfolding buffer_ok_def by (auto simp del: ball_simps)
qed

lemma distinct_removeInsert:
  "distinct (map f xs) \<Longrightarrow> distinct (map f (filter P xs))"
  by (simp add: distinct_map_filter)

lemma map_setInsertCell:
  "map id_draftId (map (\<lambda>d. if id_draftId d = u then d\<lparr>id_cells := f d\<rparr> else d) xs) = map id_draftId xs"
  by simp

lemma buffer_ok_unlocked [simp]: "buffer_ok (s\<lparr>es_locked := b\<rparr>) = buffer_ok s"
  by (simp add: buffer_ok_def)

lemma edits_inv_ops:
  assumes inv: "edits_inv st"
  shows "edits_inv (setCell st tab i c d)"
    and "edits_inv (toggleDelete st tab i)"
    and "edits_inv (setInsertCell st tab u c x)"
    and "edits_inv (removeInsert st tab u)"
    and "edits_inv (clearEdits st tab)"
    and "edits_inv (setLocked st tab b)"
proof -
  note ok = buffer_ok_getEdits [OF inv, of tab]
  show "edits_inv (setCell st tab i c d)"
    using inv ok by (simp add: setCell_def edits_inv_commit buffer_ok_setCellIn)
  have "buffer_ok ((getEdits st tab)\<lparr>es_deletes := D\<rparr>)" if "distinct D" for D
    using ok that by (simp add: buffer_ok_def)
  then show "edits_inv (toggleDelete st tab i)"
    using inv ok unfolding toggleDelete_def Let_def
    by (auto simp: buffer_ok_def intro!: edits_inv_commit)
  have "buffer_ok ((getEdits st tab)\<lparr>es_inserts := I\<rparr>)" if "distinct (map id_draftId I)" for I
    using ok that by (simp add: buffer_ok_def)
  note ins = edits_inv_commit [OF inv this]
  have dist: "distinct (map id_draftId (es_inserts (getEdits st tab)))" using ok by (simp add: buffer_ok_def)
  show "edits_inv (setInsertCell st tab u c x)"
    using inv ins dist unfolding setInsertCell_def Let_def by (simp del: map_map add: map_setInsertCell)
  show "edits_inv (removeInsert st tab u)"
    using inv ins dist unfolding removeInsert_def Let_def by (simp add: distinct_removeInsert)
  show "edits_inv (clearEdits st tab)"
    using inv snd_delete_subset [of tab "eds_states st"] unfolding clearEdits_def edits_inv_def
    by (simp del: ball_simps) blast
  show "edits_inv (setLocked st tab b)"
    using inv ok by (simp add: setLocked_def edits_inv_commit)
qed

lemma edits_inv_addInsert:
  assumes inv: "edits_inv st" and ok: "edit_ok st (AddInsert u cells, tab)"
  shows "\<exists>st'. addInsert st tab u cells = Some st' \<and> edits_inv st'"
  using buffer_ok_getEdits [OF inv, of tab] inv ok
  by (auto simp: addInsert_def Let_def buffer_ok_def intro!: edits_inv_commit)

lemma edits_inv_resolveRows:
  assumes inv: "edits_inv st" and ok: "edit_ok st (ResolveRows resolved removed, tab)"
  shows "edits_inv (resolveRows st tab resolved removed)"
  using buffer_ok_resolve [OF buffer_ok_getEdits [OF inv, of tab], of removed resolved] inv ok
  by (simp add: resolveRows_def Let_def edits_inv_commit)

lemma edit_step_inv:
  assumes "edits_inv st" "edit_ok st p"
  shows "\<exists>st'. edit_step st p = Some st' \<and> edits_inv st'"
proof -
  obtain q tab where p: "p = (q, tab)" by (cases p)
  show ?thesis
    using assms unfolding p
    by (cases q) (simp_all add: edits_inv_ops edits_inv_addInsert edits_inv_resolveRows)
qed

interpretation esm: guarded_machine edit_step edit_ok edits_inv
  by unfold_locales (rule edit_step_inv)

subsection \<open>Contents of the buffer\<close>

lemma getEdits_commit [simp]:
  "getEdits (commitEdits st tab s) tab' =
     (if tab' = tab then s\<lparr>es_pendingCount := pendingOf s\<rparr> else getEdits st tab')"
  by (simp add: getEdits_def commitEdits_def)

lemma getEdits_clear [simp]:
  "getEdits (clearEdits st tab) tab' = (if tab' = tab then EMPTY_EDITS else getEdits st tab')"
  by (simp add: getEdits_def clearEdits_def)

lemma draft_at_count [simp]: "draft_at (s\<lparr>es_pendingCount := n\<rparr>) = draft_at s"
  by (simp add: draft_at_def fun_eq_iff)

lemma draft_at_setCellIn:
  "draft_at (setCellIn i c d s) i' c' = (if i' = i \<and> c' = c then d else draft_at s i' c')"
proof -
  let ?old = "nullish (map_of (es_updates s) i) []"
  let ?row = "case d of None \<Rightarrow> AList.delete c ?old | Some d \<Rightarrow> AList.update c d ?old"
  have old: "map_of ?old c'' = draft_at s i c''" for c''
    by (cases "map_of (es_updates s) i") (simp_all add: draft_at_def)
  have row: "map_of ?row c'' = (if c'' = c then d else draft_at s i c'')" for c''
    using old by (simp split: option.splits)
  show ?thesis
  proof (cases "i' = i")
    case True
    show ?thesis
    proof (cases "?row = []")
      case empty: True
      then have "draft_at (setCellIn i c d s) i c' = None" by (simp add: setCellIn_def Let_def draft_at_def)
      moreover have "map_of ?row c' = None" unfolding empty by simp
      ultimately show ?thesis using row [of c'] True by (auto split: if_splits)
    next
      case False
      then have "draft_at (setCellIn i c d s) i c' = map_of ?row c'"
        by (simp add: setCellIn_def Let_def draft_at_def)
      then show ?thesis using row [of c'] True by simp
    qed
  qed (simp add: setCellIn_def Let_def draft_at_def)
qed

lemma sum_list_card_SIGMA:
  "distinct (map fst us) \<Longrightarrow> (\<forall>m\<in>snd ` set us. distinct (map fst m)) \<Longrightarrow>
   sum_list (map (length \<circ> snd) us) = card (SIGMA i : fst ` set us. fst ` set (the (map_of us i)))"
proof -
  assume d: "distinct (map fst us)" and m: "\<forall>m\<in>snd ` set us. distinct (map fst m)"
  have len: "length m = card (fst ` set (the (map_of us i)))" if "(i, m) \<in> set us" for i m
  proof -
    have "distinct (map fst m)" using m that by force
    then have "length m = card (set (map fst m))" by (metis distinct_card length_map)
    then show ?thesis using map_of_is_SomeI [OF d that] by simp
  qed
  have "sum_list (map (length \<circ> snd) us) = (\<Sum>p\<in>set us. length (snd p))"
    using d by (simp add: distinct_map sum_list_distinct_conv_sum_set)
  also have "\<dots> = (\<Sum>p\<in>set us. card (fst ` set (the (map_of us (fst p)))))"
    by (rule sum.cong) (use len in force)+
  also have "\<dots> = (\<Sum>i\<in>fst ` set us. card (fst ` set (the (map_of us i))))"
    using d by (simp add: sum.reindex distinct_map)
  also have "\<dots> = card (SIGMA i : fst ` set us. fst ` set (the (map_of us i)))" by simp
  finally show ?thesis .
qed

lemma pendingOf_card:
  assumes "buffer_ok s"
  shows "pendingOf s = card (edited_cells s) + card (set (es_deletes s)) + card (id_draftId ` set (es_inserts s))"
proof -
  have "edited_cells s = (SIGMA i : fst ` set (es_updates s). fst ` set (the (map_of (es_updates s) i)))"
  proof -
    have "{c. draft_at s i c \<noteq> None} = fst ` set (the (map_of (es_updates s) i))"
      if i: "i \<in> fst ` set (es_updates s)" for i
    proof -
      obtain m where "map_of (es_updates s) i = Some m"
        using i map_of_eq_None_iff [of "es_updates s" i] by (cases "map_of (es_updates s) i") simp_all
      then show ?thesis using dom_map_of_conv_image_fst [of m] by (simp add: draft_at_def dom_def)
    qed
    then show ?thesis unfolding edited_cells_def by (rule Sigma_cong [OF refl])
  qed
  moreover have "length (es_inserts s) = card (id_draftId ` set (es_inserts s))"
    using assms by (metis buffer_ok_def distinct_card length_map set_map)
  ultimately show ?thesis
    using assms sum_list_card_SIGMA [of "es_updates s"]
    by (simp add: pendingOf_eq buffer_ok_def distinct_card)
qed

lemma edited_cells_alt: "edited_cells s = {(i, c). draft_at s i c \<noteq> None}"
proof -
  have "i \<in> fst ` set (es_updates s)" if "draft_at s i c = Some d" for i c d
    using that map_of_eq_None_iff [of "es_updates s" i]
    by (cases "map_of (es_updates s) i") (simp_all add: draft_at_def)
  then show ?thesis unfolding edited_cells_def by fastforce
qed

subsection \<open>Properties\<close>

text \<open>Claim C14: the number of pending edits that the user interface shows is right in every
  state the store can reach: after any sequence of edit operations on any tabs the store never
  throws, and the counter of a tab is the number of cells with a draft, rows marked for
  deletion and rows to insert.\<close>

theorem pending_count_exact:
  assumes "run_ok edit_step edit_ok emptyEditStore ops"
  shows "\<exists>st. run_actions edit_step emptyEditStore ops = Some st
    \<and> (\<forall>tab. let s = getEdits st tab in
         es_pendingCount s = card {(i, c). draft_at s i c \<noteq> None}
           + card (set (es_deletes s)) + card (id_draftId ` set (es_inserts s)))"
proof -
  have "edits_inv emptyEditStore" by (simp add: edits_inv_def emptyEditStore_def)
  from esm.run_inv [OF this assms] obtain st
    where run: "run_actions edit_step emptyEditStore ops = Some st" and inv: "edits_inv st" by blast
  have "es_pendingCount (getEdits st tab) = pendingOf (getEdits st tab)" for tab
  proof (cases "map_of (eds_states st) tab")
    case (Some s)
    then show ?thesis using inv map_of_SomeD [OF Some] unfolding edits_inv_def getEdits_def by force
  qed (simp add: getEdits_def EMPTY_EDITS_def pendingOf_def)
  then have "es_pendingCount (getEdits st tab) = card (edited_cells (getEdits st tab))
      + card (set (es_deletes (getEdits st tab))) + card (id_draftId ` set (es_inserts (getEdits st tab)))" for tab
    using pendingOf_card [OF buffer_ok_getEdits [OF inv], of tab] by simp
  then show ?thesis using run unfolding edited_cells_alt Let_def by blast
qed

theorem pending_count_exact_witness:
  "\<exists>st. run_actions edit_step emptyEditStore
       [(SetCell 1 ''a'' (Some None), ''t''), (ToggleDelete 2, ''t''), (AddInsert ''u'' [], ''t''),
        (ResolveRows [2] [2], ''t'')] = Some st
    \<and> (\<forall>tab. let s = getEdits st tab in
         es_pendingCount s = card {(i, c). draft_at s i c \<noteq> None}
           + card (set (es_deletes s)) + card (id_draftId ` set (es_inserts s)))"
  by (rule pending_count_exact)
    (simp add: emptyEditStore_def getEdits_def EMPTY_EDITS_def setCell_def setCellIn_def commitEdits_def
       toggleDelete_def addInsert_def js_set_add_def)

text \<open>While a commit holds the lock of a tab, none of the user's edit operations
  changes the buffer: cell edits, deletions and edits of inserted rows are ignored and adding
  a row throws. A buffer is unlocked only by \<open>setLocked\<close> and by \<open>clear\<close>.\<close>

theorem locked_buffer_frozen:
  assumes "es_locked (getEdits st tab)"
  shows "setCell st tab i c d = st \<and> toggleDelete st tab i = st \<and> addInsert st tab u cells = None
    \<and> setInsertCell st tab u c x = st \<and> removeInsert st tab u = st
    \<and> es_locked (getEdits (resolveRows st tab resolved removed) tab)
    \<and> (tab' \<noteq> tab \<longrightarrow> es_locked (getEdits (clearEdits (setLocked st tab' False) tab') tab))"
  using assms
  by (simp add: setCell_def toggleDelete_def addInsert_def setInsertCell_def removeInsert_def
      resolveRows_def setLocked_def Let_def)

theorem locked_buffer_frozen_witness:
  "setCell (setLocked emptyEditStore ''t'' True) ''t'' 0 ''a'' None = setLocked emptyEditStore ''t'' True
   \<and> addInsert (setLocked emptyEditStore ''t'' True) ''t'' ''u'' [] = None"
proof -
  have "es_locked (getEdits (setLocked emptyEditStore ''t'' True) ''t'')" by (simp add: setLocked_def)
  from locked_buffer_frozen [OF this] show ?thesis by blast
qed

text \<open>Editing a cell changes the draft of that cell and nothing else: the draft of
  every other cell, the deletions, the inserted rows and the buffers of the other tabs are as
  before, and withdrawing a draft makes the buffer look as if the cell had never been edited.\<close>

theorem setCell_exact:
  assumes "\<not> es_locked (getEdits st tab)"
  shows "draft_at (getEdits (setCell st tab i c d) tab) = (draft_at (getEdits st tab))(i := (draft_at (getEdits st tab) i)(c := d))
    \<and> es_deletes (getEdits (setCell st tab i c d) tab) = es_deletes (getEdits st tab)
    \<and> es_inserts (getEdits (setCell st tab i c d) tab) = es_inserts (getEdits st tab)
    \<and> (\<forall>tab'. tab' \<noteq> tab \<longrightarrow> getEdits (setCell st tab i c d) tab' = getEdits st tab')
    \<and> draft_at (getEdits (setCell (setCell st tab i c d) tab i c None) tab)
        = draft_at (getEdits (setCell st tab i c None) tab)"
proof -
  have frame: "es_deletes (setCellIn i c e s) = es_deletes s" "es_inserts (setCellIn i c e s) = es_inserts s"
    "es_locked (setCellIn i c e s) = es_locked s" for e s
    by (simp_all add: setCellIn_def Let_def)
  show ?thesis
    using assms by (simp add: setCell_def frame draft_at_setCellIn fun_eq_iff)
qed

theorem setCell_exact_witness:
  "draft_at (getEdits (setCell emptyEditStore ''t'' 3 ''a'' (Some (Some ''x''))) ''t'')
     = (draft_at (getEdits emptyEditStore ''t''))(3 := (draft_at (getEdits emptyEditStore ''t'') 3)(''a'' := Some (Some ''x'')))"
proof -
  have "\<not> es_locked (getEdits emptyEditStore ''t'')"
    by (simp add: getEdits_def emptyEditStore_def EMPTY_EDITS_def)
  from setCell_exact [OF this] show ?thesis by blast
qed

end
