(* ===== verification/Result_Store.thy ===== *)
theory Result_Store
  imports Edit_Store
begin

text \<open>
  The row store, \<open>src/entities/result/resultStore.ts\<close>: one snapshot per result tab, whose rows
  are an array that is mutated in place while the query streams. Running executions tell
  whether a tab still shows their result by comparing that array by identity, so the model
  has a heap: \<open>rs_rows\<close> is the address of the array, \<open>rst_heap\<close> its contents, and \<open>create\<close>
  allocates a fresh address. Address \<open>0\<close> is the array of the constant \<open>EMPTY\<close>.
\<close>

subsection \<open>State\<close>

datatype result_status = StIdle | StRunning | StCompleted | StFailed | StCancelled

record table_page =
  tp_connectionId :: string
  tp_queryTabId :: string
  tp_pageSize :: int

record result_snapshot =
  rs_executionId :: "string option"
  rs_executedSql :: "string option"
  rs_columns :: "column_meta list"
  rs_rows :: nat
  rs_status :: result_status
  rs_error :: "app_error option"
  rs_rowCount :: "int option"
  rs_truncated :: "bool option"
  rs_durationMs :: "int option"
  rs_transactionState :: "transaction_state option"
  rs_commandTag :: "string option"
  rs_affectedRows :: "int option"
  rs_protocolError :: bool
  rs_pageable :: bool
  rs_nextRowOffset :: "int option"
  rs_hasMoreRows :: bool
  rs_loadingMore :: bool
  rs_pageError :: "string option"
  rs_tablePage :: "table_page option"

record result_store =
  rst_states :: "(string, result_snapshot) js_map"
  rst_nextSequence :: "(string, int) js_map"
  rst_heap :: "nat \<Rightarrow> db_value list list"
  rst_fresh :: nat
  rst_columnWidths :: "(string, (string, int) js_map) js_map"
  rst_emits :: "string list"

definition EMPTY_RESULT :: result_snapshot where
  "EMPTY_RESULT = \<lparr>rs_executionId = None, rs_executedSql = None, rs_columns = [], rs_rows = 0,
     rs_status = StIdle, rs_error = None, rs_rowCount = None, rs_truncated = None,
     rs_durationMs = None, rs_transactionState = None, rs_commandTag = None,
     rs_affectedRows = None, rs_protocolError = False, rs_pageable = False,
     rs_nextRowOffset = None, rs_hasMoreRows = False, rs_loadingMore = False,
     rs_pageError = None, rs_tablePage = None\<rparr>"

definition emptyResultStore :: result_store where
  "emptyResultStore = \<lparr>rst_states = [], rst_nextSequence = [], rst_heap = (\<lambda>_. []), rst_fresh = 1,
     rst_columnWidths = [], rst_emits = []\<rparr>"

subsection \<open>Operations\<close>

definition getResult :: "result_store \<Rightarrow> string \<Rightarrow> result_snapshot" where
  "getResult st tab = nullish (map_of (rst_states st) tab) EMPTY_RESULT"

text \<open>The contents of the array that a tab shows.\<close>

definition rowsOf :: "result_store \<Rightarrow> string \<Rightarrow> db_value list list" where
  "rowsOf st tab = rst_heap st (rs_rows (getResult st tab))"

text \<open>
  The private \<open>update\<close>. The function gets the snapshot and the contents of its array, and
  returns the next snapshot and the contents it leaves in the same array.
\<close>

definition update_snapshot :: "result_store \<Rightarrow> string
    \<Rightarrow> (result_snapshot \<Rightarrow> db_value list list \<Rightarrow> result_snapshot \<times> db_value list list) \<Rightarrow> result_store" where
  "update_snapshot st tab fn =
     (case map_of (rst_states st) tab of
        None \<Rightarrow> st
      | Some s \<Rightarrow>
          let r = fn s (rst_heap st (rs_rows s))
          in st\<lparr>rst_states := AList.update tab (fst r) (rst_states st),
                rst_heap := (rst_heap st)(rs_rows s := snd r),
                rst_emits := rst_emits st @ [tab]\<rparr>)"

datatype create_error = UnsavedEdits | AlreadyRunning

definition newSnapshot :: "nat \<Rightarrow> string option \<Rightarrow> bool \<Rightarrow> table_page option \<Rightarrow> result_snapshot" where
  "newSnapshot a executedSql pageable tablePage = EMPTY_RESULT\<lparr>rs_rows := a, rs_status := StRunning,
     rs_executedSql := executedSql, rs_pageable := pageable, rs_nextRowOffset := Some 0,
     rs_tablePage := tablePage\<rparr>"

definition create :: "edit_store \<Rightarrow> result_store \<Rightarrow> string \<Rightarrow> string option \<Rightarrow> bool \<Rightarrow> table_page option
    \<Rightarrow> create_error + result_store" where
  "create edits st tab executedSql pageable tablePage =
     (let e = getEdits edits tab in
      if es_pendingCount e \<noteq> 0 \<or> es_locked e then Inl UnsavedEdits
      else if map_option rs_status (map_of (rst_states st) tab) = Some StRunning then Inl AlreadyRunning
      else Inr (st\<lparr>
        rst_states := AList.update tab (newSnapshot (rst_fresh st) executedSql pageable tablePage) (rst_states st),
        rst_heap := (rst_heap st)(rst_fresh st := []),
        rst_fresh := Suc (rst_fresh st),
        rst_nextSequence := AList.update tab 0 (rst_nextSequence st),
        rst_emits := rst_emits st @ [tab]\<rparr>))"

definition replaceRow :: "result_store \<Rightarrow> string \<Rightarrow> int \<Rightarrow> db_value list \<Rightarrow> result_store" where
  "replaceRow st tab i row = update_snapshot st tab (\<lambda>s rows.
     (s, if 0 \<le> i \<and> i < int (length rows) then rows[nat i := row] else rows))"

definition spliceOut :: "int list \<Rightarrow> 'a list \<Rightarrow> 'a list" where
  "spliceOut indexes rows = fold (\<lambda>i rows. js_splice i 1 [] rows) (rev (sort indexes)) rows"

definition removeRows :: "result_store \<Rightarrow> string \<Rightarrow> int list \<Rightarrow> result_store" where
  "removeRows st tab indexes = update_snapshot st tab (\<lambda>s rows.
     let rows' = spliceOut indexes rows in
     (s\<lparr>rs_rowCount := Some (nullish (rs_rowCount s) (int (length rows') + int (length indexes)) - int (length indexes))\<rparr>,
      rows'))"

definition pushRows :: "result_store \<Rightarrow> string \<Rightarrow> db_value list list \<Rightarrow> result_store" where
  "pushRows st tab new = update_snapshot st tab (\<lambda>s rows.
     let rows' = rows @ new in
     (s\<lparr>rs_rowCount := Some (nullish (rs_rowCount s) (int (length rows') - int (length new)) + int (length new))\<rparr>,
      rows'))"

definition setStarted :: "result_store \<Rightarrow> string \<Rightarrow> string \<Rightarrow> result_store" where
  "setStarted st tab executionId = update_snapshot st tab (\<lambda>s rows.
     (s\<lparr>rs_executionId := Some executionId, rs_status := StRunning\<rparr>, rows))"

definition setColumns :: "result_store \<Rightarrow> string \<Rightarrow> column_meta list \<Rightarrow> result_store" where
  "setColumns st tab columns = update_snapshot st tab (\<lambda>s rows. (s\<lparr>rs_columns := columns\<rparr>, rows))"

definition sequenceError :: "int \<Rightarrow> int \<Rightarrow> app_error" where
  "sequenceError expected got = \<lparr>ae_code = ''INTERNAL_ERROR'',
     ae_message = ''chunk sequence mismatch: expected '' @ show_int expected @ '', got '' @ show_int got,
     ae_retryable = False, ae_sqlState = None, ae_position = None, ae_detail = None, ae_hint = None\<rparr>"

definition appendRows ::
  "result_store \<Rightarrow> string \<Rightarrow> int \<Rightarrow> db_value list list \<Rightarrow> bool \<times> result_store" where
  "appendRows st tab sequence new =
     (case map_of (rst_nextSequence st) tab of
        None \<Rightarrow> (False, st)
      | Some expected \<Rightarrow>
          if (case map_of (rst_states st) tab of None \<Rightarrow> False | Some s \<Rightarrow> rs_protocolError s) then (False, st)
          else if sequence \<noteq> expected
          then (False, update_snapshot st tab (\<lambda>s rows.
                  (s\<lparr>rs_status := StFailed, rs_protocolError := True,
                     rs_error := Some (sequenceError expected sequence)\<rparr>, rows)))
          else (True, update_snapshot
                  (st\<lparr>rst_nextSequence := AList.update tab (expected + 1) (rst_nextSequence st)\<rparr>) tab
                  (\<lambda>s rows. (s\<lparr>rs_nextRowOffset := Some (nullish (rs_nextRowOffset s) 0 + int (length new))\<rparr>,
                             rows @ new))))"

definition setCommand :: "result_store \<Rightarrow> string \<Rightarrow> string \<Rightarrow> int option \<Rightarrow> result_store" where
  "setCommand st tab commandTag affectedRows = update_snapshot st tab (\<lambda>s rows.
     (s\<lparr>rs_commandTag := Some commandTag, rs_affectedRows := affectedRows\<rparr>, rows))"

text \<open>The keys that a terminal object has; \<open>None\<close> is an absent key, which the spread keeps.\<close>

record terminal =
  te_status :: result_status
  te_error :: "app_error option"
  te_rowCount :: "int option"
  te_truncated :: "bool option"
  te_durationMs :: "int option"
  te_transactionState :: "transaction_state option"

definition moreRows :: "result_snapshot \<Rightarrow> terminal \<Rightarrow> bool" where
  "moreRows s t = (\<not> rs_protocolError s \<and>
     (case rs_tablePage s of
        Some p \<Rightarrow> te_status t = StCompleted \<and> te_truncated t \<noteq> Some True
                   \<and> nullish (te_rowCount t) 0 \<ge> tp_pageSize p
      | None \<Rightarrow> rs_pageable s \<and> te_status t \<noteq> StFailed
                   \<and> nullish (te_rowCount t) 0 > nullish (rs_nextRowOffset s) 0))"

definition terminalSnapshot :: "terminal \<Rightarrow> result_snapshot \<Rightarrow> result_snapshot" where
  "terminalSnapshot t s = s\<lparr>
     rs_status := (if rs_protocolError s then StFailed else te_status t),
     rs_error := (if rs_protocolError s then rs_error s else nullish_opt (te_error t) (rs_error s)),
     rs_rowCount := nullish_opt (te_rowCount t) (rs_rowCount s),
     rs_truncated := nullish_opt (te_truncated t) (rs_truncated s),
     rs_durationMs := nullish_opt (te_durationMs t) (rs_durationMs s),
     rs_transactionState := nullish_opt (te_transactionState t) (rs_transactionState s),
     rs_hasMoreRows := moreRows s t\<rparr>"

definition setTerminal :: "result_store \<Rightarrow> string \<Rightarrow> terminal \<Rightarrow> result_store" where
  "setTerminal st tab t = update_snapshot st tab (\<lambda>s rows. (terminalSnapshot t s, rows))"

definition setPageLoading :: "result_store \<Rightarrow> string \<Rightarrow> bool \<Rightarrow> string option \<Rightarrow> result_store" where
  "setPageLoading st tab loadingMore pageError = update_snapshot st tab (\<lambda>s rows.
     (s\<lparr>rs_loadingMore := loadingMore, rs_pageError := pageError\<rparr>, rows))"

definition appendPage :: "result_store \<Rightarrow> string \<Rightarrow> result_page \<Rightarrow> result_store" where
  "appendPage st tab page = update_snapshot st tab (\<lambda>s rows.
     (s\<lparr>rs_nextRowOffset := Some (pg_nextOffset page), rs_hasMoreRows := pg_hasMore page,
        rs_loadingMore := False, rs_pageError := None\<rparr>, rows @ pg_rows page))"

text \<open>\<open>dispose\<close> drops the edit buffer too.\<close>

definition dispose :: "edit_store \<times> result_store \<Rightarrow> string \<Rightarrow> edit_store \<times> result_store" where
  "dispose sts tab = (clearEdits (fst sts) tab, (snd sts)\<lparr>
     rst_states := AList.delete tab (rst_states (snd sts)),
     rst_nextSequence := AList.delete tab (rst_nextSequence (snd sts)),
     rst_columnWidths := AList.delete tab (rst_columnWidths (snd sts)),
     rst_emits := rst_emits (snd sts) @ [tab]\<rparr>)"

definition resultColumnWidths :: "result_store \<Rightarrow> string \<Rightarrow> (string, int) js_map \<times> result_store" where
  "resultColumnWidths st tab =
     (case map_of (rst_columnWidths st) tab of
        Some w \<Rightarrow> (w, st)
      | None \<Rightarrow> ([], st\<lparr>rst_columnWidths := AList.update tab [] (rst_columnWidths st)\<rparr>))"

subsection \<open>Removal of rows by index\<close>

lemma js_splice_delete: "k < length xs \<Longrightarrow> js_splice (int k) (Suc 0) [] xs = take k xs @ drop (Suc k) xs"
  by (simp add: js_splice_def Let_def)

lemma nths_all_but:
  assumes "k < length xs" "\<And>i. i \<in> A \<Longrightarrow> i < k"
  shows "nths (take k xs @ drop (Suc k) xs) (- A) = nths xs (- insert k A)"
proof -
  have split: "xs = take k xs @ xs ! k # drop (Suc k) xs" using assms(1) by (simp add: id_take_nth_drop)
  have high: "{j. j + k \<in> - A} = UNIV" using assms(2) by fastforce
  have high': "{j. Suc j + k \<in> - insert k A} = UNIV" using assms(2) by fastforce
  have low: "nths (take k xs) (- insert k A) = nths (take k xs) (- A)"
    unfolding nths_def using assms(1) by (auto intro!: arg_cong [of _ _ "map fst"] filter_cong dest: set_zip_rightD)
  have "nths (take k xs @ drop (Suc k) xs) (- A) = nths (take k xs) (- A) @ drop (Suc k) xs"
    using assms(1) high by (simp add: nths_append min_def nths_all)
  moreover have "nths xs (- insert k A) = nths (take k xs) (- A) @ drop (Suc k) xs"
    using assms(1) high' low
    by (subst split) (simp add: nths_append nths_Cons min_def nths_all del: append_take_drop_id)
  ultimately show ?thesis by simp
qed

lemma fold_splice_desc:
  "sorted_wrt (>) ks \<Longrightarrow> (\<forall>k\<in>set ks. k < length xs) \<Longrightarrow>
   fold (\<lambda>i rows. js_splice i 1 [] rows) (map int ks) xs = nths xs (- set ks)"
proof (induction ks arbitrary: xs)
  case (Cons k ks)
  have k: "k < length xs" and less: "\<And>i. i \<in> set ks \<Longrightarrow> i < k" using Cons.prems by auto
  let ?ys = "take k xs @ drop (Suc k) xs"
  have "\<forall>i\<in>set ks. i < length ?ys" using less k by fastforce
  then have "fold (\<lambda>i rows. js_splice i 1 [] rows) (map int ks) ?ys = nths ?ys (- set ks)"
    using Cons.IH Cons.prems by simp
  then show ?case using nths_all_but [OF k less] k by (simp add: js_splice_delete)
qed (simp add: nths_all)

lemma spliceOut_nths:
  assumes "distinct indexes" "\<forall>i\<in>set indexes. 0 \<le> i \<and> i < int (length xs)"
  shows "spliceOut indexes xs = nths xs {n. int n \<notin> set indexes}"
proof -
  let ?ks = "map nat (rev (sort indexes))"
  have range: "\<forall>i\<in>set (rev (sort indexes)). 0 \<le> i \<and> i < int (length xs)" using assms(2) by simp
  have ints: "map int ?ks = rev (sort indexes)" using range unfolding map_map by (intro map_idI) simp
  have "sorted_wrt (>) (rev (sort indexes))"
    using assms(1) by (simp add: sorted_wrt_rev strict_sorted_iff)
  then have "sorted_wrt (>) (map int ?ks)" unfolding ints .
  then have "sorted_wrt (>) ?ks" by (simp add: sorted_wrt_map del: map_map)
  moreover have "\<forall>k\<in>set ?ks. k < length xs" using range by auto
  ultimately have "fold (\<lambda>i rows. js_splice i 1 [] rows) (map int ?ks) xs = nths xs (- set ?ks)"
    by (rule fold_splice_desc)
  moreover have "- set ?ks = {n. int n \<notin> set indexes}" using assms(2) by force
  ultimately show ?thesis unfolding ints spliceOut_def by simp
qed

lemma nth_nths_card:
  "n < length xs \<Longrightarrow> n \<in> A \<Longrightarrow>
   card {i \<in> A. i < n} < length (nths xs A) \<and> nths xs A ! card {i \<in> A. i < n} = xs ! n"
proof (induction xs rule: rev_induct)
  case (snoc x xs)
  have len: "length (nths xs A) = card {i \<in> A. i < length xs}"
    by (simp add: length_nths conj_commute)
  show ?case
  proof (cases "n < length xs")
    case True
    then show ?thesis using snoc by (simp add: nths_append nth_append)
  next
    case False
    then have n: "n = length xs" using snoc.prems by simp
    then show ?thesis using snoc.prems len by (simp add: nths_append nth_append)
  qed
qed simp

text \<open>The index that \<open>rebase\<close> computes is where the row is after the removal.\<close>

lemma nth_spliceOut_rebase:
  assumes "distinct removed" "\<forall>i\<in>set removed. 0 \<le> i \<and> i < int (length xs)"
    and "0 \<le> i" "i < int (length xs)" "i \<notin> set removed"
  shows "js_at (spliceOut removed xs) (rebase removed i) = js_at xs i"
proof -
  let ?A = "{n. int n \<notin> set removed}" and ?n = "nat i"
  let ?R = "{r \<in> set removed. r < i}"
  have n: "?n < length xs" "?n \<in> ?A" using assms(3-5) by auto
  have "{k \<in> ?A. k < ?n} = {..<?n} - nat ` ?R" (is "?L = _") using assms(2,3) by force
  moreover have "nat ` ?R \<subseteq> {..<?n}" "card (nat ` ?R) = card ?R"
    using assms(2) by (force, intro card_image inj_onI) (metis (mono_tags) eq_nat_nat_iff mem_Collect_eq)
  ultimately have "card ?L = ?n - card ?R" "card ?R \<le> ?n"
    using card_mono [of "{..<?n}" "nat ` ?R"] by (simp_all add: card_Diff_subset)
  then have card: "int (card ?L) = rebase removed i"
    using assms(3) by (simp add: rebase_def length_filter_less_eq_card [OF assms(1)])
  from nth_nths_card [OF n] have "js_at (nths xs ?A) (int (card ?L)) = Some (xs ! ?n)" by simp
  then show ?thesis
    using assms(3,4) unfolding spliceOut_nths [OF assms(1,2)] card by (simp add: js_at_def [of xs])
qed

subsection \<open>No two tabs share an array\<close>

definition results_inv :: "result_store \<Rightarrow> bool" where
  "results_inv st \<longleftrightarrow> 0 < rst_fresh st \<and> rst_heap st 0 = []
     \<and> (\<forall>tab s. map_of (rst_states st) tab = Some s \<longrightarrow> 0 < rs_rows s \<and> rs_rows s < rst_fresh st
          \<and> map_of (rst_nextSequence st) tab \<noteq> None)
     \<and> (\<forall>tab tab' s s'. map_of (rst_states st) tab = Some s \<and> map_of (rst_states st) tab' = Some s'
          \<and> rs_rows s = rs_rows s' \<longrightarrow> tab = tab')"

lemma results_inv_addr:
  "results_inv st \<Longrightarrow> map_of (rst_states st) tab = Some s \<Longrightarrow>
   0 < rs_rows s \<and> rs_rows s < rst_fresh st \<and> map_of (rst_nextSequence st) tab \<noteq> None"
  by (simp add: results_inv_def)

lemma results_inv_inj:
  "results_inv st \<Longrightarrow> map_of (rst_states st) tab = Some s \<Longrightarrow> map_of (rst_states st) tab' = Some s'
   \<Longrightarrow> rs_rows s = rs_rows s' \<Longrightarrow> tab = tab'"
  unfolding results_inv_def by blast

lemma results_invI:
  assumes "0 < rst_fresh st" "rst_heap st 0 = []"
    and "\<And>tab s. map_of (rst_states st) tab = Some s \<Longrightarrow>
      0 < rs_rows s \<and> rs_rows s < rst_fresh st \<and> map_of (rst_nextSequence st) tab \<noteq> None"
    and "\<And>tab tab' s s'. map_of (rst_states st) tab = Some s \<Longrightarrow> map_of (rst_states st) tab' = Some s'
      \<Longrightarrow> rs_rows s = rs_rows s' \<Longrightarrow> tab = tab'"
  shows "results_inv st"
  using assms unfolding results_inv_def by blast

lemma results_inv_basic: "results_inv st \<Longrightarrow> 0 < rst_fresh st \<and> rst_heap st 0 = []"
  by (simp add: results_inv_def)

lemma results_inv_empty: "results_inv emptyResultStore"
  by (simp add: results_inv_def emptyResultStore_def)

text \<open>An update function keeps the array it was given, as every caller of \<open>update\<close> does.\<close>

definition keeps_array ::
  "(result_snapshot \<Rightarrow> db_value list list \<Rightarrow> result_snapshot \<times> db_value list list) \<Rightarrow> bool" where
  "keeps_array fn \<longleftrightarrow> (\<forall>s rows. rs_rows (fst (fn s rows)) = rs_rows s)"

lemma map_of_update_snapshot:
  "map_of (rst_states (update_snapshot st tab fn)) tab' =
     (if tab' = tab then map_option (\<lambda>s. fst (fn s (rst_heap st (rs_rows s)))) (map_of (rst_states st) tab)
      else map_of (rst_states st) tab')"
  by (simp add: update_snapshot_def Let_def split: option.splits)

lemma update_snapshot_frame [simp]:
  "rst_nextSequence (update_snapshot st tab fn) = rst_nextSequence st"
  "rst_fresh (update_snapshot st tab fn) = rst_fresh st"
  "rst_columnWidths (update_snapshot st tab fn) = rst_columnWidths st"
  by (simp_all add: update_snapshot_def Let_def split: option.splits)

lemma heap_update_snapshot:
  "rst_heap (update_snapshot st tab fn) a =
     (case map_of (rst_states st) tab of
        Some s \<Rightarrow> if a = rs_rows s then snd (fn s (rst_heap st a)) else rst_heap st a
      | None \<Rightarrow> rst_heap st a)"
  by (simp add: update_snapshot_def Let_def split: option.splits)

lemma results_inv_update:
  assumes inv: "results_inv st" and fn: "keeps_array fn"
  shows "results_inv (update_snapshot st tab fn)"
proof (cases "map_of (rst_states st) tab")
  case (Some s)
  let ?st = "update_snapshot st tab fn"
  have addr: "map_option rs_rows (map_of (rst_states ?st) t) = map_option rs_rows (map_of (rst_states st) t)" for t
    using fn by (simp add: map_of_update_snapshot keeps_array_def option.map_comp comp_def)
  then have old: "\<exists>s'. map_of (rst_states st) t = Some s' \<and> rs_rows s' = rs_rows u"
    if "map_of (rst_states ?st) t = Some u" for t u
    using that addr [of t] by (cases "map_of (rst_states st) t") auto
  show ?thesis
  proof (rule results_invI)
    show "rst_heap ?st 0 = []"
      using results_inv_basic [OF inv] results_inv_addr [OF inv Some] Some
      by (simp add: heap_update_snapshot)
  next
    fix t u assume "map_of (rst_states ?st) t = Some u"
    from old [OF this] show "0 < rs_rows u \<and> rs_rows u < rst_fresh ?st \<and> map_of (rst_nextSequence ?st) t \<noteq> None"
      using results_inv_addr [OF inv] by (metis update_snapshot_frame(1,2))
  next
    fix t t' u u' assume "map_of (rst_states ?st) t = Some u" "map_of (rst_states ?st) t' = Some u'" "rs_rows u = rs_rows u'"
    then show "t = t'" using old results_inv_inj [OF inv] by metis
  qed (use results_inv_basic [OF inv] in simp)
qed (use inv in \<open>simp add: update_snapshot_def\<close>)

lemma keeps_arrayI [intro]: "(\<And>s rows. rs_rows (fst (fn s rows)) = rs_rows s) \<Longrightarrow> keeps_array fn"
  by (simp add: keeps_array_def)

lemma results_inv_sequence:
  assumes inv: "results_inv st"
  shows "results_inv (st\<lparr>rst_nextSequence := AList.update tab n (rst_nextSequence st)\<rparr>)" (is "results_inv ?st")
proof (rule results_invI)
  fix t u assume "map_of (rst_states ?st) t = Some u"
  then show "0 < rs_rows u \<and> rs_rows u < rst_fresh ?st \<and> map_of (rst_nextSequence ?st) t \<noteq> None"
    using results_inv_addr [OF inv, of t u] by simp
next
  fix t t' u u' assume "map_of (rst_states ?st) t = Some u" "map_of (rst_states ?st) t' = Some u'" "rs_rows u = rs_rows u'"
  then show "t = t'" using results_inv_inj [OF inv, of t u t' u'] by simp
qed (use results_inv_basic [OF inv] in simp_all)

lemma create_Inr:
  "create edits st tab sql pageable page = Inr st' \<Longrightarrow> st' = st\<lparr>
     rst_states := AList.update tab (newSnapshot (rst_fresh st) sql pageable page) (rst_states st),
     rst_heap := (rst_heap st)(rst_fresh st := []),
     rst_fresh := Suc (rst_fresh st),
     rst_nextSequence := AList.update tab 0 (rst_nextSequence st),
     rst_emits := rst_emits st @ [tab]\<rparr>"
  by (simp add: create_def Let_def split: if_splits)

lemma newSnapshot_rows [simp]: "rs_rows (newSnapshot a sql pageable page) = a"
  by (simp add: newSnapshot_def)

lemma results_inv_create:
  assumes inv: "results_inv st" and cr: "create edits st tab sql pageable page = Inr st'"
  shows "results_inv st'"
proof (rule results_invI)
  note st' = create_Inr [OF cr]
  show "0 < rst_fresh st'" "rst_heap st' 0 = []" using results_inv_basic [OF inv] by (simp_all add: st')
  fix t u assume u: "map_of (rst_states st') t = Some u"
  then show "0 < rs_rows u \<and> rs_rows u < rst_fresh st' \<and> map_of (rst_nextSequence st') t \<noteq> None"
    using results_inv_addr [OF inv, of t u] results_inv_basic [OF inv]
    by (cases "t = tab") (auto simp: st')
  fix t' u' assume u': "map_of (rst_states st') t' = Some u'" and eq: "rs_rows u = rs_rows u'"
  have addr: "if x = tab then rs_rows v = rst_fresh st else rs_rows v < rst_fresh st \<and> map_of (rst_states st) x = Some v"
    if "map_of (rst_states st') x = Some v" for x v
    using that results_inv_addr [OF inv, of x v] by (cases "x = tab") (auto simp: st')
  show "t = t'"
  proof (cases "t = tab \<or> t' = tab")
    case True
    then show ?thesis using addr [OF u] addr [OF u'] eq by (auto split: if_splits)
  next
    case False
    then have "map_of (rst_states st) t = Some u" "map_of (rst_states st) t' = Some u'"
      using addr [OF u] addr [OF u'] by simp_all
    from results_inv_inj [OF inv this eq] show ?thesis .
  qed
qed

lemma results_inv_dispose:
  assumes inv: "results_inv (snd sts)" shows "results_inv (snd (dispose sts tab))"
proof (rule results_invI)
  fix t u assume u: "map_of (rst_states (snd (dispose sts tab))) t = Some u"
  then show "0 < rs_rows u \<and> rs_rows u < rst_fresh (snd (dispose sts tab))
      \<and> map_of (rst_nextSequence (snd (dispose sts tab))) t \<noteq> None"
    using results_inv_addr [OF inv, of t u] by (simp add: dispose_def split: if_splits)
  fix t' u' assume "map_of (rst_states (snd (dispose sts tab))) t' = Some u'" "rs_rows u = rs_rows u'"
  then show "t = t'" using u by (auto simp: dispose_def split: if_splits intro: results_inv_inj [OF inv])
qed (use results_inv_basic [OF inv] in \<open>simp_all add: dispose_def\<close>)

lemma results_inv_appendRows:
  "results_inv st \<Longrightarrow> results_inv (snd (appendRows st tab sequence new))"
  by (auto simp: appendRows_def results_inv_sequence intro!: results_inv_update split: option.splits)

subsection \<open>The tabs are independent\<close>

datatype result_event =
    OpCreate edit_store "string option" bool "table_page option"
  | OpReplaceRow int "db_value list"
  | OpRemoveRows "int list"
  | OpPushRows "db_value list list"
  | OpStarted string
  | OpColumns "column_meta list"
  | OpAppendRows int "db_value list list"
  | OpCommand string "int option"
  | OpTerminal terminal
  | OpPageLoading bool "string option"
  | OpAppendPage result_page
  | OpDispose edit_store

text \<open>An operation on a tab; where \<open>create\<close> throws, the store is as before.\<close>

fun result_op :: "result_event \<Rightarrow> string \<Rightarrow> result_store \<Rightarrow> result_store" where
  "result_op (OpCreate edits sql pageable page) tab st =
     (case create edits st tab sql pageable page of Inl _ \<Rightarrow> st | Inr st' \<Rightarrow> st')"
| "result_op (OpReplaceRow i row) tab st = replaceRow st tab i row"
| "result_op (OpRemoveRows is) tab st = removeRows st tab is"
| "result_op (OpPushRows rows) tab st = pushRows st tab rows"
| "result_op (OpStarted x) tab st = setStarted st tab x"
| "result_op (OpColumns cs) tab st = setColumns st tab cs"
| "result_op (OpAppendRows q rows) tab st = snd (appendRows st tab q rows)"
| "result_op (OpCommand c n) tab st = setCommand st tab c n"
| "result_op (OpTerminal t) tab st = setTerminal st tab t"
| "result_op (OpPageLoading b e) tab st = setPageLoading st tab b e"
| "result_op (OpAppendPage p) tab st = appendPage st tab p"
| "result_op (OpDispose edits) tab st = snd (dispose (edits, st) tab)"

text \<open>What a tab shows: its snapshot up to the address of the array, the rows, the sequence.\<close>

definition result_view ::
  "result_store \<Rightarrow> string \<Rightarrow> (result_snapshot \<times> db_value list list) option \<times> int option" where
  "result_view st tab =
     (map_option (\<lambda>s. (s\<lparr>rs_rows := 0\<rparr>, rst_heap st (rs_rows s))) (map_of (rst_states st) tab),
      map_of (rst_nextSequence st) tab)"

text \<open>An update function does not look at the address.\<close>

definition addr_blind ::
  "(result_snapshot \<Rightarrow> db_value list list \<Rightarrow> result_snapshot \<times> db_value list list) \<Rightarrow> bool" where
  "addr_blind fn \<longleftrightarrow> (\<forall>s a rows. fn (s\<lparr>rs_rows := a\<rparr>) rows = ((fst (fn s rows))\<lparr>rs_rows := a\<rparr>, snd (fn s rows)))"

lemma addr_blindI [intro]:
  "(\<And>s a rows. fn (s\<lparr>rs_rows := a\<rparr>) rows = ((fst (fn s rows))\<lparr>rs_rows := a\<rparr>, snd (fn s rows))) \<Longrightarrow> addr_blind fn"
  by (simp add: addr_blind_def)

lemma addr_blind_keeps:
  assumes "addr_blind fn" shows "keeps_array fn"
proof
  fix s rows
  have "fn (s\<lparr>rs_rows := rs_rows s\<rparr>) rows = ((fst (fn s rows))\<lparr>rs_rows := rs_rows s\<rparr>, snd (fn s rows))"
    using assms unfolding addr_blind_def by blast
  from arg_cong [OF this, of "\<lambda>p. rs_rows (fst p)"]
  show "rs_rows (fst (fn s rows)) = rs_rows s" by simp
qed

lemma result_view_update:
  assumes inv: "results_inv st" and fn: "addr_blind fn"
  shows "result_view (update_snapshot st tab fn) tab' =
    (if tab' = tab then (map_option (\<lambda>(s, rows). fn s rows) (fst (result_view st tab)), snd (result_view st tab))
     else result_view st tab')"
proof (cases "map_of (rst_states st) tab")
  case (Some s)
  have own: "fn (s\<lparr>rs_rows := 0\<rparr>) rows = ((fst (fn s rows))\<lparr>rs_rows := 0\<rparr>, snd (fn s rows))" for rows
    using fn unfolding addr_blind_def by blast
  have addr: "rs_rows (fst (fn s rows)) = rs_rows s" for rows
    using addr_blind_keeps [OF fn] by (simp add: keeps_array_def)
  show ?thesis
  proof (cases "tab' = tab")
    case True
    then show ?thesis
      by (simp add: result_view_def map_of_update_snapshot heap_update_snapshot Some own addr)
  next
    case False
    have "rst_heap (update_snapshot st tab fn) (rs_rows u) = rst_heap st (rs_rows u)"
      if "map_of (rst_states st) tab' = Some u" for u
      using results_inv_inj [OF inv that Some] False Some by (auto simp: heap_update_snapshot)
    then show ?thesis using False
      by (cases "map_of (rst_states st) tab'") (simp_all add: result_view_def map_of_update_snapshot)
  qed
qed (simp add: result_view_def update_snapshot_def)

lemma moreRows_addr [simp]: "moreRows (s\<lparr>rs_rows := a\<rparr>) t = moreRows s t"
  by (simp add: moreRows_def split: option.splits)

lemma addr_blind_ops:
  "addr_blind (\<lambda>s rows. (s, if 0 \<le> i \<and> i < int (length rows) then rows[nat i := row] else rows))"
  "addr_blind (\<lambda>s rows. let rows' = spliceOut is rows in
     (s\<lparr>rs_rowCount := Some (nullish (rs_rowCount s) (int (length rows') + int (length is)) - int (length is))\<rparr>, rows'))"
  "addr_blind (\<lambda>s rows. let rows' = rows @ new in
     (s\<lparr>rs_rowCount := Some (nullish (rs_rowCount s) (int (length rows') - int (length new)) + int (length new))\<rparr>, rows'))"
  "addr_blind (\<lambda>s rows. (s\<lparr>rs_rowCount := Some (nullish (rs_rowCount s) (int (length rows)) + k)\<rparr>, rows @ new))"
  "addr_blind (\<lambda>s rows. (s\<lparr>rs_executionId := x, rs_status := b\<rparr>, rows))"
  "addr_blind (\<lambda>s rows. (s\<lparr>rs_columns := cs\<rparr>, rows))"
  "addr_blind (\<lambda>s rows. (s\<lparr>rs_status := b, rs_protocolError := p, rs_error := er\<rparr>, rows))"
  "addr_blind (\<lambda>s rows. (s\<lparr>rs_nextRowOffset := Some (nullish (rs_nextRowOffset s) 0 + int (length new))\<rparr>, rows @ new))"
  "addr_blind (\<lambda>s rows. (s\<lparr>rs_commandTag := ct, rs_affectedRows := n\<rparr>, rows))"
  "addr_blind (\<lambda>s rows. (terminalSnapshot t s, rows))"
  "addr_blind (\<lambda>s rows. (s\<lparr>rs_loadingMore := lm, rs_pageError := pe\<rparr>, rows))"
  "addr_blind (\<lambda>s rows. (s\<lparr>rs_nextRowOffset := o', rs_hasMoreRows := h, rs_loadingMore := lm, rs_pageError := pe\<rparr>, rows @ new))"
  by (simp_all add: addr_blind_def Let_def terminalSnapshot_def moreRows_addr)

lemmas simple_ops = replaceRow_def removeRows_def pushRows_def setStarted_def setColumns_def
  setCommand_def setTerminal_def setPageLoading_def appendPage_def

lemmas op_inv = results_inv_update [OF _ addr_blind_keeps]

lemma results_inv_op: "results_inv st \<Longrightarrow> results_inv (result_op p tab st)"
  by (cases p) (auto simp: simple_ops results_inv_appendRows results_inv_dispose addr_blind_ops
      intro!: op_inv intro: results_inv_create split: sum.splits)

lemma result_view_create:
  assumes inv: "results_inv st"
  shows "result_view (result_op (OpCreate edits sql pageable page) tab st) tab' =
    (if tab' = tab \<and> es_pendingCount (getEdits edits tab) = 0 \<and> \<not> es_locked (getEdits edits tab)
        \<and> map_option (rs_status \<circ> fst) (fst (result_view st tab)) \<noteq> Some StRunning
     then (Some (newSnapshot 0 sql pageable page, []), Some 0)
     else result_view st tab')"
proof -
  have status: "map_option (rs_status \<circ> fst) (fst (result_view st tab)) = map_option rs_status (map_of (rst_states st) tab)"
    by (simp add: result_view_def option.map_comp comp_def)
  have fresh: "rs_rows u \<noteq> rst_fresh st" if "map_of (rst_states st) tab' = Some u" for u
    using results_inv_addr [OF inv that] by simp
  then show ?thesis unfolding status
    by (cases "map_of (rst_states st) tab'") (auto simp: create_def Let_def result_view_def newSnapshot_def)
qed

lemma result_view_dispose:
  "result_view (snd (dispose (edits, st) tab)) tab' = (if tab' = tab then (None, None) else result_view st tab')"
  by (simp add: result_view_def dispose_def)

lemma result_view_sequence:
  "result_view (st\<lparr>rst_nextSequence := AList.update tab n (rst_nextSequence st)\<rparr>) tab' =
     (fst (result_view st tab'), if tab' = tab then Some n else snd (result_view st tab'))"
  by (simp add: result_view_def)

lemma result_view_appendRows:
  assumes inv: "results_inv st"
  shows "result_view (snd (appendRows st tab q new)) tab' =
    (if tab' = tab
     then (case result_view st tab of
         (_, None) \<Rightarrow> result_view st tab
       | (r, Some n) \<Rightarrow>
          if (case r of None \<Rightarrow> False | Some (s, _) \<Rightarrow> rs_protocolError s) then (r, Some n)
          else if q \<noteq> n then (map_option (\<lambda>(s, rows). (s\<lparr>rs_status := StFailed, rs_protocolError := True,
               rs_error := Some (sequenceError n q)\<rparr>, rows)) r, Some n)
          else (map_option (\<lambda>(s, rows). (s\<lparr>rs_nextRowOffset := Some (nullish (rs_nextRowOffset s) 0 + int (length new))\<rparr>,
               rows @ new)) r, Some (n + 1)))
     else result_view st tab')"
proof (cases "map_of (rst_nextSequence st) tab")
  case None
  then show ?thesis by (simp add: appendRows_def result_view_def)
next
  case (Some n)
  let ?bad = "case map_of (rst_states st) tab of None \<Rightarrow> False | Some s \<Rightarrow> rs_protocolError s"
  obtain r where view: "result_view st tab = (r, Some n)"
    and bad: "(case r of None \<Rightarrow> False | Some (s, _) \<Rightarrow> rs_protocolError s) = ?bad"
    by (cases "map_of (rst_states st) tab") (simp_all add: result_view_def Some)
  note upd = result_view_update [OF inv] result_view_update [OF results_inv_sequence [OF inv]]
    addr_blind_ops result_view_sequence view
  consider "?bad" | "\<not> ?bad" "q \<noteq> n" | "\<not> ?bad" "q = n" by blast
  then show ?thesis
  proof cases
    case 1
    then have "appendRows st tab q new = (False, st)" by (simp add: appendRows_def Some)
    then show ?thesis using 1 bad view by simp
  next
    case 2
    then have "snd (appendRows st tab q new) = update_snapshot st tab (\<lambda>s rows.
        (s\<lparr>rs_status := StFailed, rs_protocolError := True, rs_error := Some (sequenceError n q)\<rparr>, rows))"
      by (simp add: appendRows_def Some)
    then show ?thesis using 2 bad by (simp add: upd)
  next
    case 3
    then have "snd (appendRows st tab q new) = update_snapshot
        (st\<lparr>rst_nextSequence := AList.update tab (n + 1) (rst_nextSequence st)\<rparr>) tab
        (\<lambda>s rows. (s\<lparr>rs_nextRowOffset := Some (nullish (rs_nextRowOffset s) 0 + int (length new))\<rparr>, rows @ new))"
      by (simp add: appendRows_def Some)
    then show ?thesis using 3 bad by (simp add: upd)
  qed
qed

lemma result_view_frame:
  assumes "results_inv st" "tab' \<noteq> tab"
  shows "result_view (result_op p tab st) tab' = result_view st tab'"
  using assms result_view_create
  by (cases p) (simp_all add: simple_ops result_view_update addr_blind_ops result_view_appendRows
      result_view_dispose del: result_op.simps(1))

lemma result_view_local:
  assumes inv: "results_inv st" "results_inv st'" and eq: "result_view st tab = result_view st' tab"
  shows "result_view (result_op p tab st) tab = result_view (result_op p tab st') tab"
proof (cases p)
  case (OpCreate edits sql pageable page)
  show ?thesis unfolding OpCreate result_view_create [OF inv(1)] result_view_create [OF inv(2)] eq by (rule refl)
qed (use inv eq in \<open>simp_all add: simple_ops result_view_update addr_blind_ops result_view_appendRows
      result_view_dispose\<close>)

interpretation rsk: keyed_store_inv result_view result_op results_inv
  by unfold_locales (fact results_inv_op result_view_frame result_view_local)+

subsection \<open>Streaming\<close>

text \<open>The chunks that arrive in order from sequence number \<open>n\<close> on, up to the first gap.\<close>

fun accepted :: "int \<Rightarrow> (int \<times> 'a list) list \<Rightarrow> 'a list list" where
  "accepted n [] = []"
| "accepted n ((q, rows) # cs) = (if q = n then rows # accepted (n + 1) cs else [])"

definition feed :: "string \<Rightarrow> (int \<times> db_value list list) list \<Rightarrow> result_store \<Rightarrow> result_store" where
  "feed tab chunks st = fold (\<lambda>(q, rows) st. snd (appendRows st tab q rows)) chunks st"

lemma feed_simps [simp]:
  "feed tab [] st = st"
  "feed tab ((q, rows) # cs) st = feed tab cs (snd (appendRows st tab q rows))"
  by (simp_all add: feed_def)

lemma results_inv_feed: "results_inv st \<Longrightarrow> results_inv (feed tab chunks st)"
  by (induction chunks arbitrary: st) (auto simp: results_inv_appendRows)

lemma feed_bad:
  "results_inv st \<Longrightarrow> result_view st tab = (Some (s, rows), Some n) \<Longrightarrow> rs_protocolError s \<Longrightarrow>
   result_view (feed tab chunks st) tab = (Some (s, rows), Some n)"
proof (induction chunks arbitrary: st)
  case (Cons c cs)
  obtain q new where c: "c = (q, new)" by (cases c)
  have "result_view (snd (appendRows st tab q new)) tab = (Some (s, rows), Some n)"
    using Cons.prems by (simp add: result_view_appendRows)
  then show ?case using Cons.IH [OF results_inv_appendRows] Cons.prems c by simp
qed simp

lemma feed_good:
  "results_inv st \<Longrightarrow> result_view st tab = (Some (s, rows), Some n) \<Longrightarrow> \<not> rs_protocolError s \<Longrightarrow>
   rs_nextRowOffset s = Some k \<Longrightarrow>
   \<exists>s' n'. result_view (feed tab chunks st) tab = (Some (s', rows @ concat (accepted n chunks)), Some n')
     \<and> rs_nextRowOffset s' = Some (k + int (length (concat (accepted n chunks))))
     \<and> (rs_protocolError s' \<longleftrightarrow> length (accepted n chunks) < length chunks)
     \<and> rs_status s' = (if rs_protocolError s' then StFailed else rs_status s)
     \<and> rs_tablePage s' = rs_tablePage s \<and> rs_pageable s' = rs_pageable s"
proof (induction chunks arbitrary: st s rows n k)
  case Nil
  then show ?case by simp
next
  case (Cons c cs)
  obtain q new where c: "c = (q, new)" by (cases c)
  let ?st = "snd (appendRows st tab q new)"
  have inv: "results_inv ?st" using Cons.prems(1) by (rule results_inv_appendRows)
  show ?case
  proof (cases "q = n")
    case True
    let ?s = "s\<lparr>rs_nextRowOffset := Some (k + int (length new))\<rparr>"
    have "result_view ?st tab = (Some (?s, rows @ new), Some (n + 1))"
      using Cons.prems True by (simp add: result_view_appendRows)
    moreover have "rs_status ?s = rs_status s" "\<not> rs_protocolError ?s" using Cons.prems(3) by simp_all
    ultimately show ?thesis
      using Cons.IH [OF inv, of ?s "rows @ new" "n + 1" "k + int (length new)"] True c
      by (simp add: add.assoc split del: if_split cong del: if_weak_cong)
  next
    case False
    let ?s = "s\<lparr>rs_status := StFailed, rs_protocolError := True, rs_error := Some (sequenceError n q)\<rparr>"
    have "result_view ?st tab = (Some (?s, rows), Some n)"
      using Cons.prems False by (simp add: result_view_appendRows)
    from feed_bad [OF inv this] show ?thesis using Cons.prems False c by simp
  qed
qed

lemma view_getResult:
  "result_view st tab = (Some (s, rows), n) \<Longrightarrow>
   (getResult st tab)\<lparr>rs_rows := 0\<rparr> = s \<and> rowsOf st tab = rows"
  by (auto simp: result_view_def getResult_def rowsOf_def)

lemma view_created:
  assumes "results_inv st" "create edits st tab sql pageable page = Inr st0"
  shows "result_view st0 tab = (Some (newSnapshot 0 sql pageable page, []), Some 0)"
  unfolding create_Inr [OF assms(2)] by (simp add: result_view_def newSnapshot_def)

text \<open>Claim C3: whatever chunks the backend sends, the result shows exactly the rows of the
  chunks that arrived in sequence, up to the first gap, and the next row offset counts them.
  A gap marks the result failed; from then on no chunk is taken and no terminal event turns
  the result into a complete one. Without a gap, a terminal event gives the result its status,
  and a query result then offers more rows exactly when the backend counted more rows
  than are shown.\<close>

theorem stream_shows_accepted_prefix:
  assumes inv: "results_inv st" and created: "create edits st tab sql pageable page = Inr st0"
  shows "let st' = feed tab chunks st0; s = getResult st' tab; st'' = setTerminal st' tab t; s' = getResult st'' tab;
             gap = length (accepted 0 chunks) < length chunks
         in rowsOf st' tab = concat (accepted 0 chunks)
          \<and> rs_nextRowOffset s = Some (int (length (rowsOf st' tab)))
          \<and> rs_status s = (if gap then StFailed else StRunning)
          \<and> rowsOf st'' tab = rowsOf st' tab
          \<and> rs_status s' = (if gap then StFailed else te_status t)
          \<and> (page = None \<and> pageable \<longrightarrow>
              (rs_hasMoreRows s' \<longleftrightarrow> \<not> gap \<and> te_status t \<noteq> StFailed
                 \<and> int (length (rowsOf st'' tab)) < nullish (te_rowCount t) 0))"
proof -
  let ?st = "feed tab chunks st0"
  have inv0: "results_inv st0" using inv created by (rule results_inv_create)
  have fresh: "\<not> rs_protocolError (newSnapshot 0 sql pageable page)"
    "rs_nextRowOffset (newSnapshot 0 sql pageable page) = Some 0"
    "rs_status (newSnapshot 0 sql pageable page) = StRunning"
    "rs_tablePage (newSnapshot 0 sql pageable page) = page"
    "rs_pageable (newSnapshot 0 sql pageable page) = pageable"
    by (simp_all add: newSnapshot_def EMPTY_RESULT_def)
  obtain s n where view: "result_view ?st tab = (Some (s, concat (accepted 0 chunks)), Some n)"
    and offset: "rs_nextRowOffset s = Some (int (length (concat (accepted 0 chunks))))"
    and bad: "rs_protocolError s \<longleftrightarrow> length (accepted 0 chunks) < length chunks"
    and status: "rs_status s = (if rs_protocolError s then StFailed else StRunning)"
    and page: "rs_tablePage s = page" "rs_pageable s = pageable"
    using feed_good [OF inv0 view_created [OF inv created] fresh(1,2), of chunks] fresh by auto
  have view': "result_view (setTerminal ?st tab t) tab
      = (Some (terminalSnapshot t s, concat (accepted 0 chunks)), Some n)"
    unfolding setTerminal_def
    by (simp add: result_view_update [OF results_inv_feed [OF inv0]] addr_blind_ops view)
  have eqs: "(getResult ?st tab)\<lparr>rs_rows := 0\<rparr> = s" "rowsOf ?st tab = concat (accepted 0 chunks)"
    "(getResult (setTerminal ?st tab t) tab)\<lparr>rs_rows := 0\<rparr> = terminalSnapshot t s"
    "rowsOf (setTerminal ?st tab t) tab = concat (accepted 0 chunks)"
    using view_getResult [OF view] view_getResult [OF view'] by simp_all
  have fields: "rs_nextRowOffset (getResult ?st tab) = rs_nextRowOffset s" "rs_status (getResult ?st tab) = rs_status s"
    "rs_status (getResult (setTerminal ?st tab t) tab) = rs_status (terminalSnapshot t s)"
    "rs_hasMoreRows (getResult (setTerminal ?st tab t) tab) = rs_hasMoreRows (terminalSnapshot t s)"
    using arg_cong [OF eqs(1), of rs_nextRowOffset] arg_cong [OF eqs(1), of rs_status]
      arg_cong [OF eqs(3), of rs_status] arg_cong [OF eqs(3), of rs_hasMoreRows] by simp_all
  show ?thesis
    unfolding Let_def fields eqs(2,4)
    using offset bad status page by (simp add: terminalSnapshot_def moreRows_def)
qed

theorem stream_shows_accepted_prefix_witness:
  "\<exists>st0. create emptyEditStore emptyResultStore ''r'' (Some ''SELECT 1'') True None = Inr st0
     \<and> rowsOf (feed ''r'' [(0, [[VNull]]), (1, [[VBoolean True]]), (3, [[VNull]])] st0) ''r'' = [[VNull], [VBoolean True]]
     \<and> rs_status (getResult (feed ''r'' [(0, [[VNull]]), (1, [[VBoolean True]]), (3, [[VNull]])] st0) ''r'') = StFailed"
proof -
  obtain st0 where c: "create emptyEditStore emptyResultStore ''r'' (Some ''SELECT 1'') True None = Inr st0"
    by (simp add: create_def emptyEditStore_def emptyResultStore_def getEdits_def EMPTY_EDITS_def)
  from stream_shows_accepted_prefix [OF results_inv_empty c, of "[(0, [[VNull]]), (1, [[VBoolean True]]), (3, [[VNull]])]"]
  show ?thesis using c by (simp add: Let_def)
qed

text \<open>Claim C11: results are isolated from each other although their rows are arrays mutated in
  place. In any interleaving of operations on any tabs (streams, pages, edits, disposals,
  reuse of a tab), what a tab shows is what its own operations make of it.\<close>

theorem result_tabs_isolated:
  "result_view (run_ops result_op ops emptyResultStore) tab
     = result_view (run_ops result_op (filter (\<lambda>q. snd q = tab) ops) emptyResultStore) tab"
  by (rule rsk.run_projection [OF results_inv_empty])

end
