(* ===== verification/Entity_Stores.thy ===== *)
theory Entity_Stores
  imports Db_Types Contracts "HOL-Library.Sorting_Algorithms" "HOL-Library.List_Lexorder" "HOL-Library.Char_ord"
    "HOL-Library.Sublist"
begin

text \<open>
  The small stores under \<open>src/entities\<close>: the query history (\<open>query/historyStore.ts\<close>), the
  saved queries (\<open>query/savedQueryStore.ts\<close>), the open connections
  (\<open>connection/openConnections.ts\<close>) and the AI transcripts (\<open>ai/aiSessionStore.ts\<close>).

  \<open>localeCompare\<close> depends on the user's locale: it is a \<open>comparator\<close>, an argument of the
  operations that sort. Fresh ids and the time are arguments too. Persistence, which may
  fail, is the outcome that the continuation of a commit receives.
\<close>

subsection \<open>Query history\<close>

datatype history_status = HCompleted | HFailed | HCancelled

record history_entry =
  h_id :: string
  h_connectionId :: string
  h_sql :: string
  h_startedAt :: string
  h_durationMs :: "int option"
  h_status :: history_status

record history_store =
  hs_entries :: "history_entry list"
  hs_enabled :: bool

definition MAX_HISTORY :: nat where
  "MAX_HISTORY = 500"

definition emptyHistory :: history_store where
  "emptyHistory = \<lparr>hs_entries = [], hs_enabled = True\<rparr>"

text \<open>\<open>record\<close>; the entry already carries its fresh id.\<close>

definition recordHistory :: "history_store \<Rightarrow> history_entry \<Rightarrow> history_store" where
  "recordHistory st entry =
     (if \<not> hs_enabled st then st
      else st\<lparr>hs_entries := take MAX_HISTORY (entry # hs_entries st)\<rparr>)"

definition removeHistory :: "history_store \<Rightarrow> string \<Rightarrow> history_store" where
  "removeHistory st i = st\<lparr>hs_entries := filter (\<lambda>e. h_id e \<noteq> i) (hs_entries st)\<rparr>"

definition clearHistory :: "history_store \<Rightarrow> string option \<Rightarrow> history_store" where
  "clearHistory st conn = st\<lparr>hs_entries :=
     (if truthy_str conn then filter (\<lambda>e. Some (h_connectionId e) \<noteq> conn) (hs_entries st) else [])\<rparr>"

definition setHistoryEnabled :: "history_store \<Rightarrow> bool \<Rightarrow> history_store" where
  "setHistoryEnabled st on =
     (let st = st\<lparr>hs_enabled := on\<rparr> in if on then st else clearHistory st None)"

datatype history_op =
    RecordHistory history_entry
  | RemoveHistory string
  | ClearHistory "string option"
  | SetHistoryEnabled bool

fun history_step :: "history_store \<Rightarrow> history_op \<Rightarrow> history_store" where
  "history_step st (RecordHistory e) = recordHistory st e"
| "history_step st (RemoveHistory i) = removeHistory st i"
| "history_step st (ClearHistory c) = clearHistory st c"
| "history_step st (SetHistoryEnabled b) = setHistoryEnabled st b"

text \<open>Every entry of the list was recorded, in the order of recording, newest first.\<close>

definition recorded :: "history_op list \<Rightarrow> history_entry list" where
  "recorded ops = concat (map (\<lambda>p. case p of RecordHistory e \<Rightarrow> [e] | _ \<Rightarrow> []) ops)"

definition history_inv :: "history_op list \<Rightarrow> history_store \<Rightarrow> bool" where
  "history_inv ops st \<longleftrightarrow> subseq (hs_entries st) (rev (recorded ops))
     \<and> length (hs_entries st) \<le> MAX_HISTORY \<and> (\<not> hs_enabled st \<longrightarrow> hs_entries st = [])"

lemma recorded_snoc: "recorded (ops @ [p]) = recorded ops @ recorded [p]"
  by (simp add: recorded_def)

lemma subseq_shorter: "subseq xs ys \<Longrightarrow> subseq zs xs \<Longrightarrow> subseq zs ys"
  by (rule subseq_order.order_trans)

lemma history_inv_step:
  assumes "history_inv ops st" shows "history_inv (ops @ [p]) (history_step st p)"
proof (cases p)
  case (RecordHistory e)
  have "subseq (take MAX_HISTORY (e # hs_entries st)) (e # hs_entries st)"
    by (simp add: prefix_imp_subseq take_is_prefix)
  moreover have "subseq (e # hs_entries st) (e # rev (recorded ops))"
    using assms by (simp add: history_inv_def)
  ultimately have "subseq (take MAX_HISTORY (e # hs_entries st)) (e # rev (recorded ops))"
    by (blast intro: subseq_order.order_trans)
  moreover have "subseq (hs_entries st) (e # rev (recorded ops))"
    using assms by (simp add: history_inv_def list_emb_Cons)
  ultimately show ?thesis
    using assms RecordHistory by (simp add: history_inv_def recorded_snoc recordHistory_def) (simp add: recorded_def)
next
  case (RemoveHistory i)
  then show ?thesis using assms
    by (auto simp: history_inv_def recorded_snoc removeHistory_def recorded_def [of "[_]"]
        intro: subseq_shorter order.trans [OF length_filter_le])
next
  case (ClearHistory c)
  then show ?thesis using assms
    by (auto simp: history_inv_def recorded_snoc clearHistory_def recorded_def [of "[_]"]
        intro: subseq_shorter order.trans [OF length_filter_le])
next
  case (SetHistoryEnabled b)
  then show ?thesis using assms
    by (auto simp: history_inv_def recorded_snoc setHistoryEnabled_def clearHistory_def recorded_def [of "[_]"] Let_def)
qed

text \<open>The history is memory bounded and private. After any sequence of operations it
  holds at most 500 entries, a subsequence of the recorded
  ones, newest first; while it is disabled it is empty; and clearing one connection
  removes the entries of that connection and no other.\<close>

theorem history_bounded:
  "(let st = foldl history_step emptyHistory ops in
      length (hs_entries st) \<le> 500 \<and> subseq (hs_entries st) (rev (recorded ops))
      \<and> (\<not> hs_enabled st \<longrightarrow> hs_entries st = []))
   \<and> (c \<noteq> [] \<longrightarrow> hs_entries (clearHistory st' (Some c)) = filter (\<lambda>e. h_connectionId e \<noteq> c) (hs_entries st'))"
proof -
  have "history_inv ops (foldl history_step emptyHistory ops)"
  proof (induction ops rule: rev_induct)
    case Nil
    then show ?case by (simp add: history_inv_def emptyHistory_def)
  next
    case (snoc p ops)
    then show ?case by (simp add: history_inv_step)
  qed
  then show ?thesis by (simp add: history_inv_def MAX_HISTORY_def Let_def clearHistory_def)
qed

theorem history_bounded_witness:
  "hs_entries (clearHistory \<lparr>hs_entries = [\<lparr>h_id = ''1'', h_connectionId = ''a'', h_sql = [], h_startedAt = [],
       h_durationMs = None, h_status = HCompleted\<rparr>], hs_enabled = True\<rparr> (Some ''a'')) = []"
  using history_bounded [of "[]" "''a''" "\<lparr>hs_entries = [\<lparr>h_id = ''1'', h_connectionId = ''a'', h_sql = [], h_startedAt = [],
       h_durationMs = None, h_status = HCompleted\<rparr>], hs_enabled = True\<rparr>"] by simp

subsection \<open>Saved queries\<close>

record saved_query =
  sq_id :: string
  sq_name :: string
  sq_sql :: string
  sq_updatedAt :: string

datatype saved_error = EmptyName | SqlTooLarge | TooManyQueries | NameClash | PersistFailed

type_synonym saved_store = "saved_query list"

definition MAX_SAVED :: nat where
  "MAX_SAVED = 500"

definition MAX_SQL_BYTES :: nat where
  "MAX_SQL_BYTES = 200000"

definition sortByName :: "string comparator \<Rightarrow> saved_query list \<Rightarrow> saved_query list" where
  "sortByName localeCompare entries = Sorting_Algorithms.sort (key sq_name localeCompare) entries"

definition hydrateSaved :: "string comparator \<Rightarrow> saved_query list \<Rightarrow> saved_store" where
  "hydrateSaved localeCompare entries = sortByName localeCompare entries"

definition findSaved :: "saved_store \<Rightarrow> string \<Rightarrow> saved_query option" where
  "findSaved st name = find (\<lambda>e. to_lower (sq_name e) = to_lower (trim name)) st"

text \<open>
  \<open>commit\<close>: the entries are replaced at once, and put back when the snapshot cannot be
  written. The result is the error or the entries after the promise has settled.
\<close>

definition commitSaved :: "string comparator \<Rightarrow> saved_store \<Rightarrow> saved_query list \<Rightarrow> bool \<Rightarrow> (saved_error + unit) \<times> saved_store" where
  "commitSaved localeCompare previous next persisted =
     (if persisted then (Inr (), sortByName localeCompare next) else (Inl PersistFailed, previous))"

definition saveQuery :: "string comparator \<Rightarrow> saved_store \<Rightarrow> string \<Rightarrow> string \<Rightarrow> string \<Rightarrow> string \<Rightarrow> bool
    \<Rightarrow> (saved_error + saved_query) \<times> saved_store" where
  "saveQuery localeCompare st name sql uuid now persisted =
     (let title = trim name in
      if title = [] then (Inl EmptyName, st)
      else if utf8_length sql > MAX_SQL_BYTES then (Inl SqlTooLarge, st)
      else let entry = \<lparr>sq_id = nullish (map_option sq_id (findSaved st title)) uuid, sq_name = title,
                        sq_sql = sql, sq_updatedAt = now\<rparr>;
               rest = filter (\<lambda>e. sq_id e \<noteq> sq_id entry) st
           in if length rest \<ge> MAX_SAVED then (Inl TooManyQueries, st)
              else case commitSaved localeCompare st (rest @ [entry]) persisted of
                     (Inl e, st') \<Rightarrow> (Inl e, st') | (Inr _, st') \<Rightarrow> (Inr entry, st'))"

definition removeSaved :: "string comparator \<Rightarrow> saved_store \<Rightarrow> string \<Rightarrow> bool \<Rightarrow> (saved_error + unit) \<times> saved_store" where
  "removeSaved localeCompare st i persisted =
     commitSaved localeCompare st (filter (\<lambda>e. sq_id e \<noteq> i) st) persisted"

definition renameSaved :: "string comparator \<Rightarrow> saved_store \<Rightarrow> string \<Rightarrow> string \<Rightarrow> bool
    \<Rightarrow> (saved_error + unit) \<times> saved_store" where
  "renameSaved localeCompare st i name persisted =
     (let title = trim name in
      if title = [] then (Inl EmptyName, st)
      else if (case findSaved st title of None \<Rightarrow> False | Some clash \<Rightarrow> sq_id clash \<noteq> i) then (Inl NameClash, st)
      else commitSaved localeCompare st (map (\<lambda>e. if sq_id e = i then e\<lparr>sq_name := title\<rparr> else e) st) persisted)"

text \<open>Ids and names (up to case) identify an entry, names are trimmed, the list is bounded.\<close>

definition saved_inv :: "saved_store \<Rightarrow> bool" where
  "saved_inv st \<longleftrightarrow> distinct (map sq_id st) \<and> distinct (map (\<lambda>e. to_lower (sq_name e)) st)
     \<and> (\<forall>e\<in>set st. trim (sq_name e) = sq_name e \<and> sq_name e \<noteq> []) \<and> length st \<le> MAX_SAVED"

lemma set_sortByName [simp]: "set (sortByName c st) = set st"
  by (simp add: sortByName_def)

lemma saved_inv_sort [simp]: "saved_inv (sortByName c st) = saved_inv st"
proof -
  have mset: "mset (sortByName c st) = mset st" by (simp add: sortByName_def)
  have "mset (map f (sortByName c st)) = mset (map f st)" for f :: "saved_query \<Rightarrow> string"
    using mset by simp
  then have "distinct (map f (sortByName c st)) = distinct (map f st)" for f :: "saved_query \<Rightarrow> string"
    by (rule mset_eq_imp_distinct_iff)
  moreover have "length (sortByName c st) = length st" by (simp add: sortByName_def)
  ultimately show ?thesis by (simp add: saved_inv_def)
qed

lemma distinct_map_eqD: "distinct (map f xs) \<Longrightarrow> x \<in> set xs \<Longrightarrow> y \<in> set xs \<Longrightarrow> f x = f y \<Longrightarrow> x = y"
  by (simp add: distinct_map inj_on_def)

lemma filter_unique_key: "distinct (map f xs) \<Longrightarrow> x \<in> set xs \<Longrightarrow> filter (\<lambda>y. f y = f x) xs = [x]"
  by (induction xs) (auto simp: filter_empty_conv image_iff)

lemma findSaved_iff:
  assumes "saved_inv st"
  shows "findSaved st n = Some e \<longleftrightarrow> e \<in> set st \<and> to_lower (sq_name e) = to_lower (trim n)"
proof
  assume "findSaved st n = Some e"
  then show "e \<in> set st \<and> to_lower (sq_name e) = to_lower (trim n)"
    unfolding findSaved_def find_Some_iff by force
next
  assume e: "e \<in> set st \<and> to_lower (sq_name e) = to_lower (trim n)"
  then obtain e' where e': "findSaved st n = Some e'"
    by (cases "findSaved st n") (auto simp: findSaved_def find_None_iff)
  then have "e' \<in> set st" "to_lower (sq_name e') = to_lower (trim n)"
    unfolding findSaved_def find_Some_iff by force+
  moreover have "distinct (map (\<lambda>e. to_lower (sq_name e)) st)" using assms by (simp add: saved_inv_def)
  ultimately have "e' = e" using e distinct_map_eqD by fastforce
  then show "findSaved st n = Some e" using e' by simp
qed

lemma findSaved_None: "findSaved st n = None \<longleftrightarrow> (\<forall>e\<in>set st. to_lower (sq_name e) \<noteq> to_lower (trim n))"
  by (auto simp: findSaved_def find_None_iff)

lemma saved_inv_filter: "saved_inv st \<Longrightarrow> saved_inv (filter P st)"
  by (auto simp: saved_inv_def distinct_map_filter intro: order.trans [OF length_filter_le])

lemma saved_inv_save:
  assumes inv: "saved_inv st" and fresh: "uuid \<notin> sq_id ` set st" and title: "trim name \<noteq> []"
    and entry: "entry = \<lparr>sq_id = nullish (map_option sq_id (findSaved st (trim name))) uuid, sq_name = trim name,
                        sq_sql = sql, sq_updatedAt = now\<rparr>"
    and rest: "rest = filter (\<lambda>e. sq_id e \<noteq> sq_id entry) st" and len: "length rest < MAX_SAVED"
  shows "saved_inv (rest @ [entry])"
    and "\<And>e. e \<in> set st \<Longrightarrow> sq_id e = sq_id entry \<longleftrightarrow> to_lower (sq_name e) = to_lower (trim name)"
proof -
  have ids: "distinct (map sq_id st)" using inv by (simp add: saved_inv_def)
  show same: "sq_id e = sq_id entry \<longleftrightarrow> to_lower (sq_name e) = to_lower (trim name)" if e: "e \<in> set st" for e
  proof (cases "findSaved st (trim name)")
    case None
    then have "to_lower (sq_name e) \<noteq> to_lower (trim name)" using e by (simp add: findSaved_None)
    moreover have "sq_id e \<noteq> uuid" using fresh e by auto
    ultimately show ?thesis using None by (simp add: entry)
  next
    case (Some x)
    then have x: "x \<in> set st" "to_lower (sq_name x) = to_lower (trim name)" by (simp_all add: findSaved_iff [OF inv])
    have "sq_id e = sq_id x \<longleftrightarrow> e = x" using distinct_map_eqD [OF ids e x(1)] by blast
    moreover have "to_lower (sq_name e) = to_lower (trim name) \<longleftrightarrow> e = x"
      using e x findSaved_iff [OF inv, of "trim name" e] Some by auto
    ultimately show ?thesis using Some by (simp add: entry)
  qed
  have "saved_inv rest" unfolding rest using inv by (rule saved_inv_filter)
  moreover have "to_lower (sq_name entry) \<notin> (\<lambda>e. to_lower (sq_name e)) ` set rest"
    using same by (auto simp: rest entry)
  moreover have "sq_id entry \<notin> sq_id ` set rest" by (auto simp: rest)
  ultimately show "saved_inv (rest @ [entry])"
    using len title by (auto simp: saved_inv_def entry)
qed

lemma saveQuery_Inr:
  assumes "saveQuery c st name sql uuid now ok = (Inr entry, st')"
  shows "trim name \<noteq> [] \<and> ok \<and>
    entry = \<lparr>sq_id = nullish (map_option sq_id (findSaved st (trim name))) uuid, sq_name = trim name,
             sq_sql = sql, sq_updatedAt = now\<rparr>
    \<and> length (filter (\<lambda>e. sq_id e \<noteq> sq_id entry) st) < MAX_SAVED
    \<and> st' = sortByName c (filter (\<lambda>e. sq_id e \<noteq> sq_id entry) st @ [entry])"
  using assms by (auto simp: saveQuery_def Let_def commitSaved_def split: if_splits)

lemma saveQuery_saved:
  assumes inv: "saved_inv st" and fresh: "uuid \<notin> sq_id ` set st"
    and saved: "saveQuery c st name sql uuid now ok = (Inr entry, st')"
  shows "st' = sortByName c (filter (\<lambda>e. sq_id e \<noteq> sq_id entry) st @ [entry])"
    and "saved_inv (filter (\<lambda>e. sq_id e \<noteq> sq_id entry) st @ [entry])"
    and "\<And>e. e \<in> set st \<Longrightarrow> sq_id e = sq_id entry \<longleftrightarrow> to_lower (sq_name e) = to_lower (trim name)"
    and "sq_name entry = trim name" "sq_sql entry = sql"
proof -
  from saveQuery_Inr [OF saved]
  have title: "trim name \<noteq> []"
    and entry: "entry = \<lparr>sq_id = nullish (map_option sq_id (findSaved st (trim name))) uuid, sq_name = trim name,
             sq_sql = sql, sq_updatedAt = now\<rparr>"
    and len: "length (filter (\<lambda>e. sq_id e \<noteq> sq_id entry) st) < MAX_SAVED"
    and st': "st' = sortByName c (filter (\<lambda>e. sq_id e \<noteq> sq_id entry) st @ [entry])" by blast+
  show "st' = sortByName c (filter (\<lambda>e. sq_id e \<noteq> sq_id entry) st @ [entry])" by (fact st')
  show "saved_inv (filter (\<lambda>e. sq_id e \<noteq> sq_id entry) st @ [entry])"
    by (rule saved_inv_save(1) [OF inv fresh title entry refl len])
  show "sq_id e = sq_id entry \<longleftrightarrow> to_lower (sq_name e) = to_lower (trim name)" if "e \<in> set st" for e
    using saved_inv_save(2) [OF inv fresh title entry refl len that] .
  show "sq_name entry = trim name" "sq_sql entry = sql" by (simp_all add: entry)
qed

lemma saved_failure_keeps:
  "fst (saveQuery c st name sql uuid now ok) = Inl e \<Longrightarrow> snd (saveQuery c st name sql uuid now ok) = st"
  "fst (removeSaved c st i ok) = Inl e \<Longrightarrow> snd (removeSaved c st i ok) = st"
  "fst (renameSaved c st i name ok) = Inl e \<Longrightarrow> snd (renameSaved c st i name ok) = st"
  by (auto simp: saveQuery_def removeSaved_def renameSaved_def Let_def commitSaved_def split: if_splits option.splits)

lemma distinct_map_replace:
  assumes "distinct (map f st)" "\<And>e. e \<in> set st \<Longrightarrow> \<not> P e \<Longrightarrow> f e \<noteq> v" "\<And>e e'. e \<in> set st \<Longrightarrow> e' \<in> set st \<Longrightarrow> P e \<Longrightarrow> P e' \<Longrightarrow> e = e'"
  shows "distinct (map (\<lambda>e. if P e then v else f e) st)"
  using assms by (induction st) (auto simp: image_iff)

lemma saved_inv_rename:
  assumes inv: "saved_inv st" and title: "trim name \<noteq> []"
    and clash: "\<And>x. findSaved st (trim name) = Some x \<Longrightarrow> sq_id x = i"
  shows "saved_inv (map (\<lambda>e. if sq_id e = i then e\<lparr>sq_name := trim name\<rparr> else e) st)"
proof -
  let ?f = "\<lambda>e. if sq_id e = i then e\<lparr>sq_name := trim name\<rparr> else e"
  have ids: "distinct (map sq_id st)" and names: "distinct (map (\<lambda>e. to_lower (sq_name e)) st)"
    using inv by (simp_all add: saved_inv_def)
  have "map sq_id (map ?f st) = map sq_id st" by simp
  moreover have "distinct (map (\<lambda>e. if sq_id e = i then to_lower (trim name) else to_lower (sq_name e)) st)"
  proof (rule distinct_map_replace [OF names])
    fix e assume "e \<in> set st" "sq_id e \<noteq> i"
    then show "to_lower (sq_name e) \<noteq> to_lower (trim name)" using clash [of e] findSaved_iff [OF inv, of "trim name" e] by auto
  next
    fix e e' assume "e \<in> set st" "e' \<in> set st" "sq_id e = i" "sq_id e' = i"
    then show "e = e'" using distinct_map_eqD [OF ids] by metis
  qed
  moreover have "map (\<lambda>e. to_lower (sq_name e)) (map ?f st)
      = map (\<lambda>e. if sq_id e = i then to_lower (trim name) else to_lower (sq_name e)) st" by simp
  ultimately show ?thesis
    using inv ids title unfolding saved_inv_def by (auto simp del: map_map)
qed

text \<open>Saved queries stay identifiable. Saving, renaming and removing keep ids unique,
  names unique up to case, trimmed and non-empty, and the list within 500 entries; an
  operation that fails, whatever the reason, leaves the list as it was.\<close>

theorem saved_queries_identifiable:
  assumes inv: "saved_inv st" and fresh: "uuid \<notin> sq_id ` set st"
  shows "saved_inv (snd (saveQuery c st name sql uuid now ok))
    \<and> saved_inv (snd (removeSaved c st i ok))
    \<and> saved_inv (snd (renameSaved c st i name ok))
    \<and> (fst (saveQuery c st name sql uuid now ok) = Inl e \<longrightarrow> snd (saveQuery c st name sql uuid now ok) = st)
    \<and> (fst (renameSaved c st i name ok) = Inl e \<longrightarrow> snd (renameSaved c st i name ok) = st)"
proof (intro conjI impI)
  show "saved_inv (snd (saveQuery c st name sql uuid now ok))"
  proof (cases "fst (saveQuery c st name sql uuid now ok)")
    case (Inr entry)
    then obtain st' where s: "saveQuery c st name sql uuid now ok = (Inr entry, st')" by (cases "saveQuery c st name sql uuid now ok") simp
    show ?thesis unfolding s using saveQuery_saved(1,2) [OF inv fresh s] by simp
  qed (use inv saved_failure_keeps in simp)
  show "saved_inv (snd (removeSaved c st i ok))"
    using inv saved_inv_filter [OF inv] by (simp add: removeSaved_def commitSaved_def)
  show "saved_inv (snd (renameSaved c st i name ok))"
    using inv saved_inv_rename [OF inv, of name i]
    by (auto simp: renameSaved_def Let_def commitSaved_def split: option.splits)
qed (use saved_failure_keeps in blast)+

theorem saved_queries_identifiable_witness:
  "saved_inv (snd (saveQuery default [] ''  a '' ''SELECT 1'' ''u'' ''now'' True))"
  using saved_queries_identifiable [of "[]" "''u''" default "''  a ''" "''SELECT 1''" "''now''" True]
  by (simp add: saved_inv_def)

text \<open>A saved query is found again under its name, in any case and with any
  surrounding blanks, with the SQL just saved; re-saving under the same name overwrites the one
  entry, and every other name finds what it found before.\<close>

theorem save_then_find:
  assumes inv: "saved_inv st" and fresh: "uuid \<notin> sq_id ` set st"
    and saved: "saveQuery c st name sql uuid now ok = (Inr entry, st')"
  shows "findSaved st' name' = (if to_lower (trim name') = to_lower (trim name) then Some entry else findSaved st name')
    \<and> sq_sql entry = sql \<and> length st' = (if findSaved st name = None then Suc (length st) else length st)"
proof (intro conjI)
  let ?rest = "filter (\<lambda>e. sq_id e \<noteq> sq_id entry) st"
  note st' = saveQuery_saved(1) [OF inv fresh saved] and same = saveQuery_saved(3) [OF inv fresh saved]
    and entry = saveQuery_saved(4) [OF inv fresh saved]
  have inv_st': "saved_inv st'" using saveQuery_saved(1,2) [OF inv fresh saved] by simp
  have set_st': "set st' = insert entry (set ?rest)" unfolding st' by simp
  show "findSaved st' name' = (if to_lower (trim name') = to_lower (trim name) then Some entry else findSaved st name')"
  proof (cases "to_lower (trim name') = to_lower (trim name)")
    case True
    then show ?thesis using findSaved_iff [OF inv_st', of name' entry] set_st' entry by simp
  next
    case False
    have "findSaved st' name' = Some e \<longleftrightarrow> findSaved st name' = Some e" for e
      unfolding findSaved_iff [OF inv_st'] findSaved_iff [OF inv] set_st' using False same entry by auto
    then show ?thesis using False by (metis not_None_eq)
  qed
  show "sq_sql entry = sql" using saveQuery_saved(5) [OF inv fresh saved] .
  have "length st' = Suc (length ?rest)" unfolding st' by (simp add: sortByName_def)
  moreover have "findSaved st name = None \<Longrightarrow> ?rest = st"
    using same by (auto simp: findSaved_None filter_id_conv)
  moreover have "Suc (length ?rest) = length st" if x: "findSaved st name = Some x" for x
  proof -
    have "x \<in> set st" "sq_id x = sq_id entry" using x same [of x] by (auto simp: findSaved_iff [OF inv])
    moreover have "distinct (map sq_id st)" using inv by (simp add: saved_inv_def)
    ultimately have "filter (\<lambda>e. sq_id e = sq_id entry) st = [x]"
      by (metis filter_unique_key)
    then show ?thesis using sum_length_filter_compl [of "\<lambda>e. sq_id e = sq_id entry" st] by simp
  qed
  ultimately show "length st' = (if findSaved st name = None then Suc (length st) else length st)"
    by (cases "findSaved st name") simp_all
qed

theorem save_then_find_witness:
  "\<exists>entry st'. saveQuery default [] '' Ab '' ''SELECT 1'' ''u'' ''now'' True = (Inr entry, st')
    \<and> findSaved st' ''aB'' = Some entry"
proof -
  have t: "trim '' Ab '' = ''Ab''" "trim ''aB'' = ''aB''" "to_lower ''Ab'' = ''ab''" "to_lower ''aB'' = ''ab''" by code_simp+
  obtain entry st' where s: "saveQuery default [] '' Ab '' ''SELECT 1'' ''u'' ''now'' True = (Inr entry, st')"
    by (simp add: saveQuery_def Let_def t findSaved_def commitSaved_def MAX_SAVED_def MAX_SQL_BYTES_def utf8_length_def)
  from save_then_find [OF _ _ s, of "''aB''"] show ?thesis using s t by (simp add: saved_inv_def)
qed

end
