(* ===== verification/Query_Channel.thy ===== *)
theory Query_Channel
  imports Workspace_Dispatch Result_Store Entity_Stores
begin

text \<open>
  Executions, \<open>src/shared/ipc/queryChannel.ts\<close>: how a query or a table page is started, how
  the events of its channel reach the result store, the workspace and the history, how chunks
  are acknowledged, and how further rows are loaded. An execution is asynchronous: its
  closure (the tab, the result, the array of rows it fills, the flag \<open>terminal\<close>) is the
  record \<open>execution\<close>, and the code between two awaits is one step on the whole application
  state, so that steps of several executions interleave freely. Calls to the backend that
  nobody waits for are the trace \<open>app_ipc\<close>.
\<close>

subsection \<open>State\<close>

datatype ipc_call = AckChunk string int | CancelQuery string
  | FetchTablePage string string string string | FetchRows string string int

record app =
  app_ws :: workspace_store
  app_edits :: edit_store
  app_results :: result_store
  app_history :: history_store
  app_ipc :: "ipc_call list"

record execution =
  x_connectionId :: string
  x_tabId :: string
  x_resultTabId :: string
  x_executedSql :: "string option"
  x_startedAt :: string
  x_historyId :: string
  x_rows :: nat
  x_terminal :: bool

text \<open>
  The actions dispatched below never throw (\<open>dispatch_execution_actions\<close>), so the state after
  a dispatch is always defined.
\<close>

definition dispatchApp :: "app \<Rightarrow> string \<Rightarrow> workspace_action \<Rightarrow> app" where
  "dispatchApp app conn action = app\<lparr>app_ws := nullish (dispatchWorkspace (app_ws app) conn action) (app_ws app)\<rparr>"

definition sendIpc :: "app \<Rightarrow> ipc_call \<Rightarrow> app" where
  "sendIpc app call = app\<lparr>app_ipc := app_ipc app @ [call]\<rparr>"

definition onResults :: "app \<Rightarrow> (result_store \<Rightarrow> result_store) \<Rightarrow> app" where
  "onResults app f = app\<lparr>app_results := f (app_results app)\<rparr>"

definition isCurrent :: "app \<Rightarrow> execution \<Rightarrow> bool" where
  "isCurrent app x \<longleftrightarrow> rs_rows (getResult (app_results app) (x_resultTabId x)) = x_rows x"

subsection \<open>Starting an execution\<close>

datatype start_error = TabBusy | CreateFailed create_error

definition findTab :: "workspace_store \<Rightarrow> string \<Rightarrow> string \<Rightarrow> query_tab option" where
  "findTab st conn tabId = Option.bind (map_of (wst_states st) conn) (\<lambda>w. find (\<lambda>t. qt_id t = tabId) (ws_tabs w))"

definition startExec :: "app \<Rightarrow> string \<Rightarrow> string \<Rightarrow> string \<Rightarrow> string option \<Rightarrow> table_page option \<Rightarrow> string \<Rightarrow> string
    \<Rightarrow> start_error + (app \<times> execution)" where
  "startExec app conn tabId resultTabId executedSql tablePage startedAt historyId =
     (if truthy_str (Option.bind (findTab (app_ws app) conn tabId) qt_runningExecutionId) then Inl TabBusy
      else case create (app_edits app) (app_results app) resultTabId executedSql (executedSql \<noteq> None) tablePage of
             Inl e \<Rightarrow> Inl (CreateFailed e)
           | Inr results \<Rightarrow>
               Inr (dispatchApp (app\<lparr>app_results := results\<rparr>) conn
                      (EXECUTION_STARTED tabId resultTabId (''pending:'' @ resultTabId) None),
                    \<lparr>x_connectionId = conn, x_tabId = tabId, x_resultTabId = resultTabId,
                     x_executedSql = executedSql, x_startedAt = startedAt, x_historyId = historyId,
                     x_rows = rs_rows (getResult results resultTabId), x_terminal = False\<rparr>))"

definition historyStatus :: "result_status \<Rightarrow> history_status option" where
  "historyStatus s = (case s of StCompleted \<Rightarrow> Some HCompleted | StFailed \<Rightarrow> Some HFailed
     | StCancelled \<Rightarrow> Some HCancelled | _ \<Rightarrow> None)"

definition finish :: "app \<Rightarrow> execution \<Rightarrow> app \<times> execution" where
  "finish app x =
     (if x_terminal x then (app, x)
      else let s = getResult (app_results app) (x_resultTabId x);
               app1 = dispatchApp app (x_connectionId x)
                 (EXECUTION_ENDED (x_tabId x) (x_resultTabId x) (rs_transactionState s));
               app2 = (case (truthy_str (x_executedSql x), historyStatus (rs_status s)) of
                   (True, Some h) \<Rightarrow> app1\<lparr>app_history := recordHistory (app_history app1)
                     \<lparr>h_id = x_historyId x, h_connectionId = x_connectionId x, h_sql = the (x_executedSql x),
                      h_startedAt = x_startedAt x, h_durationMs = rs_durationMs s, h_status = h\<rparr>\<rparr>
                 | _ \<Rightarrow> app1)
           in (app2, x\<lparr>x_terminal := True\<rparr>))"

subsection \<open>The channel\<close>

definition ackEvent :: "app \<Rightarrow> query_stream_event \<Rightarrow> app" where
  "ackEvent app ev = (case ev of EvRows e q rows \<Rightarrow> sendIpc app (AckChunk e q) | _ \<Rightarrow> app)"

definition completedTerminal :: "int \<Rightarrow> bool \<Rightarrow> int \<Rightarrow> transaction_state \<Rightarrow> terminal" where
  "completedTerminal rowCount truncated durationMs tx = \<lparr>te_status = StCompleted, te_error = None,
     te_rowCount = Some rowCount, te_truncated = Some truncated, te_durationMs = Some durationMs,
     te_transactionState = Some tx\<rparr>"

definition failedTerminal :: "app_error \<Rightarrow> int option \<Rightarrow> transaction_state option \<Rightarrow> terminal" where
  "failedTerminal err durationMs tx = \<lparr>te_status = StFailed, te_error = Some err,
     te_rowCount = None, te_truncated = None, te_durationMs = durationMs, te_transactionState = tx\<rparr>"

definition cancelledTerminal :: "int \<Rightarrow> int \<Rightarrow> transaction_state \<Rightarrow> terminal" where
  "cancelledTerminal received durationMs tx = \<lparr>te_status = StCancelled, te_error = None,
     te_rowCount = Some received, te_truncated = None, te_durationMs = Some durationMs,
     te_transactionState = Some tx\<rparr>"

text \<open>The \<open>switch\<close> of \<open>onmessage\<close>: what an event does to the result store.\<close>

fun applyEvent :: "app \<Rightarrow> string \<Rightarrow> query_stream_event \<Rightarrow> app" where
  "applyEvent app tab (EvStarted e pid at) = onResults app (\<lambda>r. setStarted r tab e)"
| "applyEvent app tab (EvColumns e cols) = onResults app (\<lambda>r. setColumns r tab cols)"
| "applyEvent app tab (EvRows e q rows) =
     (let (ok, results) = appendRows (app_results app) tab q rows;
          app1 = app\<lparr>app_results := results\<rparr>;
          app2 = (if ok then app1 else sendIpc app1 (CancelQuery e))
      in ackEvent app2 (EvRows e q rows))"
| "applyEvent app tab (EvNotice e sev msg) = app"
| "applyEvent app tab (EvCommand e tag n) = onResults app (\<lambda>r. setCommand r tab tag n)"
| "applyEvent app tab (EvCompleted e n trunc ms tx) =
     onResults app (\<lambda>r. setTerminal r tab (completedTerminal n trunc ms tx))"
| "applyEvent app tab (EvFailed e err ms tx) =
     onResults app (\<lambda>r. setTerminal r tab (failedTerminal err (Some ms) (Some tx)))"
| "applyEvent app tab (EvCancelled e n ms tx) =
     onResults app (\<lambda>r. setTerminal r tab (cancelledTerminal n ms tx))"

text \<open>The \<open>onEvent\<close> callback of \<open>start\<close>.\<close>

fun onEvent :: "app \<times> execution \<Rightarrow> query_stream_event \<Rightarrow> app \<times> execution" where
  "onEvent (app, x) (EvStarted e pid at) =
     (dispatchApp app (x_connectionId x) (EXECUTION_STARTED (x_tabId x) (x_resultTabId x) e None), x)"
| "onEvent (app, x) (EvCompleted e n trunc ms tx) = finish app x"
| "onEvent (app, x) (EvFailed e err ms tx) = finish app x"
| "onEvent (app, x) (EvCancelled e n ms tx) = finish app x"
| "onEvent (app, x) _ = (app, x)"

definition onmessage :: "app \<times> execution \<Rightarrow> query_stream_event \<Rightarrow> app \<times> execution" where
  "onmessage p ev = (let (app, x) = p in
     if \<not> isCurrent app x then (ackEvent app ev, x)
     else onEvent (applyEvent app (x_resultTabId x) ev, x) ev)"

subsection \<open>The continuations of \<open>start\<close>\<close>

definition onAccepted :: "app \<times> execution \<Rightarrow> execution_accepted \<Rightarrow> app \<times> execution" where
  "onAccepted p acc = (let (app, x) = p;
     app1 = dispatchApp app (x_connectionId x) (SESSION_OPENED (x_tabId x) (xa_sessionId acc)) in
     if \<not> x_terminal x \<and> isCurrent app1 x
     then (dispatchApp app1 (x_connectionId x)
             (EXECUTION_STARTED (x_tabId x) (x_resultTabId x) (xa_executionId acc) (Some (xa_sessionId acc))), x)
     else (app1, x))"

text \<open>What is thrown may have any of the fields of an application error.\<close>

record rejection =
  rj_code :: "string option"
  rj_message :: "string option"
  rj_sqlState :: "string option"
  rj_position :: "int option"
  rj_detail :: "string option"
  rj_hint :: "string option"
  rj_text :: string

definition rejectionError :: "rejection \<Rightarrow> app_error" where
  "rejectionError err = \<lparr>ae_code = nullish (rj_code err) ''QUERY_FAILED'',
     ae_message = nullish (rj_message err) (rj_text err), ae_retryable = False,
     ae_sqlState = rj_sqlState err, ae_position = rj_position err, ae_detail = rj_detail err,
     ae_hint = rj_hint err\<rparr>"

definition onRejected :: "app \<times> execution \<Rightarrow> rejection \<Rightarrow> app \<times> execution" where
  "onRejected p err = (let (app, x) = p in
     if isCurrent app x \<and> \<not> x_terminal x
     then finish (onResults app (\<lambda>r. setTerminal r (x_resultTabId x)
            (failedTerminal (rejectionError err) None None))) x
     else (app, x))"

text \<open>The two callers.\<close>

definition runQuery :: "app \<Rightarrow> string \<Rightarrow> string \<Rightarrow> string \<Rightarrow> string \<Rightarrow> string \<Rightarrow> string
    \<Rightarrow> start_error + (app \<times> execution)" where
  "runQuery app conn tabId resultTabId sql startedAt historyId =
     startExec app conn tabId resultTabId (Some sql) None startedAt historyId"

definition runTableData :: "app \<Rightarrow> string \<Rightarrow> string \<Rightarrow> string \<Rightarrow> int \<Rightarrow> string \<Rightarrow> string
    \<Rightarrow> start_error + (app \<times> execution)" where
  "runTableData app conn tabId resultTabId limit startedAt historyId =
     startExec app conn tabId resultTabId None
       (Some \<lparr>tp_connectionId = conn, tp_queryTabId = tabId, tp_pageSize = limit\<rparr>) startedAt historyId"

subsection \<open>Loading more rows\<close>

record page_load =
  pl_tab :: string
  pl_rows :: nat
  pl_offset :: int
  pl_tablePage :: bool

definition loadMoreRows :: "app \<Rightarrow> string \<Rightarrow> (app \<times> page_load) option" where
  "loadMoreRows app tab =
     (let s = getResult (app_results app) tab in
      if \<not> rs_hasMoreRows s \<or> rs_loadingMore s \<or> \<not> truthy_str (rs_executionId s) then None
      else let offset = nullish (rs_nextRowOffset s) 0;
               app1 = onResults app (\<lambda>r. setPageLoading r tab True None);
               e = the (rs_executionId s)
           in Some (sendIpc app1 (case rs_tablePage s of
                 Some p \<Rightarrow> FetchTablePage (tp_connectionId p) (tp_queryTabId p) tab e
               | None \<Rightarrow> FetchRows tab e offset),
              \<lparr>pl_tab = tab, pl_rows = rs_rows s, pl_offset = offset, pl_tablePage = rs_tablePage s \<noteq> None\<rparr>))"

definition isCurrentLoad :: "app \<Rightarrow> page_load \<Rightarrow> bool" where
  "isCurrentLoad app l \<longleftrightarrow> rs_rows (getResult (app_results app) (pl_tab l)) = pl_rows l"

definition onPageFailed :: "app \<Rightarrow> page_load \<Rightarrow> string \<Rightarrow> app" where
  "onPageFailed app l msg =
     (if isCurrentLoad app l then onResults app (\<lambda>r. setPageLoading r (pl_tab l) False (Some msg)) else app)"

text \<open>The message of the error that a page out of order throws is an argument.\<close>

definition onPage :: "app \<Rightarrow> page_load \<Rightarrow> result_page \<Rightarrow> string \<Rightarrow> app" where
  "onPage app l page orderError =
     (if \<not> isCurrentLoad app l then app
      else if (\<not> pl_tablePage l \<and> pg_nextOffset page \<noteq> pl_offset l + int (length (pg_rows page)))
              \<or> (pg_hasMore page \<and> pg_rows page = [])
      then onPageFailed app l orderError
      else onResults app (\<lambda>r. appendPage r (pl_tab l) page))"

subsection \<open>Frames\<close>

lemma dispatch_execution_actions:
  "dispatchWorkspace st conn (EXECUTION_STARTED i r e sid) \<noteq> None"
  "dispatchWorkspace st conn (EXECUTION_ENDED i r tx) \<noteq> None"
  "dispatchWorkspace st conn (SESSION_OPENED i sess) \<noteq> None"
  by (simp_all add: dispatchWorkspace_def split: option.splits)

lemma dispatchApp_frame [simp]:
  "app_results (dispatchApp app conn a) = app_results app" "app_edits (dispatchApp app conn a) = app_edits app"
  "app_history (dispatchApp app conn a) = app_history app" "app_ipc (dispatchApp app conn a) = app_ipc app"
  by (simp_all add: dispatchApp_def)

lemma onResults_frame [simp]:
  "app_results (onResults app f) = f (app_results app)" "app_edits (onResults app f) = app_edits app"
  "app_history (onResults app f) = app_history app" "app_ipc (onResults app f) = app_ipc app"
  "app_ws (onResults app f) = app_ws app"
  by (simp_all add: onResults_def)

lemma sendIpc_frame [simp]:
  "app_results (sendIpc app c) = app_results app" "app_edits (sendIpc app c) = app_edits app"
  "app_history (sendIpc app c) = app_history app" "app_ipc (sendIpc app c) = app_ipc app @ [c]"
  "app_ws (sendIpc app c) = app_ws app"
  by (simp_all add: sendIpc_def)

definition acks :: "query_stream_event list \<Rightarrow> ipc_call list" where
  "acks evs = concat (map (\<lambda>ev. case ev of EvRows e q rows \<Rightarrow> [AckChunk e q] | _ \<Rightarrow> []) evs)"

lemma acks_simps [simp]:
  "acks [] = []" "acks (xs @ ys) = acks xs @ acks ys"
  by (simp_all add: acks_def)

lemma ackEvent_eq: "ackEvent app ev = app\<lparr>app_ipc := app_ipc app @ acks [ev]\<rparr>"
  by (cases ev) (simp_all add: ackEvent_def sendIpc_def acks_def)

lemma finish_frame [simp]:
  "app_results (fst (finish app x)) = app_results app" "app_edits (fst (finish app x)) = app_edits app"
  "app_ipc (fst (finish app x)) = app_ipc app"
  "x_rows (snd (finish app x)) = x_rows x" "x_resultTabId (snd (finish app x)) = x_resultTabId x"
  "x_connectionId (snd (finish app x)) = x_connectionId x" "x_tabId (snd (finish app x)) = x_tabId x"
  "x_executedSql (snd (finish app x)) = x_executedSql x" "x_terminal (snd (finish app x))"
  by (simp_all add: finish_def Let_def split: option.splits bool.splits)

lemma onEvent_frame [simp]:
  "app_results (fst (onEvent (app, x) ev)) = app_results app" "app_edits (fst (onEvent (app, x) ev)) = app_edits app"
  "app_ipc (fst (onEvent (app, x) ev)) = app_ipc app"
  "x_rows (snd (onEvent (app, x) ev)) = x_rows x" "x_resultTabId (snd (onEvent (app, x) ev)) = x_resultTabId x"
  by (cases ev; simp)+

lemma rs_rows_update:
  "keeps_array fn \<Longrightarrow> rs_rows (getResult (update_snapshot st tab fn) tab') = rs_rows (getResult st tab')"
  by (cases "map_of (rst_states st) tab") (simp_all add: getResult_def map_of_update_snapshot keeps_array_def)

lemma rs_rows_append: "rs_rows (getResult (snd (appendRows st tab q rows)) tab') = rs_rows (getResult st tab')"
proof -
  have seq: "getResult (st\<lparr>rst_nextSequence := m\<rparr>) t = getResult st t" for t m by (simp add: getResult_def)
  show ?thesis
    by (auto simp: appendRows_def rs_rows_update keeps_array_def seq split: option.splits)
qed

lemma applyEvent_array: "rs_rows (getResult (app_results (applyEvent app tab ev)) tab') = rs_rows (getResult (app_results app) tab')"
proof (cases ev)
  case (EvRows e q rows)
  then show ?thesis using rs_rows_append [of "app_results app" tab q rows tab']
    by (auto simp: Let_def ackEvent_eq split: prod.splits)
qed (simp_all add: simple_ops rs_rows_update addr_blind_keeps addr_blind_ops)

lemma isCurrent_onmessage:
  "isCurrent (fst (onmessage p ev)) (snd (onmessage p ev)) = isCurrent (fst p) (snd p)"
  by (cases p) (simp add: onmessage_def isCurrent_def ackEvent_eq applyEvent_array)

lemma isCurrent_messages:
  "isCurrent (fst (foldl onmessage p evs)) (snd (foldl onmessage p evs)) = isCurrent (fst p) (snd p)"
  by (induction evs arbitrary: p) (simp_all add: isCurrent_onmessage)

lemma stale_onmessage: "\<not> isCurrent app x \<Longrightarrow> onmessage (app, x) ev = (app\<lparr>app_ipc := app_ipc app @ acks [ev]\<rparr>, x)"
  by (simp add: onmessage_def ackEvent_eq)

lemma isCurrent_ipc [simp]: "isCurrent (app\<lparr>app_ipc := c\<rparr>) x = isCurrent app x"
  by (simp add: isCurrent_def)

lemma stale_messages:
  "\<not> isCurrent app x \<Longrightarrow> foldl onmessage (app, x) evs = (app\<lparr>app_ipc := app_ipc app @ acks evs\<rparr>, x)"
proof (induction evs arbitrary: app)
  case (Cons ev evs)
  then show ?case by (simp add: stale_onmessage) (simp add: acks_def)
qed simp

lemma startExec_Inr:
  assumes "startExec app conn i r sql page at hid = Inr (app', x)"
  obtains results where "create (app_edits app) (app_results app) r sql (sql \<noteq> None) page = Inr results"
    and "app' = dispatchApp (app\<lparr>app_results := results\<rparr>) conn (EXECUTION_STARTED i r (''pending:'' @ r) None)"
    and "x = \<lparr>x_connectionId = conn, x_tabId = i, x_resultTabId = r, x_executedSql = sql, x_startedAt = at,
      x_historyId = hid, x_rows = rst_fresh (app_results app), x_terminal = False\<rparr>"
    and "rs_rows (getResult results r) = rst_fresh (app_results app)"
proof -
  obtain results where c: "create (app_edits app) (app_results app) r sql (sql \<noteq> None) page = Inr results"
    using assms by (auto simp: startExec_def split: if_splits sum.splits)
  have rows: "rs_rows (getResult results r) = rst_fresh (app_results app)"
    unfolding create_Inr [OF c] by (simp add: getResult_def)
  show thesis by (rule that [OF c]) (use assms c rows in \<open>simp_all add: startExec_def split: if_splits\<close>)
qed

subsection \<open>Properties\<close>

text \<open>Claim C4: an execution whose result was replaced or closed cannot disturb anything. Once its
  result tab has been refilled by a newer execution, or disposed of, its later messages, in
  any number and order, and its failure change neither the rows, the workspace, the edits nor
  the history; its chunks are still acknowledged, so the backend is never left waiting.\<close>

theorem superseded_execution_inert:
  assumes old: "0 < x_rows x" "x_rows x < rst_fresh (app_results app)"
    and "startExec app conn i (x_resultTabId x) sql page at hid = Inr (app1, y)
       \<or> app1 = app\<lparr>app_results := snd (dispose (app_edits app, app_results app) (x_resultTabId x)),
                      app_edits := fst (dispose (app_edits app, app_results app) (x_resultTabId x))\<rparr>"
  shows "foldl onmessage (app1, x) evs = (app1\<lparr>app_ipc := app_ipc app1 @ acks evs\<rparr>, x)
    \<and> onRejected (foldl onmessage (app1, x) evs) err = foldl onmessage (app1, x) evs"
proof -
  from assms(3) have stale: "\<not> isCurrent app1 x"
  proof
    assume "startExec app conn i (x_resultTabId x) sql page at hid = Inr (app1, y)"
    then show ?thesis
      by (rule startExec_Inr) (use old in \<open>simp add: isCurrent_def\<close>)
  next
    assume "app1 = app\<lparr>app_results := snd (dispose (app_edits app, app_results app) (x_resultTabId x)),
                      app_edits := fst (dispose (app_edits app, app_results app) (x_resultTabId x))\<rparr>"
    then show ?thesis using old by (simp add: isCurrent_def dispose_def getResult_def EMPTY_RESULT_def)
  qed
  then show ?thesis by (simp add: stale_messages onRejected_def)
qed

definition example_app :: app where
  "example_app = \<lparr>app_ws = \<lparr>wst_states = [(''c'', example_ws)], wst_emits = []\<rparr>, app_edits = emptyEditStore,
     app_results = emptyResultStore\<lparr>rst_fresh := 2\<rparr>, app_history = emptyHistory, app_ipc = []\<rparr>"

theorem superseded_execution_inert_witness:
  "let x = \<lparr>x_connectionId = ''c'', x_tabId = ''a'', x_resultTabId = ''r'', x_executedSql = None, x_startedAt = [],
        x_historyId = ''h'', x_rows = 1, x_terminal = False\<rparr>;
       app1 = example_app\<lparr>app_results := snd (dispose (app_edits example_app, app_results example_app) ''r''),
                      app_edits := fst (dispose (app_edits example_app, app_results example_app) ''r'')\<rparr>
   in foldl onmessage (app1, x) [EvRows ''e'' 0 [[VNull]]] = (app1\<lparr>app_ipc := [AckChunk ''e'' 0]\<rparr>, x)"
proof -
  let ?x = "\<lparr>x_connectionId = ''c'', x_tabId = ''a'', x_resultTabId = ''r'', x_executedSql = None, x_startedAt = [],
        x_historyId = ''h'', x_rows = 1, x_terminal = False\<rparr>"
  show ?thesis
    using superseded_execution_inert [of ?x example_app "''c''" "''a''" None None "[]" "''h''" _ undefined "[EvRows ''e'' 0 [[VNull]]]"]
    by (simp add: Let_def example_app_def acks_def)
qed

definition is_ack :: "ipc_call \<Rightarrow> bool" where
  "is_ack c = (case c of AckChunk e q \<Rightarrow> True | _ \<Rightarrow> False)"

lemma filter_is_ack_acks: "filter is_ack (acks evs) = acks evs"
proof (induction evs)
  case (Cons ev evs)
  then show ?case by (cases ev) (simp_all add: acks_def is_ack_def)
qed simp

lemma acks_applyEvent:
  "filter is_ack (app_ipc (applyEvent app tab ev)) = filter is_ack (app_ipc app) @ acks [ev]"
  by (cases ev) (simp_all add: acks_def is_ack_def Let_def ackEvent_eq split: prod.splits)

lemma acks_onmessage:
  "filter is_ack (app_ipc (fst (onmessage p ev))) = filter is_ack (app_ipc (fst p)) @ acks [ev]"
  by (cases p) (simp add: onmessage_def ackEvent_eq acks_applyEvent filter_is_ack_acks)

text \<open>Every chunk of rows that arrives is acknowledged, once and in the order of
  arrival, whatever the state of the tab and whether the chunk was accepted or not, and
  nothing else is acknowledged.\<close>

theorem every_chunk_acknowledged_once:
  "filter is_ack (app_ipc (fst (foldl onmessage p evs))) = filter is_ack (app_ipc (fst p)) @ acks evs"
proof (induction evs arbitrary: p)
  case (Cons ev evs)
  show ?case using Cons.IH [of "onmessage p ev"] acks_onmessage [of p ev] by (simp add: acks_def)
qed simp

end
