(* ===== verification/Query_Protocol.thy ===== *)
theory Query_Protocol
  imports Query_Channel
begin

text \<open>
  What the steps of \<open>Query_Channel\<close> amount to over whole executions: an execution ends at most
  once, a query that runs to completion shows all its rows and frees its tab, a tab runs one
  query at a time, and loading more rows keeps the rows consecutive.
\<close>

subsection \<open>An execution ends once\<close>

datatype exec_event = Message query_stream_event | Accepted execution_accepted | Rejected rejection

fun exec_step :: "app \<times> execution \<Rightarrow> exec_event \<Rightarrow> app \<times> execution" where
  "exec_step p (Message ev) = onmessage p ev"
| "exec_step p (Accepted acc) = onAccepted p acc"
| "exec_step p (Rejected err) = onRejected p err"

text \<open>The entry that an execution may leave in the history, up to duration and status.\<close>

definition entry_of :: "execution \<Rightarrow> int option \<Rightarrow> history_status \<Rightarrow> history_entry" where
  "entry_of x ms h = \<lparr>h_id = x_historyId x, h_connectionId = x_connectionId x, h_sql = the (x_executedSql x),
     h_startedAt = x_startedAt x, h_durationMs = ms, h_status = h\<rparr>"

lemma finish_history:
  "\<not> x_terminal x \<Longrightarrow>
   app_history (fst (finish app x)) =
     (let s = getResult (app_results app) (x_resultTabId x) in
      case historyStatus (rs_status s) of
        Some h \<Rightarrow> if truthy_str (x_executedSql x)
                  then recordHistory (app_history app) (entry_of x (rs_durationMs s) h) else app_history app
      | None \<Rightarrow> app_history app)"
  by (simp add: finish_def Let_def entry_of_def split: option.splits bool.splits)

definition same_exec :: "execution \<Rightarrow> execution \<Rightarrow> bool" where
  "same_exec x y \<longleftrightarrow> y\<lparr>x_terminal := x_terminal x\<rparr> = x"

lemma same_exec_refl [simp]: "same_exec x x"
  by (simp add: same_exec_def)

lemma same_exec_terminal [simp]: "same_exec x (x\<lparr>x_terminal := b\<rparr>)"
  by (simp add: same_exec_def)

lemma same_exec_entry: "same_exec x y \<Longrightarrow> entry_of y ms h = entry_of x ms h"
proof -
  assume "same_exec x y"
  then have x: "x = y\<lparr>x_terminal := x_terminal x\<rparr>" by (simp add: same_exec_def)
  show "entry_of y ms h = entry_of x ms h" by (subst x) (simp add: entry_of_def)
qed

lemma same_exec_trans: "same_exec x y \<Longrightarrow> same_exec y z \<Longrightarrow> same_exec x z"
proof -
  assume "same_exec x y" "same_exec y z"
  then have x: "x = y\<lparr>x_terminal := x_terminal x\<rparr>" and y: "y = z\<lparr>x_terminal := x_terminal y\<rparr>"
    by (simp_all add: same_exec_def)
  have "x = z\<lparr>x_terminal := x_terminal x\<rparr>" by (subst x, subst y) simp
  then show "same_exec x z" by (simp add: same_exec_def)
qed

lemma finish_same: "same_exec x (snd (finish app x))"
  by (simp add: finish_def Let_def)

text \<open>One step: before the end it may end the execution and record it, afterwards neither.\<close>

definition ends_once :: "app \<times> execution \<Rightarrow> app \<times> execution \<Rightarrow> bool" where
  "ends_once p q \<longleftrightarrow> same_exec (snd p) (snd q)
     \<and> (x_terminal (snd p) \<longrightarrow> x_terminal (snd q) \<and> app_history (fst q) = app_history (fst p))
     \<and> (\<not> x_terminal (snd q) \<longrightarrow> app_history (fst q) = app_history (fst p))
     \<and> (app_history (fst q) = app_history (fst p)
        \<or> truthy_str (x_executedSql (snd p))
          \<and> (\<exists>ms h. app_history (fst q) = recordHistory (app_history (fst p)) (entry_of (snd p) ms h)))"

lemma ends_once_refl: "app_history app' = app_history app \<Longrightarrow> ends_once (app, x) (app', x)"
  by (simp add: ends_once_def)

lemma ends_once_finish:
  "app_history app' = app_history app \<Longrightarrow> ends_once (app, x) (finish app' x)"
proof (cases "x_terminal x")
  case True
  assume "app_history app' = app_history app"
  moreover have "finish app' x = (app', x)" using True by (simp add: finish_def)
  ultimately show ?thesis by (simp add: ends_once_refl)
next
  case False
  assume "app_history app' = app_history app"
  then show ?thesis
    using False finish_same [of x app'] finish_history [OF False, of app']
    by (auto simp: ends_once_def Let_def split: option.splits)
qed

lemma applyEvent_frame [simp]:
  "app_history (applyEvent app tab ev) = app_history app" "app_ws (applyEvent app tab ev) = app_ws app"
  "app_edits (applyEvent app tab ev) = app_edits app"
  by (cases ev; simp add: Let_def ackEvent_eq split: prod.splits)+

lemma ends_once_step: "ends_once p (exec_step p e)"
proof -
  obtain app x where p: "p = (app, x)" by (cases p)
  show ?thesis
  proof (cases e)
    case (Message ev)
    show ?thesis
    proof (cases "isCurrent app x")
      case True
      then have "exec_step p e = onEvent (applyEvent app (x_resultTabId x) ev, x) ev"
        unfolding Message p by (simp add: onmessage_def)
      then show ?thesis unfolding p by (cases ev) (simp_all add: ends_once_refl ends_once_finish del: applyEvent.simps)
    next
      case False
      then show ?thesis unfolding Message p by (simp add: stale_onmessage ends_once_refl)
    qed
  next
    case (Accepted acc)
    then show ?thesis unfolding p by (simp add: onAccepted_def Let_def ends_once_refl)
  next
    case (Rejected err)
    then show ?thesis unfolding p by (simp add: onRejected_def ends_once_refl ends_once_finish)
  qed
qed

lemma ends_once_trans: "ends_once p q \<Longrightarrow> ends_once q r \<Longrightarrow> ends_once p r"
proof -
  assume pq: "ends_once p q" and qr: "ends_once q r"
  have same: "same_exec (snd p) (snd q)" using pq by (simp add: ends_once_def)
  then have sql: "x_executedSql (snd q) = x_executedSql (snd p)"
    by (metis execution.select_convs(4) execution.surjective execution.update_convs(8) same_exec_def)
  show "ends_once p r"
    using pq qr same_exec_trans [OF same] same_exec_entry [OF same] sql unfolding ends_once_def by metis
qed



subsection \<open>A query from start to end\<close>

text \<open>The row events of one execution, numbered from \<open>n\<close>.\<close>

fun rowEvents :: "string \<Rightarrow> int \<Rightarrow> db_value list list list \<Rightarrow> query_stream_event list" where
  "rowEvents e n [] = []"
| "rowEvents e n (c # cs) = EvRows e n c # rowEvents e (n + 1) cs"

lemma find_map_updateTab:
  "(\<And>t. qt_id (f t) = qt_id t) \<Longrightarrow>
   find (\<lambda>t. qt_id t = i) (map (\<lambda>t. if qt_id t = j then f t else t) ts)
     = map_option (\<lambda>t. if qt_id t = j then f t else t) (find (\<lambda>t. qt_id t = i) ts)"
  by (induction ts) auto

lemma findTab_dispatch:
  assumes "\<And>s. workspaceReducer s a = Some (updateTab s i f)" "\<And>t. qt_id (f t) = qt_id t"
  shows "findTab (app_ws (dispatchApp app conn a)) conn i = map_option f (findTab (app_ws app) conn i)"
proof (cases "map_of (wst_states (app_ws app)) conn")
  case (Some w)
  have "map_option (\<lambda>t. if qt_id t = i then f t else t) (find (\<lambda>t. qt_id t = i) (ws_tabs w))
      = map_option f (find (\<lambda>t. qt_id t = i) (ws_tabs w))"
    by (cases "find (\<lambda>t. qt_id t = i) (ws_tabs w)") (auto dest: find_SomeD)
  then show ?thesis
    using Some assms
    by (simp add: findTab_def dispatchApp_def dispatchWorkspace_def updateTab_def find_map_updateTab)
qed (simp add: findTab_def dispatchApp_def dispatchWorkspace_def)

lemma findTab_started:
  "findTab (app_ws (dispatchApp app conn (EXECUTION_STARTED i r e sid))) conn i
     = map_option (startExecution r e sid) (findTab (app_ws app) conn i)"
  by (rule findTab_dispatch) (simp_all add: startExecution_def updateResult_def)

lemma findTab_ended:
  "findTab (app_ws (dispatchApp app conn (EXECUTION_ENDED i r tx))) conn i
     = map_option (endExecution r tx) (findTab (app_ws app) conn i)"
  by (rule findTab_dispatch) (simp_all add: endExecution_def updateResult_def)

lemma view_setStarted:
  "results_inv st \<Longrightarrow> result_view st tab = (Some (s, rows), n) \<Longrightarrow>
   result_view (setStarted st tab e) tab = (Some (s\<lparr>rs_executionId := Some e, rs_status := StRunning\<rparr>, rows), n)"
  by (simp add: setStarted_def result_view_update addr_blind_ops)

lemma view_setColumns:
  "results_inv st \<Longrightarrow> result_view st tab = (Some (s, rows), n) \<Longrightarrow>
   result_view (setColumns st tab cols) tab = (Some (s\<lparr>rs_columns := cols\<rparr>, rows), n)"
  by (simp add: setColumns_def result_view_update addr_blind_ops)

lemma view_setTerminal:
  "results_inv st \<Longrightarrow> result_view st tab = (Some (s, rows), n) \<Longrightarrow>
   result_view (setTerminal st tab t) tab = (Some (terminalSnapshot t s, rows), n)"
  by (simp add: setTerminal_def result_view_update addr_blind_ops)

text \<open>In sequence, the row events append their rows and touch nothing else.\<close>

lemma rows_in_sequence:
  "results_inv (app_results app) \<Longrightarrow> isCurrent app x \<Longrightarrow>
   result_view (app_results app) (x_resultTabId x) = (Some (s, rows), Some n) \<Longrightarrow> \<not> rs_protocolError s \<Longrightarrow>
   \<exists>app' s' n'. foldl onmessage (app, x) (rowEvents e n chunks) = (app', x)
     \<and> results_inv (app_results app') \<and> isCurrent app' x
     \<and> result_view (app_results app') (x_resultTabId x) = (Some (s', rows @ concat chunks), Some n')
     \<and> s' = s\<lparr>rs_nextRowOffset := rs_nextRowOffset s'\<rparr>
     \<and> app_ws app' = app_ws app \<and> app_history app' = app_history app"
proof (induction chunks arbitrary: app s rows n)
  case Nil
  then show ?case by simp
next
  case (Cons c cs)
  let ?tab = "x_resultTabId x"
  obtain ok st1 where ap: "appendRows (app_results app) ?tab n c = (ok, st1)" by (cases "appendRows (app_results app) ?tab n c")
  obtain app1 where msg: "onmessage (app, x) (EvRows e n c) = (app1, x)"
    and app1: "app1 = applyEvent app ?tab (EvRows e n c)"
    using Cons.prems(2) by (simp add: onmessage_def)
  have res: "app_results app1 = snd (appendRows (app_results app) ?tab n c)"
    by (simp add: app1 ap ackEvent_eq Let_def)
  have inv: "results_inv (app_results app1)" unfolding res using Cons.prems(1) by (rule results_inv_appendRows)
  have cur: "isCurrent app1 x" using isCurrent_onmessage [of "(app, x)" "EvRows e n c"] Cons.prems(2) msg by simp
  let ?s = "s\<lparr>rs_nextRowOffset := Some (nullish (rs_nextRowOffset s) 0 + int (length c))\<rparr>"
  have view: "result_view (app_results app1) ?tab = (Some (?s, rows @ c), Some (n + 1))"
    unfolding res using Cons.prems(1,3,4) by (simp add: result_view_appendRows)
  have ok: "\<not> rs_protocolError ?s" using Cons.prems(4) by simp
  obtain app' s' n' where "foldl onmessage (app1, x) (rowEvents e (n + 1) cs) = (app', x)"
     "results_inv (app_results app')" "isCurrent app' x"
     "result_view (app_results app') ?tab = (Some (s', (rows @ c) @ concat cs), Some n')"
     "s' = ?s\<lparr>rs_nextRowOffset := rs_nextRowOffset s'\<rparr>"
     "app_ws app' = app_ws app1" "app_history app' = app_history app1"
    using Cons.IH [OF inv cur view ok] by blast
  moreover have "app_ws app1 = app_ws app" "app_history app1 = app_history app" by (simp_all add: app1 del: applyEvent.simps)
  ultimately show ?case using msg by (intro exI [of _ app'] exI [of _ s'] exI [of _ n']) simp
qed

lemma view_fields:
  assumes "result_view st tab = (Some (s, rows), n)"
  shows "rs_status (getResult st tab) = rs_status s" "rs_durationMs (getResult st tab) = rs_durationMs s"
    "rs_transactionState (getResult st tab) = rs_transactionState s" "rs_columns (getResult st tab) = rs_columns s"
    "rowsOf st tab = rows"
proof -
  have g: "(getResult st tab)\<lparr>rs_rows := 0\<rparr> = s" using view_getResult [OF assms] by simp
  show "rs_status (getResult st tab) = rs_status s" "rs_durationMs (getResult st tab) = rs_durationMs s"
    "rs_transactionState (getResult st tab) = rs_transactionState s" "rs_columns (getResult st tab) = rs_columns s"
    using arg_cong [OF g, of rs_status] arg_cong [OF g, of rs_durationMs] arg_cong [OF g, of rs_transactionState]
      arg_cong [OF g, of rs_columns] by simp_all
  show "rowsOf st tab = rows" using view_getResult [OF assms] by simp
qed

text \<open>The run up to the last chunk.\<close>

lemma query_streams:
  assumes inv: "results_inv (app_results app)"
    and started: "runQuery app conn i r sql at hid = Inr (app0, x)"
  obtains app' s' n' where
    "foldl onmessage (app0, x) (EvStarted e pid at' # EvColumns e cols # rowEvents e 0 chunks) = (app', x)"
    "results_inv (app_results app')" "isCurrent app' x"
    "result_view (app_results app') r = (Some (s', concat chunks), Some n')"
    "\<not> rs_protocolError s'" "rs_columns s' = cols"
    "findTab (app_ws app') conn i = map_option (startExecution r e None \<circ> startExecution r (''pending:'' @ r) None)
       (findTab (app_ws app) conn i)"
    "app_history app' = app_history app"
    "x = \<lparr>x_connectionId = conn, x_tabId = i, x_resultTabId = r, x_executedSql = Some sql, x_startedAt = at,
      x_historyId = hid, x_rows = rst_fresh (app_results app), x_terminal = False\<rparr>"
proof -
  obtain results where c: "create (app_edits app) (app_results app) r (Some sql) (Some sql \<noteq> None) None = Inr results"
    and app0: "app0 = dispatchApp (app\<lparr>app_results := results\<rparr>) conn (EXECUTION_STARTED i r (''pending:'' @ r) None)"
    and x: "x = \<lparr>x_connectionId = conn, x_tabId = i, x_resultTabId = r, x_executedSql = Some sql, x_startedAt = at,
      x_historyId = hid, x_rows = rst_fresh (app_results app), x_terminal = False\<rparr>"
    and rows: "rs_rows (getResult results r) = rst_fresh (app_results app)"
    using started unfolding runQuery_def by (rule startExec_Inr)
  let ?s0 = "newSnapshot 0 (Some sql) True None"
  have inv0: "results_inv (app_results app0)" using results_inv_create [OF inv c] by (simp add: app0)
  have view0: "result_view (app_results app0) r = (Some (?s0, []), Some 0)"
    using view_created [OF inv c] by (simp add: app0)
  have cur0: "isCurrent app0 x" by (simp add: isCurrent_def app0 rows x)
  let ?app1 = "dispatchApp (onResults app0 (\<lambda>q. setStarted q r e)) conn (EXECUTION_STARTED i r e None)"
  let ?app2 = "onResults ?app1 (\<lambda>q. setColumns q r cols)"
  have m1: "onmessage (app0, x) (EvStarted e pid at') = (?app1, x)" using cur0 by (simp add: onmessage_def x)
  have cur1: "isCurrent ?app1 x" using isCurrent_onmessage [of "(app0, x)" "EvStarted e pid at'"] cur0 m1 by simp
  have m2: "onmessage (?app1, x) (EvColumns e cols) = (?app2, x)" using cur1 by (simp add: onmessage_def x)
  have cur2: "isCurrent ?app2 x" using isCurrent_onmessage [of "(?app1, x)" "EvColumns e cols"] cur1 m2 by simp
  let ?s1 = "?s0\<lparr>rs_executionId := Some e, rs_status := StRunning\<rparr>" let ?s2 = "?s1\<lparr>rs_columns := cols\<rparr>"
  have inv1: "results_inv (app_results ?app1)" and view1: "result_view (app_results ?app1) r = (Some (?s1, []), Some 0)"
    using results_inv_op [OF inv0, of "OpStarted e" r] view_setStarted [OF inv0 view0] by simp_all
  have inv2: "results_inv (app_results ?app2)" and view2: "result_view (app_results ?app2) r = (Some (?s2, []), Some 0)"
    using results_inv_op [OF inv1, of "OpColumns cols" r] view_setColumns [OF inv1 view1] by simp_all
  have ok: "\<not> rs_protocolError ?s2" by (simp add: newSnapshot_def EMPTY_RESULT_def)
  obtain app' s' n' where m3: "foldl onmessage (?app2, x) (rowEvents e 0 chunks) = (app', x)"
    and inv': "results_inv (app_results app')" "isCurrent app' x"
    and view': "result_view (app_results app') r = (Some (s', concat chunks), Some n')"
    and s': "s' = ?s2\<lparr>rs_nextRowOffset := rs_nextRowOffset s'\<rparr>"
    and ws: "app_ws app' = app_ws ?app2" "app_history app' = app_history ?app2"
    using rows_in_sequence [OF inv2 cur2, of ?s2 "[]" 0 e chunks] view2 ok by (auto simp: x)
  have fields: "\<not> rs_protocolError s'" "rs_columns s' = cols" by (subst s', simp add: newSnapshot_def EMPTY_RESULT_def)+
  show thesis
    by (rule that [OF _ inv' view' fields _ _ x])
      (use m1 m2 m3 in simp, simp_all add: ws app0 findTab_started option.map_comp)
qed

text \<open>The end of an execution whose result has the snapshot \<open>s\<close>.\<close>

lemma finish_completed:
  assumes view: "result_view (app_results app) (x_resultTabId x) = (Some (s, rows), n)"
    and s: "rs_status s = StCompleted" "rs_transactionState s = Some tx" and x: "\<not> x_terminal x" "truthy_str (x_executedSql x)"
  shows "app_history (fst (finish app x)) = recordHistory (app_history app) (entry_of x (rs_durationMs s) HCompleted)"
    and "findTab (app_ws (fst (finish app x))) (x_connectionId x) (x_tabId x)
       = map_option (endExecution (x_resultTabId x) (Some tx)) (findTab (app_ws app) (x_connectionId x) (x_tabId x))"
proof -
  note f = view_fields [OF view]
  show "app_history (fst (finish app x)) = recordHistory (app_history app) (entry_of x (rs_durationMs s) HCompleted)"
    using finish_history [OF x(1), of app] f s x(2) by (simp add: Let_def historyStatus_def)
  have "app_ws (fst (finish app x)) = app_ws (dispatchApp app (x_connectionId x)
      (EXECUTION_ENDED (x_tabId x) (x_resultTabId x) (Some tx)))"
    using f s x by (simp add: finish_def Let_def split: option.splits bool.splits)
  then show "findTab (app_ws (fst (finish app x))) (x_connectionId x) (x_tabId x)
       = map_option (endExecution (x_resultTabId x) (Some tx)) (findTab (app_ws app) (x_connectionId x) (x_tabId x))"
    by (simp add: findTab_ended)
qed

text \<open>Claim C1: a query that runs to completion does what the user asked for. When the backend
  reports the start, the columns, any number of consecutive chunks and the completion, the
  result shows exactly the rows of the chunks under those columns with the status completed,
  the query tab is no longer running and carries the reported transaction state, and the
  history has one new entry with the SQL, its duration and the status completed.\<close>

theorem query_completes:
  assumes inv: "results_inv (app_results app)"
    and started: "runQuery app conn i r sql at hid = Inr (app0, x)"
    and tab: "findTab (app_ws app) conn i = Some t" and sql: "sql \<noteq> []"
  shows "let app' = fst (foldl onmessage (app0, x) ((EvStarted e pid at' # EvColumns e cols # rowEvents e 0 chunks)
               @ [EvCompleted e n trunc ms tx]))
         in rowsOf (app_results app') r = concat chunks
          \<and> rs_columns (getResult (app_results app') r) = cols
          \<and> rs_status (getResult (app_results app') r) = StCompleted
          \<and> map_option qt_runningExecutionId (findTab (app_ws app') conn i) = Some None
          \<and> map_option qt_transactionState (findTab (app_ws app') conn i) = Some (Some tx)
          \<and> app_history app' = recordHistory (app_history app)
              \<lparr>h_id = hid, h_connectionId = conn, h_sql = sql, h_startedAt = at, h_durationMs = Some ms, h_status = HCompleted\<rparr>"
proof -
  obtain app1 s1 n1 where run: "foldl onmessage (app0, x) (EvStarted e pid at' # EvColumns e cols # rowEvents e 0 chunks) = (app1, x)"
    and inv1: "results_inv (app_results app1)" and cur1: "isCurrent app1 x"
    and view1: "result_view (app_results app1) r = (Some (s1, concat chunks), Some n1)"
    and s1: "\<not> rs_protocolError s1" "rs_columns s1 = cols"
    and ws1: "findTab (app_ws app1) conn i = map_option (startExecution r e None \<circ> startExecution r (''pending:'' @ r) None)
       (findTab (app_ws app) conn i)"
    and h1: "app_history app1 = app_history app"
    and x: "x = \<lparr>x_connectionId = conn, x_tabId = i, x_resultTabId = r, x_executedSql = Some sql, x_startedAt = at,
      x_historyId = hid, x_rows = rst_fresh (app_results app), x_terminal = False\<rparr>"
    by (rule query_streams [OF inv started])
  let ?t = "completedTerminal n trunc ms tx"
  let ?app2 = "onResults app1 (\<lambda>q. setTerminal q r ?t)" and ?s2 = "terminalSnapshot ?t s1"
  have view2: "result_view (app_results ?app2) (x_resultTabId x) = (Some (?s2, concat chunks), Some n1)"
    using view_setTerminal [OF inv1 view1] by (simp add: x)
  have s2: "rs_status ?s2 = StCompleted" "rs_durationMs ?s2 = Some ms" "rs_transactionState ?s2 = Some tx" "rs_columns ?s2 = cols"
    using s1 by (simp_all add: terminalSnapshot_def completedTerminal_def)
  note fin = finish_completed [OF view2 s2(1,3)] and f2 = view_fields [OF view2]
  have last: "onmessage (app1, x) (EvCompleted e n trunc ms tx) = finish ?app2 x"
    using cur1 by (simp add: onmessage_def x)
  have results: "app_results (fst (finish ?app2 x)) = app_results ?app2" by simp
  have whole: "foldl onmessage (app0, x) ((EvStarted e pid at' # EvColumns e cols # rowEvents e 0 chunks)
      @ [EvCompleted e n trunc ms tx]) = finish ?app2 x"
    unfolding foldl_append run by (simp only: foldl.simps last)
  show ?thesis
    unfolding Let_def whole results
    using fin f2 s2 ws1 h1 tab sql by (simp add: x end_startExecution entry_of_def)
qed

theorem query_completes_witness:
  "\<exists>app0 x. runQuery example_app ''c'' ''a'' ''r'' ''s'' ''t'' ''h'' = Inr (app0, x)
     \<and> rowsOf (app_results (fst (foldl onmessage (app0, x) ((EvStarted ''e'' 1 ''t'' # EvColumns ''e'' []
          # rowEvents ''e'' 0 [[[VNull]], [[VBoolean True]]]) @ [EvCompleted ''e'' 2 False 5 TxIdle])))) ''r''
        = [[VNull], [VBoolean True]]"
proof -
  have inv: "results_inv (app_results example_app)"
    by (simp add: example_app_def results_inv_def emptyResultStore_def)
  have "map_option qt_runningExecutionId (findTab (app_ws example_app) ''c'' ''a'') = Some None" by code_simp
  then obtain t where t: "findTab (app_ws example_app) ''c'' ''a'' = Some t" and idle: "qt_runningExecutionId t = None"
    by auto
  obtain app0 x where s: "runQuery example_app ''c'' ''a'' ''r'' ''s'' ''t'' ''h'' = Inr (app0, x)"
    using t idle
    by (simp add: runQuery_def startExec_def) (simp add: create_def example_app_def emptyEditStore_def
        emptyResultStore_def getEdits_def EMPTY_EDITS_def)
  from query_completes [OF inv s t, of "''e''" 1 "''t''" "[]" "[[[VNull]], [[VBoolean True]]]" 2 False 5 TxIdle]
  show ?thesis using s by (simp add: Let_def)
qed

subsection \<open>One query at a time\<close>

text \<open>A tab runs one execution at a time. Once an execution has been started in a tab,
  every further start in that tab is refused, whatever its result tab, until the execution
  ends; after the end a start is no longer refused for that reason.\<close>

theorem one_execution_per_tab:
  assumes "startExec app conn i r sql page at hid = Inr (app1, x)" "findTab (app_ws app) conn i = Some t"
  shows "startExec app1 conn i r' sql' page' at' hid' = Inl TabBusy
    \<and> startExec (fst (finish app1 x)) conn i r' sql' page' at' hid' \<noteq> Inl TabBusy"
proof -
  obtain results where app1: "app1 = dispatchApp (app\<lparr>app_results := results\<rparr>) conn (EXECUTION_STARTED i r (''pending:'' @ r) None)"
    and x: "x_connectionId x = conn" "x_tabId x = i" "x_resultTabId x = r" "\<not> x_terminal x"
    using assms(1) by (rule startExec_Inr) simp
  have ft: "findTab (app_ws app1) conn i = Some (startExecution r (''pending:'' @ r) None t)"
    using assms(2) by (simp add: app1 findTab_started)
  then have "truthy_str (Option.bind (findTab (app_ws app1) conn i) qt_runningExecutionId)"
    by (simp add: startExecution_def updateResult_def)
  then have busy: "startExec app1 conn i r' sql' page' at' hid' = Inl TabBusy" by (simp add: startExec_def)
  have "\<exists>tx. app_ws (fst (finish app1 x)) = app_ws (dispatchApp app1 conn (EXECUTION_ENDED i r tx))"
    using x by (auto simp: finish_def Let_def split: option.splits bool.splits)
  then obtain tx where "findTab (app_ws (fst (finish app1 x))) conn i = Some (endExecution r tx (startExecution r (''pending:'' @ r) None t))"
    using findTab_ended ft by fastforce
  then have "Option.bind (findTab (app_ws (fst (finish app1 x))) conn i) qt_runningExecutionId = None"
    by (simp add: end_startExecution)
  then have "startExec (fst (finish app1 x)) conn i r' sql' page' at' hid' \<noteq> Inl TabBusy"
    by (simp add: startExec_def split: sum.splits)
  with busy show ?thesis ..
qed

theorem one_execution_per_tab_witness:
  "\<exists>app1 x. startExec example_app ''c'' ''a'' ''r'' (Some ''s'') None ''t'' ''h'' = Inr (app1, x)
     \<and> startExec app1 ''c'' ''a'' ''r2'' (Some ''s'') None ''t'' ''h'' = Inl TabBusy"
proof -
  have "map_option qt_runningExecutionId (findTab (app_ws example_app) ''c'' ''a'') = Some None" by code_simp
  then obtain t where t: "findTab (app_ws example_app) ''c'' ''a'' = Some t" and idle: "qt_runningExecutionId t = None"
    by auto
  obtain app1 x where s: "startExec example_app ''c'' ''a'' ''r'' (Some ''s'') None ''t'' ''h'' = Inr (app1, x)"
    using t idle by (simp add: startExec_def) (simp add: create_def example_app_def emptyEditStore_def
        emptyResultStore_def getEdits_def EMPTY_EDITS_def)
  from one_execution_per_tab [OF s t] s show ?thesis by blast
qed

subsection \<open>Pages\<close>

lemma view_setPageLoading:
  "results_inv st \<Longrightarrow> result_view st tab = (Some (s, rows), n) \<Longrightarrow>
   result_view (setPageLoading st tab b e) tab = (Some (s\<lparr>rs_loadingMore := b, rs_pageError := e\<rparr>, rows), n)"
  by (simp add: setPageLoading_def result_view_update addr_blind_ops)

lemma view_appendPage:
  "results_inv st \<Longrightarrow> result_view st tab = (Some (s, rows), n) \<Longrightarrow>
   result_view (appendPage st tab p) tab = (Some (s\<lparr>rs_nextRowOffset := Some (pg_nextOffset p),
     rs_hasMoreRows := pg_hasMore p, rs_loadingMore := False, rs_pageError := None\<rparr>, rows @ pg_rows p), n)"
  by (simp add: appendPage_def result_view_update addr_blind_ops)

lemma rs_rows_setPageLoading: "rs_rows (getResult (setPageLoading st tab b e) tab') = rs_rows (getResult st tab')"
  by (simp add: setPageLoading_def rs_rows_update addr_blind_keeps addr_blind_ops)

lemma loading_view:
  assumes inv: "results_inv st" and s: "map_of (rst_states st) tab = Some s"
  obtains n where "result_view st tab = (Some (s\<lparr>rs_rows := 0\<rparr>, rowsOf st tab), n)"
  using s by (simp add: result_view_def rowsOf_def getResult_def)

lemma view_more_fields:
  assumes "result_view st tab = (Some (s, rows), n)"
  shows "rs_loadingMore (getResult st tab) = rs_loadingMore s" "rs_nextRowOffset (getResult st tab) = rs_nextRowOffset s"
    "rs_pageError (getResult st tab) = rs_pageError s"
proof -
  have g: "(getResult st tab)\<lparr>rs_rows := 0\<rparr> = s" using view_getResult [OF assms] by simp
  show "rs_loadingMore (getResult st tab) = rs_loadingMore s" "rs_nextRowOffset (getResult st tab) = rs_nextRowOffset s"
    "rs_pageError (getResult st tab) = rs_pageError s"
    using arg_cong [OF g, of rs_loadingMore] arg_cong [OF g, of rs_nextRowOffset] arg_cong [OF g, of rs_pageError]
    by simp_all
qed

text \<open>Loading more rows keeps the result consecutive. While a page is on its way no
  second request is sent; a page in order is appended and the next offset is the one it
  reports, so an offset that counts the rows shown still does; a page out of order leaves
  the rows as they are and reports the error; and either way the loading flag is cleared.\<close>

theorem load_more_consecutive:
  assumes inv: "results_inv (app_results app)" and load: "loadMoreRows app tab = Some (app1, l)"
  shows "let s = getResult (app_results app) tab; app2 = onPage app1 l page err; s2 = getResult (app_results app2) tab;
             ordered = ((rs_tablePage s = None \<longrightarrow> pg_nextOffset page = nullish (rs_nextRowOffset s) 0 + int (length (pg_rows page)))
               \<and> (pg_hasMore page \<longrightarrow> pg_rows page \<noteq> []))
         in loadMoreRows app1 tab = None
          \<and> rowsOf (app_results app2) tab = rowsOf (app_results app) tab @ (if ordered then pg_rows page else [])
          \<and> rs_nextRowOffset s2 = (if ordered then Some (pg_nextOffset page) else rs_nextRowOffset s)
          \<and> rs_pageError s2 = (if ordered then None else Some err)
          \<and> \<not> rs_loadingMore s2"
proof -
  let ?st = "app_results app" and ?s = "getResult (app_results app) tab"
  have more: "rs_hasMoreRows ?s" "truthy_str (rs_executionId ?s)"
    and results1: "app_results app1 = setPageLoading ?st tab True None"
    and l: "l = \<lparr>pl_tab = tab, pl_rows = rs_rows ?s, pl_offset = nullish (rs_nextRowOffset ?s) 0, pl_tablePage = rs_tablePage ?s \<noteq> None\<rparr>"
    using load by (auto simp: loadMoreRows_def Let_def split: if_splits)
  have s: "map_of (rst_states ?st) tab = Some ?s"
    using more(1) by (cases "map_of (rst_states ?st) tab") (simp_all add: getResult_def EMPTY_RESULT_def)
  obtain n where view: "result_view ?st tab = (Some (?s\<lparr>rs_rows := 0\<rparr>, rowsOf ?st tab), n)"
    using loading_view [OF inv s] by blast
  have inv1: "results_inv (app_results app1)"
    using results_inv_op [OF inv, of "OpPageLoading True None" tab] by (simp add: results1)
  note view1 = view_setPageLoading [OF inv view, of True None, folded results1]
  have busy: "loadMoreRows app1 tab = None"
    using view_more_fields(1) [OF view1] by (simp add: loadMoreRows_def Let_def)
  have cur: "isCurrentLoad app1 l" by (simp add: isCurrentLoad_def l results1 rs_rows_setPageLoading)
  note page = view_appendPage [OF inv1 view1, of page] and bad = view_setPageLoading [OF inv1 view1, of False "Some err"]
  have res2: "app_results (onPage app1 l page err) =
      (if (rs_tablePage ?s = None \<longrightarrow> pg_nextOffset page = nullish (rs_nextRowOffset ?s) 0 + int (length (pg_rows page)))
               \<and> (pg_hasMore page \<longrightarrow> pg_rows page \<noteq> [])
       then appendPage (app_results app1) tab page else setPageLoading (app_results app1) tab False (Some err))"
    using cur by (simp add: onPage_def onPageFailed_def l)
  show ?thesis
    unfolding Let_def res2 using busy view_fields(5) [OF page] view_more_fields [OF page]
      view_fields(5) [OF bad] view_more_fields [OF bad] by simp
qed

theorem load_more_consecutive_witness:
  "\<exists>app tab app1 l. results_inv (app_results app) \<and> loadMoreRows app tab = Some (app1, l)
     \<and> rowsOf (app_results (onPage app1 l \<lparr>pg_rows = [[VNull]], pg_nextOffset = 1, pg_hasMore = False\<rparr> ''bad'')) tab = [[VNull]]"
proof -
  let ?s = "(newSnapshot 1 (Some ''s'') True None)\<lparr>rs_hasMoreRows := True, rs_executionId := Some ''e''\<rparr>"
  let ?app = "example_app\<lparr>app_results := \<lparr>rst_states = [(''r'', ?s)], rst_nextSequence = [(''r'', 0)], rst_heap = (\<lambda>_. []),
     rst_fresh = 2, rst_columnWidths = [], rst_emits = []\<rparr>\<rparr>"
  have g: "getResult (app_results ?app) ''r'' = ?s" by (simp add: getResult_def)
  have inv: "results_inv (app_results ?app)" by (rule results_invI) (auto split: if_splits)
  obtain app1 l where load: "loadMoreRows ?app ''r'' = Some (app1, l)"
    unfolding loadMoreRows_def g by (simp add: newSnapshot_def EMPTY_RESULT_def)
  have "rowsOf (app_results ?app) ''r'' = []" by (simp add: rowsOf_def)
  moreover have "rs_tablePage ?s = None" "rs_nextRowOffset ?s = Some 0" by (simp_all add: newSnapshot_def EMPTY_RESULT_def)
  ultimately have "rowsOf (app_results (onPage app1 l \<lparr>pg_rows = [[VNull]], pg_nextOffset = 1, pg_hasMore = False\<rparr> ''bad'')) ''r'' = [[VNull]]"
    using load_more_consecutive [OF inv load, of "\<lparr>pg_rows = [[VNull]], pg_nextOffset = 1, pg_hasMore = False\<rparr>" "''bad''"]
    unfolding Let_def g by simp
  with inv load show ?thesis by blast
qed

end
