(* ===== verification/Session_Stores.thy ===== *)
theory Session_Stores
  imports Db_Types Contracts "HOL-Library.Sorting_Algorithms" "HOL-Library.Sublist"
begin

text \<open>
  The stores of the running application: the open connections with the order the rail shows
  them in (\<open>src/entities/connection/openConnections.ts\<close>) and the AI transcripts with their
  size budget (\<open>src/entities/ai/aiSessionStore.ts\<close>).
\<close>

subsection \<open>Open connections\<close>

record open_connections =
  oc_map :: "(string, connection_profile) js_map"
  oc_snapshot :: "(string \<times> connection_profile) list"
  oc_order :: "string list"

definition emptyConnections :: open_connections where
  "emptyConnections = \<lparr>oc_map = [], oc_snapshot = [], oc_order = []\<rparr>"

text \<open>\<open>new Map(order.map((id, index) => [id, index]))\<close> and the rank of a profile in it.\<close>

definition rankMap :: "string list \<Rightarrow> (string, nat) js_map" where
  "rankMap order = js_map_of (zip order [0..<length order])"

definition rankOf :: "string list \<Rightarrow> string \<times> connection_profile \<Rightarrow> nat" where
  "rankOf order e = nullish (map_of (rankMap order) (cp_id (snd e))) (length (rankMap order))"

definition connectionsChanged :: "open_connections \<Rightarrow> open_connections" where
  "connectionsChanged st = st\<lparr>oc_snapshot := sort_key (rankOf (oc_order st)) (oc_map st)\<rparr>"

definition setConnection :: "open_connections \<Rightarrow> string \<Rightarrow> connection_profile \<Rightarrow> open_connections" where
  "setConnection st i p = connectionsChanged (st\<lparr>oc_map := AList.update i p (oc_map st)\<rparr>)"

definition deleteConnection :: "open_connections \<Rightarrow> string \<Rightarrow> open_connections" where
  "deleteConnection st i = connectionsChanged (st\<lparr>oc_map := AList.delete i (oc_map st)\<rparr>)"

definition setConnectionOrder :: "open_connections \<Rightarrow> string list \<Rightarrow> open_connections" where
  "setConnectionOrder st profileIds =
     (if length profileIds = length (oc_order st) \<and> list_all2 (=) profileIds (oc_order st) then st
      else connectionsChanged (st\<lparr>oc_order := profileIds\<rparr>))"

datatype connections_op =
    SetConnection string connection_profile
  | DeleteConnection string
  | SetConnectionOrder "string list"

fun connections_step :: "open_connections \<Rightarrow> connections_op \<Rightarrow> open_connections" where
  "connections_step st (SetConnection i p) = setConnection st i p"
| "connections_step st (DeleteConnection i) = deleteConnection st i"
| "connections_step st (SetConnectionOrder ids) = setConnectionOrder st ids"

definition ranked :: "string list \<Rightarrow> string \<times> connection_profile \<Rightarrow> bool" where
  "ranked order e \<longleftrightarrow> cp_id (snd e) \<in> set order"

lemma snapshot_eq:
  "oc_snapshot (foldl connections_step emptyConnections ops)
     = sort_key (rankOf (oc_order (foldl connections_step emptyConnections ops)))
         (oc_map (foldl connections_step emptyConnections ops))"
proof (induction ops rule: rev_induct)
  case Nil
  then show ?case by (simp add: emptyConnections_def)
next
  case (snoc p ops)
  then show ?case
    by (cases p) (auto simp: setConnection_def deleteConnection_def setConnectionOrder_def
        connectionsChanged_def)
qed

lemma distinct_oc_map: "distinct (map fst (oc_map (foldl connections_step emptyConnections ops)))"
proof (induction ops rule: rev_induct)
  case (snoc p ops)
  then show ?case
    by (cases p) (auto simp: setConnection_def deleteConnection_def setConnectionOrder_def
        connectionsChanged_def distinct_update distinct_delete)
qed (simp add: emptyConnections_def)

lemma fst_js_map_of: "fst ` set (js_map_of es) = fst ` set es"
proof -
  have "fst ` set (foldl (\<lambda>m (k, v). AList.update k v m) acc es) = fst ` set acc \<union> fst ` set es" for acc
  proof (induction es arbitrary: acc)
    case (Cons e es)
    then show ?case by (cases e) (simp add: dom_update insert_commute)
  qed simp
  from this [of "[]"] show ?thesis by (simp add: js_map_of_def)
qed

lemma rankOf_unranked: "\<not> ranked order e \<Longrightarrow> rankOf order e = length (rankMap order)"
proof -
  assume un: "\<not> ranked order e"
  have "set (map fst (zip order [0..<length order])) = set order" by (subst map_fst_zip) simp_all
  then have "fst ` set (rankMap order) = set order"
    unfolding rankMap_def fst_js_map_of by (simp only: set_map)
  with un have "map_of (rankMap order) (cp_id (snd e)) = None"
    by (simp add: map_of_eq_None_iff ranked_def)
  then show ?thesis by (simp add: rankOf_def)
qed

lemma sorted_const_key:
  assumes "\<And>x. x \<in> set xs \<Longrightarrow> f x = (k::nat)" shows "linorder_class.sorted (map f xs)"
  using assms by (induction xs) auto

text \<open>The rail shows every open connection exactly once, in the order of the home
  list: the snapshot is a rearrangement of the open connections sorted by the rank of their
  profile, and the connections whose profile the home list does not name keep the order in
  which they were opened.\<close>

theorem connections_in_home_order:
  "let st = foldl connections_step emptyConnections ops in
     mset (oc_snapshot st) = mset (oc_map st)
     \<and> distinct (map fst (oc_snapshot st))
     \<and> linorder_class.sorted (map (rankOf (oc_order st)) (oc_snapshot st))
     \<and> filter (\<lambda>e. \<not> ranked (oc_order st) e) (oc_snapshot st) = filter (\<lambda>e. \<not> ranked (oc_order st) e) (oc_map st)"
proof -
  let ?st = "foldl connections_step emptyConnections ops"
  let ?k = "rankOf (oc_order ?st)" and ?P = "\<lambda>e. \<not> ranked (oc_order ?st) e"
  note eq = snapshot_eq [of ops]
  have mset: "mset (oc_snapshot ?st) = mset (oc_map ?st)" unfolding eq by simp
  then have "mset (map fst (oc_snapshot ?st)) = mset (map fst (oc_map ?st))" by simp
  then have dist: "distinct (map fst (oc_snapshot ?st))"
    using distinct_oc_map [of ops] mset_eq_imp_distinct_iff by blast
  have "filter ?P (sort_key ?k (oc_map ?st)) = sort_key ?k (filter ?P (oc_map ?st))"
    by (simp add: List.filter_sort)
  also have "\<dots> = filter ?P (oc_map ?st)"
    by (rule sort_key_id_if_sorted [OF sorted_const_key]) (simp add: rankOf_unranked)
  finally show ?thesis
    using mset dist unfolding Let_def eq by simp
qed

subsection \<open>AI transcripts\<close>

record ai_message =
  am_role :: string
  am_text :: string
  am_at :: int

text \<open>\<open>None\<close> as a title stands for the default label of a conversation without a question.\<close>

record ai_session =
  as_id :: string
  as_title :: "string option"
  as_provider :: string
  as_model :: string
  as_cliSessionId :: "string option"
  as_updatedAt :: string
  as_messages :: "ai_message list"

definition MAX_SESSIONS :: nat where
  "MAX_SESSIONS = 50"

definition MAX_TOTAL_BYTES :: nat where
  "MAX_TOTAL_BYTES = 1500000"

text \<open>
  The number of bytes of \<open>JSON.stringify\<close> in UTF-8: a string has its quotes, and the control
  characters, the quote and the backslash are escaped.
\<close>

definition json_char_bytes :: "char \<Rightarrow> nat" where
  "json_char_bytes c = (let n = code c in
     if n = 34 \<or> n = 92 \<or> n = 8 \<or> n = 9 \<or> n = 10 \<or> n = 12 \<or> n = 13 then 2
     else if n < 32 then 6 else if n < 128 then 1 else 2)"

definition json_string_bytes :: "string \<Rightarrow> nat" where
  "json_string_bytes s = 2 + sum_list (map json_char_bytes s)"

definition json_field_bytes :: "string \<Rightarrow> nat \<Rightarrow> nat" where
  "json_field_bytes k v = json_string_bytes k + 1 + v"

text \<open>Brackets, elements and the commas between them.\<close>

definition json_seq_bytes :: "nat list \<Rightarrow> nat" where
  "json_seq_bytes xs = 2 + sum_list xs + (length xs - 1)"

definition message_bytes :: "ai_message \<Rightarrow> nat" where
  "message_bytes m = json_seq_bytes [json_field_bytes ''role'' (json_string_bytes (am_role m)),
     json_field_bytes ''text'' (json_string_bytes (am_text m)),
     json_field_bytes ''at'' (length (show_int (am_at m)))]"

text \<open>The default title takes ten bytes between its quotes.\<close>

definition session_bytes :: "ai_session \<Rightarrow> nat" where
  "session_bytes s = json_seq_bytes [json_field_bytes ''id'' (json_string_bytes (as_id s)),
     json_field_bytes ''title'' (case as_title s of None \<Rightarrow> 12 | Some t \<Rightarrow> json_string_bytes t),
     json_field_bytes ''provider'' (json_string_bytes (as_provider s)),
     json_field_bytes ''model'' (json_string_bytes (as_model s)),
     json_field_bytes ''cliSessionId'' (case as_cliSessionId s of None \<Rightarrow> 4 | Some t \<Rightarrow> json_string_bytes t),
     json_field_bytes ''updatedAt'' (json_string_bytes (as_updatedAt s)),
     json_field_bytes ''messages'' (json_seq_bytes (map message_bytes (as_messages s)))]"

definition sessions_bytes :: "ai_session list \<Rightarrow> nat" where
  "sessions_bytes ss = json_seq_bytes (map session_bytes ss)"

text \<open>\<open>replace(/\s+/g, " ")\<close>: every run of blanks becomes one space.\<close>

function collapse_spaces :: "string \<Rightarrow> string" where
  "collapse_spaces [] = []"
| "collapse_spaces (c # cs) =
     (if is_space c then CHR '' '' # collapse_spaces (dropWhile is_space cs) else c # collapse_spaces cs)"
  by pat_completeness auto
termination by (relation "measure length") (auto simp: le_imp_less_Suc length_dropWhile_le)

definition titleOf :: "ai_message list \<Rightarrow> string option" where
  "titleOf messages = (case find (\<lambda>m. am_role m = ''user'') messages of
       None \<Rightarrow> None
     | Some m \<Rightarrow> let first = collapse_spaces (trim (am_text m)) in
         Some (if length first > 60 then take 60 first @ ellipsis else first))"

text \<open>The loop that drops the oldest sessions until the rest fits.\<close>

function shrinkSessions :: "ai_session list \<Rightarrow> ai_session list" where
  "shrinkSessions kept =
     (if length kept > 1 \<and> sessions_bytes kept > MAX_TOTAL_BYTES then shrinkSessions (butlast kept) else kept)"
  by auto
termination by (relation "measure length") auto

declare shrinkSessions.simps [simp del]

definition commitSessions :: "ai_session list \<Rightarrow> ai_session list" where
  "commitSessions next = shrinkSessions (take MAX_SESSIONS next)"

definition hydrateSessions :: "string comparator \<Rightarrow> ai_session list \<Rightarrow> ai_session list" where
  "hydrateSessions localeCompare entries = Sorting_Algorithms.sort (reversed (key as_updatedAt localeCompare)) entries"

definition getSession :: "ai_session list \<Rightarrow> string \<Rightarrow> ai_session option" where
  "getSession st i = find (\<lambda>e. as_id e = i) st"

text \<open>The title and the time of the argument of \<open>upsert\<close> are not used.\<close>

definition upsertSession :: "ai_session list \<Rightarrow> ai_session \<Rightarrow> string \<Rightarrow> ai_session list" where
  "upsertSession st session now =
     (if as_messages session = [] then st
      else if (case getSession st (as_id session) of
                 None \<Rightarrow> False
               | Some previous \<Rightarrow> as_cliSessionId previous = as_cliSessionId session
                   \<and> map am_text (as_messages previous) = map am_text (as_messages session))
      then st
      else commitSessions (session\<lparr>as_title := titleOf (as_messages session), as_updatedAt := now\<rparr>
             # filter (\<lambda>e. as_id e \<noteq> as_id session) st))"

definition removeSession :: "ai_session list \<Rightarrow> string \<Rightarrow> ai_session list" where
  "removeSession st i = commitSessions (filter (\<lambda>e. as_id e \<noteq> i) st)"

lemma shrinkSessions_prefix: "prefix (shrinkSessions kept) kept"
proof (induction kept rule: shrinkSessions.induct)
  case (1 kept)
  then show ?case
    by (subst shrinkSessions.simps) (auto intro: prefix_order.order_trans [OF _ prefixeq_butlast])
qed

lemma shrinkSessions_nonempty: "kept \<noteq> [] \<Longrightarrow> shrinkSessions kept \<noteq> []"
proof (induction kept rule: shrinkSessions.induct)
  case (1 kept)
  show ?case
  proof (cases "length kept > 1 \<and> sessions_bytes kept > MAX_TOTAL_BYTES")
    case True
    then have "butlast kept \<noteq> []" by (cases kept) auto
    then show ?thesis using 1(1) True by (subst shrinkSessions.simps) simp
  next
    case False
    then have "shrinkSessions kept = kept" by (subst shrinkSessions.simps) argo
    then show ?thesis using 1(2) by simp
  qed
qed

lemma shrinkSessions_single [simp]: "shrinkSessions [s] = [s]"
  by (subst shrinkSessions.simps) simp

lemma shrinkSessions_fits:
  "length (shrinkSessions kept) \<le> 1 \<or> sessions_bytes (shrinkSessions kept) \<le> MAX_TOTAL_BYTES"
proof (induction kept rule: shrinkSessions.induct)
  case (1 kept)
  then show ?case by (subst (1 2) shrinkSessions.simps) auto
qed

lemma prefix_takes: "m \<le> n \<Longrightarrow> prefix (take m xs) (take n xs)"
  using take_is_prefix [of m "take n xs"] by (simp add: min_def)

lemma shrinkSessions_maximal:
  "prefix ss kept \<Longrightarrow> length (shrinkSessions kept) < length ss \<Longrightarrow> sessions_bytes ss > MAX_TOTAL_BYTES"
proof (induction kept rule: shrinkSessions.induct)
  case (1 kept)
  show ?case
  proof (cases "length kept > 1 \<and> sessions_bytes kept > MAX_TOTAL_BYTES")
    case True
    show ?thesis
    proof (cases "ss = kept")
      case False
      then have "prefix ss (butlast kept)"
        using 1(2) by (metis append_butlast_last_id prefix_bot.extremum_unique prefix_snoc)
      then show ?thesis using 1(1) [OF True] 1(3) True by (simp add: shrinkSessions.simps [of kept])
    qed (use True in simp)
  next
    case False
    then show ?thesis using 1(2,3) prefix_length_le by (force simp: shrinkSessions.simps [of kept])
  qed
qed

text \<open>Claim C34: the transcripts keep their budget without losing the newest. A finished turn
  puts its conversation first and keeps a prefix of the others; the list has at most 50
  conversations and fits the byte budget unless a single conversation exceeds it alone, and no
  longer prefix would have fitted. Saving the same transcript again changes nothing.\<close>

theorem ai_sessions_budget:
  assumes "as_messages session \<noteq> []" "upsertSession st session now \<noteq> st"
  shows "let st' = upsertSession st session now;
             next = session\<lparr>as_title := titleOf (as_messages session), as_updatedAt := now\<rparr>
               # filter (\<lambda>e. as_id e \<noteq> as_id session) st
         in prefix st' next \<and> st' \<noteq> [] \<and> length st' \<le> 50
            \<and> (length st' \<le> 1 \<or> sessions_bytes st' \<le> MAX_TOTAL_BYTES)
            \<and> (\<forall>n. length st' < n \<and> n \<le> min 50 (length next) \<longrightarrow> sessions_bytes (take n next) > MAX_TOTAL_BYTES)"
proof -
  let ?next = "session\<lparr>as_title := titleOf (as_messages session), as_updatedAt := now\<rparr>
               # filter (\<lambda>e. as_id e \<noteq> as_id session) st"
  have st': "upsertSession st session now = shrinkSessions (take MAX_SESSIONS ?next)"
    using assms by (simp add: upsertSession_def commitSessions_def split: if_splits)
  have pre: "prefix (shrinkSessions (take MAX_SESSIONS ?next)) (take MAX_SESSIONS ?next)"
    by (rule shrinkSessions_prefix)
  have "prefix (shrinkSessions (take MAX_SESSIONS ?next)) ?next"
    using pre take_is_prefix prefix_order.order_trans by blast
  moreover have "shrinkSessions (take MAX_SESSIONS ?next) \<noteq> []"
    by (rule shrinkSessions_nonempty) (simp add: MAX_SESSIONS_def)
  moreover have "length (shrinkSessions (take MAX_SESSIONS ?next)) \<le> 50"
    using prefix_length_le [OF pre] by (simp add: MAX_SESSIONS_def)
  moreover have "sessions_bytes (take n ?next) > MAX_TOTAL_BYTES"
    if n: "length (shrinkSessions (take MAX_SESSIONS ?next)) < n" "n \<le> min 50 (length ?next)" for n
  proof (rule shrinkSessions_maximal)
    show "prefix (take n ?next) (take MAX_SESSIONS ?next)"
      using n by (intro prefix_takes) (simp add: MAX_SESSIONS_def)
    show "length (shrinkSessions (take MAX_SESSIONS ?next)) < length (take n ?next)" using n by simp
  qed
  ultimately show ?thesis
    unfolding Let_def st' using shrinkSessions_fits [of "take MAX_SESSIONS ?next"] by blast
qed

theorem ai_sessions_budget_witness:
  "let s = \<lparr>as_id = ''1'', as_title = None, as_provider = ''p'', as_model = ''m'', as_cliSessionId = None,
        as_updatedAt = [], as_messages = [\<lparr>am_role = ''user'', am_text = ''hi'', am_at = 0\<rparr>]\<rparr>
   in upsertSession [] s ''t'' \<noteq> [] \<and> length (upsertSession [] s ''t'') \<le> 50"
proof -
  let ?s = "\<lparr>as_id = ''1'', as_title = None, as_provider = ''p'', as_model = ''m'', as_cliSessionId = None,
        as_updatedAt = [], as_messages = [\<lparr>am_role = ''user'', am_text = ''hi'', am_at = 0\<rparr>]\<rparr>"
  have "upsertSession [] ?s ''t'' \<noteq> []"
    by (simp add: upsertSession_def getSession_def commitSessions_def MAX_SESSIONS_def)
  moreover have "as_messages ?s \<noteq> []" by simp
  ultimately show ?thesis using ai_sessions_budget [of ?s "[]" "''t''"] unfolding Let_def by blast
qed

end
