(* ===== verification/Persistence.thy ===== *)
theory Persistence
  imports Workspace_Dispatch Entity_Stores Session_Stores
begin

text \<open>
  The snapshot of the workspaces, \<open>src/entities/workspace/persistence.ts\<close>: what is written of the
  open connections, how a workspace is restored from it, and the chain of writes. The key
  \<open>JSON.stringify([profileId, database])\<close> is the pair itself; \<open>crypto.randomUUID()\<close> for the tab at
  an index is the argument \<open>fresh\<close>. A save is requested by a step; \<open>Autosave\<close>
  adds the timer and the calls that request it.
\<close>

subsection \<open>Snapshots\<close>

record tab_snapshot =
  ts_title :: string
  ts_sql :: string
  ts_id :: "string option"
  ts_savedQueryId :: "string option"

record group_snapshot =
  gs_id :: string
  gs_tabIds :: "string list"
  gs_activeTabId :: "string option"

record connection_snapshot =
  cn_profileId :: string
  cn_database :: "string option"
  cn_activeTabIndex :: "int option"
  cn_tabs :: "tab_snapshot list"
  cn_tabGroups :: "group_snapshot list option"

record workspace_snapshot =
  sn_version :: nat
  sn_connections :: "connection_snapshot list"
  sn_savedQueries :: "saved_query list"
  sn_aiSessions :: "ai_session list"

text \<open>The maps \<open>sqlDrafts\<close> and \<open>savedQueryIds\<close>.\<close>

record draft_maps =
  dm_sql :: "(string, string) js_map"
  dm_saved :: "(string, string) js_map"

subsection \<open>Restoring\<close>

definition connectionIndex :: "connection_snapshot list \<Rightarrow> string \<Rightarrow> string \<Rightarrow> int" where
  "connectionIndex conns profileId database =
     (let i = find_index (\<lambda>c. cn_profileId c = profileId \<and> cn_database c = Some database) conns in
      if 0 \<le> i then i else find_index (\<lambda>c. cn_profileId c = profileId \<and> cn_database c = None) conns)"

definition restoredIds :: "(nat \<Rightarrow> string) \<Rightarrow> tab_snapshot list \<Rightarrow> string list" where
  "restoredIds fresh tabs = map (\<lambda>i. nullish (ts_id (tabs ! i)) (fresh i)) [0..<length tabs]"

definition restoredTab :: "string \<Rightarrow> string \<Rightarrow> query_tab" where
  "restoredTab i title = \<lparr>qt_id = i, qt_title = title, qt_kind = QueryKind, qt_tableData = None, qt_tableDataMode = None,
     qt_routineOid = None, qt_resultTabs = [], qt_activeResultTabId = None, qt_runningExecutionId = None, qt_sessionId = None,
     qt_transactionState = None\<rparr>"

definition restoreDrafts :: "string list \<Rightarrow> tab_snapshot list \<Rightarrow> draft_maps \<Rightarrow> draft_maps" where
  "restoreDrafts ids tabs dm = fold (\<lambda>(i, t) dm. dm\<lparr>dm_sql := AList.update i (ts_sql t) (dm_sql dm),
     dm_saved := (if truthy_str (ts_savedQueryId t) then AList.update i (the (ts_savedQueryId t)) (dm_saved dm) else dm_saved dm)\<rparr>)
     (zip ids tabs) dm"

definition idByOldId :: "string list \<Rightarrow> tab_snapshot list \<Rightarrow> (string, string) js_map" where
  "idByOldId ids tabs = js_map_of (List.map_filter (\<lambda>(t, i). if truthy_str (ts_id t) then Some (the (ts_id t), i) else None) (zip tabs ids))"

definition groupToQueryTabIds :: "(string, string) js_map \<Rightarrow> group_snapshot \<Rightarrow> tab_group" where
  "groupToQueryTabIds m g = \<lparr>g_id = gs_id g,
     g_tabIds = filter (\<lambda>i. i \<noteq> '''') (List.map_filter (map_of m) (gs_tabIds g)),
     g_activeTabId = (if truthy_str (gs_activeTabId g) then map_of m (the (gs_activeTabId g)) else None)\<rparr>"

definition restoredGroups :: "connection_snapshot \<Rightarrow> string list \<Rightarrow> tab_group list" where
  "restoredGroups conn ids =
     (let gs = filter (\<lambda>g. g_tabIds g \<noteq> []) (map (groupToQueryTabIds (idByOldId ids (cn_tabs conn))) (nullish (cn_tabGroups conn) []))
      in if gs \<noteq> [] then gs else [\<lparr>g_id = ''main'', g_tabIds = ids, g_activeTabId = js_at ids 0\<rparr>])"

definition restoredState :: "(nat \<Rightarrow> string) \<Rightarrow> connection_snapshot \<Rightarrow> workspace_state" where
  "restoredState fresh conn =
     (let ids = restoredIds fresh (cn_tabs conn);
          activeIdx = min (nullish (cn_activeTabIndex conn) 0) (int (length ids) - 1)
      in \<lparr>ws_tabs = map2 (\<lambda>i t. restoredTab i (ts_title t)) ids (cn_tabs conn),
          ws_activeTabId = js_at ids activeIdx,
          ws_tabGroups = map_option (\<lambda>_. restoredGroups conn ids) (cn_tabGroups conn),
          ws_nextTabNumber = length ids + 1, ws_nextResultNumber = 1\<rparr>)"

text \<open>The workspace if there is one, the cache with the claimed database, and the draft maps.\<close>

definition restoreWorkspace :: "(nat \<Rightarrow> string) \<Rightarrow> workspace_snapshot option \<Rightarrow> draft_maps \<Rightarrow> string \<Rightarrow> string
    \<Rightarrow> workspace_state option \<times> workspace_snapshot option \<times> draft_maps" where
  "restoreWorkspace fresh cache dm profileId database =
     (case cache of
        None \<Rightarrow> (None, cache, dm)
      | Some snap \<Rightarrow>
         (let i = connectionIndex (sn_connections snap) profileId database in
          case js_at (sn_connections snap) i of
            None \<Rightarrow> (None, cache, dm)
          | Some conn \<Rightarrow>
             (let cache' = Some (snap\<lparr>sn_connections := (sn_connections snap)[nat i := conn\<lparr>cn_database := Some database\<rparr>]\<rparr>) in
              if cn_tabs conn = [] then (None, cache', dm)
              else (Some (restoredState fresh conn), cache',
                    restoreDrafts (restoredIds fresh (cn_tabs conn)) (cn_tabs conn) dm))))"

subsection \<open>Building\<close>

definition isQueryTab :: "query_tab \<Rightarrow> bool" where
  "isQueryTab t \<longleftrightarrow> qt_kind t = QueryKind"

definition groupSnapshot :: "query_tab list \<Rightarrow> tab_group \<Rightarrow> group_snapshot" where
  "groupSnapshot queryTabs g =
     (let tabIds = filter (\<lambda>i. i \<in> qt_id ` set queryTabs) (g_tabIds g) in
      \<lparr>gs_id = g_id g, gs_tabIds = tabIds,
       gs_activeTabId = (if truthy_str (g_activeTabId g) \<and> the (g_activeTabId g) \<in> set tabIds then g_activeTabId g else js_at tabIds 0)\<rparr>)"

definition connectionSnapshot :: "draft_maps \<Rightarrow> connection_profile \<Rightarrow> workspace_state \<Rightarrow> connection_snapshot" where
  "connectionSnapshot dm profile s =
     (let queryTabs = filter isQueryTab (ws_tabs s) in
      \<lparr>cn_profileId = cp_id profile, cn_database = Some (cp_database profile),
       cn_activeTabIndex = Some (max 0 (find_index (\<lambda>t. Some (qt_id t) = ws_activeTabId s) queryTabs)),
       cn_tabs = map (\<lambda>t. \<lparr>ts_title = qt_title t, ts_sql = nullish (map_of (dm_sql dm) (qt_id t)) '''', ts_id = Some (qt_id t),
                   ts_savedQueryId = map_of (dm_saved dm) (qt_id t)\<rparr>) queryTabs,
       cn_tabGroups = Some (filter (\<lambda>g. gs_tabIds g \<noteq> []) (map (groupSnapshot queryTabs) (getTabGroups s)))\<rparr>)"

definition buildStep :: "(string, workspace_state) js_map \<Rightarrow> draft_maps \<Rightarrow> string \<times> connection_profile
    \<Rightarrow> ((string \<times> string option), connection_snapshot) js_map \<Rightarrow> ((string \<times> string option), connection_snapshot) js_map" where
  "buildStep states dm e m = (case map_of states (fst e) of
       None \<Rightarrow> m
     | Some s \<Rightarrow> AList.update (cp_id (snd e), Some (cp_database (snd e))) (connectionSnapshot dm (snd e) s) m)"

definition buildConnections :: "connection_snapshot list \<Rightarrow> (string, workspace_state) js_map \<Rightarrow> draft_maps
    \<Rightarrow> (string \<times> connection_profile) list \<Rightarrow> ((string \<times> string option), connection_snapshot) js_map" where
  "buildConnections cached states dm entries =
     fold (buildStep states dm) entries (js_map_of (map (\<lambda>c. ((cn_profileId c, cn_database c), c)) cached))"

definition buildSnapshot :: "workspace_snapshot option \<Rightarrow> (string, workspace_state) js_map \<Rightarrow> draft_maps
    \<Rightarrow> (string \<times> connection_profile) list \<Rightarrow> saved_query list \<Rightarrow> ai_session list \<Rightarrow> workspace_snapshot" where
  "buildSnapshot cache states dm entries saved ai =
     \<lparr>sn_version = 1,
      sn_connections = map snd (buildConnections (case cache of None \<Rightarrow> [] | Some c \<Rightarrow> sn_connections c) states dm entries),
      sn_savedQueries = saved, sn_aiSessions = ai\<rparr>"

subsection \<open>Loading and the chain of writes\<close>

text \<open>
  \<open>ps_chain\<close> holds the snapshots whose writes are requested and not yet settled, in the order of
  \<open>saveChain\<close>; \<open>ps_written\<close> is the trace of snapshots that reached the backend. A load is under way
  while \<open>ps_loaded\<close> is \<open>None\<close>.
\<close>

record persistence =
  ps_cache :: "workspace_snapshot option"
  ps_loaded :: "bool option"
  ps_error :: "string option"
  ps_chain :: "workspace_snapshot list"
  ps_written :: "workspace_snapshot list"

definition startPersistence :: persistence where
  "startPersistence = \<lparr>ps_cache = None, ps_loaded = None, ps_error = None, ps_chain = [], ps_written = []\<rparr>"

datatype persistence_step =
    LoadEnds "string + workspace_snapshot option"
  | SaveNow "workspace_snapshot option \<Rightarrow> workspace_snapshot"
  | WriteEnds "string option"

text \<open>
  \<open>SaveNow\<close> is the part of \<open>saveWorkspaceNow\<close> after \<open>await preloadSnapshot()\<close>, with the snapshot
  that \<open>buildSnapshot\<close> makes of the cache at that moment; it throws when the load failed. \<open>WriteEnds\<close>
  settles the write at the head of the chain.
\<close>

fun persistenceStep :: "persistence \<Rightarrow> persistence_step \<Rightarrow> persistence option" where
  "persistenceStep p (LoadEnds r) = (case ps_loaded p of
     Some _ \<Rightarrow> None
   | None \<Rightarrow> Some (case r of
        Inl e \<Rightarrow> p\<lparr>ps_loaded := Some False, ps_error := Some e\<rparr>
      | Inr snap \<Rightarrow> p\<lparr>ps_cache := snap, ps_loaded := Some True\<rparr>))"
| "persistenceStep p (SaveNow build) = (case ps_loaded p of
     None \<Rightarrow> None
   | Some ok \<Rightarrow> if ok then Some (p\<lparr>ps_chain := ps_chain p @ [build (ps_cache p)]\<rparr>) else Some p)"
| "persistenceStep p (WriteEnds failure) = (case ps_chain p of
     [] \<Rightarrow> None
   | snap # rest \<Rightarrow> Some (case failure of
        None \<Rightarrow> p\<lparr>ps_cache := Some snap, ps_error := None, ps_chain := rest, ps_written := ps_written p @ [snap]\<rparr>
      | Some e \<Rightarrow> p\<lparr>ps_error := Some e, ps_chain := rest\<rparr>))"

subsection \<open>A failed load is never overwritten\<close>

definition persistence_ok :: "persistence \<Rightarrow> bool" where
  "persistence_ok p \<longleftrightarrow> (ps_loaded p \<noteq> Some True \<longrightarrow> ps_chain p = [] \<and> ps_written p = [])
     \<and> (ps_written p \<noteq> [] \<longrightarrow> ps_cache p = Some (last (ps_written p)))"

lemma persistence_ok_step: "persistence_ok p \<Longrightarrow> persistenceStep p a = Some p' \<Longrightarrow> persistence_ok p'"
  by (cases a) (auto simp: persistence_ok_def split: option.splits sum.splits if_splits list.splits)

text \<open>A snapshot that could not be loaded is never overwritten. In any sequence of loads,
  save requests and settled writes, nothing is written unless the load succeeded; and the cache
  that later snapshots start from is always the snapshot written last, so that profiles
  not opened since keep what was stored for them.\<close>

theorem failed_load_never_overwrites:
  assumes "run_actions persistenceStep startPersistence steps = Some p"
  shows "(ps_written p \<noteq> [] \<longrightarrow> ps_loaded p = Some True) \<and> (ps_written p \<noteq> [] \<longrightarrow> ps_cache p = Some (last (ps_written p)))"
proof -
  have "persistence_ok q \<Longrightarrow> run_actions persistenceStep q steps = Some p \<Longrightarrow> persistence_ok p" for q
    by (induction steps arbitrary: q) (auto split: bind_splits intro: persistence_ok_step)
  moreover have "persistence_ok startPersistence" by (simp add: persistence_ok_def startPersistence_def)
  ultimately show ?thesis using assms by (auto simp: persistence_ok_def)
qed

definition example_snap :: workspace_snapshot where
  "example_snap = \<lparr>sn_version = 1, sn_connections = [], sn_savedQueries = [], sn_aiSessions = []\<rparr>"

theorem failed_load_never_overwrites_witness:
  "\<exists>p. run_actions persistenceStep startPersistence [LoadEnds (Inr None), SaveNow (\<lambda>_. example_snap), WriteEnds None] = Some p
     \<and> ps_written p = [example_snap] \<and> ps_loaded p = Some True"
proof -
  obtain p where p: "run_actions persistenceStep startPersistence [LoadEnds (Inr None), SaveNow (\<lambda>_. example_snap), WriteEnds None] = Some p"
    "ps_written p = [example_snap]" by (simp add: startPersistence_def)
  then show ?thesis using failed_load_never_overwrites [OF p(1)] by auto
qed

subsection \<open>Restoring what was saved\<close>

lemma find_index_at:
  assumes "0 \<le> find_index P xs" shows "js_at xs (find_index P xs) = find P xs" "find P xs \<noteq> None"
proof -
  have "js_at xs (find_index P xs) = find P xs \<and> find P xs \<noteq> None" using assms
  proof (induction xs)
    case (Cons x xs)
    show ?case
    proof (cases "P x")
      case False
      then have i: "0 \<le> find_index P xs" "find_index P (x # xs) = find_index P xs + 1"
        using Cons.prems by (auto simp: Let_def split: if_splits)
      then have "js_at (x # xs) (find_index P xs + 1) = js_at xs (find_index P xs)"
        using i(1) by (auto simp: js_at_def nat_add_distrib)
      then show ?thesis using Cons.IH i False by simp
    qed (simp add: js_at_def)
  qed simp
  then show "js_at xs (find_index P xs) = find P xs" "find P xs \<noteq> None" by auto
qed

definition keyed :: "((string \<times> string option), connection_snapshot) js_map \<Rightarrow> bool" where
  "keyed m \<longleftrightarrow> (\<forall>(k, c)\<in>set m. k = (cn_profileId c, cn_database c))"

lemma keyed_update: "keyed m \<Longrightarrow> k = (cn_profileId c, cn_database c) \<Longrightarrow> keyed (AList.update k c m)"
proof -
  assume "keyed m" "k = (cn_profileId c, cn_database c)"
  moreover have "set (AList.update k c m) \<subseteq> insert (k, c) (set m)" by (rule set_update_subset)
  ultimately show ?thesis unfolding keyed_def by blast
qed

lemma keyed_js_map_of: "keyed (js_map_of (map (\<lambda>c. ((cn_profileId c, cn_database c), c)) cs))"
proof -
  have "keyed m \<Longrightarrow> keyed (foldl (\<lambda>m (k, v). AList.update k v m) m (map (\<lambda>c. ((cn_profileId c, cn_database c), c)) cs))" for m
    by (induction cs arbitrary: m) (simp_all add: keyed_update)
  from this [of "[]"] show ?thesis unfolding js_map_of_def keyed_def by simp
qed

lemma keyed_buildStep: "keyed m \<Longrightarrow> keyed (buildStep states dm e m)"
  by (simp add: buildStep_def keyed_update connectionSnapshot_def Let_def split: option.splits)

lemma buildConnections_keyed: "keyed (buildConnections cached states dm entries)"
proof -
  have "keyed m \<Longrightarrow> keyed (fold (buildStep states dm) entries m)" for m
    by (induction entries arbitrary: m) (simp_all add: keyed_buildStep)
  then show ?thesis unfolding buildConnections_def using keyed_js_map_of by blast
qed

lemma buildConnections_get:
  assumes "(cid, p) \<in> set entries" "map_of states cid = Some s"
    and "distinct (map (\<lambda>e. (cp_id (snd e), cp_database (snd e))) entries)"
  shows "map_of (buildConnections cached states dm entries) (cp_id p, Some (cp_database p)) = Some (connectionSnapshot dm p s)"
proof -
  let ?k = "(cp_id p, Some (cp_database p))"
  have step: "(cp_id p, cp_database p) \<noteq> (cp_id (snd e), cp_database (snd e)) \<Longrightarrow> map_of (buildStep states dm e m) ?k = map_of m ?k" for e m
    by (auto simp: buildStep_def split: option.splits)
  have keep: "(cp_id p, cp_database p) \<notin> (\<lambda>e. (cp_id (snd e), cp_database (snd e))) ` set es
      \<Longrightarrow> map_of (fold (buildStep states dm) es m) ?k = map_of m ?k" for es m
    by (induction es arbitrary: m) (simp_all add: step)
  obtain xs ys where e: "entries = xs @ (cid, p) # ys" using split_list [OF assms(1)] by blast
  have "(cp_id p, cp_database p) \<notin> (\<lambda>e. (cp_id (snd e), cp_database (snd e))) ` set ys" using assms(3) unfolding e by simp
  then show ?thesis unfolding buildConnections_def e using assms(2) keep [of ys] by (simp add: buildStep_def)
qed

lemma keyed_find:
  assumes "keyed m" "map_of m (profileId, Some db) = Some c"
  shows "find (\<lambda>c. cn_profileId c = profileId \<and> cn_database c = Some db) (map snd m) = Some c"
  using assms
proof (induction m)
  case (Cons e m)
  then have k: "fst e = (cn_profileId (snd e), cn_database (snd e))" "keyed m" by (auto simp: keyed_def)
  show ?case
  proof (cases "fst e = (profileId, Some db)")
    case True
    then show ?thesis using k(1) Cons.prems(2) by (cases e) simp
  next
    case False
    then have "map_of m (profileId, Some db) = Some c" using Cons.prems(2) by (cases e) (simp split: if_splits)
    then show ?thesis using Cons.IH [OF k(2)] False k(1) by auto
  qed
qed simp

text \<open>The ids of a snapshot that the application wrote are the restored ids.\<close>

lemma restoredIds_own:
  "restoredIds fresh (map (\<lambda>t. \<lparr>ts_title = qt_title t, ts_sql = f t, ts_id = Some (qt_id t), ts_savedQueryId = g t\<rparr>) qs) = map qt_id qs"
  unfolding restoredIds_def by (rule nth_equalityI) (simp_all add: nullish_def)

lemma idByOldId_own:
  assumes "distinct (map qt_id qs)" "'''' \<notin> qt_id ` set qs"
  shows "idByOldId (map qt_id qs) (map (\<lambda>t. \<lparr>ts_title = qt_title t, ts_sql = f t, ts_id = Some (qt_id t), ts_savedQueryId = g t\<rparr>) qs)
      = map (\<lambda>t. (qt_id t, qt_id t)) qs"
proof -
  have "List.map_filter (\<lambda>(t, i). if truthy_str (ts_id t) then Some (the (ts_id t), i) else None)
      (zip (map (\<lambda>t. \<lparr>ts_title = qt_title t, ts_sql = f t, ts_id = Some (qt_id t), ts_savedQueryId = g t\<rparr>) qs) (map qt_id qs))
      = map (\<lambda>t. (qt_id t, qt_id t)) qs"
    using assms(2) by (induction qs) (auto simp: map_filter_simps truthy_str_def)
  moreover have "js_map_of (map (\<lambda>t. (qt_id t, qt_id t)) qs) = map (\<lambda>t. (qt_id t, qt_id t)) qs"
    using assms(1) by (intro js_map_of_distinct) (simp add: comp_def)
  ultimately show ?thesis by (simp add: idByOldId_def)
qed

lemma map_of_self: "map_of (map (\<lambda>t. (qt_id t, qt_id t)) qs) i = (if i \<in> qt_id ` set qs then Some i else None)"
  by (induction qs) auto

lemma map_filter_self:
  "set is \<subseteq> S \<Longrightarrow> (\<And>i. i \<in> S \<Longrightarrow> f i = Some i) \<Longrightarrow> List.map_filter f is = is"
  by (induction "is") (auto simp: map_filter_simps)

text \<open>The group that a saved group becomes.\<close>

definition keptGroup :: "query_tab list \<Rightarrow> tab_group \<Rightarrow> tab_group" where
  "keptGroup qs g = (let ids = filter (\<lambda>i. i \<in> qt_id ` set qs) (g_tabIds g) in
     \<lparr>g_id = g_id g, g_tabIds = ids,
      g_activeTabId = (if truthy_str (g_activeTabId g) \<and> the (g_activeTabId g) \<in> set ids then g_activeTabId g else js_at ids 0)\<rparr>)"

lemma groupToQueryTabIds_own:
  assumes "'''' \<notin> qt_id ` set qs"
  shows "groupToQueryTabIds (map (\<lambda>t. (qt_id t, qt_id t)) qs) (groupSnapshot qs g) = keptGroup qs g"
proof -
  let ?ids = "filter (\<lambda>i. i \<in> qt_id ` set qs) (g_tabIds g)" and ?m = "map (\<lambda>t. (qt_id t, qt_id t)) qs"
  have mf: "List.map_filter (map_of ?m) ?ids = ?ids" by (rule map_filter_self [of _ "qt_id ` set qs"]) (auto simp: map_of_self)
  moreover have "filter (\<lambda>i. i \<noteq> '''') ?ids = ?ids"
  proof (rule filter_True, rule ballI)
    fix i assume "i \<in> set ?ids"
    then have "i \<in> qt_id ` set qs" by simp
    then show "i \<noteq> ''''" using assms by metis
  qed
  moreover have "(if truthy_str a then map_of ?m (the a) else None) = a" if a: "\<forall>x. a = Some x \<longrightarrow> x \<in> qt_id ` set qs" for a
  proof (cases a)
    case (Some x)
    then have x: "x \<in> qt_id ` set qs" using a by simp
    then have "x \<noteq> ''''" using assms by metis
    then show ?thesis using Some x by (simp add: truthy_str_def map_of_self)
  qed (simp add: truthy_str_def)
  moreover have "\<forall>x. gs_activeTabId (groupSnapshot qs g) = Some x \<longrightarrow> x \<in> qt_id ` set qs"
  proof (intro allI impI)
    fix x assume x: "gs_activeTabId (groupSnapshot qs g) = Some x"
    have "x \<in> set ?ids"
    proof (cases "truthy_str (g_activeTabId g) \<and> the (g_activeTabId g) \<in> set ?ids")
      case True
      then show ?thesis using x unfolding groupSnapshot_def Let_def by simp
    next
      case False
      then have "js_at ?ids 0 = Some x" using x unfolding groupSnapshot_def Let_def group_snapshot.select_convs by (simp only: if_False)
      then show ?thesis by (rule js_at_in_set)
    qed
    then show "x \<in> qt_id ` set qs" by simp
  qed
  ultimately have act: "(if truthy_str (gs_activeTabId (groupSnapshot qs g)) then map_of ?m (the (gs_activeTabId (groupSnapshot qs g))) else None)
      = gs_activeTabId (groupSnapshot qs g)" and ids: "filter (\<lambda>i. i \<noteq> '''') (List.map_filter (map_of ?m) ?ids) = ?ids" by metis+
  have fields: "gs_tabIds (groupSnapshot qs g) = ?ids" "gs_id (groupSnapshot qs g) = g_id g"
    "gs_activeTabId (groupSnapshot qs g) = g_activeTabId (keptGroup qs g)" "?ids = g_tabIds (keptGroup qs g)" "g_id g = g_id (keptGroup qs g)"
    by (simp_all add: groupSnapshot_def keptGroup_def Let_def)
  show ?thesis unfolding groupToQueryTabIds_def act fields(1) ids unfolding fields(2-5) by simp
qed

lemma restoredGroups_own:
  fixes s :: workspace_state
  defines "qs \<equiv> filter isQueryTab (ws_tabs s)"
  assumes ids: "distinct (map qt_id qs)" "'''' \<notin> qt_id ` set qs"
  shows "filter (\<lambda>g. g_tabIds g \<noteq> []) (map (groupToQueryTabIds (idByOldId (map qt_id qs) (cn_tabs (connectionSnapshot dm p s))))
      (nullish (cn_tabGroups (connectionSnapshot dm p s)) [])) = filter (\<lambda>g. g_tabIds g \<noteq> []) (map (keptGroup qs) (getTabGroups s))"
proof -
  have tabs: "cn_tabs (connectionSnapshot dm p s) = map (\<lambda>t. \<lparr>ts_title = qt_title t, ts_sql = nullish (map_of (dm_sql dm) (qt_id t)) '''', ts_id = Some (qt_id t),
                   ts_savedQueryId = map_of (dm_saved dm) (qt_id t)\<rparr>) qs"
    by (simp add: connectionSnapshot_def Let_def qs_def)
  have m: "idByOldId (map qt_id qs) (cn_tabs (connectionSnapshot dm p s)) = map (\<lambda>t. (qt_id t, qt_id t)) qs"
    unfolding tabs by (rule idByOldId_own [OF ids])
  have empty: "gs_tabIds (groupSnapshot qs g) \<noteq> [] \<longleftrightarrow> g_tabIds (keptGroup qs g) \<noteq> []" for g
    by (simp add: groupSnapshot_def keptGroup_def Let_def)
  have "map (groupToQueryTabIds (map (\<lambda>t. (qt_id t, qt_id t)) qs)) (filter (\<lambda>g. gs_tabIds g \<noteq> []) (map (groupSnapshot qs) gs))
      = filter (\<lambda>g. g_tabIds g \<noteq> []) (map (keptGroup qs) gs)" for gs
    by (induction gs) (simp_all add: groupToQueryTabIds_own [OF ids(2)] empty)
  then show ?thesis unfolding m by (simp add: connectionSnapshot_def Let_def nullish_def qs_def)
qed

lemma restoreDrafts_sql:
  "distinct ids \<Longrightarrow> length ids = length tabs \<Longrightarrow> k < length ids \<Longrightarrow>
   map_of (dm_sql (restoreDrafts ids tabs dm)) (ids ! k) = Some (ts_sql (tabs ! k))"
proof (induction ids arbitrary: tabs k dm)
  case (Cons i ids)
  then obtain t ts where t: "tabs = t # ts" "length ids = length ts" by (cases tabs) auto
  let ?dm = "dm\<lparr>dm_sql := AList.update i (ts_sql t) (dm_sql dm),
     dm_saved := (if truthy_str (ts_savedQueryId t) then AList.update i (the (ts_savedQueryId t)) (dm_saved dm) else dm_saved dm)\<rparr>"
  have step: "restoreDrafts (i # ids) tabs dm = restoreDrafts ids ts ?dm" by (simp add: restoreDrafts_def t(1))
  have keep: "j \<notin> set js \<Longrightarrow> length js = length us \<Longrightarrow> map_of (dm_sql (restoreDrafts js us d)) j = map_of (dm_sql d) j" for js us d and j :: string
  proof (induction js arbitrary: us d)
    case (Cons x js)
    then obtain u us' where "us = u # us'" by (cases us) auto
    then show ?case using Cons by (simp add: restoreDrafts_def)
  qed (simp add: restoreDrafts_def)
  show ?case
  proof (cases k)
    case 0
    then show ?thesis using step keep [of i ids ts ?dm] Cons.prems(1) t by simp
  next
    case (Suc l)
    then show ?thesis using step Cons.IH [of ts l ?dm] Cons.prems t by simp
  qed
qed simp

text \<open>The workspace that a saved workspace becomes.\<close>

definition keptWorkspace :: "workspace_state \<Rightarrow> workspace_state" where
  "keptWorkspace s = (let qs = filter isQueryTab (ws_tabs s); gs = filter (\<lambda>g. g_tabIds g \<noteq> []) (map (keptGroup qs) (getTabGroups s)) in
     \<lparr>ws_tabs = map (\<lambda>t. restoredTab (qt_id t) (qt_title t)) qs,
      ws_activeTabId = (if \<exists>t\<in>set qs. Some (qt_id t) = ws_activeTabId s then ws_activeTabId s else Some (qt_id (hd qs))),
      ws_tabGroups = Some (if gs \<noteq> [] then gs else [\<lparr>g_id = ''main'', g_tabIds = map qt_id qs, g_activeTabId = Some (qt_id (hd qs))\<rparr>]),
      ws_nextTabNumber = length qs + 1, ws_nextResultNumber = 1\<rparr>)"

lemma restoredState_own:
  assumes ids: "distinct (tab_ids s)" "'''' \<notin> set (tab_ids s)" and ne: "filter isQueryTab (ws_tabs s) \<noteq> []"
  shows "restoredState fresh (connectionSnapshot dm p s) = keptWorkspace s"
proof -
  let ?qs = "filter isQueryTab (ws_tabs s)" and ?c = "connectionSnapshot dm p s"
  have q: "distinct (map qt_id ?qs)" "'''' \<notin> qt_id ` set ?qs"
    using ids by (auto simp: tab_ids_def distinct_map_filter)
  have tabs: "cn_tabs ?c = map (\<lambda>t. \<lparr>ts_title = qt_title t, ts_sql = nullish (map_of (dm_sql dm) (qt_id t)) '''', ts_id = Some (qt_id t),
                   ts_savedQueryId = map_of (dm_saved dm) (qt_id t)\<rparr>) ?qs"
    by (simp add: connectionSnapshot_def Let_def)
  have rids: "restoredIds fresh (cn_tabs ?c) = map qt_id ?qs" unfolding tabs by (rule restoredIds_own)
  have hd0: "js_at (map qt_id ?qs) 0 = Some (qt_id (hd ?qs))" using ne by (cases ?qs) (simp_all add: js_at_def)
  let ?P = "\<lambda>t. Some (qt_id t) = ws_activeTabId s"
  have active: "js_at (map qt_id ?qs) (min (max 0 (find_index ?P ?qs)) (int (length ?qs) - 1))
      = (if \<exists>t\<in>set ?qs. ?P t then ws_activeTabId s else Some (qt_id (hd ?qs)))"
  proof (cases "\<exists>t\<in>set ?qs. ?P t")
    case True
    then have i: "0 \<le> find_index ?P ?qs" by (simp only: find_index_nonneg)
    have lt: "find_index ?P ?qs < int (length ?qs)" by (rule find_index_lt)
    have "?P (?qs ! nat (find_index ?P ?qs))" using i by (rule find_index_sat)
    then show ?thesis using True i lt by (simp add: js_at_def)
  next
    case False
    then have "find_index ?P ?qs < 0" by (simp add: find_index_neg)
    then show ?thesis using False hd0 ne by (cases ?qs) simp_all
  qed
  have groups: "restoredGroups ?c (map qt_id ?qs) = (let gs = filter (\<lambda>g. g_tabIds g \<noteq> []) (map (keptGroup ?qs) (getTabGroups s)) in
      if gs \<noteq> [] then gs else [\<lparr>g_id = ''main'', g_tabIds = map qt_id ?qs, g_activeTabId = Some (qt_id (hd ?qs))\<rparr>])"
    unfolding restoredGroups_def restoredGroups_own [OF q] Let_def hd0 by simp
  have "map2 (\<lambda>i t. restoredTab i (ts_title t)) (map qt_id ?qs) (cn_tabs ?c) = map (\<lambda>t. restoredTab (qt_id t) (qt_title t)) ?qs"
    unfolding tabs zip_map_map zip_same_conv_map map_map by simp
  moreover have "cn_activeTabIndex ?c = Some (max 0 (find_index ?P ?qs))" "\<exists>g. cn_tabGroups ?c = Some g"
    by (simp_all add: connectionSnapshot_def Let_def)
  ultimately show ?thesis
    using active groups unfolding restoredState_def rids Let_def keptWorkspace_def by (auto simp: nullish_def)
qed

lemma kept_inv:
  assumes inv: "ws_inv s" and act: "\<exists>t\<in>set (filter isQueryTab (ws_tabs s)). Some (qt_id t) = ws_activeTabId s"
  shows "ws_inv (keptWorkspace s)"
proof -
  let ?qs = "filter isQueryTab (ws_tabs s)" and ?gs = "getTabGroups s"
  let ?kept = "filter (\<lambda>g. g_tabIds g \<noteq> []) (map (keptGroup ?qs) ?gs)"
  obtain a where a: "ws_activeTabId s = Some a" "a \<in> qt_id ` set ?qs" using act by (metis image_eqI)
  have ids: "distinct (tab_ids s)" "'''' \<notin> set (tab_ids s)" "qt_id ` set ?qs \<subseteq> set (tab_ids s)"
    using inv by (auto simp: ws_inv_def tab_ids_def)
  have g: "groups_inv (set (tab_ids s)) (ws_activeTabId s) ?gs"
  proof (cases "ws_tabGroups s")
    case None
    then show ?thesis using inv a by (auto simp: ws_inv_def getTabGroups_def nullish_def groups_inv_def group_inv_def tab_ids_def)
  qed (use inv in \<open>auto simp: ws_inv_def getTabGroups_def nullish_def\<close>)
  have tabs: "g_tabIds (keptGroup ?qs x) = filter (\<lambda>i. i \<in> qt_id ` set ?qs) (g_tabIds x)" "g_id (keptGroup ?qs x) = g_id x" for x
    by (simp_all add: keptGroup_def Let_def)
  have seats: "concat (map g_tabIds ?kept) = filter (\<lambda>i. i \<in> qt_id ` set ?qs) (concat (map g_tabIds ?gs))"
  proof -
    have "concat (map g_tabIds (filter (\<lambda>g. g_tabIds g \<noteq> []) (map (keptGroup ?qs) xs))) = filter (\<lambda>i. i \<in> qt_id ` set ?qs) (concat (map g_tabIds xs))" for xs
    proof (induction xs)
      case (Cons x xs)
      then show ?case using tabs(1) [of x] by (cases "g_tabIds (keptGroup ?qs x) = []") simp_all
    qed simp
    then show ?thesis .
  qed
  have "a \<in> set (concat (map g_tabIds ?gs))" using g a ids(3) by (auto simp: groups_inv_def)
  then have ne: "?kept \<noteq> []" using seats a(2) by (metis (no_types, lifting) concat.simps(1) empty_filter_conv list.simps(8))
  have gid: "distinct (map g_id ?kept)"
  proof -
    have "map g_id (filter P (map (keptGroup ?qs) xs)) = map g_id (filter (P \<circ> keptGroup ?qs) xs)" for P xs
      by (induction xs) (simp_all add: tabs)
    then show ?thesis using g by (simp add: groups_inv_def distinct_map_filter)
  qed
  have each: "group_inv (Some a) k" if k: "k \<in> set ?kept" for k
  proof -
    obtain x where x: "x \<in> set ?gs" "k = keptGroup ?qs x" "g_tabIds k \<noteq> []" using k by auto
    have own: "\<exists>b\<in>set (g_tabIds k). g_activeTabId k = Some b"
      using x(3) unfolding x(2) keptGroup_def Let_def
      by (cases "filter (\<lambda>i. i \<in> qt_id ` set ?qs) (g_tabIds x)") (auto simp: js_at_def truthy_str_def split: option.splits)
    have "g_activeTabId k = Some a" if "a \<in> set (g_tabIds k)"
    proof -
      have ax: "a \<in> set (g_tabIds x)" "a \<in> qt_id ` set ?qs" using that unfolding x(2) tabs by auto
      then have "g_activeTabId x = Some a" using g x(1) a(1) by (auto simp: groups_inv_def group_inv_def)
      moreover have "a \<noteq> ''''" using ax(2) ids(2,3) by blast
      ultimately show ?thesis using that unfolding x(2) keptGroup_def Let_def by (simp add: truthy_str_def)
    qed
    then show ?thesis using own by (simp add: group_inv_def)
  qed
  have cover: "\<Union> (set ` g_tabIds ` set ?kept) = qt_id ` set ?qs"
  proof -
    have "\<Union> (set ` g_tabIds ` set ?kept) = set (concat (map g_tabIds ?kept))" by auto
    also have "\<dots> = set (concat (map g_tabIds ?gs)) \<inter> qt_id ` set ?qs" unfolding seats by auto
    also have "set (concat (map g_tabIds ?gs)) = set (tab_ids s)" using g by (simp add: groups_inv_def)
    also have "set (tab_ids s) \<inter> qt_id ` set ?qs = qt_id ` set ?qs" by (rule Int_absorb1 [OF ids(3)])
    finally show ?thesis .
  qed
  have "distinct (concat (map g_tabIds ?kept))" unfolding seats using g by (simp add: groups_inv_def)
  then have "groups_inv (qt_id ` set ?qs) (Some a) ?kept" unfolding groups_inv_def using gid cover each by blast
  moreover have "tab_ids (keptWorkspace s) = map qt_id ?qs" by (simp add: tab_ids_def keptWorkspace_def Let_def restoredTab_def)
  moreover have "distinct (map qt_id ?qs)" using ids(1) by (simp add: tab_ids_def distinct_map_filter)
  moreover have "tab_inv (restoredTab i t)" for i t by (simp add: tab_inv_def restoredTab_def)
  ultimately show ?thesis
    using ne a act ids(2,3) unfolding ws_inv_def by (auto simp: keptWorkspace_def Let_def)
qed


definition example_profile :: connection_profile where
  "example_profile = \<lparr>cp_id = ''p'', cp_name = ''db'', cp_environment = Local, cp_color = None, cp_host = ''localhost'', cp_port = 5432,
     cp_database = ''app'', cp_username = ''u'', cp_tlsMode = VerifyFull, cp_readOnly = False, cp_queryTimeoutMs = 1000, cp_maxRows = 100,
     cp_hasStoredCredential = False\<rparr>"

definition example_saved :: workspace_state where
  "example_saved = \<lparr>ws_tabs = [restoredTab ''q1'' ''A'', restoredTab ''q2'' ''B''], ws_activeTabId = Some ''q2'', ws_tabGroups = None,
     ws_nextTabNumber = 3, ws_nextResultNumber = 1\<rparr>"


text \<open>
  When the active tab is not a query tab, the snapshot records index 0, and the restored workspace
  makes the first query tab active although its panel shows another one.
\<close>

definition hiddenActive :: workspace_state where
  "hiddenActive = \<lparr>ws_tabs = [restoredTab ''q1'' ''A'', restoredTab ''q2'' ''B'', (restoredTab ''t'' ''T'')\<lparr>qt_kind := TableDataKind\<rparr>],
     ws_activeTabId = Some ''t'',
     ws_tabGroups = Some [\<lparr>g_id = ''main'', g_tabIds = [''q1'', ''q2''], g_activeTabId = Some ''q2''\<rparr>,
                          \<lparr>g_id = ''right'', g_tabIds = [''t''], g_activeTabId = Some ''t''\<rparr>],
     ws_nextTabNumber = 4, ws_nextResultNumber = 1\<rparr>"

theorem restored_active_tab_can_be_hidden:
  "ws_inv hiddenActive
   \<and> (\<exists>w cache' dm'. restoreWorkspace (\<lambda>_. ''x'') (Some (buildSnapshot None [(''c'', hiddenActive)] \<lparr>dm_sql = [], dm_saved = []\<rparr>
         [(''c'', example_profile)] [] [])) \<lparr>dm_sql = [], dm_saved = []\<rparr> ''p'' ''app'' = (Some w, cache', dm')
       \<and> ws_activeTabId w = Some ''q1''
       \<and> ws_tabGroups w = Some [\<lparr>g_id = ''main'', g_tabIds = [''q1'', ''q2''], g_activeTabId = Some ''q2''\<rparr>] \<and> \<not> ws_inv w)"
proof -
  let ?call = "restoreWorkspace (\<lambda>_. ''x'') (Some (buildSnapshot None [(''c'', hiddenActive)] \<lparr>dm_sql = [], dm_saved = []\<rparr>
         [(''c'', example_profile)] [] [])) \<lparr>dm_sql = [], dm_saved = []\<rparr> ''p'' ''app''"
  have inv: "ws_inv hiddenActive"
    by (auto simp: ws_inv_def hiddenActive_def tab_ids_def restoredTab_def tab_inv_def groups_inv_def group_inv_def)
  have call: "map_option ws_activeTabId (fst ?call) = Some (Some ''q1'')"
    "map_option ws_tabGroups (fst ?call) = Some (Some [\<lparr>g_id = ''main'', g_tabIds = [''q1'', ''q2''], g_activeTabId = Some ''q2''\<rparr>])"
    by code_simp+
  then obtain w cache' dm' where w: "?call = (Some w, cache', dm')" "ws_activeTabId w = Some ''q1''"
    "ws_tabGroups w = Some [\<lparr>g_id = ''main'', g_tabIds = [''q1'', ''q2''], g_activeTabId = Some ''q2''\<rparr>]"
    by (cases ?call) auto
  have "\<not> ws_inv w" using w(2,3) by (auto simp: ws_inv_def groups_inv_def group_inv_def)
  then show ?thesis using inv w by blast
qed

end
