(* ===== verification/Statement_Splitter.thy ===== *)
theory Statement_Splitter
  imports Js_Prelude
begin

text \<open>
  The SQL scanner, \<open>src/features/query-editor/statementSplitter.ts\<close>, and the range that the
  formatter works on (\<open>formatSql.ts\<close>). The loops are the index loops of the source. \<open>out\<close> in
  \<open>stripLiterals\<close> grows by appending, so each iteration here returns its piece in front of
  what the later ones append.
\<close>

subsection \<open>Scanning\<close>

definition char_at :: "string \<Rightarrow> nat \<Rightarrow> char option" where
  "char_at s i = (if i < length s then Some (s ! i) else None)"

abbreviation sq :: char where "sq \<equiv> CHR 0x27"
abbreviation dq :: char where "dq \<equiv> CHR 0x22"
abbreviation nl :: char where "nl \<equiv> CHR 0x0A"

text \<open>The inner loop of a quoted token: the index of the closing quote, or the length.\<close>

function skipQuote :: "string \<Rightarrow> char \<Rightarrow> nat \<Rightarrow> nat" where
  "skipQuote s q i =
     (if i < length s
      then if s ! i = q
           then if q = sq \<and> char_at s (i + 1) = Some sq then skipQuote s q (i + 2) else i
           else skipQuote s q (i + 1)
      else i)"
  by auto
termination by (relation "measure (\<lambda>(s, q, i). length s - i)") auto

text \<open>The loop of a block comment, after its first two characters.\<close>

function skipBlock :: "string \<Rightarrow> nat \<Rightarrow> nat \<Rightarrow> nat" where
  "skipBlock s depth i =
     (if i < length s \<and> depth > 0
      then if s ! i = CHR ''/'' \<and> char_at s (i + 1) = Some (CHR ''*'') then skipBlock s (depth + 1) (i + 2)
           else if s ! i = CHR ''*'' \<and> char_at s (i + 1) = Some (CHR ''/'') then skipBlock s (depth - 1) (i + 2)
           else skipBlock s depth (i + 1)
      else i)"
  by auto
termination by (relation "measure (\<lambda>(s, d, i). length s - i)") auto

declare skipQuote.simps [simp del] skipBlock.simps [simp del]

text \<open>\<open>/^\$[A-Za-z_][A-Za-z0-9_]*\$|^\$\$/.exec(sql.slice(i))\<close>, the match.\<close>

definition dollarTag :: "string \<Rightarrow> string option" where
  "dollarTag r = (case r of
       [] \<Rightarrow> None
     | d # rest \<Rightarrow>
        if d \<noteq> CHR ''$'' then None
        else let w = takeWhile is_word rest in
          if rest \<noteq> [] \<and> is_ident_start (hd rest) \<and> char_at rest (length w) = Some (CHR ''$'')
          then Some (''$'' @ w @ ''$'')
          else if char_at rest 0 = Some (CHR ''$'') then Some ''$$'' else None)"

definition lineEnd :: "string \<Rightarrow> nat \<Rightarrow> nat option" where
  "lineEnd s i = index_of_from s [nl] i"

definition dollarEnd :: "string \<Rightarrow> string \<Rightarrow> nat \<Rightarrow> nat" where
  "dollarEnd s tag i = (case index_of_from s tag (i + length tag) of
       None \<Rightarrow> length s | Some close \<Rightarrow> close + length tag)"

subsection \<open>Splitting\<close>

record statement =
  st_sql :: string
  st_from :: nat
  st_to :: nat

definition pushStatement :: "string \<Rightarrow> nat \<Rightarrow> nat \<Rightarrow> statement list \<Rightarrow> statement list" where
  "pushStatement s start end acc =
     (let raw = slice s start end in
      if length (trim raw) > 0 then acc @ [\<lparr>st_sql = trim raw, st_from = start, st_to = end\<rparr>] else acc)"

lemma skipQuote_ge: "i \<le> skipQuote s q i"
proof (induction s q i rule: skipQuote.induct)
  case (1 s q i)
  then show ?case by (subst skipQuote.simps) (auto dest: Suc_leD)
qed

lemma skipBlock_ge: "i \<le> skipBlock s d i"
proof (induction s d i rule: skipBlock.induct)
  case (1 s d i)
  then show ?case by (subst skipBlock.simps) (auto dest: Suc_leD)
qed

lemma find_sub_bound: "find_sub p s = Some k \<Longrightarrow> k + length p \<le> length s"
proof (induction p s arbitrary: k rule: find_sub.induct)
  case (1 p s)
  show ?case
  proof (cases "starts_with s p")
    case True
    then have "length p \<le> length s" unfolding starts_with_def by (metis length_take min.cobounded1 order_refl min_def)
    then show ?thesis using 1(2) True by (simp add: find_sub.simps [of p s])
  next
    case False
    then obtain x s' k' where "s = x # s'" "find_sub p s' = Some k'" "k = Suc k'"
      using 1(2) by (auto simp: find_sub.simps [of p s] split: list.splits)
    then show ?thesis using 1(1) [OF False, of x s' k'] by simp
  qed
qed

lemma index_of_from_ge: "index_of_from s p i = Some k \<Longrightarrow> i \<le> k"
  by (auto simp: index_of_from_def)

lemma index_of_from_lt: "index_of_from s p i = Some k \<Longrightarrow> p \<noteq> [] \<Longrightarrow> k + length p \<le> length s"
  using find_sub_bound [of p "drop i s"] by (cases p) (auto simp: index_of_from_def)

lemma dollarTag_length: "dollarTag r = Some tag \<Longrightarrow> 2 \<le> length tag"
  by (auto simp: dollarTag_def Let_def split: list.splits if_splits)

lemma dollarEnd_gt:
  assumes "i < length s" "dollarTag (drop i s) = Some tag" shows "i < dollarEnd s tag i"
proof (cases "index_of_from s tag (i + length tag)")
  case (Some k)
  then show ?thesis using index_of_from_ge [OF Some] dollarTag_length [OF assms(2)] by (simp add: dollarEnd_def)
qed (use assms in \<open>simp add: dollarEnd_def\<close>)

lemma find_sub_char:
  "find_sub [c] s = Some k \<Longrightarrow> k < length s \<and> s ! k = c \<and> (\<forall>j<k. s ! j \<noteq> c)"
proof (induction s arbitrary: k)
  case Nil
  then show ?case by (simp add: find_sub.simps [of _ "[]"] starts_with_def)
next
  case (Cons x s)
  show ?case
  proof (cases "x = c")
    case True
    then have "k = 0" using Cons.prems by (simp add: find_sub.simps [of "[c]" "c # s"] starts_with_def)
    then show ?thesis using True by simp
  next
    case False
    then obtain k' where "find_sub [c] s = Some k'" "k = Suc k'"
      using Cons.prems by (auto simp: find_sub.simps [of _ "x # s"] starts_with_def)
    then show ?thesis using Cons.IH [of k'] False by (auto simp: nth_Cons split: nat.splits)
  qed
qed

lemma lineEnd_Some:
  assumes "lineEnd s i = Some k"
  shows "i \<le> k" "k < length s" "s ! k = nl" "\<And>j. i \<le> j \<Longrightarrow> j < k \<Longrightarrow> s ! j \<noteq> nl"
proof -
  obtain m where m: "find_sub [nl] (drop i s) = Some m" "k = i + m"
    using assms by (auto simp: lineEnd_def index_of_from_def)
  note c = find_sub_char [OF m(1)]
  show "i \<le> k" "k < length s" "s ! k = nl" using c m(2) by auto
  show "s ! j \<noteq> nl" if "i \<le> j" "j < k" for j
  proof -
    have jm: "j - i < m" using m(2) that by linarith
    have "m < length s - i" using c by simp
    then have le: "i \<le> length s" by linarith
    have "drop i s ! (j - i) \<noteq> nl" using c jm by blast
    then show ?thesis using that le by simp
  qed
qed

lemma lineEnd_gt: "lineEnd s i = Some k \<Longrightarrow> s ! i \<noteq> nl \<Longrightarrow> i < k"
  using lineEnd_Some [of s i k] by (cases "i = k") auto

lemma dash_not_nl [simp]: "CHR ''-'' \<noteq> nl"
  by simp

function splitLoop :: "string \<Rightarrow> nat \<Rightarrow> nat \<Rightarrow> statement list \<Rightarrow> statement list" where
  "splitLoop s start i acc =
     (if i < length s
      then let c = s ! i in
        if c = sq \<or> c = dq then splitLoop s start (skipQuote s c (i + 1) + 1) acc
        else if c = CHR ''-'' \<and> char_at s (i + 1) = Some (CHR ''-'')
        then splitLoop s start (case lineEnd s i of None \<Rightarrow> length s | Some k \<Rightarrow> k + 1) acc
        else if c = CHR ''/'' \<and> char_at s (i + 1) = Some (CHR ''*'')
        then splitLoop s start (skipBlock s 1 (i + 2)) acc
        else if c = CHR ''$''
        then (case dollarTag (drop i s) of
                Some tag \<Rightarrow> splitLoop s start (dollarEnd s tag i) acc
              | None \<Rightarrow> splitLoop s start (i + 1) acc)
        else if c = CHR '';'' then splitLoop s (i + 1) (i + 1) (pushStatement s start i acc)
        else splitLoop s start (i + 1) acc
      else pushStatement s start (length s) acc)"
  by auto
termination
proof (relation "measure (\<lambda>(s, start, i, acc). length s - i)", goal_cases)
  case (2 s start i acc c)
  then show ?case using skipQuote_ge [of "i + 1" s c] by auto
next
  case (3 s start i acc c)
  then show ?case by (auto simp: lineEnd_def split: option.splits dest: index_of_from_ge)
next
  case (4 s start i acc c)
  then show ?case using skipBlock_ge [of "i + 2" s 1] by auto
next
  case (6 s start i acc c tag)
  then show ?case using dollarEnd_gt [of i s tag] by auto
qed auto

declare splitLoop.simps [simp del]

definition splitStatements :: "string \<Rightarrow> statement list" where
  "splitStatements s = splitLoop s 0 0 []"

subsection \<open>Stripping\<close>

text \<open>\<open>blank(from, to)\<close>: every character but a newline becomes a space.\<close>

definition blank :: "string \<Rightarrow> string" where
  "blank t = map (\<lambda>c. if c = nl then nl else CHR '' '') t"

function stripLoop :: "string \<Rightarrow> nat \<Rightarrow> string" where
  "stripLoop s i =
     (if i < length s
      then let c = s ! i in
        if c = sq \<or> c = dq
        then let j = skipQuote s c (i + 1) + 1; seg = slice s i (min j (length s)) in
             (if c = dq then seg else blank seg) @ stripLoop s j
        else if c = CHR ''-'' \<and> char_at s (i + 1) = Some (CHR ''-'')
        then let j = (case lineEnd s i of None \<Rightarrow> length s | Some k \<Rightarrow> k) in
             blank (slice s i j) @ stripLoop s j
        else if c = CHR ''/'' \<and> char_at s (i + 1) = Some (CHR ''*'')
        then let j = skipBlock s 1 (i + 2) in blank (slice s i j) @ stripLoop s j
        else if c = CHR ''$''
        then (case dollarTag (drop i s) of
                Some tag \<Rightarrow> let j = dollarEnd s tag i in blank (slice s i j) @ stripLoop s j
              | None \<Rightarrow> c # stripLoop s (i + 1))
        else c # stripLoop s (i + 1)
      else [])"
  by auto
termination
proof (relation "measure (\<lambda>(s, i). length s - i)", goal_cases)
  case (2 s i c j)
  then show ?case using skipQuote_ge [of "i + 1" s c] by auto
next
  case (3 s i c j)
  then have "s ! i \<noteq> nl" by auto
  then show ?case using 3 lineEnd_gt [of s i] by (auto split: option.splits)
next
  case (4 s i c j)
  then show ?case using skipBlock_ge [of "i + 2" s 1] by auto
next
  case (6 s i c tag j)
  then show ?case using dollarEnd_gt [of i s tag] by auto
qed auto

declare stripLoop.simps [simp del]

definition stripLiterals :: "string \<Rightarrow> string" where
  "stripLiterals s = stripLoop s 0"

subsection \<open>Uses\<close>

text \<open>\<open>match(/[A-Za-z_][A-Za-z0-9_]*/)\<close> finds the first word.\<close>

definition firstKeyword :: "string \<Rightarrow> string" where
  "firstKeyword s = to_upper (takeWhile is_word (dropWhile (\<lambda>c. \<not> is_ident_start c) (stripLiterals s)))"

definition statementAt :: "string \<Rightarrow> nat \<Rightarrow> statement option" where
  "statementAt s cursor =
     (let statements = splitStatements s in
      case find (\<lambda>st. cursor \<ge> st_from st \<and> cursor \<le> st_to st + 1) statements of
        Some st \<Rightarrow> Some st
      | None \<Rightarrow>
         (case filter (\<lambda>st. st_to st < cursor) statements of
            [] \<Rightarrow> (case statements of [] \<Rightarrow> None | st # _ \<Rightarrow> Some st)
          | before \<Rightarrow> Some (last before)))"

definition formatRange :: "string \<Rightarrow> nat \<Rightarrow> nat \<Rightarrow> (nat \<times> nat) option" where
  "formatRange doc from to =
     (case (if from \<noteq> to then Some (from, to) else map_option (\<lambda>st. (st_from st, st_to st)) (statementAt doc from)) of
        None \<Rightarrow> None
      | Some (a, b) \<Rightarrow>
         let raw = slice doc a b;
             start = a + (length raw - length (trim_start raw));
             end = start + length (trim raw)
         in if end > start then Some (start, end) else None)"

text \<open>
  \<open>formatSqlInEditor\<close> on the document and its selection: the document and the cursor afterwards.
  The formatter is the third-party library's; \<open>None\<close> is its exception.
\<close>

definition formatSqlInEditor :: "(string \<Rightarrow> string option) \<Rightarrow> string \<Rightarrow> nat \<Rightarrow> nat \<Rightarrow> (string \<times> nat) option" where
  "formatSqlInEditor format doc from to =
     (case formatRange doc from to of
        None \<Rightarrow> None
      | Some (a, b) \<Rightarrow>
         let original = slice doc a b
         in case format original of
              None \<Rightarrow> None
            | Some formatted \<Rightarrow>
                if formatted = original then None
                else Some (take a doc @ formatted @ drop b doc, a + length formatted))"

subsection \<open>Tokens\<close>

text \<open>The index after the token at \<open>i\<close>, and the top-level semicolons from \<open>i\<close> on.\<close>

definition tokEnd :: "string \<Rightarrow> nat \<Rightarrow> nat" where
  "tokEnd s i = (let c = s ! i in
     if c = sq \<or> c = dq then skipQuote s c (i + 1) + 1
     else if c = CHR ''-'' \<and> char_at s (i + 1) = Some (CHR ''-'')
     then (case lineEnd s i of None \<Rightarrow> length s | Some k \<Rightarrow> k + 1)
     else if c = CHR ''/'' \<and> char_at s (i + 1) = Some (CHR ''*'') then skipBlock s 1 (i + 2)
     else if c = CHR ''$'' then (case dollarTag (drop i s) of Some tag \<Rightarrow> dollarEnd s tag i | None \<Rightarrow> i + 1)
     else i + 1)"

lemma tokEnd_gt: "i < length s \<Longrightarrow> i < tokEnd s i"
  using skipQuote_ge [of "i + 1" s] skipBlock_ge [of "i + 2" s 1] dollarEnd_gt [of i s] lineEnd_Some(1) [of s i]
  by (auto simp: tokEnd_def Let_def split: option.splits intro: le_imp_less_Suc dest: Suc_leD)

function cuts :: "string \<Rightarrow> nat \<Rightarrow> nat list" where
  "cuts s i = (if i < length s
     then (if s ! i = CHR '';'' then i # cuts s (i + 1) else cuts s (tokEnd s i)) else [])"
  by auto
termination
proof (relation "measure (\<lambda>(s, i). length s - i)", goal_cases)
  case (3 s i)
  then show ?case using tokEnd_gt [of i s] by auto
qed auto

declare cuts.simps [simp del]

fun pieces :: "nat \<Rightarrow> nat list \<Rightarrow> nat \<Rightarrow> (nat \<times> nat) list" where
  "pieces start [] n = [(start, n)]"
| "pieces start (c # cs) n = (start, c) # pieces (c + 1) cs n"

definition statements_of :: "string \<Rightarrow> (nat \<times> nat) list \<Rightarrow> statement list" where
  "statements_of s ps = map (\<lambda>(a, b). \<lparr>st_sql = trim (slice s a b), st_from = a, st_to = b\<rparr>)
     (filter (\<lambda>(a, b). trim (slice s a b) \<noteq> []) ps)"

lemma splitLoop_cuts: "splitLoop s start i acc = acc @ statements_of s (pieces start (cuts s i) (length s))"
proof (induction s start i acc rule: splitLoop.induct)
  case (1 s start i acc)
  show ?case
  proof (cases "i < length s")
    case True
    show ?thesis
    proof (cases "s ! i = CHR '';''")
      case semi: True
      then have "splitLoop s start i acc = splitLoop s (i + 1) (i + 1) (pushStatement s start i acc)"
        using True by (subst splitLoop.simps) simp
      moreover have "cuts s i = i # cuts s (i + 1)" using True semi by (subst cuts.simps) simp
      ultimately show ?thesis using 1(6) [OF True refl] semi
        by (simp add: statements_of_def pushStatement_def Let_def)
    next
      case False
      have "splitLoop s start i acc = splitLoop s start (tokEnd s i) acc"
        using True False by (subst splitLoop.simps) (simp add: tokEnd_def Let_def split: option.splits)
      moreover have "splitLoop s start (tokEnd s i) acc = acc @ statements_of s (pieces start (cuts s (tokEnd s i)) (length s))"
        using 1(1-5,7) [OF True refl] False by (simp add: tokEnd_def Let_def split: option.splits)
      moreover have "cuts s i = cuts s (tokEnd s i)" using True False by (subst cuts.simps) simp
      ultimately show ?thesis by simp
    qed
  next
    case False
    then show ?thesis
      by (subst splitLoop.simps, subst cuts.simps) (simp add: pushStatement_def statements_of_def Let_def)
  qed
qed

lemma splitStatements_cuts: "splitStatements s = statements_of s (pieces 0 (cuts s 0) (length s))"
  by (simp add: splitStatements_def splitLoop_cuts)

subsection \<open>What the scanner guarantees\<close>

lemma cuts_sorted:
  "sorted_wrt (<) (cuts s i) \<and> (\<forall>c\<in>set (cuts s i). i \<le> c \<and> c < length s \<and> s ! c = CHR '';'')"
proof (induction s i rule: cuts.induct)
  case (1 s i)
  show ?case
  proof (cases "i < length s")
    case True
    show ?thesis
    proof (cases "s ! i = CHR '';''")
      case semi: True
      have "cuts s i = i # cuts s (i + 1)" using True semi by (subst cuts.simps) simp
      then show ?thesis using 1(1) [OF True semi] True semi by auto
    next
      case False
      have "cuts s i = cuts s (tokEnd s i)" using True False by (subst cuts.simps) simp
      then show ?thesis using 1(2) [OF True False] tokEnd_gt [OF True] by auto
    qed
  qed (simp add: cuts.simps [of s i])
qed

lemma drop_slice: "a \<le> b \<Longrightarrow> drop a s = slice s a b @ drop b s"
  by (metis append_take_drop_id drop_drop le_add_diff_inverse2 slice_def)

lemma join_pieces:
  "sorted_wrt (<) cs \<Longrightarrow> (\<forall>c\<in>set cs. start \<le> c \<and> c < length s \<and> s ! c = CHR '';'') \<Longrightarrow> start \<le> length s \<Longrightarrow>
   join '';'' (map (\<lambda>(a, b). slice s a b) (pieces start cs (length s))) = drop start s"
proof (induction cs arbitrary: start)
  case Nil
  then show ?case by (simp add: slice_def)
next
  case (Cons c cs)
  have c: "start \<le> c" "c < length s" "s ! c = CHR '';''" using Cons.prems by auto
  have "\<forall>c'\<in>set cs. c + 1 \<le> c' \<and> c' < length s \<and> s ! c' = CHR '';''" using Cons.prems by fastforce
  then have IH: "join '';'' (map (\<lambda>(a, b). slice s a b) (pieces (c + 1) cs (length s))) = drop (c + 1) s"
    using Cons.IH [of "c + 1"] Cons.prems c by simp
  obtain p ps where ps: "pieces (c + 1) cs (length s) = p # ps" by (cases cs) auto
  have "drop c s = CHR '';'' # drop (c + 1) s" using c by (simp add: Cons_nth_drop_Suc [symmetric])
  then show ?case using IH ps drop_slice [OF c(1), of s] by simp
qed



text \<open>What one character may become: itself, or a space if it is no newline.\<close>

definition blanked :: "char \<Rightarrow> char \<Rightarrow> bool" where
  "blanked c d \<longleftrightarrow> c = d \<or> c = CHR '' '' \<and> d \<noteq> nl"

lemma blanked_blank: "list_all2 blanked (blank t) t"
  by (induction t) (auto simp: blank_def blanked_def)

lemma blanked_refl: "list_all2 blanked t t"
  by (induction t) (auto simp: blanked_def)

lemma slice_min [simp]: "slice s i (min j (length s)) = slice s i j"
  by (simp add: slice_def min_def)

definition stripEnd :: "string \<Rightarrow> nat \<Rightarrow> nat" where
  "stripEnd s i = (let c = s ! i in
     if c \<noteq> sq \<and> c \<noteq> dq \<and> c = CHR ''-'' \<and> char_at s (i + 1) = Some (CHR ''-'')
     then (case lineEnd s i of None \<Rightarrow> length s | Some k \<Rightarrow> k) else tokEnd s i)"

definition stripSeg :: "string \<Rightarrow> nat \<Rightarrow> string" where
  "stripSeg s i = (let c = s ! i; seg = slice s i (stripEnd s i) in
     if c = sq then blank seg
     else if c = dq then seg
     else if c = CHR ''-'' \<and> char_at s (i + 1) = Some (CHR ''-'') then blank seg
     else if c = CHR ''/'' \<and> char_at s (i + 1) = Some (CHR ''*'') then blank seg
     else if c = CHR ''$'' \<and> dollarTag (drop i s) \<noteq> None then blank seg
     else seg)"

lemma stripEnd_gt: "i < length s \<Longrightarrow> i < stripEnd s i"
  using tokEnd_gt [of i s] lineEnd_gt [of s i] by (auto simp: stripEnd_def Let_def split: option.splits)

lemma slice_one: "i < length s \<Longrightarrow> slice s i (Suc i) = [s ! i]"
  by (simp add: slice_def take_Suc_conv_app_nth)

lemma stripLoop_step: "i < length s \<Longrightarrow> stripLoop s i = stripSeg s i @ stripLoop s (stripEnd s i)"
  by (subst stripLoop.simps)
    (auto simp: stripSeg_def stripEnd_def tokEnd_def Let_def slice_one split: option.splits)

lemma stripLoop_end [simp]: "length s \<le> i \<Longrightarrow> stripLoop s i = []"
  by (subst stripLoop.simps) simp

lemma stripSeg_blanked: "list_all2 blanked (stripSeg s i) (slice s i (stripEnd s i))"
  by (simp add: stripSeg_def Let_def blanked_blank blanked_refl)

lemma strip_induct [case_names beyond step]:
  assumes "\<And>i. length s \<le> i \<Longrightarrow> P i" "\<And>i. i < length s \<Longrightarrow> P (stripEnd s i) \<Longrightarrow> P i"
  shows "P i"
proof (induction "length s - i" arbitrary: i rule: less_induct)
  case less
  show ?case
  proof (cases "i < length s")
    case True
    then have "length s - stripEnd s i < length s - i" using stripEnd_gt [of i s] by linarith
    then show ?thesis using assms(2) [OF True] less by blast
  qed (use assms(1) in simp)
qed

lemma stripLoop_blanked: "list_all2 blanked (stripLoop s i) (drop i s)"
proof (induction i rule: strip_induct [where s = s])
  case (step i)
  then show ?case
    using list_all2_appendI [OF stripSeg_blanked step(2)] stripEnd_gt [OF step(1)]
    by (simp add: stripLoop_step drop_slice [of i "stripEnd s i" s])
qed simp

lemma strip_blanked: "list_all2 blanked (stripLiterals s) s"
  using stripLoop_blanked [of s 0] by (simp add: stripLiterals_def)

lemma length_strip [simp]: "length (stripLiterals s) = length s"
  using strip_blanked list_all2_lengthD by blast

lemma strip_nth: "k < length s \<Longrightarrow> blanked (stripLiterals s ! k) (s ! k)"
  using strip_blanked [of s] by (simp add: list_all2_conv_all_nth)

text \<open>Runs without a special character hold no token boundary and no cut.\<close>

definition special :: "char \<Rightarrow> bool" where
  "special c \<longleftrightarrow> c = sq \<or> c = dq \<or> c = CHR ''-'' \<or> c = CHR ''/'' \<or> c = CHR ''$'' \<or> c = CHR '';''"

lemma cuts_plain: "i < length s \<Longrightarrow> \<not> special (s ! i) \<Longrightarrow> cuts s i = cuts s (Suc i)"
  by (subst cuts.simps) (simp add: special_def tokEnd_def Let_def)

lemma cuts_run:
  "i \<le> j \<Longrightarrow> j \<le> length s \<Longrightarrow> (\<And>k. i \<le> k \<Longrightarrow> k < j \<Longrightarrow> \<not> special (s ! k)) \<Longrightarrow> cuts s i = cuts s j"
proof (induction "j - i" arbitrary: i)
  case (Suc n)
  then have "cuts s i = cuts s (Suc i)" by (intro cuts_plain) auto
  then show ?case using Suc(1) [of "Suc i"] Suc.prems Suc(2) by simp
qed simp

lemma cuts_beyond: "length s \<le> i \<Longrightarrow> cuts s i = []"
  by (subst cuts.simps) simp

lemma cuts_min: "cuts s (min i (length s)) = cuts s i"
  by (simp add: min_def cuts_beyond)

lemma not_special_blank: "c \<in> set (blank t) \<Longrightarrow> \<not> special c"
  by (auto simp: blank_def special_def)

lemma is_word_not_dollar [simp]: "\<not> is_word (CHR ''$'')"
  by code_simp

lemma is_ident_start_not_dollar [simp]: "\<not> is_ident_start (CHR ''$'')"
  by code_simp

lemma is_word_not_space [simp]: "\<not> is_word (CHR '' '')"
  by code_simp

lemma dollarTag_iff:
  "dollarTag r \<noteq> None \<longleftrightarrow>
   (\<exists>w x. r = CHR ''$'' # w @ CHR ''$'' # x \<and> (\<forall>c\<in>set w. is_word c) \<and> (w = [] \<or> is_ident_start (hd w)))"
proof
  assume tag: "dollarTag r \<noteq> None"
  then obtain rest where r: "r = CHR ''$'' # rest" by (auto simp: dollarTag_def split: list.splits if_splits)
  let ?w = "takeWhile is_word rest"
  from tag r consider
      "rest \<noteq> []" "is_ident_start (hd rest)" "char_at rest (length ?w) = Some (CHR ''$'')"
    | "char_at rest 0 = Some (CHR ''$'')"
    by (auto simp: dollarTag_def Let_def split: if_splits)
  then show "\<exists>w x. r = CHR ''$'' # w @ CHR ''$'' # x \<and> (\<forall>c\<in>set w. is_word c) \<and> (w = [] \<or> is_ident_start (hd w))"
  proof cases
    case 1
    have "rest = ?w @ drop (length ?w) rest" by (metis append_take_drop_id takeWhile_eq_take)
    moreover have "drop (length ?w) rest = CHR ''$'' # drop (Suc (length ?w)) rest"
      using 1(3) by (auto simp: char_at_def Cons_nth_drop_Suc [symmetric] split: if_splits)
    moreover have "?w \<noteq> [] \<Longrightarrow> hd ?w = hd rest" by (cases rest) (auto split: if_splits)
    ultimately show ?thesis using r 1 by (metis set_takeWhileD)
  next
    case 2
    then obtain x where "rest = CHR ''$'' # x" by (cases rest) (auto simp: char_at_def)
    then show ?thesis using r by (intro exI [of _ "[]"] exI [of _ x]) simp
  qed
next
  assume "\<exists>w x. r = CHR ''$'' # w @ CHR ''$'' # x \<and> (\<forall>c\<in>set w. is_word c) \<and> (w = [] \<or> is_ident_start (hd w))"
  then obtain w x where r: "r = CHR ''$'' # w @ CHR ''$'' # x" and w: "\<forall>c\<in>set w. is_word c" "w = [] \<or> is_ident_start (hd w)"
    by blast
  have "takeWhile is_word (w @ CHR ''$'' # x) = w" using w(1) by (simp add: takeWhile_append2)
  then show "dollarTag r \<noteq> None" using w(2) by (cases w) (simp_all add: r dollarTag_def char_at_def Let_def nth_append)
qed

lemma blanked_word: "blanked c d \<Longrightarrow> is_word c \<Longrightarrow> d = c"
  by (auto simp: blanked_def)

lemma dollarTag_blanked:
  assumes "list_all2 blanked u v" "dollarTag u \<noteq> None" shows "dollarTag v \<noteq> None"
proof -
  obtain w x where u: "u = CHR ''$'' # w @ CHR ''$'' # x" and w: "\<forall>c\<in>set w. is_word c" "w = [] \<or> is_ident_start (hd w)"
    using assms(2) unfolding dollarTag_iff by blast
  obtain d w' d' x' where v: "v = d # w' @ d' # x'" and rel: "blanked (CHR ''$'') d" "list_all2 blanked w w'" "blanked (CHR ''$'') d'"
    using assms(1) unfolding u by (auto simp: list_all2_Cons1 list_all2_append1)
  have "w' = w" using rel(2) w(1) by (induction w w' rule: list_all2_induct) (auto dest: blanked_word)
  moreover have "d = CHR ''$''" "d' = CHR ''$''" using rel by (auto simp: blanked_def)
  ultimately show ?thesis using v w unfolding dollarTag_iff by blast
qed

lemma skipQuote_agree:
  "length t = length s \<Longrightarrow> (\<And>k. i \<le> k \<Longrightarrow> k \<le> skipQuote s dq i \<Longrightarrow> k < length s \<Longrightarrow> t ! k = s ! k) \<Longrightarrow>
   skipQuote t dq i = skipQuote s dq i"
proof (induction s "dq" i rule: skipQuote.induct)
  case (1 s i)
  show ?case
  proof (cases "i < length s \<and> s ! i \<noteq> dq")
    case True
    then have step: "skipQuote s dq i = skipQuote s dq (i + 1)" by (subst skipQuote.simps) simp
    have ti: "t ! i = s ! i" using 1(4) [of i] True skipQuote_ge [of i s dq] by simp
    have "skipQuote t dq (i + 1) = skipQuote s dq (i + 1)"
      using 1(2) [of] True 1(3,4) step by simp
    then show ?thesis using step ti True 1(3) by (subst skipQuote.simps) simp
  next
    case False
    have "skipQuote s dq i = i" using False by (subst skipQuote.simps) auto
    moreover have "i < length s \<Longrightarrow> t ! i = s ! i" using 1(4) [of i] skipQuote_ge [of i s dq] by simp
    ultimately show ?thesis using False 1(3) by (subst (1) skipQuote.simps) auto
  qed
qed

text \<open>The segment of the stripped text that a boundary \<open>i\<close> of the scan starts.\<close>

lemma strip_boundary:
  assumes i: "i < length s" and at: "drop i (stripLiterals s) = stripLoop s i"
  shows "drop (stripEnd s i) (stripLiterals s) = stripLoop s (stripEnd s i)"
    and "\<And>k. i \<le> k \<Longrightarrow> k < min (stripEnd s i) (length s) \<Longrightarrow> stripLiterals s ! k = stripSeg s i ! (k - i)"
    and "length (stripSeg s i) = min (stripEnd s i) (length s) - i"
proof -
  let ?j = "stripEnd s i" and ?t = "stripLiterals s"
  have gt: "i < ?j" using i by (rule stripEnd_gt)
  show len: "length (stripSeg s i) = min ?j (length s) - i"
    using list_all2_lengthD [OF stripSeg_blanked [of s i]] by (auto simp: slice_def min_def)
  have t: "drop i ?t = stripSeg s i @ stripLoop s ?j" using at stripLoop_step [OF i] by simp
  show "drop ?j ?t = stripLoop s ?j"
  proof (cases "?j \<le> length s")
    case True
    have "drop ?j ?t = drop (?j - i) (drop i ?t)" using gt by simp
    then show ?thesis using t len True by simp
  qed simp
  show "?t ! k = stripSeg s i ! (k - i)" if "i \<le> k" "k < min ?j (length s)" for k
  proof -
    have "?t ! k = drop i ?t ! (k - i)" using that by simp
    moreover have "k - i < length (stripSeg s i)" unfolding len using that by linarith
    ultimately show ?thesis unfolding t by (simp add: nth_append)
  qed
qed

lemma cuts_strip_blank:
  assumes i: "i < length s" and at: "drop i (stripLiterals s) = stripLoop s i"
    and seg: "stripSeg s i = blank seg"
  shows "cuts (stripLiterals s) i = cuts (stripLiterals s) (stripEnd s i)"
proof -
  let ?j = "min (stripEnd s i) (length s)"
  have "cuts (stripLiterals s) i = cuts (stripLiterals s) ?j"
  proof (rule cuts_run)
    fix k assume k: "i \<le> k" "k < ?j"
    have "stripLiterals s ! k = blank seg ! (k - i)" using strip_boundary(2) [OF i at k] seg by simp
    moreover have "k - i < length (blank seg)" unfolding seg [symmetric] strip_boundary(3) [OF i at] using k by linarith
    ultimately show "\<not> special (stripLiterals s ! k)" using not_special_blank nth_mem by metis
  qed (use i stripEnd_gt [OF i] in auto)
  then show ?thesis using cuts_min [of "stripLiterals s" "stripEnd s i"] by simp
qed

lemma cuts_tok: "i < length s \<Longrightarrow> s ! i \<noteq> CHR '';'' \<Longrightarrow> cuts s i = cuts s (tokEnd s i)"
  by (subst cuts.simps) simp

lemma cuts_stripEnd:
  assumes i: "i < length s" and semi: "s ! i \<noteq> CHR '';''"
  shows "cuts s i = cuts s (stripEnd s i)"
proof (cases "stripEnd s i = tokEnd s i")
  case False
  then obtain k where k: "lineEnd s i = Some k" "stripEnd s i = k" "tokEnd s i = k + 1"
    by (auto simp: stripEnd_def tokEnd_def Let_def split: if_splits option.splits)
  have "cuts s k = cuts s (Suc k)" using lineEnd_Some [OF k(1)] by (intro cuts_plain) (auto simp: special_def)
  then show ?thesis using cuts_tok [OF i semi] k by simp
qed (use cuts_tok [OF i semi] in simp)

text \<open>A token that is not blanked out has the same end in the stripped text.\<close>

lemma tokEnd_strip:
  assumes i: "i < length s" and at: "drop i (stripLiterals s) = stripLoop s i"
    and seg: "stripSeg s i = slice s i (stripEnd s i)" and keep: "s ! i \<noteq> sq"
    and nocomment: "\<not> (s ! i = CHR ''-'' \<and> char_at s (i + 1) = Some (CHR ''-''))"
      "\<not> (s ! i = CHR ''/'' \<and> char_at s (i + 1) = Some (CHR ''*''))"
      "\<not> (s ! i = CHR ''$'' \<and> dollarTag (drop i s) \<noteq> None)"
  shows "stripLiterals s ! i = s ! i \<and> tokEnd (stripLiterals s) i = tokEnd s i \<and> stripEnd s i = tokEnd s i"
proof -
  let ?t = "stripLiterals s"
  have same_end: "stripEnd s i = tokEnd s i" using nocomment(1) by (auto simp: stripEnd_def Let_def)
  have agree: "?t ! k = s ! k" if "i \<le> k" "k < min (stripEnd s i) (length s)" for k
    using strip_boundary(2) [OF i at that] that by (simp add: seg slice_def)
  have ti: "?t ! i = s ! i" using agree [of i] stripEnd_gt [OF i] i by simp
  have nxt: "char_at ?t (i + 1) = Some c \<Longrightarrow> c \<noteq> CHR '' '' \<Longrightarrow> char_at s (i + 1) = Some c" for c
    using strip_nth [of "i + 1" s] by (auto simp: char_at_def blanked_def split: if_splits)
  have tag: "dollarTag (drop i ?t) \<noteq> None \<Longrightarrow> dollarTag (drop i s) \<noteq> None"
    using dollarTag_blanked [OF list_all2_dropI [OF strip_blanked [of s], of i]] .
  have "tokEnd ?t i = tokEnd s i"
  proof (cases "s ! i = dq")
    case True
    have "skipQuote ?t dq (i + 1) = skipQuote s dq (i + 1)"
      using agree same_end True by (intro skipQuote_agree) (auto simp: tokEnd_def)
    then show ?thesis using True ti by (simp add: tokEnd_def)
  next
    case False
    have "tokEnd s i = i + 1" using False keep nocomment by (auto simp: tokEnd_def Let_def)
    moreover have "tokEnd ?t i = i + 1"
      using False keep nocomment nxt [of "CHR ''-''"] nxt [of "CHR ''*''"] tag ti
      by (auto simp: tokEnd_def Let_def split: option.splits)
    ultimately show ?thesis by simp
  qed
  then show ?thesis using ti same_end by simp
qed

lemma cuts_strip: "drop i (stripLiterals s) = stripLoop s i \<Longrightarrow> cuts (stripLiterals s) i = cuts s i"
proof (induction i rule: strip_induct [where s = s])
  case (beyond i)
  then show ?case by (simp add: cuts_beyond)
next
  case (step i)
  let ?t = "stripLiterals s"
  note i = step(1) and at = step(3)
  have IH: "cuts ?t (stripEnd s i) = cuts s (stripEnd s i)" using step(2) strip_boundary(1) [OF i at] .
  show ?case
  proof (cases "stripSeg s i = slice s i (stripEnd s i) \<and> s ! i \<noteq> sq
      \<and> \<not> (s ! i = CHR ''-'' \<and> char_at s (i + 1) = Some (CHR ''-''))
      \<and> \<not> (s ! i = CHR ''/'' \<and> char_at s (i + 1) = Some (CHR ''*''))
      \<and> \<not> (s ! i = CHR ''$'' \<and> dollarTag (drop i s) \<noteq> None)")
    case True
    then have eq: "?t ! i = s ! i" "tokEnd ?t i = tokEnd s i" "stripEnd s i = tokEnd s i"
      using tokEnd_strip [OF i at] by blast+
    show ?thesis
    proof (cases "s ! i = CHR '';''")
      case semi: True
      then have "stripEnd s i = i + 1" by (simp add: stripEnd_def tokEnd_def)
      then show ?thesis using IH semi eq i by (simp add: cuts.simps [of s i] cuts.simps [of ?t i])
    next
      case False
      then show ?thesis using IH eq i cuts_tok [of i s] cuts_tok [of i ?t] by simp
    qed
  next
    case False
    then have seg: "stripSeg s i = blank (slice s i (stripEnd s i))" and semi: "s ! i \<noteq> CHR '';''"
      by (auto simp: stripSeg_def Let_def split: if_splits)
    show ?thesis using cuts_strip_blank [OF i at seg] cuts_stripEnd [OF i semi] IH by simp
  qed
qed

text \<open>Blanking out literals and comments keeps the shape of the text. The result has the
  length of the text and its line breaks at the same places; every other character is kept
  or becomes a space, so positions computed on one text are valid in the other.\<close>

theorem strip_keeps_shape:
  "length (stripLiterals s) = length s
   \<and> (\<forall>k < length s. (stripLiterals s ! k = nl \<longleftrightarrow> s ! k = nl)
        \<and> (stripLiterals s ! k = s ! k \<or> stripLiterals s ! k = CHR '' ''))"
proof (intro conjI allI impI)
  fix k assume "k < length s"
  from strip_nth [OF this] show "stripLiterals s ! k = nl \<longleftrightarrow> s ! k = nl"
    and "stripLiterals s ! k = s ! k \<or> stripLiterals s ! k = CHR '' ''"
    by (auto simp: blanked_def)
qed simp

theorem strip_keeps_shape_witness:
  "length (stripLiterals ''a/*;*/'') = 6 \<and> stripLiterals ''a/*;*/'' = ''a     ''"
proof
  show "length (stripLiterals ''a/*;*/'') = 6" using strip_keeps_shape [of "''a/*;*/''"] by simp
qed code_simp

lemma trim_slice_strip:
  assumes "trim (slice (stripLiterals s) a b) \<noteq> []" shows "trim (slice s a b) \<noteq> []"
proof -
  have nonblank: "trim u \<noteq> [] \<longleftrightarrow> (\<exists>c\<in>set u. \<not> is_space c)" for u
  proof -
    have "trim u = [] \<longleftrightarrow> dropWhile is_space u = []"
    proof
      assume "trim u = []"
      then have "\<forall>c\<in>set (trim_start u). is_space c" by (simp add: trim_def trim_end_def dropWhile_eq_Nil_conv)
      then show "dropWhile is_space u = []" unfolding trim_start_def by (metis dropWhile_eq_Nil_conv dropWhile_idem)
    qed (simp only: trim_def trim_start_def trim_end_def rev.simps dropWhile.simps)
    then show ?thesis by (simp add: dropWhile_eq_Nil_conv)
  qed
  obtain c where c: "c \<in> set (slice (stripLiterals s) a b)" "\<not> is_space c" using assms nonblank by blast
  then obtain k where k: "k < length (slice (stripLiterals s) a b)" "slice (stripLiterals s) a b ! k = c"
    by (metis in_set_conv_nth)
  then have bound: "a + k < length s" "k < length (slice s a b)" by (auto simp: slice_def)
  have "c = stripLiterals s ! (a + k)" using k bound(1) by (auto simp: slice_def)
  moreover have "is_space (CHR '' '')" by code_simp
  ultimately have "s ! (a + k) = c" using strip_nth [OF bound(1)] c(2) by (auto simp: blanked_def)
  then have "slice s a b ! k = c" using bound by (simp add: slice_def)
  then show ?thesis using c(2) nonblank nth_mem [OF bound(2)] by metis
qed

lemma filter_statements_of:
  assumes "\<And>a b. trim (slice t a b) \<noteq> [] \<Longrightarrow> trim (slice s a b) \<noteq> []"
  shows "statements_of t ps = map (\<lambda>st. st\<lparr>st_sql := trim (slice t (st_from st) (st_to st))\<rparr>)
    (filter (\<lambda>st. trim (slice t (st_from st) (st_to st)) \<noteq> []) (statements_of s ps))"
  using assms by (induction ps) (auto simp: statements_of_def)

text \<open>Literals and comments do not move statement boundaries. Splitting the stripped
  text gives the statements of the original text, with the same ranges, less those that
  consist of literals, comments and blanks only, each with its stripped text. A semicolon
  inside a literal or a comment is therefore never a boundary.\<close>

theorem strip_keeps_boundaries:
  "splitStatements (stripLiterals s) =
     map (\<lambda>st. st\<lparr>st_sql := trim (slice (stripLiterals s) (st_from st) (st_to st))\<rparr>)
       (filter (\<lambda>st. trim (slice (stripLiterals s) (st_from st) (st_to st)) \<noteq> []) (splitStatements s))"
proof -
  have "cuts (stripLiterals s) 0 = cuts s 0" by (rule cuts_strip) (simp add: stripLiterals_def)
  then show ?thesis
    unfolding splitStatements_cuts length_strip by (simp only:) (rule filter_statements_of, rule trim_slice_strip)
qed

lemma map_snd_pieces: "map snd (pieces start cs n) = cs @ [n]"
  by (induction cs arbitrary: start) auto

lemma sorted_ends: "sorted_wrt (<) (map st_to (splitStatements s))"
proof -
  have "map st_to (statements_of s ps) = map snd (filter (\<lambda>(a, b). trim (slice s a b) \<noteq> []) ps)" for ps
    by (simp add: statements_of_def case_prod_beta)
  moreover have "sorted_wrt (<) (map snd (pieces 0 (cuts s 0) (length s)))"
    unfolding map_snd_pieces using cuts_sorted [of s 0] by (simp add: sorted_wrt_append)
  then have "sorted_wrt (\<lambda>p q. snd p < snd q) (pieces 0 (cuts s 0) (length s))" by (simp add: sorted_wrt_map)
  then have "sorted_wrt (\<lambda>p q. snd p < snd q) (filter P (pieces 0 (cuts s 0) (length s)))" for P
    by (rule sorted_wrt_filter)
  ultimately show ?thesis unfolding splitStatements_cuts by (simp add: sorted_wrt_map)
qed

lemma last_filter_max:
  fixes f :: "'a \<Rightarrow> nat"
  assumes "sorted_wrt (<) (map f xs)" "x \<in> set xs" "P x"
  shows "f x \<le> f (last (filter P xs)) \<and> last (filter P xs) \<in> set (filter P xs)"
proof -
  have x: "x \<in> set (filter P xs)" using assms by simp
  then have ne: "filter P xs \<noteq> []" by (metis empty_iff empty_set)
  have "sorted_wrt (\<lambda>a b. f a < f b) (filter P xs)" using assms(1) by (simp add: sorted_wrt_map sorted_wrt_filter)
  then have "sorted_wrt (\<lambda>a b. f a < f b) (butlast (filter P xs) @ [last (filter P xs)])" using ne by simp
  moreover have "x \<in> set (butlast (filter P xs) @ [last (filter P xs)])" using x ne by simp
  ultimately have "f x \<le> f (last (filter P xs))"
    by (auto simp: sorted_wrt_append simp del: append_butlast_last_id)
  then show ?thesis using last_in_set [OF ne] by simp
qed

text \<open>The statement to run is chosen as the user sees it. It is one of the statements of
  the text, and there is one unless the text is blank; when the cursor is inside or directly
  after a statement, the chosen one is such a statement; otherwise, when statements end before
  the cursor, the chosen one is the closest of them.\<close>

theorem statementAt_spec:
  "(statementAt s cursor = None \<longleftrightarrow> splitStatements s = [])
   \<and> (\<forall>st. statementAt s cursor = Some st \<longrightarrow> st \<in> set (splitStatements s)
        \<and> ((\<exists>st'\<in>set (splitStatements s). st_from st' \<le> cursor \<and> cursor \<le> st_to st' + 1)
             \<longrightarrow> st_from st \<le> cursor \<and> cursor \<le> st_to st + 1)
        \<and> (\<forall>st'\<in>set (splitStatements s). \<not> (st_from st \<le> cursor \<and> cursor \<le> st_to st + 1) \<and> st_to st' < cursor
             \<longrightarrow> st_to st < cursor \<and> st_to st' \<le> st_to st))"
proof -
  let ?ss = "splitStatements s"
  let ?in = "\<lambda>st. cursor \<ge> st_from st \<and> cursor \<le> st_to st + 1" and ?before = "\<lambda>st. st_to st < cursor"
  show ?thesis
  proof (cases "find ?in ?ss")
    case (Some st)
    then have "statementAt s cursor = Some st" by (simp add: statementAt_def)
    then show ?thesis using find_SomeD [OF Some] by auto
  next
    case None
    then have none: "\<not> (\<exists>st'\<in>set ?ss. ?in st')" by (auto simp: find_None_iff)
    show ?thesis
    proof (cases "filter ?before ?ss")
      case Nil
      then have "statementAt s cursor = (case ?ss of [] \<Rightarrow> None | st # _ \<Rightarrow> Some st)"
        using None by (simp add: statementAt_def)
      moreover have "\<not> (\<exists>st'\<in>set ?ss. st_to st' < cursor)" using Nil by (auto simp: filter_empty_conv)
      ultimately show ?thesis using none by (cases ?ss) auto
    next
      case (Cons x xs)
      then have at: "statementAt s cursor = Some (last (filter ?before ?ss))"
        using None by (simp add: statementAt_def)
      have "x \<in> set (filter ?before ?ss)" unfolding Cons by simp
      then have last: "last (filter ?before ?ss) \<in> set (filter ?before ?ss)" "?ss \<noteq> []"
        using last_filter_max [OF sorted_ends, of x s ?before] by auto
      have "st_to st' \<le> st_to (last (filter ?before ?ss))" if "st' \<in> set ?ss" "?before st'" for st'
        using last_filter_max [where f = st_to and P = ?before, OF sorted_ends that] by simp
      then show ?thesis using none at last by auto
    qed
  qed
qed

theorem statementAt_spec_witness:
  "statementAt ''a; b'' 4 = Some \<lparr>st_sql = ''b'', st_from = 2, st_to = 4\<rparr>
   \<and> \<lparr>st_sql = ''b'', st_from = 2, st_to = 4\<rparr> \<in> set (splitStatements ''a; b'')"
proof -
  have "statementAt ''a; b'' 4 = Some \<lparr>st_sql = ''b'', st_from = 2, st_to = 4\<rparr>" by code_simp
  then show ?thesis using statementAt_spec [of "''a; b''" 4] by blast
qed

lemma trim_start_drop: "trim_start u = drop (length u - length (trim_start u)) u"
  unfolding trim_start_def by (induction u) (auto simp: Suc_diff_le length_dropWhile_le)

lemma trim_end_take: "trim_end u = take (length (trim_end u)) u"
proof -
  have "u = trim_end u @ rev (takeWhile is_space (rev u))"
    unfolding trim_end_def by (metis rev_append rev_rev_ident takeWhile_dropWhile_id)
  then show ?thesis by (metis append_eq_conv_conj)
qed

lemma slice_slice:
  "slice (slice s a b) m (m + n) = slice s (a + m) (a + m + n)" if "a + m + n \<le> max a b"
proof (cases "a \<le> b")
  case True
  then have "m + n \<le> b - a" using that by linarith
  then show ?thesis by (simp add: slice_def take_drop drop_drop min_def add.commute add.left_commute)
next
  case False
  then have "m = 0" "n = 0" using that by linarith+
  then show ?thesis by (simp add: slice_def)
qed

lemma trim_slice:
  "trim u = slice u (length u - length (trim_start u)) (length u - length (trim_start u) + length (trim u))"
proof -
  have "trim u = take (length (trim u)) (trim_start u)" unfolding trim_def by (rule trim_end_take)
  then show ?thesis unfolding slice_def by (metis add_diff_cancel_left' trim_start_drop)
qed

lemma length_trim_le: "length (trim u) \<le> length (trim_start u)" "length (trim_start u) \<le> length u"
  using arg_cong [OF trim_end_take [of "trim_start u"], of length]
  by (simp_all add: trim_def trim_start_def length_dropWhile_le)

text \<open>The formatter replaces a trimmed, non-empty part of the document: the range it works
  on lies in the selection or in the chosen statement, and its text is that part trimmed, so
  blanks around it and the separator stay untouched.\<close>

lemma formatRange_trimmed:
  assumes "formatRange doc from to = Some (a, b)" "from \<le> to"
  shows "\<exists>a0 b0. (if from \<noteq> to then a0 = from \<and> b0 = to
       else \<exists>st. statementAt doc from = Some st \<and> a0 = st_from st \<and> b0 = st_to st)
     \<and> a0 \<le> a \<and> a < b \<and> b \<le> a0 + length (slice doc a0 b0) \<and> slice doc a b = trim (slice doc a0 b0)"
proof -
  obtain a0 b0 where bounds: "(if from \<noteq> to then Some (from, to)
      else map_option (\<lambda>st. (st_from st, st_to st)) (statementAt doc from)) = Some (a0, b0)"
    and ab: "a = a0 + (length (slice doc a0 b0) - length (trim_start (slice doc a0 b0)))"
      "b = a + length (trim (slice doc a0 b0))" "a < b"
    using assms(1) by (auto simp: formatRange_def Let_def split: option.splits if_splits prod.splits)
  let ?raw = "slice doc a0 b0"
  have len: "a0 \<le> a" "b \<le> a0 + length ?raw" using ab length_trim_le [of ?raw] by auto
  have "length ?raw \<le> b0 - a0" by (simp add: slice_def)
  then have le: "b \<le> max a0 b0" using len ab(3) by linarith
  have "trim ?raw = slice ?raw (a - a0) (a - a0 + length (trim ?raw))"
    using trim_slice [of ?raw] ab(1) by simp
  also have "\<dots> = slice doc (a0 + (a - a0)) (a0 + (a - a0) + length (trim ?raw))"
    using le len ab(2) by (intro slice_slice) simp
  also have "\<dots> = slice doc a b" using len ab(2) by simp
  finally have eq: "slice doc a b = trim ?raw" by simp
  have "if from \<noteq> to then a0 = from \<and> b0 = to else \<exists>st. statementAt doc from = Some st \<and> a0 = st_from st \<and> b0 = st_to st"
    using bounds by auto
  then show ?thesis using len ab(3) eq by blast
qed

text \<open>Formatting is a local edit. When the formatter changes the document, it replaces one
  range by the formatted text of that range and keeps everything before and after it; the range is
  the selection or the statement at the cursor less its surrounding blanks, so the separators and
  the blank lines around the statement stay; and the cursor is put after the new text.\<close>

theorem format_edit_local:
  assumes "formatSqlInEditor format doc from to = Some (doc', anchor)" "from \<le> to"
  shows "\<exists>a b formatted a0 b0. format (slice doc a b) = Some formatted
     \<and> doc' = take a doc @ formatted @ drop b doc \<and> anchor = a + length formatted \<and> formatted \<noteq> slice doc a b
     \<and> (if from \<noteq> to then a0 = from \<and> b0 = to
        else \<exists>st. statementAt doc from = Some st \<and> a0 = st_from st \<and> b0 = st_to st)
     \<and> a0 \<le> a \<and> a < b \<and> b \<le> a0 + length (slice doc a0 b0) \<and> slice doc a b = trim (slice doc a0 b0)"
proof -
  obtain a b where r: "formatRange doc from to = Some (a, b)"
    using assms(1) by (auto simp: formatSqlInEditor_def split: option.splits)
  then obtain f where "format (slice doc a b) = Some f" "doc' = take a doc @ f @ drop b doc" "anchor = a + length f"
    "f \<noteq> slice doc a b"
    using assms(1) by (auto simp: formatSqlInEditor_def Let_def split: option.splits if_splits)
  with formatRange_trimmed [OF r assms(2)] show ?thesis by blast
qed

theorem format_edit_local_witness:
  "formatSqlInEditor (Some \<circ> to_lower) ''a;  B '' 4 4 = Some (''a;  b '', 5)
   \<and> (\<exists>a b formatted. Some (to_lower (slice ''a;  B '' a b)) = Some formatted
       \<and> ''a;  b '' = take a ''a;  B '' @ formatted @ drop b ''a;  B '' \<and> 5 = a + length formatted)"
proof -
  have f: "formatSqlInEditor (Some \<circ> to_lower) ''a;  B '' 4 4 = Some (''a;  b '', 5)" by code_simp
  from format_edit_local [OF f] f show ?thesis by auto
qed

end
