(* ===== verification/Js_Regex.thy ===== *)
theory Js_Regex
  imports Js_Prelude
begin

text \<open>
  The regular expressions of JavaScript that the front end uses, by their backtracking
  semantics: \<open>ends r s i\<close> lists the positions where a match of \<open>r\<close> that starts at \<open>i\<close> can end, in
  the order in which the engine tries them. The first element is the match that \<open>exec\<close> reports.
  Greedy and lazy repetition differ in that order only. Character classes are predicates on
  code units.
\<close>

datatype re =
    Eps
  | Cls "char \<Rightarrow> bool"
  | Seq re re
  | Alt re re
  | Greedy re
  | Lazy re
  | WordB
  | AtStart
  | AtEnd

text \<open>\<open>\b\<close>: exactly one side of the position is a word character.\<close>

definition word_boundary :: "string \<Rightarrow> nat \<Rightarrow> bool" where
  "word_boundary s i \<longleftrightarrow> ((0 < i \<and> i \<le> length s \<and> is_word (s ! (i - 1))) \<noteq> (i < length s \<and> is_word (s ! i)))"

text \<open>
  An iteration of a repetition that consumes nothing is rejected, as ECMAScript prescribes. No
  match ends beyond the text, so the second condition on \<open>j\<close> excludes nothing.
\<close>

function ends :: "re \<Rightarrow> string \<Rightarrow> nat \<Rightarrow> nat list" where
  "ends Eps s i = [i]"
| "ends (Cls P) s i = (if i < length s \<and> P (s ! i) then [i + 1] else [])"
| "ends (Seq p q) s i = concat (map (\<lambda>j. ends q s j) (ends p s i))"
| "ends (Alt p q) s i = ends p s i @ ends q s i"
| "ends (Greedy p) s i = concat (map (\<lambda>j. if i < j \<and> j \<le> length s then ends (Greedy p) s j else []) (ends p s i)) @ [i]"
| "ends (Lazy p) s i = i # concat (map (\<lambda>j. if i < j \<and> j \<le> length s then ends (Lazy p) s j else []) (ends p s i))"
| "ends WordB s i = (if word_boundary s i then [i] else [])"
| "ends AtStart s i = (if i = 0 then [i] else [])"
| "ends AtEnd s i = (if i = length s then [i] else [])"
  by pat_completeness auto
termination
  by (relation "measures [\<lambda>(r, s, i). size r, \<lambda>(r, s, i). length s - i]") auto

declare ends.simps(5,6) [simp del]

subsection \<open>Building blocks\<close>

fun seqs :: "re list \<Rightarrow> re" where
  "seqs [] = Eps"
| "seqs [r] = r"
| "seqs (r # rs) = Seq r (seqs rs)"

fun alts :: "re list \<Rightarrow> re" where
  "alts [] = Cls (\<lambda>_. False)"
| "alts [r] = r"
| "alts (r # rs) = Alt r (alts rs)"

definition plus :: "re \<Rightarrow> re" where
  "plus r = Seq r (Greedy r)"

definition lazy_plus :: "re \<Rightarrow> re" where
  "lazy_plus r = Seq r (Lazy r)"

definition opt :: "re \<Rightarrow> re" where
  "opt r = Alt r Eps"

definition spaces :: re where
  "spaces = Greedy (Cls is_space)"

definition spaces1 :: re where
  "spaces1 = plus (Cls is_space)"

definition any_char :: re where
  "any_char = Cls (\<lambda>_. True)"

definition lit :: "char \<Rightarrow> re" where
  "lit c = Cls (\<lambda>d. d = c)"

text \<open>A word under the flag \<open>i\<close>: characters are compared after \<open>toUpperCase\<close>.\<close>

definition word_i :: "string \<Rightarrow> re" where
  "word_i w = seqs (map (\<lambda>c. Cls (\<lambda>d. to_upper_char d = to_upper_char c)) w)"

subsection \<open>The library functions\<close>

definition re_at :: "re \<Rightarrow> string \<Rightarrow> nat \<Rightarrow> nat option" where
  "re_at r s i = (case ends r s i of [] \<Rightarrow> None | e # _ \<Rightarrow> Some e)"

definition re_test :: "re \<Rightarrow> string \<Rightarrow> bool" where
  "re_test r s = list_ex (\<lambda>i. ends r s i \<noteq> []) [0..<length s + 1]"

text \<open>The position of the leftmost match.\<close>

definition re_search :: "re \<Rightarrow> string \<Rightarrow> nat option" where
  "re_search r s = find (\<lambda>i. ends r s i \<noteq> []) [0..<length s + 1]"

text \<open>\<open>s.split(r)[0]\<close> for an expression that matches no empty text.\<close>

definition re_split_head :: "re \<Rightarrow> string \<Rightarrow> string" where
  "re_split_head r s = (case re_search r s of None \<Rightarrow> s | Some i \<Rightarrow> take i s)"

text \<open>\<open>s.replace(r, t)\<close> with the flag \<open>g\<close>, from position \<open>i\<close> on; after an empty match the scan goes on one further.\<close>

function re_replace_from :: "re \<Rightarrow> string \<Rightarrow> string \<Rightarrow> nat \<Rightarrow> string" where
  "re_replace_from r t s i =
     (if i < length s
      then (case re_at r s i of
              None \<Rightarrow> s ! i # re_replace_from r t s (i + 1)
            | Some e \<Rightarrow> if i < e then t @ re_replace_from r t s e
                        else t @ s ! i # re_replace_from r t s (i + 1))
      else if re_at r s i = None then [] else t)"
  by pat_completeness auto
termination by (relation "measure (\<lambda>(r, t, s, i). length s - i)") auto

declare re_replace_from.simps [simp del]

definition re_replace :: "re \<Rightarrow> string \<Rightarrow> string \<Rightarrow> string" where
  "re_replace r t s = re_replace_from r t s 0"

subsection \<open>Matches\<close>

lemma ends_bounds: "i \<le> length s \<Longrightarrow> e \<in> set (ends r s i) \<Longrightarrow> i \<le> e \<and> e \<le> length s"
proof (induction r s i arbitrary: e rule: ends.induct)
  case (3 p q s i)
  obtain j where j: "j \<in> set (ends p s i)" "e \<in> set (ends q s j)" using "3.prems"(2) by auto
  have "i \<le> j \<and> j \<le> length s" by (rule "3.IH"(1) [OF "3.prems"(1) j(1)])
  moreover from this have "j \<le> e \<and> e \<le> length s" using "3.IH"(2) [OF j(1) _ j(2)] by blast
  ultimately show ?case by linarith
next
  case (5 p s i)
  show ?case
  proof (cases "e = i")
    case False
    then obtain j where j: "j \<in> set (ends p s i)" "i < j \<and> j \<le> length s" "e \<in> set (ends (Greedy p) s j)"
      using "5.prems"(2) ends.simps(5) [of p s i] by (auto split: if_splits)
    have "j \<le> e \<and> e \<le> length s" using "5.IH"(2) [OF j(1,2) _ j(3)] j(2) by blast
    then show ?thesis using j(2) by linarith
  qed (use "5.prems" in simp)
next
  case (6 p s i)
  show ?case
  proof (cases "e = i")
    case False
    then obtain j where j: "j \<in> set (ends p s i)" "i < j \<and> j \<le> length s" "e \<in> set (ends (Lazy p) s j)"
      using "6.prems"(2) ends.simps(6) [of p s i] by (auto split: if_splits)
    have "j \<le> e \<and> e \<le> length s" using "6.IH"(2) [OF j(1,2) _ j(3)] j(2) by blast
    then show ?thesis using j(2) by linarith
  qed (use "6.prems" in simp)
qed (auto split: if_splits)

lemma re_search_Some:
  assumes "re_search r s = Some i"
  shows "i \<le> length s" "ends r s i \<noteq> []" "\<And>k. k < i \<Longrightarrow> ends r s k = []"
proof -
  let ?P = "\<lambda>i. ends r s i \<noteq> []"
  obtain k where k: "k < length [0..<length s + 1]" "?P ([0..<length s + 1] ! k)" "i = [0..<length s + 1] ! k"
      "\<forall>j<k. \<not> ?P ([0..<length s + 1] ! j)"
    using assms unfolding re_search_def find_Some_iff by blast
  have "i = k" using k(1,3) by (simp add: nth_append)
  then show "i \<le> length s" "ends r s i \<noteq> []" using k(1,2,3) by auto
  show "ends r s j = []" if j: "j < i" for j
    using k(1,4) j \<open>i = k\<close> by (auto simp: nth_append split: if_splits)
qed

lemma re_test_iff: "re_test r s \<longleftrightarrow> (\<exists>i\<le>length s. ends r s i \<noteq> [])"
  unfolding re_test_def list_ex_iff set_upt using less_Suc_eq_le by auto

text \<open>A word of the language of \<open>word_i\<close> is a case variant of the word, and ends where it should.\<close>

lemma ends_seqs_Cls: "ends (seqs (map Cls Ps)) s i
    = (if i + length Ps \<le> length s \<and> (\<forall>k<length Ps. (Ps ! k) (s ! (i + k))) then [i + length Ps] else if Ps = [] then [i] else [])"
proof (induction Ps arbitrary: i)
  case (Cons P Ps)
  have split: "(\<forall>k<Suc n. Q k) \<longleftrightarrow> Q 0 \<and> (\<forall>k<n. Q (Suc k))" for n Q
    using less_Suc_eq_0_disj by auto
  show ?case
  proof (cases Ps)
    case Nil
    then show ?thesis by auto
  next
    case (Cons Q Qs)
    then show ?thesis using Cons.IH [of "i + 1"] by (auto simp: split)
  qed
qed simp

lemma ends_word_i:
  "w \<noteq> [] \<Longrightarrow> ends (word_i w) s i
    = (if i + length w \<le> length s \<and> to_upper (slice s i (i + length w)) = to_upper w then [i + length w] else [])"
proof -
  assume "w \<noteq> []"
  have m: "map (\<lambda>c. Cls (\<lambda>d. to_upper_char d = to_upper_char c)) w = map Cls (map (\<lambda>c d. to_upper_char d = to_upper_char c) w)"
    by simp
  have "(\<forall>k<length w. to_upper_char (s ! (i + k)) = to_upper_char (w ! k)) \<longleftrightarrow> to_upper (slice s i (i + length w)) = to_upper w"
    if "i + length w \<le> length s"
    using that by (auto simp: to_upper_def slice_def list_eq_iff_nth_eq)
  then show ?thesis using \<open>w \<noteq> []\<close> unfolding word_i_def m ends_seqs_Cls by auto
qed

end
