(* ===== verification/Completion.thy ===== *)
theory Completion
  imports Statement_Splitter Js_Regex "HOL-Library.Sublist"
begin

text \<open>
  Completion in the SQL editor: the fuzzy matcher (\<open>src/features/query-editor/fuzzyMatch.ts\<close>) and
  the completion source (\<open>src/features/query-editor/sqlCompletion.ts\<close>). What the source awaits from
  the backend (the catalog, the columns of a table, the SQL words) are arguments; the promises
  in its caches are their values. \<open>localeCompare\<close> is an argument.
\<close>

subsection \<open>The fuzzy matcher\<close>

record fuzzy_match =
  fm_start :: nat
  fm_span :: nat
  fm_ranges :: "nat list"

fun fuzzyLoop :: "string \<Rightarrow> string \<Rightarrow> nat \<Rightarrow> nat list \<Rightarrow> (nat list \<times> nat) option" where
  "fuzzyLoop [] haystack at ranges = Some (ranges, at)"
| "fuzzyLoop (c # cs) haystack at ranges =
     (case index_of_from haystack [c] at of
        None \<Rightarrow> None
      | Some i \<Rightarrow> fuzzyLoop cs haystack (i + 1)
          (if ranges \<noteq> [] \<and> last ranges = i then butlast ranges @ [i + 1] else ranges @ [i, i + 1]))"

definition fuzzyMatch :: "string \<Rightarrow> string \<Rightarrow> fuzzy_match option" where
  "fuzzyMatch pattern label =
     (case fuzzyLoop (to_lower pattern) (to_lower label) 0 [] of
        None \<Rightarrow> None
      | Some (ranges, at) \<Rightarrow> Some (if ranges \<noteq> [] then \<lparr>fm_start = hd ranges, fm_span = at - hd ranges, fm_ranges = ranges\<rparr>
                                   else \<lparr>fm_start = 0, fm_span = 0, fm_ranges = ranges\<rparr>))"

record option_item =
  oi_label :: string
  oi_detail :: "string option"
  oi_type :: string
  oi_boost :: "int option"

text \<open>\<open>Array.prototype.sort\<close>: stable, by a comparison function.\<close>

fun insert_by :: "('a \<Rightarrow> 'a \<Rightarrow> int) \<Rightarrow> 'a \<Rightarrow> 'a list \<Rightarrow> 'a list" where
  "insert_by cmp x [] = [x]"
| "insert_by cmp x (y # ys) = (if cmp x y \<le> 0 then x # y # ys else y # insert_by cmp x ys)"

definition sort_by :: "('a \<Rightarrow> 'a \<Rightarrow> int) \<Rightarrow> 'a list \<Rightarrow> 'a list" where
  "sort_by cmp xs = foldr (insert_by cmp) xs []"

text \<open>\<open>a || b\<close> on numbers.\<close>

definition or_else :: "int \<Rightarrow> int \<Rightarrow> int" where
  "or_else a b = (if a \<noteq> 0 then a else b)"

definition rankCompare :: "(string \<Rightarrow> string \<Rightarrow> int) \<Rightarrow> string \<Rightarrow> option_item \<times> fuzzy_match \<Rightarrow> option_item \<times> fuzzy_match \<Rightarrow> int" where
  "rankCompare localeCompare pattern a b =
     or_else (int (fm_start (snd a)) - int (fm_start (snd b)))
       (or_else (int (fm_span (snd a)) - int (fm_span (snd b)))
         (or_else (nullish (oi_boost (fst b)) 0 - nullish (oi_boost (fst a)) 0)
           (or_else (if pattern \<noteq> '''' then int (length (oi_label (fst a))) - int (length (oi_label (fst b))) else 0)
             (localeCompare (oi_label (fst a)) (oi_label (fst b))))))"

definition ranked_options :: "string \<Rightarrow> option_item list \<Rightarrow> (option_item \<times> fuzzy_match) list" where
  "ranked_options pattern opts = List.map_filter (\<lambda>o'. map_option (Pair o') (fuzzyMatch pattern (oi_label o'))) opts"

definition fuzzyResult :: "(string \<Rightarrow> string \<Rightarrow> int) \<Rightarrow> nat \<Rightarrow> string \<Rightarrow> option_item list \<Rightarrow> nat \<times> option_item list" where
  "fuzzyResult localeCompare from pattern opts =
     (from, map fst (sort_by (rankCompare localeCompare pattern) (ranked_options pattern opts)))"

subsection \<open>The completion source\<close>

record catalog_item =
  ci_schema :: string
  ci_name :: string
  ci_oid :: nat
  ci_kind :: string

text \<open>\<open>value.replace(/^"|"$/g, "")\<close>: one quote at the front and one at the end.\<close>

definition unquote :: "string \<Rightarrow> string" where
  "unquote v = (let w = (if v \<noteq> [] \<and> hd v = dq then tl v else v) in if w \<noteq> [] \<and> last w = dq then butlast w else w)"

text \<open>\<open>clearCompletionCache\<close> on the keys of one cache.\<close>

definition clearCache :: "string \<Rightarrow> (string, 'v) js_map \<Rightarrow> (string, 'v) js_map" where
  "clearCache connectionId m = filter (\<lambda>(k, v). \<not> starts_with k (connectionId @ '':'')) m"

definition nameChar :: "char \<Rightarrow> bool" where
  "nameChar c \<longleftrightarrow> is_word c \<or> c = CHR ''$''"

definition optQuote :: re where
  "optQuote = opt (lit dq)"

definition namePart :: re where
  "namePart = seqs [optQuote, plus (Cls nameChar), optQuote]"

definition dotted :: re where
  "dotted = seqs [spaces, lit (CHR ''.''), spaces]"

text \<open>\<open>/^\s*(?:("?[\w$]+"?)\s*\.\s*)?("?[\w$]+"?)\s*$/.exec\<close>: the two groups of the first match.\<close>

definition selectedName :: "string \<Rightarrow> (string option \<times> string) option" where
  "selectedName s =
     (case [(sc, slice s j e).
              i \<leftarrow> ends spaces s 0,
              (sc, j) \<leftarrow> [(Some (slice s i a), b). a \<leftarrow> ends namePart s i, b \<leftarrow> ends dotted s a] @ [(None, i)],
              e \<leftarrow> ends namePart s j,
              _ \<leftarrow> ends (Seq spaces AtEnd) s e] of
        [] \<Rightarrow> None | p # _ \<Rightarrow> Some p)"

definition foldName :: "string \<Rightarrow> string" where
  "foldName part = (if starts_with part [dq] then unquote part else to_lower part)"

definition findTable :: "catalog_item list \<Rightarrow> string \<Rightarrow> catalog_item option" where
  "findTable catalog text = (case selectedName text of
     None \<Rightarrow> None
   | Some (sc, n) \<Rightarrow>
      let items = filter (\<lambda>item. ci_name item = foldName n \<and> (\<not> truthy_str sc \<or> ci_schema item = foldName (the sc))) catalog
      in nullish_opt (find (\<lambda>item. ci_schema item = ''public'') items) (js_at items 0))"

text \<open>The words of the server: a word shows once, by its first entry.\<close>

fun firstSeen :: "option_item list \<Rightarrow> string js_set \<Rightarrow> option_item list" where
  "firstSeen [] seen = []"
| "firstSeen (o' # os) seen = (if oi_label o' \<in> set seen then firstSeen os seen else o' # firstSeen os (js_set_add (oi_label o') seen))"

definition sqlWords :: "(string \<times> string) list \<Rightarrow> string list \<Rightarrow> string list \<Rightarrow> option_item list \<times> option_item list" where
  "sqlWords keywords functions types =
     (let lower = map (\<lambda>o'. o'\<lparr>oi_boost := Some (- 1)\<rparr>) (firstSeen
            (map (\<lambda>(w, category). \<lparr>oi_label = w, oi_detail = Some category, oi_type = ''keyword'', oi_boost = None\<rparr>) keywords
             @ map (\<lambda>l. \<lparr>oi_label = l, oi_detail = Some ''function'', oi_type = ''function'', oi_boost = None\<rparr>) functions
             @ map (\<lambda>l. \<lparr>oi_label = l, oi_detail = Some ''type'', oi_type = ''type'', oi_boost = None\<rparr>) types) [])
      in (lower, map (\<lambda>o'. o'\<lparr>oi_label := to_upper (oi_label o')\<rparr>) lower))"

definition variableOptions :: "(string \<times> string) list \<Rightarrow> option_item list" where
  "variableOptions items = map (\<lambda>(l, d). \<lparr>oi_label = l, oi_detail = Some d, oi_type = ''variable'', oi_boost = None\<rparr>) items"

definition NOT_AN_ALIAS :: "string list" where
  "NOT_AN_ALIAS = [''on'', ''using'', ''where'', ''group'', ''order'', ''having'', ''window'', ''limit'', ''offset'', ''fetch'', ''union'',
     ''intersect'', ''except'', ''join'', ''inner'', ''outer'', ''left'', ''right'', ''full'', ''cross'', ''natural'', ''lateral'', ''and'', ''or'',
     ''not'', ''set'', ''returning'', ''for'', ''into'', ''select'', ''from'', ''as'', ''values'', ''with'']"

text \<open>
  The matches of \<open>REFERENCE\<close> that start at \<open>i\<close>, in the order of the engine: schema, table and alias as
  written between the quotes, and the end. A negative lookahead is an empty list of ends.
\<close>

definition referenceName :: "string \<Rightarrow> nat \<Rightarrow> (string \<times> nat) list" where
  "referenceName s i = [(slice s a b, c). a \<leftarrow> ends optQuote s i, b \<leftarrow> ends (plus (Cls nameChar)) s a, c \<leftarrow> ends optQuote s b]"

definition referenceAlias :: "string \<Rightarrow> nat \<Rightarrow> (string option \<times> nat) list" where
  "referenceAlias s i =
     [(Some al, e). j \<leftarrow> ends (Seq spaces1 (opt (Seq (word_i ''as'') spaces1))) s i,
        (al, e) \<leftarrow> (if ends (Seq (alts (map word_i NOT_AN_ALIAS)) WordB) s j = [] then referenceName s j else [])]
     @ [(None, i)]"

definition referenceAt :: "string \<Rightarrow> nat \<Rightarrow> (string option \<times> string \<times> string option \<times> nat) list" where
  "referenceAt s i =
     [(sc, tb, al, e).
        j \<leftarrow> ends (seqs [WordB, alts [word_i ''from'', word_i ''join''], spaces1]) s i,
        (sc, k) \<leftarrow> [(Some nm, m). (nm, n) \<leftarrow> referenceName s j, m \<leftarrow> ends dotted s n] @ [(None, j)],
        (tb, m) \<leftarrow> referenceName s k,
        (al, e) \<leftarrow> (if ends (Seq spaces (lit (CHR ''.''))) s m = [] then referenceAlias s m else [])]"

text \<open>\<open>matchAll\<close>: after a match the search goes on at its end, which is behind its start.\<close>

function matchReferences :: "string \<Rightarrow> nat \<Rightarrow> (string option \<times> string \<times> string option) list" where
  "matchReferences s i =
     (if i < length s
      then (case referenceAt s i of
              [] \<Rightarrow> matchReferences s (i + 1)
            | (sc, tb, al, e) # _ \<Rightarrow> (sc, tb, al) # matchReferences s (if i < e then e else i + 1))
      else [])"
  by pat_completeness auto
termination by (relation "measure (\<lambda>(s, i). length s - i)") auto

declare matchReferences.simps [simp del]

definition references :: "string \<Rightarrow> catalog_item list \<Rightarrow> (catalog_item \<times> string option) list" where
  "references statementText items = List.map_filter (\<lambda>(sc, tb, al).
     map_option (\<lambda>table. (table, if truthy_str al then Some (unquote (the al)) else None))
       (find (\<lambda>item. ci_name item = unquote tb \<and> (\<not> truthy_str sc \<or> ci_schema item = unquote (the sc))) items))
     (matchReferences statementText 0)"

text \<open>
  \<open>before.match(/((?:"?[\w$]+"?\.){1,2})"?[\w$]*$/)\<close>: the leftmost match, as the position where it
  starts and where its group ends.
\<close>

definition qualifierPart :: re where
  "qualifierPart = seqs [optQuote, plus (Cls nameChar), optQuote, lit (CHR ''.'')]"

definition qualifierAt :: "string \<Rightarrow> nat \<Rightarrow> nat list" where
  "qualifierAt s i = [j. j \<leftarrow> ends (Seq qualifierPart (opt qualifierPart)) s i,
     _ \<leftarrow> ends (seqs [optQuote, Greedy (Cls nameChar), AtEnd]) s j]"

definition qualifierMatch :: "string \<Rightarrow> (nat \<times> nat) option" where
  "qualifierMatch s = (case List.map_filter (\<lambda>i. map_option (Pair i) (js_at (qualifierAt s i) 0)) [0..<length s + 1] of
     [] \<Rightarrow> None | p # _ \<Rightarrow> Some p)"

record completion_data =
  cd_items :: "catalog_item list"
  cd_columns :: "nat \<Rightarrow> string list"
  cd_words :: "option_item list \<times> option_item list"

definition stripQuote :: "string \<Rightarrow> string" where
  "stripQuote s = (if s \<noteq> [] \<and> hd s = dq then tl s else s)"

text \<open>The start of the name before \<open>pos\<close>: \<open>context.matchBefore(/[\w$]*/)\<close>.\<close>

definition nameStart :: "string \<Rightarrow> nat \<Rightarrow> nat" where
  "nameStart doc pos = pos - length (takeWhile nameChar (rev (take pos doc)))"

definition columnOptions :: "string list \<Rightarrow> option_item list" where
  "columnOptions columns = variableOptions (map (\<lambda>l. (l, ''column'')) columns)"

definition wordOptions :: "completion_data \<Rightarrow> string \<Rightarrow> nat \<Rightarrow> nat \<Rightarrow> option_item list" where
  "wordOptions d doc from pos =
     (let typed = slice doc from pos in
      if 0 < from \<and> doc ! (from - 1) = dq then []
      else if list_ex is_upper typed \<and> \<not> list_ex is_lower typed then snd (cd_words d) else fst (cd_words d))"

definition sqlCompletionSource :: "(string \<Rightarrow> string \<Rightarrow> int) \<Rightarrow> completion_data \<Rightarrow> string \<Rightarrow> nat \<Rightarrow> bool \<Rightarrow> (nat \<times> option_item list) option" where
  "sqlCompletionSource localeCompare d doc pos explicit =
     (case statementAt doc pos of
        None \<Rightarrow> None
      | Some current \<Rightarrow>
         if pos < st_from current \<or> pos > st_to current then None
         else let statementText = stripLiterals (slice doc (st_from current) (st_to current));
                  beforeText = take (pos - st_from current) statementText;
                  result = (\<lambda>from list. fuzzyResult localeCompare from (stripQuote (slice doc from pos)) list)
         in case qualifierMatch beforeText of
              Some (i, j) \<Rightarrow>
                (let parts = map unquote (filter (\<lambda>p. p \<noteq> '''') (split_on (CHR ''.'') (slice beforeText i j)));
                     from = pos - (length beforeText - j)
                 in if length parts = 1
                    then let q = to_lower (hd parts); refs = references statementText (cd_items d)
                         in case nullish_opt (find (\<lambda>(t, al). map_option to_lower al = Some q) refs)
                                   (find (\<lambda>(t, al). \<not> truthy_str al \<and> to_lower (ci_name t) = q) refs) of
                              Some (t, al) \<Rightarrow> Some (result from (columnOptions (cd_columns d (ci_oid t))))
                            | None \<Rightarrow> Some (result from (variableOptions (map (\<lambda>item. (ci_name item, ci_kind item))
                                        (filter (\<lambda>item. ci_schema item = hd parts) (cd_items d)))))
                    else case find (\<lambda>item. Some (ci_schema item) = js_at parts 0 \<and> Some (ci_name item) = js_at parts 1) (cd_items d) of
                           None \<Rightarrow> None
                         | Some t \<Rightarrow> Some (result from (columnOptions (cd_columns d (ci_oid t)))))
            | None \<Rightarrow>
                if (beforeText = [] \<or> \<not> nameChar (last beforeText)) \<and> \<not> explicit then None
                else let columns = concat (map (\<lambda>(t, al). cd_columns d (ci_oid t)) (references statementText (cd_items d)));
                         from = nameStart doc pos
                     in Some (result from (columnOptions (js_set_of columns) @ wordOptions d doc from pos)))"

subsection \<open>What the matcher finds\<close>

text \<open>\<open>js\<close> are increasing positions of the letters of \<open>pat\<close> in \<open>hay\<close>, from \<open>at\<close> on.\<close>

fun embeds :: "string \<Rightarrow> string \<Rightarrow> nat \<Rightarrow> nat list \<Rightarrow> bool" where
  "embeds [] hay at js = (js = [])"
| "embeds (c # cs) hay at [] = False"
| "embeds (c # cs) hay at (j # js) = (at \<le> j \<and> j < length hay \<and> hay ! j = c \<and> embeds cs hay (j + 1) js)"

fun greedy :: "string \<Rightarrow> string \<Rightarrow> nat \<Rightarrow> nat list option" where
  "greedy [] hay at = Some []"
| "greedy (c # cs) hay at = (case index_of_from hay [c] at of None \<Rightarrow> None | Some i \<Rightarrow> map_option ((#) i) (greedy cs hay (i + 1)))"

lemma find_sub_letter:
  "find_sub [c] s = Some k \<Longrightarrow> k < length s \<and> s ! k = c \<and> (\<forall>j<k. s ! j \<noteq> c)"
  "find_sub [c] s = None \<Longrightarrow> c \<notin> set s"
proof (induction s arbitrary: k)
  case (Cons x s)
  have step: "find_sub [c] (x # s) = (if x = c then Some 0 else map_option Suc (find_sub [c] s))"
    by (subst find_sub.simps) (simp add: starts_with_def)
  { case 1
    then show ?case using Cons.IH(1) unfolding step by (auto simp: nth_Cons split: if_splits nat.splits)
  next
    case 2
    then show ?case using Cons.IH(2) unfolding step by (auto split: if_splits)
  }
qed (simp_all add: find_sub.simps starts_with_def)

lemma index_of_from_char:
  assumes "at \<le> length s"
  shows "index_of_from s [c] at = Some i \<Longrightarrow> at \<le> i \<and> i < length s \<and> s ! i = c \<and> (\<forall>j. at \<le> j \<and> j < i \<longrightarrow> s ! j \<noteq> c)"
    and "index_of_from s [c] at = None \<Longrightarrow> at \<le> j \<Longrightarrow> j < length s \<Longrightarrow> s ! j \<noteq> c"
proof -
  assume "index_of_from s [c] at = Some i"
  then obtain k where k: "find_sub [c] (drop at s) = Some k" "i = at + k" by (auto simp: index_of_from_def)
  have "s ! j \<noteq> c" if j: "at \<le> j" "j < i" for j
    using find_sub_letter(1) [OF k(1)] j k(2) assms by (auto dest!: spec [of _ "j - at"])
  then show "at \<le> i \<and> i < length s \<and> s ! i = c \<and> (\<forall>j. at \<le> j \<and> j < i \<longrightarrow> s ! j \<noteq> c)"
    using find_sub_letter(1) [OF k(1)] k(2) assms by auto
next
  assume n: "index_of_from s [c] at = None" and j: "at \<le> j" "j < length s"
  then have "c \<notin> set (drop at s)" by (intro find_sub_letter(2)) (simp add: index_of_from_def)
  moreover have "s ! j \<in> set (drop at s)" using j by (metis Cons_nth_drop_Suc drop_drop in_set_dropD le_add_diff_inverse2 list.set_intros(1))
  ultimately show "s ! j \<noteq> c" by metis
qed

lemma embeds_later: "embeds pat hay at js \<Longrightarrow> at' \<le> at \<Longrightarrow> embeds pat hay at' js"
  by (cases pat; cases js) auto

lemma greedy_embeds: "at \<le> length hay \<Longrightarrow> greedy pat hay at = Some js \<Longrightarrow> embeds pat hay at js"
proof (induction pat arbitrary: at js)
  case (Cons c cs)
  obtain i ks where i: "index_of_from hay [c] at = Some i" "greedy cs hay (i + 1) = Some ks" "js = i # ks"
    using Cons.prems(2) by (auto split: option.splits)
  note f = index_of_from_char(1) [OF Cons.prems(1) i(1)]
  then show ?case using Cons.IH [of "i + 1" ks] i by simp
qed simp

lemma greedy_least:
  "at \<le> length hay \<Longrightarrow> embeds pat hay at ks \<Longrightarrow> \<exists>js. greedy pat hay at = Some js \<and> list_all2 (\<le>) js ks"
proof (induction pat arbitrary: at ks)
  case (Cons c cs)
  then obtain k ks' where k: "ks = k # ks'" "at \<le> k" "k < length hay" "hay ! k = c" "embeds cs hay (k + 1) ks'"
    by (cases ks) auto
  obtain i where i: "index_of_from hay [c] at = Some i"
    using index_of_from_char(2) [OF Cons.prems(1), of c k] k by (cases "index_of_from hay [c] at") auto
  have le: "i \<le> k"
  proof (rule ccontr)
    assume "\<not> i \<le> k"
    then show False using index_of_from_char(1) [OF Cons.prems(1) i] k by auto
  qed
  have "embeds cs hay (i + 1) ks'" using embeds_later [OF k(5)] le by simp
  then obtain js where "greedy cs hay (i + 1) = Some js" "list_all2 (\<le>) js ks'"
    using Cons.IH [of "i + 1" ks'] index_of_from_char(1) [OF Cons.prems(1) i] by auto
  then show ?case using i le k(1) by simp
qed simp

text \<open>The positions that the ranges cover.\<close>

fun covered :: "nat list \<Rightarrow> nat list" where
  "covered (a # b # rs) = [a..<b] @ covered rs"
| "covered rs = []"

lemma covered_append: "even (length rs) \<Longrightarrow> covered (rs @ qs) = covered rs @ covered qs"
  by (induction rs rule: covered.induct) auto

lemma covered_extend:
  assumes "even (length rs)" "rs \<noteq> []" "last rs = i" "last (butlast rs) \<le> i"
  shows "covered (butlast rs @ [i + 1]) = covered rs @ [i]"
proof -
  obtain qs a b where r: "rs = qs @ [a, b]" using assms(1,2)
    by (metis append.assoc append_Cons append_Nil append_butlast_last_id butlast.simps(1) even_zero length_0_conv length_append_singleton odd_one One_nat_def list.size(3) even_Suc)
  then show ?thesis using assms by (simp add: covered_append butlast_append)
qed

lemma fuzzyLoop_greedy:
  "at \<le> length hay \<Longrightarrow> even (length rs) \<Longrightarrow> (rs \<noteq> [] \<longrightarrow> last rs \<le> at \<and> last (butlast rs) \<le> last rs) \<Longrightarrow>
   (case fuzzyLoop pat hay at rs of
      None \<Rightarrow> greedy pat hay at = None
    | Some (rs', e) \<Rightarrow> \<exists>js. greedy pat hay at = Some js \<and> covered rs' = covered rs @ js
        \<and> (js \<noteq> [] \<longrightarrow> e = last js + 1) \<and> (js = [] \<longrightarrow> e = at \<and> rs' = rs)
        \<and> (rs' \<noteq> [] \<longrightarrow> hd rs' = (if rs = [] then hd js else hd rs)))"
proof (induction pat arbitrary: at rs)
  case (Cons c cs)
  show ?case
  proof (cases "index_of_from hay [c] at")
    case (Some i)
    note f = index_of_from_char(1) [OF Cons.prems(1) Some]
    let ?rs = "if rs \<noteq> [] \<and> last rs = i then butlast rs @ [i + 1] else rs @ [i, i + 1]"
    have ok: "even (length ?rs)" "?rs \<noteq> []" "last ?rs \<le> i + 1" "last (butlast ?rs) \<le> last ?rs"
      using Cons.prems(2,3) by (auto simp: butlast_append)
    have cov: "covered ?rs = covered rs @ [i]"
      using Cons.prems(2,3) covered_extend [of rs i] by (auto simp: covered_append)
    have hd: "hd ?rs = (if rs = [] then i else hd rs)"
    proof (cases "rs \<noteq> [] \<and> last rs = i")
      case True
      then have "butlast rs \<noteq> []" using Cons.prems(2) by (cases rs) auto
      then show ?thesis using True by (cases rs) auto
    qed auto
    from Cons.IH [of "i + 1" ?rs] f ok show ?thesis
      using Some cov hd by (auto split: option.splits if_splits)
  qed simp
qed simp

lemma embeds_subseq: "(\<exists>js. embeds pat hay at js) \<longleftrightarrow> subseq pat (drop at hay)"
proof
  assume "\<exists>js. embeds pat hay at js"
  then obtain js where "embeds pat hay at js" by blast
  then show "subseq pat (drop at hay)"
  proof (induction pat arbitrary: at js)
    case (Cons c cs)
    then obtain j js' where j: "js = j # js'" "at \<le> j" "j < length hay" "hay ! j = c" "embeds cs hay (j + 1) js'" by (cases js) auto
    have "drop at hay = take (j - at) (drop at hay) @ c # drop (j + 1) hay"
      using j by (metis Cons_nth_drop_Suc Suc_eq_plus1 append_take_drop_id drop_drop le_add_diff_inverse2)
    moreover have "subseq (c # cs) (c # drop (j + 1) hay)" using Cons.IH [OF j(5)] by simp
    ultimately show ?case by (metis list_emb_append2)
  qed simp
next
  assume "subseq pat (drop at hay)"
  then show "\<exists>js. embeds pat hay at js"
  proof (induction pat arbitrary: at)
    case (Cons c cs)
    obtain us vs where d: "drop at hay = us @ c # vs" "subseq cs vs" using list_emb_ConsD [OF Cons.prems] by auto
    let ?j = "at + length us"
    have "length (drop at hay) = length us + 1 + length vs" unfolding d(1) by simp
    then have len: "?j < length hay" by simp
    then have "hay ! ?j = drop at hay ! length us" by (simp add: nth_drop)
    then have "hay ! ?j = c" unfolding d(1) by simp
    moreover have "vs = drop (?j + 1) hay"
    proof -
      have "drop (length us + 1) (drop at hay) = vs" unfolding d(1) by simp
      then show ?thesis by (simp add: ac_simps)
    qed
    ultimately show ?case using Cons.IH [of "?j + 1"] d(2) len by (metis embeds.simps(3) le_add1)
  qed auto
qed

text \<open>Claim C37: the fuzzy matcher finds a match exactly when the typed letters occur in order, and
  the match it reports is the best one: the ranges cover one position per letter, in order, and
  every other way to match the letters starts no earlier and ends no earlier.\<close>

theorem fuzzy_match_best:
  "(fuzzyMatch pattern label \<noteq> None \<longleftrightarrow> subseq (to_lower pattern) (to_lower label))
   \<and> (\<forall>m ks. fuzzyMatch pattern label = Some m \<and> embeds (to_lower pattern) (to_lower label) 0 ks \<longrightarrow>
        embeds (to_lower pattern) (to_lower label) 0 (covered (fm_ranges m))
        \<and> (ks \<noteq> [] \<longrightarrow> fm_start m \<le> hd ks \<and> fm_start m + fm_span m \<le> last ks + 1
             \<and> fm_start m = hd (covered (fm_ranges m)) \<and> fm_start m + fm_span m = last (covered (fm_ranges m)) + 1))"
proof -
  let ?p = "to_lower pattern" and ?h = "to_lower label"
  note loop = fuzzyLoop_greedy [of 0 ?h "[]" ?p, simplified]
  have none: "fuzzyMatch pattern label = None \<longleftrightarrow> greedy ?p ?h 0 = None"
    using loop by (auto simp: fuzzyMatch_def split: option.splits)
  have ex: "greedy ?p ?h 0 \<noteq> None \<longleftrightarrow> (\<exists>js. embeds ?p ?h 0 js)"
    using greedy_embeds [of 0 ?h ?p] greedy_least [of 0 ?h ?p] by auto
  have best: "embeds ?p ?h 0 (covered (fm_ranges m))
        \<and> (ks \<noteq> [] \<longrightarrow> fm_start m \<le> hd ks \<and> fm_start m + fm_span m \<le> last ks + 1
             \<and> fm_start m = hd (covered (fm_ranges m)) \<and> fm_start m + fm_span m = last (covered (fm_ranges m)) + 1)"
    if m: "fuzzyMatch pattern label = Some m" and ks: "embeds ?p ?h 0 ks" for m ks
  proof -
    obtain rs e js where r: "fuzzyLoop ?p ?h 0 [] = Some (rs, e)" "greedy ?p ?h 0 = Some js" "covered rs = js"
      "js \<noteq> [] \<longrightarrow> e = last js + 1" "rs \<noteq> [] \<longrightarrow> hd rs = hd js" "js = [] \<longrightarrow> rs = []"
      using m loop by (auto simp: fuzzyMatch_def split: option.splits)
    have le: "list_all2 (\<le>) js ks" using greedy_least [OF _ ks] r(2) by auto
    have emb: "embeds ?p ?h 0 js" using greedy_embeds [OF _ r(2)] by simp
    have ranges: "fm_ranges m = rs" using m r(1) by (auto simp: fuzzyMatch_def split: if_splits)
    show ?thesis
    proof (cases "js = []")
      case True
      then show ?thesis using le emb ranges r(3) by auto
    next
      case False
      then have ne: "rs \<noteq> []" "ks \<noteq> []" using r(3) le by auto
      have fields: "fm_start m = hd js" "fm_span m = last js + 1 - hd js" using m r ne False by (auto simp: fuzzyMatch_def)
      have "hd js \<le> last js"
      proof -
        have "embeds p h at xs \<Longrightarrow> xs \<noteq> [] \<Longrightarrow> at \<le> hd xs \<and> hd xs \<le> last xs" for p h at xs
        proof (induction p h at xs rule: embeds.induct)
          case (3 c cs hay at j js)
          then show ?case by (cases js) auto
        qed auto
        then show ?thesis using emb False by blast
      qed
      moreover have "hd js \<le> hd ks" "last js \<le> last ks"
        using le False ne by (auto simp: list_all2_conv_all_nth hd_conv_nth last_conv_nth)
      ultimately show ?thesis using fields emb ranges r(3) by simp
    qed
  qed
  show ?thesis using none ex best embeds_subseq [of ?p ?h 0] by auto
qed

theorem fuzzy_match_best_witness:
  "\<exists>m. fuzzyMatch ''st'' ''select'' = Some m \<and> embeds ''st'' ''select'' 0 [0, 5] \<and> fm_start m \<le> 0 \<and> fm_start m + fm_span m \<le> 6"
proof -
  have l: "to_lower ''st'' = ''st''" "to_lower ''select'' = ''select''" by code_simp+
  have e: "embeds ''st'' ''select'' 0 [0, 5]" by code_simp
  have "fuzzyMatch ''st'' ''select'' \<noteq> None" by code_simp
  then obtain m where "fuzzyMatch ''st'' ''select'' = Some m" by blast
  with fuzzy_match_best [of "''st''" "''select''", unfolded l] e show ?thesis by fastforce
qed

end
