(* ===== verification/Shortcuts.thy ===== *)
theory Shortcuts
  imports Js_Prelude Contracts "HOL-Library.Char_ord" "HOL-Library.List_Lexorder"
begin

text \<open>
  Keyboard shortcuts, \<open>src/entities/settings/shortcuts.ts\<close>: their table, when two of them
  conflict, which key event matches which, and their CodeMirror form. \<open>mac\<close> is the constant
  \<open>isMac\<close>. Labels and groups are for display and are left out, as is \<open>displayShortcut\<close>.
\<close>

subsection \<open>The table\<close>

datatype shortcut_scope = ScopeApp | ScopeAi

type_synonym shortcut_settings = "(string, string) js_map"

definition shortcutDefinitions :: "(string \<times> string \<times> shortcut_scope) list" where
  "shortcutDefinitions = [
     (''runQuery'', ''Mod+Enter'', ScopeApp),
     (''runQueryNew'', ''Mod+Shift+Enter'', ScopeApp),
     (''cancelQuery'', ''Escape'', ScopeApp),
     (''cancelQueryAlternate'', '''', ScopeApp),
     (''saveQuery'', ''Mod+KeyS'', ScopeApp),
     (''formatSql'', ''Mod+Shift+KeyF'', ScopeApp),
     (''triggerCompletion'', ''Mod+Period'', ScopeApp),
     (''findInEditor'', ''Mod+KeyF'', ScopeApp),
     (''findNext'', ''Mod+KeyG'', ScopeApp),
     (''findPrevious'', ''Mod+Shift+KeyG'', ScopeApp),
     (''gotoLine'', ''Mod+Alt+KeyG'', ScopeApp),
     (''selectMatches'', ''Mod+Shift+KeyL'', ScopeApp),
     (''addNextMatch'', ''Mod+KeyL'', ScopeApp),
     (''newQueryTab'', ''Mod+KeyT'', ScopeApp),
     (''splitPanel'', ''Mod+KeyD'', ScopeApp),
     (''closeTab'', ''Mod+KeyW'', ScopeApp),
     (''previousPanel'', ''Mod+Shift+ArrowLeft'', ScopeApp),
     (''nextPanel'', ''Mod+Shift+ArrowRight'', ScopeApp),
     (''previousTab'', ''Ctrl+Shift+Tab'', ScopeApp),
     (''nextTab'', ''Ctrl+Tab'', ScopeApp),
     (''previousTabArrow'', ''Mod+Alt+ArrowLeft'', ScopeApp),
     (''nextTabArrow'', ''Mod+Alt+ArrowRight'', ScopeApp),
     (''tabByNumber'', ''Mod+Digit'', ScopeApp),
     (''editCell'', ''F2'', ScopeApp),
     (''selectGridRow'', ''Shift+Space'', ScopeApp),
     (''selectAllGrid'', ''Mod+KeyA'', ScopeApp),
     (''copyGrid'', ''Mod+KeyC'', ScopeApp),
     (''refreshResult'', ''Mod+KeyR'', ScopeApp),
     (''previousResult'', ''Mod+Alt+Shift+ArrowLeft'', ScopeApp),
     (''nextResult'', ''Mod+Alt+Shift+ArrowRight'', ScopeApp),
     (''toggleAi'', ''Mod+Shift+KeyI'', ScopeApp),
     (''aiSend'', ''Mod+Enter'', ScopeAi),
     (''previousConnection'', ''Mod+Shift+ArrowUp'', ScopeApp),
     (''nextConnection'', ''Mod+Shift+ArrowDown'', ScopeApp),
     (''openConnections'', ''Mod+KeyN'', ScopeApp),
     (''openSettings'', ''Mod+Comma'', ScopeApp)]"

definition shortcutIds :: "string list" where
  "shortcutIds = map fst shortcutDefinitions"

definition shortcutScope :: "string \<Rightarrow> shortcut_scope" where
  "shortcutScope i = (case find (\<lambda>d. fst d = i) shortcutDefinitions of Some (_, _, sc) \<Rightarrow> sc | None \<Rightarrow> ScopeApp)"

definition defaultShortcuts :: shortcut_settings where
  "defaultShortcuts = map (\<lambda>(i, v, sc). (i, v)) shortcutDefinitions"

definition UNBOUND :: string where
  "UNBOUND = ''''"

abbreviation plusChar :: char where "plusChar \<equiv> CHR ''+''"

subsection \<open>Syntax of a shortcut\<close>

text \<open>\<open>/^Key[A-Z]$/\<close>, \<open>/^Digit[1-9]$/\<close>, \<open>/^F([1-9]|1[0-2])$/\<close> and \<open>/^[1-9]$/\<close>.\<close>

definition isDigit19 :: "char \<Rightarrow> bool" where
  "isDigit19 c \<longleftrightarrow> is_digit c \<and> c \<noteq> CHR ''0''"

definition isLetterKey :: "string \<Rightarrow> bool" where
  "isLetterKey s \<longleftrightarrow> length s = 4 \<and> take 3 s = ''Key'' \<and> is_upper (s ! 3)"

definition isDigitKey :: "string \<Rightarrow> bool" where
  "isDigitKey s \<longleftrightarrow> length s = 6 \<and> take 5 s = ''Digit'' \<and> isDigit19 (s ! 5)"

definition isFunctionKey :: "string \<Rightarrow> bool" where
  "isFunctionKey s \<longleftrightarrow> (length s = 2 \<and> s ! 0 = CHR ''F'' \<and> isDigit19 (s ! 1)) \<or> s \<in> {''F10'', ''F11'', ''F12''}"

definition namedKeys :: "string list" where
  "namedKeys = [''Enter'', ''Escape'', ''Tab'', ''ArrowLeft'', ''ArrowRight'', ''ArrowUp'', ''ArrowDown'', ''Home'', ''End'', ''Space'']"

definition shortcutKey :: "string \<Rightarrow> bool" where
  "shortcutKey s \<longleftrightarrow> isLetterKey s \<or> s = ''Digit'' \<or> isDigitKey s \<or> isFunctionKey s \<or> s \<in> set namedKeys
     \<or> s = ''Period'' \<or> s = ''Comma''"

definition modifierNames :: "string list" where
  "modifierNames = [''Mod'', ''Ctrl'', ''Alt'', ''Shift'']"

definition isValidShortcut :: "string \<Rightarrow> bool" where
  "isValidShortcut shortcut =
     (if shortcut = UNBOUND then True
      else let parts = split_on plusChar shortcut in
        shortcutKey (last parts) \<and> distinct (butlast parts) \<and> list_all (\<lambda>p. p \<in> set modifierNames) (butlast parts))"

subsection \<open>Key events\<close>

record key_event =
  ke_key :: string
  ke_code :: string
  ke_metaKey :: bool
  ke_ctrlKey :: bool
  ke_altKey :: bool
  ke_shiftKey :: bool

definition eventKey :: "key_event \<Rightarrow> bool \<Rightarrow> string option" where
  "eventKey ev digitPattern =
     (if ke_key ev \<in> {''Meta'', ''Control'', ''Alt'', ''Shift''} then None
      else if isDigitKey (ke_code ev) then Some (if digitPattern then ''Digit'' else ke_code ev)
      else if isLetterKey (ke_code ev) then Some (ke_code ev)
      else if isFunctionKey (ke_key ev) then Some (ke_key ev)
      else if length (ke_key ev) = 1 \<and> isDigit19 (hd (ke_key ev)) then Some (if digitPattern then ''Digit'' else ''Digit'' @ ke_key ev)
      else if length (ke_key ev) = 1 \<and> (is_lower (hd (ke_key ev)) \<or> is_upper (hd (ke_key ev))) then Some (''Key'' @ to_upper (ke_key ev))
      else if ke_code ev = ''Period'' then Some ''Period''
      else if ke_code ev = ''Comma'' then Some ''Comma''
      else if ke_code ev = ''Space'' then Some ''Space''
      else if ke_key ev \<in> set namedKeys then Some (ke_key ev) else None)"

definition eventModifiers :: "bool \<Rightarrow> key_event \<Rightarrow> string list" where
  "eventModifiers mac ev =
     (if ke_metaKey ev \<or> (\<not> mac \<and> ke_ctrlKey ev) then [''Mod''] else [])
     @ (if ke_ctrlKey ev \<and> mac then [''Ctrl''] else [])
     @ (if ke_altKey ev then [''Alt''] else [])
     @ (if ke_shiftKey ev then [''Shift''] else [])"

definition shortcutFromEvent :: "bool \<Rightarrow> key_event \<Rightarrow> bool \<Rightarrow> string option" where
  "shortcutFromEvent mac ev digitPattern =
     (case eventKey ev digitPattern of
        None \<Rightarrow> None
      | Some key \<Rightarrow>
          if key = '''' then None
          else let parts = eventModifiers mac ev in
          if parts = [] \<and> length key = 1 then None else Some (join [plusChar] (parts @ [key])))"

definition modifierOn :: "bool \<Rightarrow> string \<Rightarrow> string" where
  "modifierOn mac p = (if p = ''Mod'' then (if mac then ''Meta'' else ''Ctrl'') else p)"

text \<open>The modifiers, sorted and joined, and the key.\<close>

definition signature :: "bool \<Rightarrow> string \<Rightarrow> string \<times> string" where
  "signature mac shortcut = (let parts = split_on plusChar shortcut in
     (join [plusChar] (sort (map (modifierOn mac) (butlast parts))), last parts))"

definition keysConflict :: "string \<Rightarrow> string \<Rightarrow> bool" where
  "keysConflict a b \<longleftrightarrow> a = b \<or> (a = ''Digit'' \<and> isDigitKey b) \<or> (b = ''Digit'' \<and> isDigitKey a)"

definition shortcutsConflict :: "bool \<Rightarrow> string \<Rightarrow> string \<Rightarrow> bool" where
  "shortcutsConflict mac left right =
     (if left = UNBOUND \<or> right = UNBOUND then False
      else fst (signature mac left) = fst (signature mac right)
         \<and> keysConflict (snd (signature mac left)) (snd (signature mac right)))"

definition shortcutMatches :: "bool \<Rightarrow> key_event \<Rightarrow> string \<Rightarrow> bool" where
  "shortcutMatches mac ev shortcut =
     (if shortcut = UNBOUND then False
      else case shortcutFromEvent mac ev (snd (signature mac shortcut) = ''Digit'') of
             None \<Rightarrow> False
           | Some actual \<Rightarrow> shortcutsConflict mac actual shortcut)"

definition digitValue :: "char \<Rightarrow> nat" where
  "digitValue c = code c - 48"

definition shortcutDigit :: "key_event \<Rightarrow> nat option" where
  "shortcutDigit ev =
     (if isDigitKey (ke_code ev) then Some (digitValue (ke_code ev ! 5))
      else if length (ke_key ev) = 1 \<and> isDigit19 (hd (ke_key ev)) then Some (digitValue (hd (ke_key ev))) else None)"

definition shortcutToCodeMirror :: "string \<Rightarrow> string" where
  "shortcutToCodeMirror shortcut =
     (if shortcut = UNBOUND then UNBOUND
      else let parts = split_on plusChar shortcut; key = last parts in
        join ''-'' (butlast parts @ [
          if key = ''Period'' then ''.'' else if key = ''Comma'' then '',''
          else if isLetterKey key then to_lower (drop 3 key)
          else if isDigitKey key then drop 5 key else key]))"

subsection \<open>The recorder\<close>

text \<open>
  \<open>handleKeyDown\<close> of \<open>SettingsPage\<close>: the shortcut being recorded, the settings and the id whose
  shortcut is in the way.
\<close>

record recorder =
  rec_recording :: "string option"
  rec_shortcuts :: shortcut_settings
  rec_error :: "string option"

definition shortcutOf :: "shortcut_settings \<Rightarrow> string \<Rightarrow> string" where
  "shortcutOf m i = nullish (map_of m i) UNBOUND"

definition recorderConflict :: "bool \<Rightarrow> shortcut_settings \<Rightarrow> string \<Rightarrow> string \<Rightarrow> string option" where
  "recorderConflict mac m recording shortcut =
     find (\<lambda>i. i \<noteq> recording \<and> shortcutScope i = shortcutScope recording \<and> shortcutsConflict mac (shortcutOf m i) shortcut) shortcutIds"

definition bindShortcut :: "recorder \<Rightarrow> string \<Rightarrow> string \<Rightarrow> recorder" where
  "bindShortcut r i shortcut = r\<lparr>rec_shortcuts := AList.update i shortcut (rec_shortcuts r), rec_recording := None, rec_error := None\<rparr>"

definition handleKeyDown :: "bool \<Rightarrow> recorder \<Rightarrow> key_event \<Rightarrow> recorder" where
  "handleKeyDown mac r ev =
     (case rec_recording r of
        None \<Rightarrow> r
      | Some i \<Rightarrow>
          if ke_key ev \<in> {''Backspace'', ''Delete''} then bindShortcut r i UNBOUND
          else case shortcutFromEvent mac ev (i = ''tabByNumber'') of
            None \<Rightarrow> r
          | Some shortcut \<Rightarrow>
              (case recorderConflict mac (rec_shortcuts r) i shortcut of
                 Some other \<Rightarrow> r\<lparr>rec_error := Some other\<rparr>
               | None \<Rightarrow> bindShortcut r i shortcut))"

subsection \<open>Reading back a shortcut\<close>

lemma split_on_plain: "c \<notin> set x \<Longrightarrow> split_on c x = [x]"
  by (induction x) auto

lemma split_on_append: "c \<notin> set x \<Longrightarrow> split_on c (x @ c # rest) = x # split_on c rest"
  by (induction x) auto

lemma split_on_join: "xs \<noteq> [] \<Longrightarrow> (\<forall>x\<in>set xs. c \<notin> set x) \<Longrightarrow> split_on c (join [c] xs) = xs"
  by (induction "[c]" xs rule: join.induct) (auto simp: split_on_plain split_on_append)

lemma length4: "length s = 4 \<longleftrightarrow> (\<exists>a b c d. s = [a, b, c, d])"
  by (auto simp: eval_nat_numeral length_Suc_conv)

lemma length6: "length s = 6 \<longleftrightarrow> (\<exists>a b c d e f. s = [a, b, c, d, e, f])"
  by (auto simp: eval_nat_numeral length_Suc_conv)

lemma length1: "length s = 1 \<longleftrightarrow> (\<exists>c. s = [c])"
  by (auto simp: length_Suc_conv)

lemma length2: "length s = 2 \<longleftrightarrow> (\<exists>a b. s = [a, b])"
  by (auto simp: eval_nat_numeral length_Suc_conv)

lemma isLetterKey_iff: "isLetterKey s \<longleftrightarrow> (\<exists>c. s = ''Key'' @ [c] \<and> is_upper c)"
  by (auto simp: isLetterKey_def length4)

lemma isDigitKey_iff: "isDigitKey s \<longleftrightarrow> (\<exists>c. s = ''Digit'' @ [c] \<and> isDigit19 c)"
  by (auto simp: isDigitKey_def length6)

lemma shortcutKey_facts:
  assumes "shortcutKey k" shows "plusChar \<notin> set k" "k \<noteq> ''''"
proof -
  have "\<not> is_upper plusChar" "\<not> isDigit19 plusChar" by code_simp+
  then show "plusChar \<notin> set k" "k \<noteq> ''''"
    using assms unfolding shortcutKey_def isLetterKey_iff isDigitKey_iff isFunctionKey_def length2
    by (auto simp: namedKeys_def)
qed

lemma to_upper_letter: "is_lower c \<or> is_upper c \<Longrightarrow> is_upper (to_upper_char c)"
  by (auto simp: to_upper_char_def is_lower_def is_upper_def Let_def)

lemma eventKey_cases:
  assumes "eventKey ev d = Some k"
  shows "(\<exists>c. isDigitKey c \<and> (\<forall>e. eventKey ev e = Some (if e then ''Digit'' else c)))
    \<or> ((\<forall>e. eventKey ev e = Some k) \<and> (isLetterKey k \<or> isFunctionKey k \<or> k \<in> set (''Period'' # ''Comma'' # namedKeys)))"
proof -
  have up: "isLetterKey (''Key'' @ to_upper s)" if "length s = 1" "is_lower (hd s) \<or> is_upper (hd s)" for s
    using that by (cases s) (auto simp: isLetterKey_iff to_upper_def to_upper_letter)
  have dg: "isDigitKey (''Digit'' @ s)" if "length s = 1" "isDigit19 (hd s)" for s
    using that by (cases s) (auto simp: isDigitKey_iff)
  have sp: "''Space'' \<in> set namedKeys" by code_simp
  have mod: "ke_key ev \<notin> {''Meta'', ''Control'', ''Alt'', ''Shift''}" using assms by (auto simp: eventKey_def)
  consider (digit) "isDigitKey (ke_code ev)"
    | (letter) "\<not> isDigitKey (ke_code ev)" "isLetterKey (ke_code ev)"
    | (fn) "\<not> isDigitKey (ke_code ev)" "\<not> isLetterKey (ke_code ev)" "isFunctionKey (ke_key ev)"
    | (one) "\<not> isDigitKey (ke_code ev)" "\<not> isLetterKey (ke_code ev)" "\<not> isFunctionKey (ke_key ev)" "length (ke_key ev) = 1" "isDigit19 (hd (ke_key ev))"
    | (let1) "\<not> isDigitKey (ke_code ev)" "\<not> isLetterKey (ke_code ev)" "\<not> isFunctionKey (ke_key ev)" "\<not> isDigit19 (hd (ke_key ev))"
        "length (ke_key ev) = 1" "is_lower (hd (ke_key ev)) \<or> is_upper (hd (ke_key ev))"
    | (rest) "\<not> isDigitKey (ke_code ev)" "\<not> isLetterKey (ke_code ev)" "\<not> isFunctionKey (ke_key ev)"
        "\<not> (length (ke_key ev) = 1 \<and> isDigit19 (hd (ke_key ev)))"
        "\<not> (length (ke_key ev) = 1 \<and> (is_lower (hd (ke_key ev)) \<or> is_upper (hd (ke_key ev))))" by blast
  then show ?thesis
  proof cases
    case digit
    then show ?thesis using mod by (intro disjI1 exI [of _ "ke_code ev"]) (simp add: eventKey_def)
  next
    case letter
    then show ?thesis using mod assms by (simp add: eventKey_def)
  next
    case fn
    then show ?thesis using mod assms by (simp add: eventKey_def)
  next
    case one
    then show ?thesis using mod dg by (intro disjI1 exI [of _ "''Digit'' @ ke_key ev"]) (simp add: eventKey_def)
  next
    case let1
    then have "\<forall>e. eventKey ev e = Some (''Key'' @ to_upper (ke_key ev))" using mod by (simp add: eventKey_def)
    then show ?thesis using assms up [OF let1(5,6)] by auto
  next
    case rest
    have e: "eventKey ev e = (if ke_code ev = ''Period'' then Some ''Period'' else if ke_code ev = ''Comma'' then Some ''Comma''
      else if ke_code ev = ''Space'' then Some ''Space'' else if ke_key ev \<in> set namedKeys then Some (ke_key ev) else None)" for e
      unfolding eventKey_def using mod rest by (simp only: if_False)
    have "k \<in> set (''Period'' # ''Comma'' # namedKeys)"
      using assms unfolding e using sp by (simp only: list.set insert_iff split: if_splits) auto
    then show ?thesis using assms e by simp
  qed
qed

lemma eventKey_facts:
  assumes "eventKey ev d = Some k"
  shows "shortcutKey k" "d \<Longrightarrow> \<not> isDigitKey k" "\<not> d \<Longrightarrow> k \<noteq> ''Digit''"
    and "eventKey ev True = Some ''Digit'' \<Longrightarrow> \<not> d \<Longrightarrow> isDigitKey k"
proof -
  have dig: "\<not> isDigitKey ''Digit''" by code_simp
  then have d6: "isDigitKey c \<Longrightarrow> c \<noteq> ''Digit''" for c by auto
  have other: "\<not> isDigitKey x \<and> x \<noteq> ''Digit''" if "isLetterKey x \<or> isFunctionKey x \<or> x \<in> set (''Period'' # ''Comma'' # namedKeys)" for x
  proof -
    have "list_all (\<lambda>x. \<not> isDigitKey x \<and> x \<noteq> ''Digit'') (''Period'' # ''Comma'' # namedKeys)" by code_simp
    then have "x \<in> set (''Period'' # ''Comma'' # namedKeys) \<Longrightarrow> ?thesis" by (auto simp only: list_all_iff)
    moreover have "isLetterKey x \<Longrightarrow> ?thesis" by (auto simp: isLetterKey_def isDigitKey_def)
    moreover have "isFunctionKey x \<Longrightarrow> ?thesis" by (auto simp: isFunctionKey_def isDigitKey_def)
    ultimately show ?thesis using that by blast
  qed
  have key: "shortcutKey x" if "isLetterKey x \<or> isFunctionKey x \<or> x \<in> set (''Period'' # ''Comma'' # namedKeys) \<or> isDigitKey x \<or> x = ''Digit''" for x
    using that by (auto simp: shortcutKey_def)
  from eventKey_cases [OF assms] have "shortcutKey k \<and> (d \<longrightarrow> \<not> isDigitKey k) \<and> (\<not> d \<longrightarrow> k \<noteq> ''Digit'')
     \<and> (eventKey ev True = Some ''Digit'' \<longrightarrow> \<not> d \<longrightarrow> isDigitKey k)"
  proof
    assume "\<exists>c. isDigitKey c \<and> (\<forall>e. eventKey ev e = Some (if e then ''Digit'' else c))"
    then obtain c where c: "isDigitKey c" "\<forall>e. eventKey ev e = Some (if e then ''Digit'' else c)" by blast
    have "k = (if d then ''Digit'' else c)" using assms c(2) by simp
    then show ?thesis using c(1) key [of k] dig d6 by auto
  next
    assume "(\<forall>e. eventKey ev e = Some k) \<and> (isLetterKey k \<or> isFunctionKey k \<or> k \<in> set (''Period'' # ''Comma'' # namedKeys))"
    then show ?thesis using key [of k] other [of k] by auto
  qed
  then show "shortcutKey k" "d \<Longrightarrow> \<not> isDigitKey k" "\<not> d \<Longrightarrow> k \<noteq> ''Digit''"
    "eventKey ev True = Some ''Digit'' \<Longrightarrow> \<not> d \<Longrightarrow> isDigitKey k" by blast+
qed

lemma eventModifiers_facts: "set (eventModifiers mac ev) \<subseteq> set modifierNames" "distinct (eventModifiers mac ev)"
  by (auto simp: eventModifiers_def modifierNames_def)

lemma modifierNames_plus: "p \<in> set modifierNames \<Longrightarrow> plusChar \<notin> set p"
  by (auto simp: modifierNames_def)

lemma fromEvent_parts:
  assumes "shortcutFromEvent mac ev d = Some s"
  obtains k where "eventKey ev d = Some k" "split_on plusChar s = eventModifiers mac ev @ [k]" "s \<noteq> UNBOUND"
proof -
  obtain k where k: "eventKey ev d = Some k" "s = join [plusChar] (eventModifiers mac ev @ [k])"
    using assms by (auto simp: shortcutFromEvent_def Let_def split: option.splits if_splits)
  note f = shortcutKey_facts [OF eventKey_facts(1) [OF k(1)]]
  have split: "split_on plusChar s = eventModifiers mac ev @ [k]"
    unfolding k(2) using f(1) eventModifiers_facts(1) [of mac ev] modifierNames_plus by (intro split_on_join) auto
  moreover have "s \<noteq> UNBOUND"
  proof
    assume "s = UNBOUND"
    then have "split_on plusChar s = [[]]" by (simp add: UNBOUND_def)
    then show False using split f(2) by (auto simp: append_eq_Cons_conv)
  qed
  ultimately show thesis using that k(1) by blast
qed

lemma fromEvent_valid: "shortcutFromEvent mac ev d = Some s \<Longrightarrow> isValidShortcut s"
proof -
  assume "shortcutFromEvent mac ev d = Some s"
  then obtain k where k: "eventKey ev d = Some k" "split_on plusChar s = eventModifiers mac ev @ [k]" by (rule fromEvent_parts)
  then show ?thesis using eventKey_facts(1) [OF k(1)] eventModifiers_facts [of mac ev]
    by (auto simp: isValidShortcut_def Let_def list_all_iff)
qed

lemma fromEvent_signature:
  assumes "shortcutFromEvent mac ev d = Some s"
  shows "\<exists>k. eventKey ev d = Some k \<and> signature mac s = (join [plusChar] (sort (map (modifierOn mac) (eventModifiers mac ev))), k)"
proof -
  obtain k where "eventKey ev d = Some k" "split_on plusChar s = eventModifiers mac ev @ [k]"
    using assms by (rule fromEvent_parts)
  then show ?thesis by (simp add: signature_def Let_def)
qed

lemma shortcutsConflict_sym: "shortcutsConflict mac a b = shortcutsConflict mac b a"
  by (auto simp: shortcutsConflict_def keysConflict_def)

lemma matches_conflict:
  assumes "shortcutMatches mac ev a" "shortcutMatches mac ev b"
  shows "shortcutsConflict mac a b"
proof -
  have part: "x \<noteq> UNBOUND \<and> (\<exists>k. eventKey ev (snd (signature mac x) = ''Digit'') = Some k \<and> keysConflict k (snd (signature mac x))
      \<and> fst (signature mac x) = join [plusChar] (sort (map (modifierOn mac) (eventModifiers mac ev))))"
    if m: "shortcutMatches mac ev x" for x
  proof -
    obtain s where "x \<noteq> UNBOUND" and s: "shortcutFromEvent mac ev (snd (signature mac x) = ''Digit'') = Some s" "shortcutsConflict mac s x"
      using m by (auto simp: shortcutMatches_def split: if_splits option.splits)
    then show ?thesis using fromEvent_signature [OF s(1)] by (auto simp: shortcutsConflict_def split: if_splits)
  qed
  obtain ka where a: "a \<noteq> UNBOUND" "eventKey ev (snd (signature mac a) = ''Digit'') = Some ka" "keysConflict ka (snd (signature mac a))"
    "fst (signature mac a) = join [plusChar] (sort (map (modifierOn mac) (eventModifiers mac ev)))" using part [OF assms(1)] by auto
  obtain kb where b: "b \<noteq> UNBOUND" "eventKey ev (snd (signature mac b) = ''Digit'') = Some kb" "keysConflict kb (snd (signature mac b))"
    "fst (signature mac b) = join [plusChar] (sort (map (modifierOn mac) (eventModifiers mac ev)))" using part [OF assms(2)] by auto
  have key: "snd (signature mac x) = k" if "eventKey ev (snd (signature mac x) = ''Digit'') = Some k" "keysConflict k (snd (signature mac x))" for x k
    using that eventKey_facts(2,3) [OF that(1)] by (cases "snd (signature mac x) = ''Digit''") (auto simp: keysConflict_def isDigitKey_def)
  have dig: "isDigitKey k" if "snd (signature mac x) = ''Digit''" "eventKey ev True = Some ''Digit''" "eventKey ev False = Some k" for x k
    using eventKey_facts(4) [OF that(3) that(2)] by simp
  note ka = key [OF a(2,3)] and kb = key [OF b(2,3)]
  have "keysConflict (snd (signature mac a)) (snd (signature mac b))"
  proof (cases "(snd (signature mac a) = ''Digit'') = (snd (signature mac b) = ''Digit'')")
    case True
    then show ?thesis using a(2) b(2) ka kb by (simp add: keysConflict_def)
  next
    case False
    then show ?thesis using a(2) b(2) ka kb dig by (auto simp: keysConflict_def)
  qed
  then show ?thesis using a(1,4) b(1,4) by (simp add: shortcutsConflict_def)
qed

subsection \<open>Usable settings\<close>

definition shortcuts_ok :: "bool \<Rightarrow> shortcut_settings \<Rightarrow> bool" where
  "shortcuts_ok mac m \<longleftrightarrow> map fst m = shortcutIds \<and> (\<forall>i\<in>set shortcutIds. isValidShortcut (shortcutOf m i))
     \<and> (\<forall>i\<in>set shortcutIds. \<forall>j\<in>set shortcutIds. i \<noteq> j \<and> shortcutScope i = shortcutScope j
          \<longrightarrow> \<not> shortcutsConflict mac (shortcutOf m i) (shortcutOf m j))"

datatype recorder_step = StartRecording string | KeyDown key_event | ClearShortcut string

fun recorderStep :: "bool \<Rightarrow> recorder \<Rightarrow> recorder_step \<Rightarrow> recorder option" where
  "recorderStep mac r (StartRecording i) = Some (r\<lparr>rec_recording := Some i, rec_error := None\<rparr>)"
| "recorderStep mac r (KeyDown ev) = Some (handleKeyDown mac r ev)"
| "recorderStep mac r (ClearShortcut i) = Some (bindShortcut r i UNBOUND)"

definition recorder_ok :: "bool \<Rightarrow> recorder \<Rightarrow> bool" where
  "recorder_ok mac r \<longleftrightarrow> shortcuts_ok mac (rec_shortcuts r) \<and> (\<forall>i. rec_recording r = Some i \<longrightarrow> i \<in> set shortcutIds)"

fun recorderGuard :: "recorder \<Rightarrow> recorder_step \<Rightarrow> bool" where
  "recorderGuard r (StartRecording i) = (i \<in> set shortcutIds)"
| "recorderGuard r (KeyDown ev) = True"
| "recorderGuard r (ClearShortcut i) = (i \<in> set shortcutIds)"

lemma shortcutOf_update: "shortcutOf (AList.update i s m) j = (if j = i then s else shortcutOf m j)"
  by (simp add: shortcutOf_def nullish_def)

lemma shortcuts_ok_bind:
  assumes ok: "shortcuts_ok mac m" and i: "i \<in> set shortcutIds" and valid: "isValidShortcut s"
    and free: "\<And>j. j \<in> set shortcutIds \<Longrightarrow> j \<noteq> i \<Longrightarrow> shortcutScope j = shortcutScope i \<Longrightarrow> \<not> shortcutsConflict mac (shortcutOf m j) s"
  shows "shortcuts_ok mac (AList.update i s m)"
proof -
  have keys: "map fst (AList.update i s m) = shortcutIds"
    using ok i by (simp add: shortcuts_ok_def update_keys)
  have "\<not> shortcutsConflict mac (shortcutOf (AList.update i s m) a) (shortcutOf (AList.update i s m) b)"
    if "a \<in> set shortcutIds" "b \<in> set shortcutIds" "a \<noteq> b" "shortcutScope a = shortcutScope b" for a b
  proof -
    consider "a = i" | "b = i" | "a \<noteq> i" "b \<noteq> i" by blast
    then show ?thesis
    proof cases
      case 1
      then show ?thesis using that free [of b] shortcutsConflict_sym [of mac s "shortcutOf m b"] by (simp add: shortcutOf_update)
    next
      case 2
      then show ?thesis using that free [of a] by (simp add: shortcutOf_update)
    next
      case 3
      then show ?thesis using that ok unfolding shortcuts_ok_def by (simp add: shortcutOf_update)
    qed
  qed
  then show ?thesis using keys ok valid unfolding shortcuts_ok_def by (simp add: shortcutOf_update)
qed

lemma recorder_ok_unbind: "recorder_ok mac r \<Longrightarrow> i \<in> set shortcutIds \<Longrightarrow> recorder_ok mac (bindShortcut r i UNBOUND)"
  using shortcuts_ok_bind [of mac "rec_shortcuts r" i UNBOUND]
  by (simp add: recorder_ok_def bindShortcut_def isValidShortcut_def shortcutsConflict_def)

lemma recorder_ok_step:
  assumes "recorder_ok mac r" "recorderGuard r a"
  shows "\<exists>r'. recorderStep mac r a = Some r' \<and> recorder_ok mac r'"
proof (cases a)
  case (KeyDown ev)
  have "recorder_ok mac (handleKeyDown mac r ev)"
  proof (cases "rec_recording r")
    case (Some i)
    note r = assms(1) [unfolded recorder_ok_def] Some
    have bind: "recorder_ok mac (bindShortcut r i s)"
      if s: "isValidShortcut s" "\<And>j. j \<in> set shortcutIds \<Longrightarrow> j \<noteq> i \<Longrightarrow> shortcutScope j = shortcutScope i \<Longrightarrow> \<not> shortcutsConflict mac (shortcutOf (rec_shortcuts r) j) s" for s
      using shortcuts_ok_bind [of mac "rec_shortcuts r" i s] r s by (simp add: recorder_ok_def bindShortcut_def)
    have unbound: "recorder_ok mac (bindShortcut r i UNBOUND)" using recorder_ok_unbind [OF assms(1)] r by blast
    show ?thesis
    proof (cases "ke_key ev \<in> {''Backspace'', ''Delete''}")
      case True
      then show ?thesis using unbound Some by (auto simp: handleKeyDown_def)
    next
      case False
      show ?thesis
      proof (cases "shortcutFromEvent mac ev (i = ''tabByNumber'')")
        case None
        then show ?thesis using False assms(1) Some by (simp add: handleKeyDown_def)
      next
        case (Some s)
        show ?thesis
        proof (cases "recorderConflict mac (rec_shortcuts r) i s")
          case None
          then have "recorder_ok mac (bindShortcut r i s)"
            using fromEvent_valid [OF Some] by (intro bind) (auto simp: recorderConflict_def find_None_iff)
          then show ?thesis using None Some False r by (simp add: handleKeyDown_def)
        next
          case (Some other)
          then show ?thesis using \<open>shortcutFromEvent mac ev (i = ''tabByNumber'') = Some s\<close> False r assms(1)
            by (auto simp: handleKeyDown_def recorder_ok_def)
        qed
      qed
    qed
  qed (use assms in \<open>simp add: handleKeyDown_def\<close>)
  then show ?thesis using KeyDown by simp
next
  case (ClearShortcut i)
  then show ?thesis using recorder_ok_unbind [OF assms(1)] assms(2) by simp
qed (use assms in \<open>simp add: recorder_ok_def\<close>)

interpretation recm: guarded_machine "recorderStep mac" recorderGuard "recorder_ok mac"
  by unfold_locales (rule recorder_ok_step)

text \<open>The signatures of the defaults, computed once.\<close>

fun pairwise :: "('a \<Rightarrow> 'a \<Rightarrow> bool) \<Rightarrow> 'a list \<Rightarrow> bool" where
  "pairwise P [] = True"
| "pairwise P (x # xs) = (list_all (P x) xs \<and> pairwise P xs)"

lemma pairwise_mem:
  "pairwise P xs \<Longrightarrow> x \<in> set xs \<Longrightarrow> y \<in> set xs \<Longrightarrow> x \<noteq> y \<Longrightarrow> P x y \<or> P y x"
  by (induction xs) (auto simp: list_all_iff)

definition conflictFree :: "bool \<Rightarrow> (string \<times> string \<times> shortcut_scope) list \<Rightarrow> bool" where
  "conflictFree mac ds = pairwise (\<lambda>(i, v, s) (j, w, t). \<not> (s = t \<and> shortcutsConflict mac v w)) ds"

lemma defaults_checked: "conflictFree True shortcutDefinitions" "conflictFree False shortcutDefinitions"
  "list_all (\<lambda>(i, v, s). isValidShortcut v) shortcutDefinitions" "distinct shortcutIds"
  by code_simp+

lemma shortcutScope_def': "(i, v, s) \<in> set shortcutDefinitions \<Longrightarrow> shortcutScope i = s \<and> shortcutOf defaultShortcuts i = v"
proof -
  assume m: "(i, v, s) \<in> set shortcutDefinitions"
  have d: "distinct (map fst shortcutDefinitions)" using defaults_checked(4) by (simp add: shortcutIds_def)
  then have "map_of shortcutDefinitions i = Some (v, s)" using m by simp
  moreover have "map_of (map (\<lambda>(i, v, sc). (i, v)) ds) i = map_option fst (map_of ds i)" for ds :: "(string \<times> string \<times> shortcut_scope) list"
    by (induction ds) auto
  moreover have "find (\<lambda>d. fst d = i) ds = map_option (Pair i) (map_of ds i)" for ds :: "(string \<times> string \<times> shortcut_scope) list"
    by (induction ds) auto
  ultimately show ?thesis by (simp add: shortcutScope_def shortcutOf_def defaultShortcuts_def nullish_def)
qed

lemma default_shortcuts_ok: "shortcuts_ok mac defaultShortcuts"
proof -
  have free: "conflictFree mac shortcutDefinitions" using defaults_checked(1,2) by (cases mac) auto
  have ids: "i \<in> set shortcutIds \<Longrightarrow> \<exists>v s. (i, v, s) \<in> set shortcutDefinitions" for i
  proof -
    assume "i \<in> set shortcutIds"
    then obtain d where "d \<in> set shortcutDefinitions" "i = fst d" unfolding shortcutIds_def by auto
    then have "(i, fst (snd d), snd (snd d)) \<in> set shortcutDefinitions" by simp
    then show ?thesis by blast
  qed
  have "\<not> shortcutsConflict mac (shortcutOf defaultShortcuts i) (shortcutOf defaultShortcuts j)"
    if ij: "i \<in> set shortcutIds" "j \<in> set shortcutIds" "i \<noteq> j" "shortcutScope i = shortcutScope j" for i j
  proof -
    obtain v s where v: "(i, v, s) \<in> set shortcutDefinitions" using ids [OF ij(1)] by blast
    obtain w t where w: "(j, w, t) \<in> set shortcutDefinitions" using ids [OF ij(2)] by blast
    have "s = t" using ij(4) shortcutScope_def' [OF v] shortcutScope_def' [OF w] by simp
    then show ?thesis
      using pairwise_mem [OF free [unfolded conflictFree_def] v w] ij(3) shortcutScope_def' [OF v] shortcutScope_def' [OF w]
        shortcutsConflict_sym [of mac v w] by auto
  qed
  moreover have "isValidShortcut (shortcutOf defaultShortcuts i)" if i: "i \<in> set shortcutIds" for i
  proof -
    obtain v sc where v: "(i, v, sc) \<in> set shortcutDefinitions" using ids [OF i] by blast
    then have "isValidShortcut v" using defaults_checked(3) by (auto simp: list_all_iff)
    then show ?thesis using shortcutScope_def' [OF v] by simp
  qed
  moreover have "map fst defaultShortcuts = shortcutIds" by (simp add: defaultShortcuts_def shortcutIds_def case_prod_beta)
  ultimately show ?thesis unfolding shortcuts_ok_def by blast
qed

text \<open>The recorder never makes two commands share a key. Starting from the defaults, on
  either platform, every sequence of recordings, key presses and removals leaves every command with a
  valid shortcut or none, and no two commands of the same scope with conflicting shortcuts.\<close>

theorem recorder_keeps_shortcuts_usable:
  assumes "run_ok (recorderStep mac) recorderGuard \<lparr>rec_recording = None, rec_shortcuts = defaultShortcuts, rec_error = None\<rparr> steps"
  shows "\<exists>r. run_actions (recorderStep mac) \<lparr>rec_recording = None, rec_shortcuts = defaultShortcuts, rec_error = None\<rparr> steps = Some r
     \<and> map fst (rec_shortcuts r) = shortcutIds
     \<and> (\<forall>i\<in>set shortcutIds. isValidShortcut (shortcutOf (rec_shortcuts r) i))
     \<and> (\<forall>i\<in>set shortcutIds. \<forall>j\<in>set shortcutIds. i \<noteq> j \<and> shortcutScope i = shortcutScope j
          \<longrightarrow> \<not> shortcutsConflict mac (shortcutOf (rec_shortcuts r) i) (shortcutOf (rec_shortcuts r) j))"
  using recm.run_inv [OF _ assms] default_shortcuts_ok [of mac] unfolding recorder_ok_def shortcuts_ok_def by fastforce

definition example_key :: key_event where
  "example_key = \<lparr>ke_key = ''j'', ke_code = ''KeyJ'', ke_metaKey = True, ke_ctrlKey = False, ke_altKey = False, ke_shiftKey = False\<rparr>"

theorem recorder_keeps_shortcuts_usable_witness:
  "\<exists>r. run_actions (recorderStep True) \<lparr>rec_recording = None, rec_shortcuts = defaultShortcuts, rec_error = None\<rparr>
     [StartRecording ''closeTab'', KeyDown example_key] = Some r \<and> map fst (rec_shortcuts r) = shortcutIds"
proof -
  have "run_ok (recorderStep True) recorderGuard \<lparr>rec_recording = None, rec_shortcuts = defaultShortcuts, rec_error = None\<rparr>
     [StartRecording ''closeTab'', KeyDown example_key]" by code_simp
  from recorder_keeps_shortcuts_usable [OF this] show ?thesis by blast
qed

text \<open>A key press triggers at most one command of a scope. If no two shortcuts of the
  settings conflict, no event matches the shortcuts of two different commands of one scope,
  although events are matched with a pattern for digit keys.\<close>

theorem one_command_per_key:
  assumes "shortcuts_ok mac m" "i \<in> set shortcutIds" "j \<in> set shortcutIds" "shortcutScope i = shortcutScope j"
    and "shortcutMatches mac ev (shortcutOf m i)" "shortcutMatches mac ev (shortcutOf m j)"
  shows "i = j"
  using assms matches_conflict unfolding shortcuts_ok_def by blast

theorem one_command_per_key_witness:
  "shortcutMatches True \<lparr>ke_key = ''w'', ke_code = ''KeyW'', ke_metaKey = True, ke_ctrlKey = False, ke_altKey = False, ke_shiftKey = False\<rparr>
     (shortcutOf defaultShortcuts ''closeTab'')
   \<and> \<not> shortcutMatches True \<lparr>ke_key = ''w'', ke_code = ''KeyW'', ke_metaKey = True, ke_ctrlKey = False, ke_altKey = False, ke_shiftKey = False\<rparr>
     (shortcutOf defaultShortcuts ''saveQuery'')"
proof -
  let ?ev = "\<lparr>ke_key = ''w'', ke_code = ''KeyW'', ke_metaKey = True, ke_ctrlKey = False, ke_altKey = False, ke_shiftKey = False\<rparr>"
  have m: "shortcutMatches True ?ev (shortcutOf defaultShortcuts ''closeTab'')" by code_simp
  have i: "''closeTab'' \<in> set shortcutIds" "''saveQuery'' \<in> set shortcutIds" "shortcutScope ''closeTab'' = shortcutScope ''saveQuery''"
    by code_simp+
  from one_command_per_key [OF default_shortcuts_ok i m] m show ?thesis by auto
qed

end
