(* ===== verification/App_Settings.thy ===== *)
theory App_Settings
  imports Shortcuts
begin

text \<open>
  Application settings, \<open>src/entities/settings/appSettings.ts\<close>: loading with migrations, changing,
  resetting, and what they set on the document. The stored JSON object is the record
  \<open>stored_settings\<close> whose absent keys are \<open>None\<close>; JSON text and its parser are left out, a text
  that does not parse is \<open>None\<close>. Font families are for display and left out.
\<close>

subsection \<open>Data\<close>

datatype app_theme = ThemeSystem | ThemeLight | ThemeDark
datatype app_font = FontSystem | FontSans | FontMono
datatype ai_provider = Claude | Codex

record app_settings =
  as_theme :: app_theme
  as_font :: app_font
  as_fontSize :: int
  as_shortcuts :: shortcut_settings
  as_aiProvider :: ai_provider
  as_aiModel :: string
  as_shortcutsRevision :: int

fun aiModels :: "ai_provider \<Rightarrow> string list" where
  "aiModels Claude = [''sonnet'', ''opus'', ''haiku'']"
| "aiModels Codex = [''default'', ''gpt-5.3-codex-spark'', ''gpt-5.6-sol'', ''gpt-5.6-terra'', ''gpt-5.6-luna'', ''gpt-5.5'']"

definition SHORTCUTS_REVISION :: int where
  "SHORTCUTS_REVISION = 1"

definition defaultAppSettings :: app_settings where
  "defaultAppSettings = \<lparr>as_theme = ThemeSystem, as_font = FontSystem, as_fontSize = 16, as_shortcuts = defaultShortcuts,
     as_aiProvider = Claude, as_aiModel = hd (aiModels Claude), as_shortcutsRevision = SHORTCUTS_REVISION\<rparr>"

definition appFontSizes :: "int list" where
  "appFontSizes = [14, 15, 16, 17, 18, 19, 20, 21, 22, 23, 24]"

text \<open>A value of the stored shortcuts: a string, or something else.\<close>

datatype stored_value = StoredText string | StoredOther

record stored_settings =
  sto_theme :: "string option"
  sto_font :: "string option"
  sto_fontSize :: "int option"
  sto_shortcuts :: "(string, stored_value) js_map option"
  sto_aiProvider :: "string option"
  sto_aiModel :: "string option"
  sto_shortcutsRevision :: "int option"

fun themeText :: "app_theme \<Rightarrow> string" where
  "themeText ThemeSystem = ''system''"
| "themeText ThemeLight = ''light''"
| "themeText ThemeDark = ''dark''"

fun fontText :: "app_font \<Rightarrow> string" where
  "fontText FontSystem = ''system''"
| "fontText FontSans = ''sans''"
| "fontText FontMono = ''mono''"

fun providerText :: "ai_provider \<Rightarrow> string" where
  "providerText Claude = ''claude''"
| "providerText Codex = ''codex''"

definition themeOf :: "string option \<Rightarrow> app_theme option" where
  "themeOf s = find (\<lambda>t. Some (themeText t) = s) [ThemeSystem, ThemeLight, ThemeDark]"

definition fontOf :: "string option \<Rightarrow> app_font option" where
  "fontOf s = find (\<lambda>f. Some (fontText f) = s) [FontSystem, FontSans, FontMono]"

subsection \<open>Loading\<close>

text \<open>
  The migrations. All conditions look at the shortcuts as they were stored; the changes build on
  each other.
\<close>

definition migrateCompletion :: "(string, stored_value) js_map \<Rightarrow> (string, stored_value) js_map \<Rightarrow> (string, stored_value) js_map" where
  "migrateCompletion stored m =
     (if map_of stored ''triggerCompletion'' = None \<and> map_of stored ''cancelQueryAlternate'' = Some (StoredText ''Mod+Period'')
      then AList.update ''cancelQueryAlternate'' (StoredText '''') m else m)"

definition migrateNextMatch :: "int option \<Rightarrow> (string, stored_value) js_map \<Rightarrow> (string, stored_value) js_map \<Rightarrow> (string, stored_value) js_map" where
  "migrateNextMatch revision stored m =
     (if nullish revision 0 < 1 \<and> map_of stored ''addNextMatch'' = Some (StoredText ''Mod+Shift+KeyD'')
         \<and> StoredText ''Mod+KeyL'' \<notin> snd ` set stored
      then AList.update ''addNextMatch'' (StoredText ''Mod+KeyL'') m else m)"

definition migrateAdded :: "string \<Rightarrow> string \<Rightarrow> (string, stored_value) js_map \<Rightarrow> (string, stored_value) js_map \<Rightarrow> (string, stored_value) js_map" where
  "migrateAdded i key stored m =
     (if map_of stored i = None \<and> StoredText key \<in> snd ` set stored then AList.update i (StoredText '''') m else m)"

definition migrate :: "stored_settings \<Rightarrow> (string, stored_value) js_map option" where
  "migrate v = map_option (\<lambda>stored.
     migrateAdded ''openConnections'' ''Mod+KeyN'' stored
       (migrateAdded ''newQueryTab'' ''Mod+KeyT'' stored
          (migrateNextMatch (sto_shortcutsRevision v) stored
             (migrateCompletion stored stored)))) (sto_shortcuts v)"

definition loadShortcut :: "(string, stored_value) js_map option \<Rightarrow> string \<Rightarrow> string \<Rightarrow> string" where
  "loadShortcut m i defaultValue = (case Option.bind m (\<lambda>m. map_of m i) of
     Some (StoredText s) \<Rightarrow> if isValidShortcut s then s else defaultValue
   | _ \<Rightarrow> defaultValue)"

definition providerOf :: "string option \<Rightarrow> ai_provider" where
  "providerOf s = (if s = Some ''codex'' then Codex else Claude)"

definition loadValue :: "stored_settings \<Rightarrow> app_settings" where
  "loadValue v = (let provider = providerOf (sto_aiProvider v); model = nullish (sto_aiModel v) '''' in
     \<lparr>as_theme = nullish (themeOf (sto_theme v)) (as_theme defaultAppSettings),
      as_font = nullish (fontOf (sto_font v)) (as_font defaultAppSettings),
      as_fontSize = (case sto_fontSize v of Some n \<Rightarrow> if n \<in> set appFontSizes then n else as_fontSize defaultAppSettings
                       | None \<Rightarrow> as_fontSize defaultAppSettings),
      as_shortcuts = map (\<lambda>(i, defaultValue, sc). (i, loadShortcut (migrate v) i defaultValue)) shortcutDefinitions,
      as_aiProvider = provider,
      as_aiModel = (if model \<in> set (aiModels provider) then model else hd (aiModels provider)),
      as_shortcutsRevision = SHORTCUTS_REVISION\<rparr>)"

definition load :: "stored_settings option \<Rightarrow> app_settings" where
  "load v = (case v of None \<Rightarrow> defaultAppSettings | Some v \<Rightarrow> loadValue v)"

subsection \<open>Changing\<close>

text \<open>The object that \<open>JSON.stringify\<close> writes.\<close>

definition toStored :: "app_settings \<Rightarrow> stored_settings" where
  "toStored s = \<lparr>sto_theme = Some (themeText (as_theme s)), sto_font = Some (fontText (as_font s)),
     sto_fontSize = Some (as_fontSize s), sto_shortcuts = Some (map (\<lambda>(i, v). (i, StoredText v)) (as_shortcuts s)),
     sto_aiProvider = Some (providerText (as_aiProvider s)), sto_aiModel = Some (as_aiModel s),
     sto_shortcutsRevision = Some (as_shortcutsRevision s)\<rparr>"

record document_style =
  doc_theme :: string
  doc_font :: app_font
  doc_fontSize :: string

record settings_state =
  set_settings :: app_settings
  set_storage :: "stored_settings option"
  set_document :: document_style
  set_emits :: nat

text \<open>\<open>apply\<close>; \<open>dark\<close> is the system's preference.\<close>

definition applyStyle :: "bool \<Rightarrow> app_settings \<Rightarrow> document_style" where
  "applyStyle dark s = \<lparr>doc_theme = (if as_theme s = ThemeSystem then (if dark then ''dark'' else ''light'') else themeText (as_theme s)),
     doc_font = as_font s, doc_fontSize = show_int (as_fontSize s) @ ''px''\<rparr>"

record settings_patch =
  pa_theme :: "app_theme option"
  pa_font :: "app_font option"
  pa_fontSize :: "int option"
  pa_shortcuts :: "shortcut_settings option"
  pa_aiProvider :: "ai_provider option"
  pa_aiModel :: "string option"

definition patchSettings :: "app_settings \<Rightarrow> settings_patch \<Rightarrow> app_settings" where
  "patchSettings s p = s\<lparr>as_theme := nullish (pa_theme p) (as_theme s), as_font := nullish (pa_font p) (as_font s),
     as_fontSize := nullish (pa_fontSize p) (as_fontSize s), as_shortcuts := nullish (pa_shortcuts p) (as_shortcuts s),
     as_aiProvider := nullish (pa_aiProvider p) (as_aiProvider s), as_aiModel := nullish (pa_aiModel p) (as_aiModel s)\<rparr>"

definition setAppSettings :: "bool \<Rightarrow> settings_state \<Rightarrow> settings_patch \<Rightarrow> settings_state" where
  "setAppSettings dark st p = (let s = patchSettings (set_settings st) p in
     \<lparr>set_settings = s, set_storage = Some (toStored s), set_document = applyStyle dark s, set_emits = set_emits st + 1\<rparr>)"

definition resetAppSettings :: "bool \<Rightarrow> settings_state \<Rightarrow> settings_state" where
  "resetAppSettings dark st = \<lparr>set_settings = defaultAppSettings, set_storage = None,
     set_document = applyStyle dark defaultAppSettings, set_emits = set_emits st + 1\<rparr>"

definition startSettings :: "bool \<Rightarrow> stored_settings option \<Rightarrow> settings_state" where
  "startSettings dark stored = \<lparr>set_settings = load stored, set_storage = stored, set_document = applyStyle dark (load stored), set_emits = 0\<rparr>"

text \<open>The listener of the system's colour scheme.\<close>

definition mediaChanged :: "bool \<Rightarrow> settings_state \<Rightarrow> settings_state" where
  "mediaChanged dark st = (if as_theme (set_settings st) = ThemeSystem then st\<lparr>set_document := applyStyle dark (set_settings st)\<rparr> else st)"

subsection \<open>Well-typed settings\<close>

definition settings_ok :: "app_settings \<Rightarrow> bool" where
  "settings_ok s \<longleftrightarrow> as_fontSize s \<in> set appFontSizes \<and> as_aiModel s \<in> set (aiModels (as_aiProvider s))
     \<and> map fst (as_shortcuts s) = shortcutIds \<and> (\<forall>v\<in>snd ` set (as_shortcuts s). isValidShortcut v)
     \<and> as_shortcutsRevision s = SHORTCUTS_REVISION"

lemma hd_aiModels: "hd (aiModels p) \<in> set (aiModels p)"
  by (cases p) simp_all

lemma loadShortcut_valid: "isValidShortcut d \<Longrightarrow> isValidShortcut (loadShortcut m i d)"
  by (auto simp: loadShortcut_def split: option.splits stored_value.splits)

lemma default_valid: "(i, d, sc) \<in> set shortcutDefinitions \<Longrightarrow> isValidShortcut d"
  using defaults_checked(3) by (auto simp: list_all_iff)

lemma settings_ok_default: "settings_ok defaultAppSettings"
proof -
  have "as_fontSize defaultAppSettings \<in> set appFontSizes" by (simp add: defaultAppSettings_def appFontSizes_def)
  moreover have "isValidShortcut v" if "v \<in> snd ` set defaultShortcuts" for v
    using that default_valid by (auto simp: defaultShortcuts_def)
  ultimately show ?thesis using hd_aiModels
    by (auto simp: settings_ok_def defaultAppSettings_def defaultShortcuts_def shortcutIds_def case_prod_beta)
qed

lemma settings_ok_load: "settings_ok (load v)"
proof (cases v)
  case (Some w)
  have "as_fontSize (loadValue w) \<in> set appFontSizes"
    by (auto simp: loadValue_def Let_def defaultAppSettings_def appFontSizes_def split: option.splits)
  moreover have "as_aiModel (loadValue w) \<in> set (aiModels (as_aiProvider (loadValue w)))"
    using hd_aiModels by (simp add: loadValue_def Let_def)
  moreover have "isValidShortcut x" if "x \<in> snd ` set (as_shortcuts (loadValue w))" for x
    using that default_valid loadShortcut_valid by (auto simp: loadValue_def Let_def)
  moreover have "map fst (as_shortcuts (loadValue w)) = shortcutIds"
    by (simp add: loadValue_def Let_def shortcutIds_def case_prod_beta)
  ultimately show ?thesis using Some by (simp add: settings_ok_def load_def) (simp add: loadValue_def Let_def)
qed (use settings_ok_default in \<open>simp add: load_def\<close>)

text \<open>Whatever the local storage holds, the application starts with well-typed settings: a
  font size from the list, a model of the chosen provider, every known shortcut exactly once and
  valid, and the current revision; and the document shows the theme they prescribe.\<close>

theorem load_always_well_typed:
  "settings_ok (set_settings (startSettings dark stored))
   \<and> doc_theme (set_document (startSettings dark stored)) \<in> {''light'', ''dark''}"
proof -
  have "doc_theme (applyStyle dark s) \<in> {''light'', ''dark''}" for s by (cases "as_theme s") (auto simp: applyStyle_def)
  then show ?thesis using settings_ok_load by (simp add: startSettings_def)
qed

subsection \<open>Settings survive a restart\<close>

lemma themeOf_text [simp]: "themeOf (Some (themeText t)) = Some t"
  by (cases t) (simp_all add: themeOf_def)

lemma fontOf_text [simp]: "fontOf (Some (fontText t)) = Some t"
  by (cases t) (simp_all add: fontOf_def)

lemma providerOf_text [simp]: "providerOf (Some (providerText t)) = t"
  by (cases t) (simp_all add: providerOf_def)

lemma migrate_current:
  assumes "settings_ok s"
  shows "migrate (toStored s) = Some (map (\<lambda>(i, v). (i, StoredText v)) (as_shortcuts s))"
proof -
  let ?m = "map (\<lambda>(i, v). (i, StoredText v)) (as_shortcuts s)"
  have "fst ` set ?m = set shortcutIds" using assms unfolding settings_ok_def by (metis (no_types, lifting) image_set list.map_comp fst_conv case_prod_beta comp_apply map_eq_conv)
  then have known: "i \<in> set shortcutIds \<Longrightarrow> map_of ?m i \<noteq> None" for i by (simp add: map_of_eq_None_iff)
  have ids: "''triggerCompletion'' \<in> set shortcutIds" "''newQueryTab'' \<in> set shortcutIds" "''openConnections'' \<in> set shortcutIds"
    by code_simp+
  have "migrateCompletion ?m x = x" for x using known [OF ids(1)] unfolding migrateCompletion_def by metis
  moreover have "migrateAdded ''newQueryTab'' key ?m x = x" "migrateAdded ''openConnections'' key ?m x = x" for x key
    using known [OF ids(2)] known [OF ids(3)] unfolding migrateAdded_def by metis+
  moreover have "migrateNextMatch (Some 1) ?m x = x" for x by (simp add: migrateNextMatch_def nullish_def)
  moreover have "as_shortcutsRevision s = 1" using assms by (simp add: settings_ok_def SHORTCUTS_REVISION_def)
  ultimately show ?thesis unfolding migrate_def toStored_def by (simp only: stored_settings.select_convs option.map)
qed

lemma load_stored:
  assumes "settings_ok s" shows "loadValue (toStored s) = s"
proof -
  let ?m = "map (\<lambda>(i, v). (i, StoredText v)) (as_shortcuts s)"
  have keys: "map fst (as_shortcuts s) = shortcutIds" and valid: "\<forall>v\<in>snd ` set (as_shortcuts s). isValidShortcut v"
    using assms by (auto simp: settings_ok_def)
  have dist: "distinct (map fst (as_shortcuts s))" using keys defaults_checked(4) by simp
  have get: "loadShortcut (Some ?m) i d = v" if iv: "(i, v) \<in> set (as_shortcuts s)" for i v d
  proof -
    have "map_of ?m i = map_option StoredText (map_of (as_shortcuts s) i)" by (simp add: map_of_map)
    then show ?thesis using iv dist valid by (force simp: loadShortcut_def)
  qed
  have "map (\<lambda>(i, d, sc). (i, loadShortcut (Some ?m) i d)) shortcutDefinitions = as_shortcuts s"
  proof (rule nth_equalityI)
    have len: "length shortcutDefinitions = length (as_shortcuts s)" using keys by (metis length_map shortcutIds_def)
    then show "length (map (\<lambda>(i, d, sc). (i, loadShortcut (Some ?m) i d)) shortcutDefinitions) = length (as_shortcuts s)" by simp
    fix k assume "k < length (map (\<lambda>(i, d, sc). (i, loadShortcut (Some ?m) i d)) shortcutDefinitions)"
    then have k: "k < length shortcutDefinitions" "k < length (as_shortcuts s)" using len by auto
    have "fst (shortcutDefinitions ! k) = fst (as_shortcuts s ! k)" using keys k by (metis nth_map shortcutIds_def)
    moreover have "as_shortcuts s ! k \<in> set (as_shortcuts s)" using k by simp
    ultimately show "map (\<lambda>(i, d, sc). (i, loadShortcut (Some ?m) i d)) shortcutDefinitions ! k = as_shortcuts s ! k"
      using k get [of "fst (as_shortcuts s ! k)" "snd (as_shortcuts s ! k)"] by (simp add: case_prod_beta prod_eq_iff)
  qed
  then have sc: "as_shortcuts (loadValue (toStored s)) = as_shortcuts s"
    by (simp add: loadValue_def Let_def migrate_current [OF assms])
  have rest: "as_theme (loadValue (toStored s)) = as_theme s" "as_font (loadValue (toStored s)) = as_font s"
    "as_fontSize (loadValue (toStored s)) = as_fontSize s" "as_aiProvider (loadValue (toStored s)) = as_aiProvider s"
    "as_aiModel (loadValue (toStored s)) = as_aiModel s" "as_shortcutsRevision (loadValue (toStored s)) = as_shortcutsRevision s"
    using assms by (simp_all add: loadValue_def Let_def toStored_def nullish_def settings_ok_def)
  show ?thesis using sc rest by (intro app_settings.equality) simp_all
qed

text \<open>Settings survive a restart. After a change that leaves well-typed settings, or after
  a reset, the next start loads exactly the settings in force and no migration touches them.\<close>

theorem settings_survive_restart:
  assumes "settings_ok (patchSettings (set_settings st) p)"
  shows "set_settings (startSettings dark' (set_storage (setAppSettings dark st p))) = set_settings (setAppSettings dark st p)
    \<and> set_settings (startSettings dark' (set_storage (resetAppSettings dark st))) = set_settings (resetAppSettings dark st)"
  using load_stored [OF assms] by (simp add: setAppSettings_def resetAppSettings_def startSettings_def load_def Let_def)

definition example_patch :: settings_patch where
  "example_patch = \<lparr>pa_theme = Some ThemeDark, pa_font = None, pa_fontSize = Some 18, pa_shortcuts = None, pa_aiProvider = None, pa_aiModel = None\<rparr>"

theorem settings_survive_restart_witness:
  "set_settings (startSettings True (set_storage (setAppSettings False (startSettings False None) example_patch)))
     = set_settings (setAppSettings False (startSettings False None) example_patch)"
proof -
  have "settings_ok (patchSettings (set_settings (startSettings False None)) example_patch)"
    using settings_ok_default
    by (simp add: settings_ok_def patchSettings_def example_patch_def startSettings_def load_def nullish_def appFontSizes_def)
  from settings_survive_restart [OF this, of True False] show ?thesis by blast
qed

text \<open>
  A shortcut that was added later can take a key that the user had bound elsewhere: the load
  guards the defaults of two added shortcuts only. Here the stored settings bind
  the later default of \<open>triggerCompletion\<close> to \<open>saveQuery\<close>, and the loaded settings bind it twice.
\<close>

definition oldStored :: stored_settings where
  "oldStored = \<lparr>sto_theme = None, sto_font = None, sto_fontSize = None, sto_shortcuts = Some [(''saveQuery'', StoredText ''Mod+Period'')],
     sto_aiProvider = None, sto_aiModel = None, sto_shortcutsRevision = None\<rparr>"

theorem load_can_bind_twice:
  "shortcutsConflict True (shortcutOf (as_shortcuts (load (Some oldStored))) ''saveQuery'')
     (shortcutOf (as_shortcuts (load (Some oldStored))) ''triggerCompletion'')"
  by code_simp

end
