(* ===== verification/Value_Text.thy ===== *)
theory Value_Text
  imports Db_Types
begin

text \<open>
  The text of database values: the lossless text for clipboard and export
  (\<open>src/entities/result/valueText.ts\<close>) and the text a grid cell shows
  (\<open>src/features/result-grid/cellText.ts\<close>). The exceptions are values of \<open>export_error\<close>.
\<close>

subsection \<open>Arrays\<close>

datatype export_error = NoValue | BadArray | BadElement | BinaryIncomplete | ValueUnreadable

datatype array_tree = Leaf db_value | Nested "array_tree list"

definition MAX_SAFE_INTEGER :: int where
  "MAX_SAFE_INTEGER = 2 ^ 53 - 1"

fun is_array :: "db_value \<Rightarrow> bool" where
  "is_array (VArray ds vs t) = True"
| "is_array v = False"

definition arrayCount :: "array_dimension list \<Rightarrow> int" where
  "arrayCount dims = foldl (\<lambda>total d. total * ad_length d) (if dims \<noteq> [] then 1 else 0) dims"

text \<open>
  \<open>nest\<close>, with the values from \<open>index\<close> on: the trees of one dimension and the values left. An
  index out of range would give \<open>undefined\<close>; the count excludes it, and \<open>VNull\<close> stands there.
\<close>

fun nest :: "nat list \<Rightarrow> db_value list \<Rightarrow> array_tree list \<times> db_value list"
and nestTimes :: "nat \<Rightarrow> nat list \<Rightarrow> db_value list \<Rightarrow> array_tree list \<times> db_value list" where
  "nest [] vs = ([], vs)"
| "nest [n] vs = (map (\<lambda>k. Leaf (if k < length vs then vs ! k else VNull)) [0..<n], drop n vs)"
| "nest (n # m # ms) vs = nestTimes n (m # ms) vs"
| "nestTimes 0 ms vs = ([], vs)"
| "nestTimes (Suc n) ms vs =
     (let (sub, rest) = nest ms vs; (subs, rest') = nestTimes n ms rest in (Nested sub # subs, rest'))"

definition arrayTree :: "array_dimension list \<Rightarrow> db_value list \<Rightarrow> export_error + array_tree list" where
  "arrayTree dims values =
     (let count = arrayCount dims in
      if \<bar>count\<bar> > MAX_SAFE_INTEGER \<or> count \<noteq> int (length values) \<or> length dims > 6
         \<or> (\<exists>d\<in>set dims. ad_length d < 0)
         \<or> (length dims > 1 \<and> (\<exists>d\<in>set dims. ad_length d = 0))
         \<or> (\<exists>v\<in>set values. is_array v)
      then Inl BadArray
      else if count = 0 then Inr []
      else Inr (fst (nest (map (nat \<circ> ad_length) dims) values)))"

subsection \<open>Export text\<close>

text \<open>\<open>replace(/[\\"]/g, "\\$&")\<close>.\<close>

definition escapeElement :: "string \<Rightarrow> string" where
  "escapeElement s = concat (map (\<lambda>c. if c = CHR 0x5C \<or> c = CHR 0x22 then [CHR 0x5C, c] else [c]) s)"

text \<open>\<open>exportText\<close> on a value that is no array.\<close>

fun scalarText :: "db_value \<Rightarrow> export_error + string" where
  "scalarText VNull = Inr ''NULL''"
| "scalarText (VBoolean b) = Inr (if b then ''true'' else ''false'')"
| "scalarText (VArray ds vs t) = Inl BadArray"
| "scalarText (VBinary enc val len trunc h) =
     (case val of None \<Rightarrow> Inl BinaryIncomplete
      | Some s \<Rightarrow> if trunc \<or> enc \<noteq> ''base64'' then Inl BinaryIncomplete else Inr s)"
| "scalarText (VUnknown s oid typ) =
     (if s = ''<unreadable>'' \<or> s = ''<'' @ to_lower typ @ ''>'' then Inl ValueUnreadable else Inr s)"
| "scalarText (VInteger s) = Inr s"
| "scalarText (VDecimal s) = Inr s"
| "scalarText (VFloat s) = Inr s"
| "scalarText (VText s) = Inr s"
| "scalarText (VUuid s) = Inr s"
| "scalarText (VTemporal t s) = Inr s"
| "scalarText (VJson s t) = Inr s"
| "scalarText (VEnum s t) = Inr s"
| "scalarText (VNetwork s t) = Inr s"
| "scalarText (VRange s t) = Inr s"
| "scalarText (VComposite s t) = Inr s"

fun renderTree :: "array_tree \<Rightarrow> export_error + string" where
  "renderTree (Nested items) =
     (case map_throw renderTree items of
        Inl e \<Rightarrow> Inl e | Inr ss \<Rightarrow> Inr (''{'' @ join '','' ss @ ''}''))"
| "renderTree (Leaf item) =
     (case item of
        VNull \<Rightarrow> Inr ''NULL''
      | VBinary enc val len trunc h \<Rightarrow> Inl BadElement
      | VUnknown s oid typ \<Rightarrow> Inl BadElement
      | _ \<Rightarrow> (case scalarText item of
            Inl e \<Rightarrow> Inl e | Inr s \<Rightarrow> Inr ([CHR 0x22] @ escapeElement s @ [CHR 0x22])))"

definition arrayText :: "array_dimension list \<Rightarrow> db_value list \<Rightarrow> export_error + string" where
  "arrayText dims values =
     (case arrayTree dims values of
        Inl e \<Rightarrow> Inl e
      | Inr trees \<Rightarrow>
         (case renderTree (Nested trees) of
            Inl e \<Rightarrow> Inl e
          | Inr text \<Rightarrow>
              let bounds = (if values \<noteq> [] \<and> (\<exists>d\<in>set dims. ad_lowerBound d \<noteq> 1)
                 then concat (map (\<lambda>d. ''['' @ show_int (ad_lowerBound d) @ '':''
                        @ show_int (ad_lowerBound d + ad_length d - 1) @ '']'') dims) @ ''=''
                 else '''')
              in Inr (bounds @ text)))"

definition exportText :: "db_value option \<Rightarrow> export_error + string" where
  "exportText v = (case v of
       None \<Rightarrow> Inl NoValue
     | Some (VArray dims values t) \<Rightarrow> arrayText dims values
     | Some w \<Rightarrow> scalarText w)"

subsection \<open>Cell text\<close>

text \<open>\<open>(n / unit).toFixed(1)\<close>: the unit is a power of two, so the quotient is exact.\<close>

definition toFixed1 :: "nat \<Rightarrow> nat \<Rightarrow> string" where
  "toFixed1 n unit = (let tenths = (20 * n + unit) div (2 * unit) in
     show_nat (tenths div 10) @ ''.'' @ show_nat (tenths mod 10))"

definition formatBytes :: "nat \<Rightarrow> string" where
  "formatBytes n =
     (if n < 1024 then show_nat n @ '' B''
      else if n < 1024 * 1024 then toFixed1 n 1024 @ '' KB''
      else toFixed1 n (1024 * 1024) @ '' MB'')"

fun cellTextOf :: "db_value \<Rightarrow> export_error + string" where
  "cellTextOf VNull = Inr ''NULL''"
| "cellTextOf (VBoolean b) = Inr (if b then ''true'' else ''false'')"
| "cellTextOf (VBinary enc val len trunc h) =
     Inr (case val of None \<Rightarrow> ''<binary '' @ formatBytes len @ ''>''
          | Some s \<Rightarrow> ''<binary '' @ formatBytes len @ '' base64:'' @ take 24 s @ ellipsis @ ''>'')"
| "cellTextOf (VArray dims values t) =
     (if t = 25 then exportText (Some (VArray dims values t))
      else case map_throw cellTextOf values of
             Inl e \<Rightarrow> Inl e | Inr ss \<Rightarrow> Inr (''{'' @ join '','' ss @ ''}''))"
| "cellTextOf (VUnknown s oid typ) = Inr s"
| "cellTextOf v = scalarText v"

definition cellText :: "db_value option \<Rightarrow> export_error + string" where
  "cellText v = (case v of None \<Rightarrow> Inr '''' | Some w \<Rightarrow> cellTextOf w)"

definition cellClass :: "db_value option \<Rightarrow> string" where
  "cellClass v = (case v of
       None \<Rightarrow> ''''
     | Some VNull \<Rightarrow> ''text-gray-400 italic''
     | Some (VUnknown s oid typ) \<Rightarrow> ''text-gray-400''
     | Some (VComposite s t) \<Rightarrow> ''text-gray-400''
     | Some (VBinary enc val len trunc h) \<Rightarrow> ''text-gray-400''
     | Some (VInteger s) \<Rightarrow> ''text-right tabular-nums''
     | Some (VDecimal s) \<Rightarrow> ''text-right tabular-nums''
     | Some (VFloat s) \<Rightarrow> ''text-right tabular-nums''
     | Some _ \<Rightarrow> '''')"

subsection \<open>The shape of an array\<close>

fun leaves :: "array_tree \<Rightarrow> db_value list" where
  "leaves (Leaf v) = [v]"
| "leaves (Nested ts) = concat (map leaves ts)"

text \<open>A tree with the given extents below it.\<close>

fun shaped :: "nat list \<Rightarrow> array_tree \<Rightarrow> bool" where
  "shaped [] (Leaf v) = True"
| "shaped (n # ns) (Nested ts) = (length ts = n \<and> (\<forall>t\<in>set ts. shaped ns t))"
| "shaped _ _ = False"

lemma nest_faithful:
  "ns \<noteq> [] \<Longrightarrow> prod_list ns \<le> length vs \<Longrightarrow>
     concat (map leaves (fst (nest ns vs))) = take (prod_list ns) vs
     \<and> snd (nest ns vs) = drop (prod_list ns) vs \<and> shaped ns (Nested (fst (nest ns vs)))"
  "ns \<noteq> [] \<Longrightarrow> k * prod_list ns \<le> length vs \<Longrightarrow>
     concat (map leaves (fst (nestTimes k ns vs))) = take (k * prod_list ns) vs
     \<and> snd (nestTimes k ns vs) = drop (k * prod_list ns) vs
     \<and> length (fst (nestTimes k ns vs)) = k \<and> (\<forall>t\<in>set (fst (nestTimes k ns vs)). shaped ns t)"
proof (induction ns vs and k ns vs rule: nest_nestTimes.induct)
  case (2 n vs)
  have "map (\<lambda>k. if k < length vs then vs ! k else VNull) [0..<n] = take n vs"
    using 2 by (intro nth_equalityI) auto
  then show ?case by (simp add: comp_def concat_map_singleton)
next
  case (5 n ms vs)
  obtain sub rest where s: "nest ms vs = (sub, rest)" by (cases "nest ms vs")
  obtain subs rest' where r: "nestTimes n ms rest = (subs, rest')" by (cases "nestTimes n ms rest")
  have le: "prod_list ms \<le> length vs" using 5(4) by simp
  have s': "concat (map leaves sub) = take (prod_list ms) vs" "rest = drop (prod_list ms) vs" "shaped ms (Nested sub)"
    using 5(1) [OF 5(3) le] s by simp_all
  have "n * prod_list ms \<le> length rest" using 5(4) s' by simp
  then have "concat (map leaves subs) = take (n * prod_list ms) rest" "rest' = drop (n * prod_list ms) rest"
    "length subs = n" "\<forall>t\<in>set subs. shaped ms t"
    using 5(2) [OF s [symmetric] refl 5(3)] r by simp_all
  then show ?case using s s' r by (simp add: take_add drop_drop add.commute)
qed auto

lemma arrayCount_prod:
  assumes "dims \<noteq> []" "\<forall>d\<in>set dims. 0 \<le> ad_length d"
  shows "arrayCount dims = int (prod_list (map (nat \<circ> ad_length) dims))"
proof -
  have "(\<forall>d\<in>set dims. 0 \<le> ad_length d) \<Longrightarrow>
      foldl (\<lambda>total d. total * ad_length d) k dims = k * int (prod_list (map (nat \<circ> ad_length) dims))" for k
    by (induction dims arbitrary: k) auto
  then show ?thesis using assms by (simp add: arrayCount_def)
qed

text \<open>Arrays keep their values and their shape. Whenever the dimensions of an array fit its
  flat payload, the nested array has exactly the payload as its leaves, in row-major order,
  and the extents of the dimensions at every level; in every other case it is refused.\<close>

theorem arrayTree_row_major:
  "(case arrayTree dims values of
      Inr ts \<Rightarrow> concat (map leaves ts) = values \<and> (values \<noteq> [] \<longrightarrow> shaped (map (nat \<circ> ad_length) dims) (Nested ts))
    | Inl e \<Rightarrow> e = BadArray \<and> (arrayCount dims \<noteq> int (length values) \<or> arrayCount dims > MAX_SAFE_INTEGER \<or> length dims > 6
        \<or> (\<exists>d\<in>set dims. ad_length d < 0) \<or> (length dims > 1 \<and> (\<exists>d\<in>set dims. ad_length d = 0))
        \<or> (\<exists>v\<in>set values. is_array v)))"
proof (cases "arrayTree dims values")
  case (Inl e)
  then show ?thesis by (auto simp: arrayTree_def Let_def split: if_splits)
next
  case (Inr ts)
  then have ok: "arrayCount dims = int (length values)" "\<forall>d\<in>set dims. 0 \<le> ad_length d"
    and ts: "ts = (if values = [] then [] else fst (nest (map (nat \<circ> ad_length) dims) values))"
    by (auto simp: arrayTree_def Let_def not_less split: if_splits)
  show ?thesis
  proof (cases "values = []")
    case False
    then have ne: "dims \<noteq> []" using ok(1) by (auto simp: arrayCount_def)
    then have "prod_list (map (nat \<circ> ad_length) dims) = length values" using arrayCount_prod [OF ne ok(2)] ok(1) by simp
    then show ?thesis using nest_faithful(1) [of "map (nat \<circ> ad_length) dims" "values"] ne False ts Inr by simp
  qed (use ts Inr in simp)
qed

theorem arrayTree_row_major_witness:
  "arrayTree [\<lparr>ad_lowerBound = 1, ad_length = 2\<rparr>, \<lparr>ad_lowerBound = 1, ad_length = 1\<rparr>] [VText ''a'', VNull]
     = Inr [Nested [Leaf (VText ''a'')], Nested [Leaf VNull]]
   \<and> shaped (map (nat \<circ> ad_length) [\<lparr>ad_lowerBound = 1, ad_length = 2\<rparr>, \<lparr>ad_lowerBound = 1, ad_length = 1\<rparr>])
       (Nested [Nested [Leaf (VText ''a'')], Nested [Leaf VNull]])"
proof -
  have t: "arrayTree [\<lparr>ad_lowerBound = 1, ad_length = 2\<rparr>, \<lparr>ad_lowerBound = 1, ad_length = 1\<rparr>] [VText ''a'', VNull]
     = Inr [Nested [Leaf (VText ''a'')], Nested [Leaf VNull]]" by code_simp
  then show ?thesis
    using arrayTree_row_major [of "[\<lparr>ad_lowerBound = 1, ad_length = 2\<rparr>, \<lparr>ad_lowerBound = 1, ad_length = 1\<rparr>]" "[VText ''a'', VNull]"]
    by simp
qed

end
