(* ===== verification/Tsv.thy ===== *)
theory Tsv
  imports Value_Text
begin

text \<open>
  Clipboard text: the parser of pasted TSV (\<open>src/features/data-editing/tsv.ts\<close>) and the TSV
  and CSV exporters (\<open>src/features/result-grid/exporters.ts\<close>). The parser's index \<open>i\<close> is the
  suffix of the text that is still to be read, \<open>text[i + 1]\<close> the character after its head.
\<close>

subsection \<open>The parser\<close>

abbreviation tab :: char where "tab \<equiv> CHR 0x09"
abbreviation lf :: char where "lf \<equiv> CHR 0x0A"
abbreviation cr :: char where "cr \<equiv> CHR 0x0D"
abbreviation quo :: char where "quo \<equiv> CHR 0x22"

definition MAX_PASTE_CELLS :: nat where
  "MAX_PASTE_CELLS = 10000"

definition MAX_PASTE_ROWS :: nat where
  "MAX_PASTE_ROWS = 500"

definition MAX_PASTE_BYTES :: nat where
  "MAX_PASTE_BYTES = 10 * 1024 * 1024"

datatype tsv_error = PasteTooLarge | TooManyCells | TooManyRows | BadQuote | UnclosedQuote

record tsv_state =
  p_rows :: "string list list"
  p_quoted :: "bool list list"
  p_row :: "string list"
  p_rowQuoted :: "bool list"
  p_field :: string
  p_inQuotes :: bool
  p_fieldWasQuoted :: bool
  p_cells :: nat

definition tsvStart :: tsv_state where
  "tsvStart = \<lparr>p_rows = [], p_quoted = [], p_row = [], p_rowQuoted = [], p_field = [],
     p_inQuotes = False, p_fieldWasQuoted = False, p_cells = 0\<rparr>"

definition endField :: "tsv_state \<Rightarrow> tsv_state" where
  "endField p = p\<lparr>p_row := p_row p @ [p_field p], p_rowQuoted := p_rowQuoted p @ [p_fieldWasQuoted p],
     p_cells := p_cells p + 1, p_field := [], p_fieldWasQuoted := False\<rparr>"

definition endRow :: "tsv_state \<Rightarrow> tsv_state" where
  "endRow p = (let q = endField p in
     q\<lparr>p_rows := p_rows q @ [p_row q], p_quoted := p_quoted q @ [p_rowQuoted q], p_row := [], p_rowQuoted := []\<rparr>)"

definition tsvLimit :: "tsv_state \<Rightarrow> tsv_error option" where
  "tsvLimit p = (if p_cells p > MAX_PASTE_CELLS then Some TooManyCells
     else if length (p_rows p) > MAX_PASTE_ROWS then Some TooManyRows else None)"

function tsvLoop :: "string \<Rightarrow> tsv_state \<Rightarrow> tsv_error + tsv_state" where
  "tsvLoop [] p = Inr p"
| "tsvLoop (c # rest) p =
     (case tsvLimit p of
        Some e \<Rightarrow> Inl e
      | None \<Rightarrow>
         if p_inQuotes p
         then if c = quo
              then (if rest \<noteq> [] \<and> hd rest = quo
                    then tsvLoop (tl rest) (p\<lparr>p_field := p_field p @ [quo]\<rparr>)
                    else tsvLoop rest (p\<lparr>p_inQuotes := False\<rparr>))
              else tsvLoop rest (p\<lparr>p_field := p_field p @ [c]\<rparr>)
         else if c = quo \<and> p_field p = [] \<and> \<not> p_fieldWasQuoted p
         then tsvLoop rest (p\<lparr>p_inQuotes := True, p_fieldWasQuoted := True\<rparr>)
         else if c = tab then tsvLoop rest (endField p)
         else if c = lf then tsvLoop rest (endRow p)
         else if c = cr
         then (if rest \<noteq> [] \<and> hd rest = lf then tsvLoop (tl rest) (endRow p) else tsvLoop rest (endRow p))
         else if p_fieldWasQuoted p \<or> c = quo then Inl BadQuote
         else tsvLoop rest (p\<lparr>p_field := p_field p @ [c]\<rparr>))"
  by pat_completeness auto
termination by (relation "measure (\<lambda>(s, p). length s)") (auto simp: less_Suc_eq_le le_SucI)

definition parseTsv :: "string \<Rightarrow> tsv_error + (string list list \<times> bool list list)" where
  "parseTsv text =
     (if length text > MAX_PASTE_BYTES \<or> utf8_length text > MAX_PASTE_BYTES then Inl PasteTooLarge
      else case tsvLoop text tsvStart of
             Inl e \<Rightarrow> Inl e
           | Inr p \<Rightarrow>
              if p_inQuotes p then Inl UnclosedQuote
              else let q = (if p_field p \<noteq> [] \<or> p_row p \<noteq> [] \<or> p_fieldWasQuoted p then endRow p else p)
                   in case tsvLimit q of Some e \<Rightarrow> Inl e | None \<Rightarrow> Inr (p_rows q, p_quoted q))"

datatype paste_marker = MarkValue string | MarkNull | MarkDefault

definition interpretMarker :: "string \<Rightarrow> bool \<Rightarrow> paste_marker" where
  "interpretMarker field wasQuoted =
     (if \<not> wasQuoted \<and> field = ''NULL'' then MarkNull
      else if \<not> wasQuoted \<and> field = ''DEFAULT'' then MarkDefault
      else MarkValue field)"

subsection \<open>The exporters\<close>

text \<open>\<open>s.replace(/"/g, '""')\<close>.\<close>

definition doubleQuotes :: "string \<Rightarrow> string" where
  "doubleQuotes s = concat (map (\<lambda>c. if c = quo then [quo, quo] else [c]) s)"

definition tsvQuoted :: "string \<Rightarrow> bool \<Rightarrow> bool" where
  "tsvQuoted s literal \<longleftrightarrow> (\<exists>c\<in>set s. c = tab \<or> c = lf \<or> c = cr \<or> c = quo)
     \<or> (literal \<and> (s = '''' \<or> s = ''NULL'' \<or> s = ''DEFAULT''))"

definition tsvField :: "string \<Rightarrow> bool \<Rightarrow> string" where
  "tsvField s literal = (if tsvQuoted s literal then [quo] @ doubleQuotes s @ [quo] else s)"

definition tsvCell :: "db_value list \<Rightarrow> column_meta \<Rightarrow> export_error + string" where
  "tsvCell row c = (let v = js_at row (cm_index c) in
     case exportText v of Inl e \<Rightarrow> Inl e | Inr s \<Rightarrow> Inr (tsvField s (v \<noteq> Some VNull)))"

definition tsvLine :: "column_meta list \<Rightarrow> db_value list \<Rightarrow> export_error + string" where
  "tsvLine columns row = (case map_throw (tsvCell row) columns of
     Inl e \<Rightarrow> Inl e | Inr ss \<Rightarrow> Inr (join [tab] ss))"

definition toTsv :: "column_meta list \<Rightarrow> db_value list list \<Rightarrow> bool \<Rightarrow> export_error + string" where
  "toTsv columns rows includeHeader =
     (case map_throw (tsvLine columns) rows of
        Inl e \<Rightarrow> Inl e
      | Inr lines \<Rightarrow> Inr (join [lf]
          ((if includeHeader then [join [tab] (map (\<lambda>c. tsvField (cm_name c) False) columns)] else []) @ lines)))"

definition csvGuarded :: "string \<Rightarrow> bool \<Rightarrow> string" where
  "csvGuarded s formulaDefense =
     (if formulaDefense \<and> s \<noteq> [] \<and> hd s \<in> {CHR ''='', CHR ''+'', CHR ''-'', CHR ''@''} then CHR 0x27 # s else s)"

definition csvField :: "string \<Rightarrow> bool \<Rightarrow> string" where
  "csvField s formulaDefense = (let guarded = csvGuarded s formulaDefense in
     if \<exists>c\<in>set guarded. c = quo \<or> c = CHR '','' \<or> c = lf \<or> c = cr
     then [quo] @ doubleQuotes guarded @ [quo] else guarded)"

fun csvLiteral :: "db_value \<Rightarrow> bool" where
  "csvLiteral (VInteger s) = True"
| "csvLiteral (VDecimal s) = True"
| "csvLiteral (VFloat s) = True"
| "csvLiteral (VBinary e v n t h) = True"
| "csvLiteral v = False"

definition csvCell :: "bool \<Rightarrow> db_value list \<Rightarrow> column_meta \<Rightarrow> export_error + string" where
  "csvCell formulaDefense row c = (case js_at row (cm_index c) of
       Some VNull \<Rightarrow> Inr ''''
     | v \<Rightarrow> (case exportText v of
          Inl e \<Rightarrow> Inl e
        | Inr value \<Rightarrow> if value = '''' then Inr [quo, quo]
            else Inr (csvField value (formulaDefense \<and> \<not> (case v of None \<Rightarrow> False | Some w \<Rightarrow> csvLiteral w)))))"

definition csvLine :: "bool \<Rightarrow> column_meta list \<Rightarrow> db_value list \<Rightarrow> export_error + string" where
  "csvLine formulaDefense columns row = (case map_throw (csvCell formulaDefense row) columns of
     Inl e \<Rightarrow> Inl e | Inr ss \<Rightarrow> Inr (join '','' ss))"

definition toCsv :: "column_meta list \<Rightarrow> db_value list list \<Rightarrow> bool \<Rightarrow> export_error + string" where
  "toCsv columns rows formulaDefense =
     (case map_throw (csvLine formulaDefense columns) rows of
        Inl e \<Rightarrow> Inl e
      | Inr lines \<Rightarrow> Inr (join [cr, lf]
          (join '','' (map (\<lambda>c. csvField (cm_name c) formulaDefense) columns) # lines) @ [cr, lf]))"

subsection \<open>Parsing what was exported\<close>

definition clean :: "tsv_state \<Rightarrow> bool" where
  "clean p \<longleftrightarrow> p_field p = [] \<and> \<not> p_inQuotes p \<and> \<not> p_fieldWasQuoted p"

lemma tsvLimit_frame [simp]:
  "tsvLimit (p\<lparr>p_field := f\<rparr>) = tsvLimit p" "tsvLimit (p\<lparr>p_inQuotes := b\<rparr>) = tsvLimit p"
  "tsvLimit (p\<lparr>p_fieldWasQuoted := b\<rparr>) = tsvLimit p"
  by (simp_all add: tsvLimit_def)

lemma loop_plain:
  "tsvLimit p = None \<Longrightarrow> \<not> p_inQuotes p \<Longrightarrow> \<not> p_fieldWasQuoted p \<Longrightarrow> (\<forall>c\<in>set s. c \<noteq> tab \<and> c \<noteq> lf \<and> c \<noteq> cr \<and> c \<noteq> quo) \<Longrightarrow>
   tsvLoop (s @ rest) p = tsvLoop rest (p\<lparr>p_field := p_field p @ s\<rparr>)"
proof (induction s arbitrary: p)
  case (Cons c s)
  have "tsvLoop ((c # s) @ rest) p = tsvLoop (s @ rest) (p\<lparr>p_field := p_field p @ [c]\<rparr>)" using Cons.prems by simp
  then show ?case using Cons.IH [of "p\<lparr>p_field := p_field p @ [c]\<rparr>"] Cons.prems by simp
qed simp

lemma loop_quoted:
  "tsvLimit p = None \<Longrightarrow> p_inQuotes p \<Longrightarrow> rest = [] \<or> hd rest \<noteq> quo \<Longrightarrow>
   tsvLoop (doubleQuotes s @ quo # rest) p = tsvLoop rest (p\<lparr>p_field := p_field p @ s, p_inQuotes := False\<rparr>)"
proof (induction s arbitrary: p)
  case Nil
  then show ?case by (auto simp: doubleQuotes_def)
next
  case (Cons c s)
  have "tsvLoop (doubleQuotes (c # s) @ quo # rest) p = tsvLoop (doubleQuotes s @ quo # rest) (p\<lparr>p_field := p_field p @ [c]\<rparr>)"
    using Cons.prems by (simp add: doubleQuotes_def)
  then show ?case using Cons.IH [of "p\<lparr>p_field := p_field p @ [c]\<rparr>"] Cons.prems by simp
qed

lemma loop_field:
  assumes "tsvLimit p = None" "clean p" "rest = [] \<or> hd rest \<noteq> quo"
  shows "tsvLoop (tsvField s l @ rest) p = tsvLoop rest (p\<lparr>p_field := s, p_fieldWasQuoted := tsvQuoted s l\<rparr>)"
proof (cases "tsvQuoted s l")
  case True
  let ?q = "p\<lparr>p_inQuotes := True, p_fieldWasQuoted := True\<rparr>"
  have "tsvLoop (tsvField s l @ rest) p = tsvLoop (doubleQuotes s @ quo # rest) ?q"
    using assms True by (simp add: tsvField_def clean_def)
  moreover have "?q\<lparr>p_field := p_field ?q @ s, p_inQuotes := False\<rparr> = p\<lparr>p_field := s, p_fieldWasQuoted := True\<rparr>"
    using assms(2) by (cases p) (simp add: clean_def)
  ultimately show ?thesis
    using loop_quoted [of ?q rest s] assms True by simp
next
  case False
  then have "\<forall>c\<in>set s. c \<noteq> tab \<and> c \<noteq> lf \<and> c \<noteq> cr \<and> c \<noteq> quo" by (auto simp: tsvQuoted_def)
  then have "tsvLoop (tsvField s l @ rest) p = tsvLoop rest (p\<lparr>p_field := s\<rparr>)"
    using loop_plain [of p s rest] assms False by (simp add: tsvField_def clean_def)
  also have "p\<lparr>p_field := s\<rparr> = p\<lparr>p_field := s, p_fieldWasQuoted := tsvQuoted s l\<rparr>"
    using assms(2) False by (cases p) (simp add: clean_def)
  finally show ?thesis .
qed

definition rowText :: "(string \<times> bool) list \<Rightarrow> string" where
  "rowText fs = join [tab] (map (\<lambda>(s, l). tsvField s l) fs)"

definition rowDone :: "tsv_state \<Rightarrow> (string \<times> bool) list \<Rightarrow> tsv_state" where
  "rowDone p fs = p\<lparr>p_rows := p_rows p @ [p_row p @ map fst fs],
     p_quoted := p_quoted p @ [p_rowQuoted p @ map (\<lambda>(s, l). tsvQuoted s l) fs],
     p_row := [], p_rowQuoted := [], p_cells := p_cells p + length fs\<rparr>"

lemma rowText_Cons: "fs \<noteq> [] \<Longrightarrow> rowText ((s, l) # fs) = tsvField s l @ tab # rowText fs"
  by (cases fs) (simp_all add: rowText_def)

lemma loop_row:
  "fs \<noteq> [] \<Longrightarrow> clean p \<Longrightarrow> p_cells p + length fs \<le> MAX_PASTE_CELLS \<Longrightarrow> length (p_rows p) \<le> MAX_PASTE_ROWS \<Longrightarrow>
   rest = [] \<or> hd rest = lf \<Longrightarrow> (\<forall>(s, l)\<in>set fs. s \<noteq> [] \<or> tsvQuoted s l) \<Longrightarrow>
   \<exists>q. tsvLoop (rowText fs @ rest) p = tsvLoop rest q \<and> endRow q = rowDone p fs \<and> \<not> p_inQuotes q
     \<and> tsvLimit q = None \<and> (p_field q \<noteq> [] \<or> p_row q \<noteq> [] \<or> p_fieldWasQuoted q)"
proof (induction fs arbitrary: p)
  case (Cons f fs)
  obtain s l where f: "f = (s, l)" by (cases f)
  have lim: "tsvLimit p = None" using Cons.prems by (simp add: tsvLimit_def)
  let ?q = "p\<lparr>p_field := s, p_fieldWasQuoted := tsvQuoted s l\<rparr>"
  show ?case
  proof (cases "fs = []")
    case True
    have "tsvLoop (rowText (f # fs) @ rest) p = tsvLoop rest ?q"
      using loop_field [OF lim Cons.prems(2), of rest s l] Cons.prems(5) f True by (auto simp: rowText_def)
    moreover have "endRow ?q = rowDone p (f # fs)" using Cons.prems(2) f True
      by (simp add: endRow_def endField_def rowDone_def Let_def clean_def)
    ultimately show ?thesis using Cons.prems(2,6) lim f by (intro exI [of _ ?q]) (auto simp: clean_def)
  next
    case False
    let ?p = "endField ?q"
    have "tsvLoop (rowText (f # fs) @ rest) p = tsvLoop (tab # rowText fs @ rest) ?q"
      using loop_field [OF lim Cons.prems(2), of "tab # rowText fs @ rest" s l] f False by (simp add: rowText_Cons)
    also have "\<dots> = tsvLoop (rowText fs @ rest) ?p" using lim Cons.prems(2) by (simp add: clean_def)
    finally have step: "tsvLoop (rowText (f # fs) @ rest) p = tsvLoop (rowText fs @ rest) ?p" .
    have p: "clean ?p" "p_cells ?p + length fs \<le> MAX_PASTE_CELLS" "length (p_rows ?p) \<le> MAX_PASTE_ROWS"
      using Cons.prems(2-4) by (simp_all add: endField_def clean_def)
    have "rowDone ?p fs = rowDone p (f # fs)" using Cons.prems(2) f
      by (simp add: rowDone_def endField_def clean_def)
    then show ?thesis using Cons.IH [OF False p Cons.prems(5)] Cons.prems(6) step by simp
  qed
qed simp

lemma clean_rowDone: "clean p \<Longrightarrow> clean (rowDone p fs)"
  by (simp add: clean_def rowDone_def)

lemma loop_rows:
  "fss \<noteq> [] \<Longrightarrow> clean p \<Longrightarrow> p_cells p + sum_list (map length fss) \<le> MAX_PASTE_CELLS \<Longrightarrow>
   length (p_rows p) + length fss \<le> MAX_PASTE_ROWS \<Longrightarrow>
   (\<forall>fs\<in>set fss. fs \<noteq> [] \<and> (\<forall>(s, l)\<in>set fs. s \<noteq> [] \<or> tsvQuoted s l)) \<Longrightarrow>
   \<exists>q. tsvLoop (join [lf] (map rowText fss)) p = Inr q \<and> endRow q = foldl rowDone p fss \<and> \<not> p_inQuotes q
     \<and> (p_field q \<noteq> [] \<or> p_row q \<noteq> [] \<or> p_fieldWasQuoted q)"
proof (induction fss arbitrary: p)
  case (Cons fs fss)
  have fs: "fs \<noteq> []" "\<forall>(s, l)\<in>set fs. s \<noteq> [] \<or> tsvQuoted s l" using Cons.prems(5) by auto
  have lim: "p_cells p + length fs \<le> MAX_PASTE_CELLS" "length (p_rows p) \<le> MAX_PASTE_ROWS" using Cons.prems by auto
  show ?case
  proof (cases "fss = []")
    case True
    then show ?thesis using loop_row [OF fs(1) Cons.prems(2) lim, of "[]"] fs(2) by auto
  next
    case False
    obtain f' fss' where fss: "fss = f' # fss'" using False by (cases fss) auto
    let ?rest = "lf # join [lf] (map rowText fss)"
    obtain q where q: "tsvLoop (rowText fs @ ?rest) p = tsvLoop ?rest q" "endRow q = rowDone p fs" "\<not> p_inQuotes q" "tsvLimit q = None"
      using loop_row [OF fs(1) Cons.prems(2) lim, of ?rest] fs(2) by auto
    have "tsvLoop ?rest q = tsvLoop (join [lf] (map rowText fss)) (endRow q)" using q(3,4) by simp
    then have step: "tsvLoop (join [lf] (map rowText (fs # fss))) p = tsvLoop (join [lf] (map rowText fss)) (rowDone p fs)"
      using q fss by simp
    have "p_cells (rowDone p fs) + sum_list (map length fss) \<le> MAX_PASTE_CELLS"
      "length (p_rows (rowDone p fs)) + length fss \<le> MAX_PASTE_ROWS"
      using Cons.prems(3,4) by (simp_all add: rowDone_def)
    then show ?thesis using Cons.IH [OF False clean_rowDone [OF Cons.prems(2)]] Cons.prems(5) step by simp
  qed
qed simp

lemma foldl_rowDone:
  "p_row p = [] \<Longrightarrow> p_rowQuoted p = [] \<Longrightarrow>
   p_rows (foldl rowDone p fss) = p_rows p @ map (map fst) fss
   \<and> p_quoted (foldl rowDone p fss) = p_quoted p @ map (map (\<lambda>(s, l). tsvQuoted s l)) fss
   \<and> p_cells (foldl rowDone p fss) = p_cells p + sum_list (map length fss)"
  by (induction fss arbitrary: p) (simp_all add: rowDone_def)

lemma parse_rowTexts:
  assumes "fss \<noteq> []" "sum_list (map length fss) \<le> MAX_PASTE_CELLS" "length fss \<le> MAX_PASTE_ROWS"
    and "\<forall>fs\<in>set fss. fs \<noteq> [] \<and> (\<forall>(s, l)\<in>set fs. s \<noteq> [] \<or> tsvQuoted s l)"
    and "utf8_length (join [lf] (map rowText fss)) \<le> MAX_PASTE_BYTES"
  shows "parseTsv (join [lf] (map rowText fss)) = Inr (map (map fst) fss, map (map (\<lambda>(s, l). tsvQuoted s l)) fss)"
proof -
  have len: "length u \<le> utf8_length u" for u by (induction u) (auto simp: utf8_length_def)
  have "clean tsvStart" "p_cells tsvStart = 0" "p_rows tsvStart = []" by (simp_all add: clean_def tsvStart_def)
  then obtain q where q: "tsvLoop (join [lf] (map rowText fss)) tsvStart = Inr q" "endRow q = foldl rowDone tsvStart fss"
      "\<not> p_inQuotes q" "p_field q \<noteq> [] \<or> p_row q \<noteq> [] \<or> p_fieldWasQuoted q"
    using loop_rows [of fss tsvStart] assms(1-4) by auto
  note rows = foldl_rowDone [of tsvStart fss]
  have "p_rows (endRow q) = map (map fst) fss" "p_quoted (endRow q) = map (map (\<lambda>(s, l). tsvQuoted s l)) fss"
    "p_cells (endRow q) = sum_list (map length fss)"
    unfolding q(2) using rows by (simp_all add: tsvStart_def)
  moreover from this have "tsvLimit (endRow q) = None" using assms(2,3) by (simp add: tsvLimit_def)
  ultimately show ?thesis
    using q assms(5) len [of "join [lf] (map rowText fss)"] by (simp add: parseTsv_def Let_def)
qed


text \<open>What a cell means when it is pasted back.\<close>

definition pastedValue :: "db_value list \<Rightarrow> column_meta \<Rightarrow> export_error + paste_marker" where
  "pastedValue row c = (case js_at row (cm_index c) of
       Some VNull \<Rightarrow> Inr MarkNull
     | v \<Rightarrow> (case exportText v of Inl e \<Rightarrow> Inl e | Inr s \<Rightarrow> Inr (MarkValue s)))"

definition exportedField :: "db_value list \<Rightarrow> column_meta \<Rightarrow> export_error + (string \<times> bool)" where
  "exportedField row c = (case exportText (js_at row (cm_index c)) of
       Inl e \<Rightarrow> Inl e | Inr s \<Rightarrow> Inr (s, js_at row (cm_index c) \<noteq> Some VNull))"

lemma tsvCell_field:
  "tsvCell row c = Inr u \<longleftrightarrow> (\<exists>s l. exportedField row c = Inr (s, l) \<and> u = tsvField s l)"
  by (auto simp: tsvCell_def exportedField_def Let_def split: sum.splits)

lemma exportedField_meaning:
  assumes "exportedField row c = Inr (s, l)"
  shows "s \<noteq> [] \<or> tsvQuoted s l"
    and "pastedValue row c = Inr (interpretMarker s (tsvQuoted s l))"
proof -
  let ?v = "js_at row (cm_index c)"
  have f: "exportText ?v = Inr s" "l \<longleftrightarrow> ?v \<noteq> Some VNull"
    using assms by (auto simp: exportedField_def split: sum.splits)
  have "(s \<noteq> [] \<or> tsvQuoted s l) \<and> pastedValue row c = Inr (interpretMarker s (tsvQuoted s l))"
  proof (cases "?v = Some VNull")
    case True
    then have s: "s = ''NULL''" using f(1) by (simp add: exportText_def)
    have "\<not> tsvQuoted s l" using f(2) True by (simp add: tsvQuoted_def s)
    then show ?thesis using True by (simp add: pastedValue_def interpretMarker_def s)
  next
    case False
    have "pastedValue row c = Inr (MarkValue s)"
      using False f(1) unfolding pastedValue_def by (cases ?v rule: option.exhaust) (auto split: db_value.splits)
    moreover have "l" using f(2) False by simp
    ultimately show ?thesis by (auto simp: interpretMarker_def tsvQuoted_def)
  qed
  then show "s \<noteq> [] \<or> tsvQuoted s l" "pastedValue row c = Inr (interpretMarker s (tsvQuoted s l))" by auto
qed

lemma list_all2_choose:
  "list_all2 (\<lambda>x y. \<exists>z. R x z \<and> y = f z) xs ys \<Longrightarrow> \<exists>zs. list_all2 R xs zs \<and> ys = map f zs"
proof (induction rule: list_all2_induct)
  case (Cons x xs y ys)
  then show ?case by (metis list.simps(9) list_all2_Cons)
qed simp

lemma tsvLine_fields:
  "tsvLine columns row = Inr u \<longleftrightarrow> (\<exists>fs. map_throw (exportedField row) columns = Inr fs \<and> u = rowText fs)"
proof
  assume "tsvLine columns row = Inr u"
  then obtain ss where ss: "map_throw (tsvCell row) columns = Inr ss" and u: "u = join [tab] ss"
    by (auto simp: tsvLine_def split: sum.splits)
  have "list_all2 (\<lambda>c t. \<exists>f. exportedField row c = Inr f \<and> t = (\<lambda>(s, l). tsvField s l) f) columns ss"
    using ss by (auto simp: map_throw_Inr tsvCell_field elim!: list_all2_mono)
  from list_all2_choose [OF this]
  show "\<exists>fs. map_throw (exportedField row) columns = Inr fs \<and> u = rowText fs"
    by (auto simp: map_throw_Inr u rowText_def)
next
  assume "\<exists>fs. map_throw (exportedField row) columns = Inr fs \<and> u = rowText fs"
  then obtain fs where fs: "list_all2 (\<lambda>c f. exportedField row c = Inr f) columns fs" and u: "u = rowText fs"
    by (auto simp: map_throw_Inr)
  have "list_all2 (\<lambda>c t. tsvCell row c = Inr t) columns (map (\<lambda>(s, l). tsvField s l) fs)"
    using fs by (auto simp: list_all2_map2 tsvCell_field elim!: list_all2_mono)
  then have "map_throw (tsvCell row) columns = Inr (map (\<lambda>(s, l). tsvField s l) fs)" by (simp add: map_throw_Inr)
  then show "tsvLine columns row = Inr u" by (simp add: tsvLine_def u rowText_def)
qed

text \<open>The fields of the rows that \<open>toTsv\<close> writes.\<close>

lemma toTsv_fields:
  assumes "toTsv columns rows False = Inr text"
  obtains fss where "list_all2 (\<lambda>row fs. map_throw (exportedField row) columns = Inr fs) rows fss"
    and "text = join [lf] (map rowText fss)"
proof -
  obtain ls where ls: "map_throw (tsvLine columns) rows = Inr ls" and t: "text = join [lf] ls"
    using assms by (auto simp: toTsv_def split: sum.splits)
  have "list_all2 (\<lambda>row u. \<exists>fs. map_throw (exportedField row) columns = Inr fs \<and> u = rowText fs) rows ls"
    using ls by (simp add: map_throw_Inr tsvLine_fields)
  from list_all2_choose [OF this] show ?thesis using that t by blast
qed

lemma fields_meaning:
  assumes "map_throw (exportedField row) columns = Inr fs"
  shows "length fs = length columns"
    and "\<forall>(s, l)\<in>set fs. s \<noteq> [] \<or> tsvQuoted s l"
    and "map_throw (pastedValue row) columns = Inr (map2 interpretMarker (map fst fs) (map (\<lambda>(s, l). tsvQuoted s l) fs))"
proof -
  have fs: "list_all2 (\<lambda>c f. exportedField row c = Inr f) columns fs" using assms by (simp add: map_throw_Inr)
  then show "length fs = length columns" by (simp add: list_all2_lengthD)
  show "\<forall>(s, l)\<in>set fs. s \<noteq> [] \<or> tsvQuoted s l"
    using fs exportedField_meaning(1) by (fastforce simp: list_all2_conv_all_nth in_set_conv_nth)
  have "list_all2 (\<lambda>c f. pastedValue row c = Inr (interpretMarker (fst f) (case f of (s, l) \<Rightarrow> tsvQuoted s l))) columns fs"
    using fs by (rule list_all2_mono) (auto dest: exportedField_meaning(2))
  then show "map_throw (pastedValue row) columns = Inr (map2 interpretMarker (map fst fs) (map (\<lambda>(s, l). tsvQuoted s l) fs))"
    by (simp add: map_throw_Inr list_all2_conv_all_nth)
qed

lemma sum_list_const: "(\<forall>x\<in>set xs. f x = (k :: nat)) \<Longrightarrow> sum_list (map f xs) = length xs * k"
  by (induction xs) auto

text \<open>Claim C38: copying a result without header and pasting it back is lossless. If the text fits
  the paste limits, the parser returns a table of the same shape whose cells are read as NULL
  exactly where the result has NULL and elsewhere as the export text of the value; the words
  NULL and DEFAULT, empty text, tabs, line breaks and quotes in values survive.\<close>
theorem tsv_round_trip:
  assumes "toTsv columns rows False = Inr text" and "columns \<noteq> []" and "rows \<noteq> []"
    and "length rows \<le> MAX_PASTE_ROWS" and "length rows * length columns \<le> MAX_PASTE_CELLS"
    and "utf8_length text \<le> MAX_PASTE_BYTES"
  shows "\<exists>cells quoted. parseTsv text = Inr (cells, quoted)
     \<and> map_throw (\<lambda>row. map_throw (pastedValue row) columns) rows = Inr (map2 (map2 interpretMarker) cells quoted)"
proof -
  obtain fss where fss: "list_all2 (\<lambda>row fs. map_throw (exportedField row) columns = Inr fs) rows fss"
    and tx: "text = join [lf] (map rowText fss)" using toTsv_fields [OF assms(1)] by blast
  have len: "length fss = length rows" using fss by (simp add: list_all2_lengthD)
  have each: "\<forall>fs\<in>set fss. length fs = length columns \<and> (\<forall>(s, l)\<in>set fs. s \<noteq> [] \<or> tsvQuoted s l)"
  proof
    fix fs assume "fs \<in> set fss"
    then obtain i where "i < length fss" "fs = fss ! i" by (auto simp: in_set_conv_nth)
    then have "map_throw (exportedField (rows ! i)) columns = Inr fs"
      using fss by (simp add: list_all2_conv_all_nth)
    then show "length fs = length columns \<and> (\<forall>(s, l)\<in>set fs. s \<noteq> [] \<or> tsvQuoted s l)"
      using fields_meaning(1,2) by blast
  qed
  have parsed: "parseTsv text = Inr (map (map fst) fss, map (map (\<lambda>(s, l). tsvQuoted s l)) fss)"
    unfolding tx
  proof (rule parse_rowTexts)
    show "fss \<noteq> []" "length fss \<le> MAX_PASTE_ROWS" using assms(3,4) len by auto
    show "sum_list (map length fss) \<le> MAX_PASTE_CELLS"
      using sum_list_const [of fss length "length columns"] each assms(5) len by simp
    show "\<forall>fs\<in>set fss. fs \<noteq> [] \<and> (\<forall>(s, l)\<in>set fs. s \<noteq> [] \<or> tsvQuoted s l)" using each assms(2) by fastforce
    show "utf8_length (join [lf] (map rowText fss)) \<le> MAX_PASTE_BYTES" using assms(6) tx by simp
  qed
  have "map_throw (\<lambda>row. map_throw (pastedValue row) columns) rows
      = Inr (map2 (map2 interpretMarker) (map (map fst) fss) (map (map (\<lambda>(s, l). tsvQuoted s l)) fss))"
    using fss fields_meaning(3) by (simp add: map_throw_Inr list_all2_conv_all_nth)
  with parsed show ?thesis by blast
qed

definition example_column :: "string \<Rightarrow> int \<Rightarrow> column_meta" where
  "example_column n i = \<lparr>cm_index = i, cm_name = n, cm_pgTypeOid = 25, cm_pgTypeName = ''text'',
     cm_category = TextC, cm_source = None, cm_nullable = None, cm_editable = False\<rparr>"

lemmas export_eval = toTsv_def tsvLine_def tsvCell_def tsvField_def tsvQuoted_def doubleQuotes_def exportText_def
  example_column_def js_at_def Let_def

lemma example_toTsv:
  "toTsv [example_column ''a'' 0, example_column ''b'' 1]
     [[VNull, VText ''NULL''], [VText '''', VText [CHR ''x'', tab, quo]]] False
   = Inr (''NULL'' @ [tab, quo] @ ''NULL'' @ [quo, lf, quo, quo, tab, quo] @ [CHR ''x'', tab, quo, quo, quo])"
  by (simp add: export_eval)

theorem tsv_round_trip_witness:
  "\<exists>text cells quoted. toTsv [example_column ''a'' 0, example_column ''b'' 1]
     [[VNull, VText ''NULL''], [VText '''', VText [CHR ''x'', tab, quo]]] False = Inr text
   \<and> parseTsv text = Inr (cells, quoted)
   \<and> map2 (map2 interpretMarker) cells quoted
     = [[MarkNull, MarkValue ''NULL''], [MarkValue '''', MarkValue [CHR ''x'', tab, quo]]]"
  unfolding example_toTsv
  using tsv_round_trip [OF example_toTsv]
  by (simp add: MAX_PASTE_ROWS_def MAX_PASTE_CELLS_def MAX_PASTE_BYTES_def utf8_length_def
      pastedValue_def exportText_def example_column_def js_at_def)
    (simp add: eq_commute)

subsection \<open>CSV fields\<close>

text \<open>Reading a CSV field the way RFC 4180 prescribes.\<close>

fun halveQuotes :: "string \<Rightarrow> string" where
  "halveQuotes (c # d # s) = (if c = quo \<and> d = quo then quo # halveQuotes s else c # halveQuotes (d # s))"
| "halveQuotes s = s"

definition csvRead :: "string \<Rightarrow> string" where
  "csvRead t = (if t \<noteq> [] \<and> hd t = quo then halveQuotes (butlast (tl t)) else t)"

lemma halve_double: "halveQuotes (doubleQuotes s) = s"
proof (induction s)
  case (Cons c s)
  show ?case
  proof (cases "c = quo")
    case False
    have "halveQuotes (c # t) = c # halveQuotes t" for t using False by (cases t) auto
    then show ?thesis using Cons False by (simp add: doubleQuotes_def)
  qed (use Cons in \<open>simp add: doubleQuotes_def\<close>)
qed (simp add: doubleQuotes_def)

lemma csvRead_csvField: "csvRead (csvField s d) = csvGuarded s d"
proof (cases "\<exists>c\<in>set (csvGuarded s d). c = quo \<or> c = CHR '','' \<or> c = lf \<or> c = cr")
  case True
  then show ?thesis by (simp add: csvField_def csvRead_def Let_def halve_double)
next
  case False
  then have "csvGuarded s d = [] \<or> hd (csvGuarded s d) \<noteq> quo" using hd_in_set by metis
  then show ?thesis using False unfolding csvField_def csvRead_def Let_def by auto
qed

text \<open>Every CSV cell can be read back and no text cell is a formula. A cell is empty
  exactly for NULL; any other cell reads back as the export text of its value, preceded by an
  apostrophe when the formula defence guards it, and with the defence on the text read from a cell
  that is not numeric or binary never starts with one of the formula characters.\<close>
theorem csv_cell_faithful:
  assumes "csvCell formulaDefense row c = Inr t" and "js_at row (cm_index c) = Some v"
  shows "(t = '''' \<longleftrightarrow> v = VNull)
    \<and> (v \<noteq> VNull \<longrightarrow> (\<exists>s. exportText (Some v) = Inr s
         \<and> csvRead t = csvGuarded s (formulaDefense \<and> \<not> csvLiteral v)))
    \<and> (formulaDefense \<and> \<not> csvLiteral v \<and> csvRead t \<noteq> '''' \<longrightarrow> hd (csvRead t) \<notin> {CHR ''='', CHR ''+'', CHR ''-'', CHR ''@''})"
proof (cases "v = VNull")
  case True
  then show ?thesis using assms by (simp add: csvCell_def csvRead_def)
next
  case False
  obtain s where s: "exportText (Some v) = Inr s"
    and t: "t = (if s = '''' then [quo, quo] else csvField s (formulaDefense \<and> \<not> csvLiteral v))"
    using assms False unfolding csvCell_def by (cases v) (auto split: sum.splits if_splits)
  have read: "csvRead t = csvGuarded s (formulaDefense \<and> \<not> csvLiteral v)"
    using t by (cases "s = ''''") (simp_all add: csvRead_csvField, simp add: csvRead_def csvGuarded_def)
  have "t \<noteq> ''''" using t by (auto simp: csvField_def csvGuarded_def Let_def)
  moreover have "hd (csvGuarded s True) \<notin> {CHR ''='', CHR ''+'', CHR ''-'', CHR ''@''}" if g: "csvGuarded s True \<noteq> ''''"
    using g by (auto simp: csvGuarded_def)
  ultimately show ?thesis using s read False by auto
qed

theorem csv_cell_faithful_witness:
  "csvCell True [VText ''=A1''] (example_column ''a'' 0) = Inr [CHR 0x27, CHR ''='', CHR ''A'', CHR ''1'']
   \<and> csvRead [CHR 0x27, CHR ''='', CHR ''A'', CHR ''1''] = CHR 0x27 # ''=A1''"
proof -
  have c: "csvCell True [VText ''=A1''] (example_column ''a'' 0) = Inr [CHR 0x27, CHR ''='', CHR ''A'', CHR ''1'']"
    by (simp add: csvCell_def csvField_def csvGuarded_def export_eval)
  have "js_at [VText ''=A1''] (cm_index (example_column ''a'' 0)) = Some (VText ''=A1'')"
    by (simp add: export_eval)
  from csv_cell_faithful [OF c this] c show ?thesis by (simp add: exportText_def csvGuarded_def)
qed

end
