(* ===== verification/Result_Grid.thy ===== *)
theory Result_Grid
  imports Complex_Main Result_Store Tsv Shortcuts
begin

text \<open>
  The result grid, \<open>src/features/result-grid/ResultGrid.tsx\<close>: the selection and its keyboard and
  mouse handlers, the inline editor, pasting, marking rows for deletion, copying, exporting and
  loading further pages. The record \<open>grid\<close> holds the component's state together with what a
  render reads: the rows and columns of the result snapshot, the properties, and the edit store.
  A handler is a function on that record; a handler that throws half-way leaves the edits it made
  so far. Scrolling and focusing change nothing the model has.
\<close>

subsection \<open>State\<close>

record cell_pos =
  cp_r :: int
  cp_c :: int

record selection =
  sel_anchor :: cell_pos
  sel_focus :: cell_pos

record sel_range =
  rg_minR :: int
  rg_maxR :: int
  rg_minC :: int
  rg_maxC :: int

datatype editing_cell = EditingCell int string | EditingInsert string string

datatype collect_error = PageOrder | TooLarge | FetchFailed

datatype grid_message =
    NoMessage
  | PasteRefused tsv_error
  | PasteRowsExceed
  | PasteColumnsExceed
  | PasteNotEditable
  | PasteDefaultOnRow
  | PasteTargetsExceed
  | PasteTooManyInserts
  | CollectRefused collect_error
  | ExportRefused export_error
  | WriteFailed

record grid =
  gr_tab :: string
  gr_rows :: "db_value list list"
  gr_allColumns :: "column_meta list"
  gr_hidden :: "string list"
  gr_edit :: "string list option"
  gr_edits :: edit_store
  gr_selection :: "selection option"
  gr_editing :: "editing_cell option"
  gr_message :: grid_message
  gr_previousRowCount :: nat

abbreviation gridEdits :: "grid \<Rightarrow> edit_snapshot" where
  "gridEdits g \<equiv> getEdits (gr_edits g) (gr_tab g)"

text \<open>\<open>columns\<close>, and the number of rows on screen: those of the result and the inserts.\<close>

definition gridColumns :: "grid \<Rightarrow> column_meta list" where
  "gridColumns g = (if gr_hidden g \<noteq> [] then filter (\<lambda>c. cm_name c \<notin> set (gr_hidden g)) (gr_allColumns g)
     else gr_allColumns g)"

abbreviation dataRows :: "grid \<Rightarrow> int" where
  "dataRows g \<equiv> int (length (gr_rows g))"

abbreviation shownRows :: "grid \<Rightarrow> int" where
  "shownRows g \<equiv> dataRows g + int (length (es_inserts (gridEdits g)))"

abbreviation shownCols :: "grid \<Rightarrow> int" where
  "shownCols g \<equiv> int (length (gridColumns g))"

definition cellAt :: "grid \<Rightarrow> int \<Rightarrow> column_meta \<Rightarrow> db_value option" where
  "cellAt g r column = Option.bind (js_at (gr_rows g) r) (\<lambda>row. js_at row (cm_index column))"

subsection \<open>Selection\<close>

definition selectionRange :: "selection \<Rightarrow> sel_range" where
  "selectionRange sel = \<lparr>rg_minR = min (cp_r (sel_anchor sel)) (cp_r (sel_focus sel)),
     rg_maxR = max (cp_r (sel_anchor sel)) (cp_r (sel_focus sel)),
     rg_minC = min (cp_c (sel_anchor sel)) (cp_c (sel_focus sel)),
     rg_maxC = max (cp_c (sel_anchor sel)) (cp_c (sel_focus sel))\<rparr>"

text \<open>
  The effect that follows a change of the number of rows: rows arriving push the inserts down, and
  a selection that no longer fits is dropped.
\<close>

definition rebasePos :: "int \<Rightarrow> int \<Rightarrow> cell_pos \<Rightarrow> cell_pos" where
  "rebasePos previous delta p = (if cp_r p \<ge> previous then p\<lparr>cp_r := cp_r p + delta\<rparr> else p)"

definition rowCountEffect :: "grid \<Rightarrow> grid" where
  "rowCountEffect g =
     (let previous = int (gr_previousRowCount g);
          delta = dataRows g - previous;
          shifted = (case gr_selection g of
              None \<Rightarrow> None
            | Some selected \<Rightarrow>
                if delta < 0 then None
                else let moved = \<lparr>sel_anchor = rebasePos previous delta (sel_anchor selected),
                                  sel_focus = rebasePos previous delta (sel_focus selected)\<rparr>
                     in if max (cp_r (sel_anchor moved)) (cp_r (sel_focus moved)) \<ge> shownRows g then None
                        else if delta \<noteq> 0 then Some moved else Some selected)
      in g\<lparr>gr_previousRowCount := length (gr_rows g), gr_selection := shifted\<rparr>)"

definition selectRow :: "grid \<Rightarrow> int \<Rightarrow> bool \<Rightarrow> grid" where
  "selectRow g rowIndex extending =
     (if gridColumns g = [] then g
      else g\<lparr>gr_selection := Some
        \<lparr>sel_anchor = \<lparr>cp_r = (case gr_selection g of
             Some previous \<Rightarrow> if extending then cp_r (sel_anchor previous) else rowIndex
           | None \<Rightarrow> rowIndex), cp_c = 0\<rparr>,
         sel_focus = \<lparr>cp_r = rowIndex, cp_c = shownCols g - 1\<rparr>\<rparr>\<rparr>)"

text \<open>Mouse down on a cell of the result, the mouse entering one with the button held, and mouse
  down on a cell of an insert; the first and the last do nothing on the cell being edited.\<close>

definition cellMouseDown :: "grid \<Rightarrow> int \<Rightarrow> int \<Rightarrow> bool \<Rightarrow> grid" where
  "cellMouseDown g rowIndex ci shiftKey =
     (if gr_editing g = Some (EditingCell rowIndex (cm_name (gridColumns g ! nat ci))) then g
      else let pos = \<lparr>cp_r = rowIndex, cp_c = ci\<rparr>
           in g\<lparr>gr_selection := Some (case gr_selection g of
                  Some prev \<Rightarrow> if shiftKey then \<lparr>sel_anchor = sel_anchor prev, sel_focus = pos\<rparr>
                                else \<lparr>sel_anchor = pos, sel_focus = pos\<rparr>
                | None \<Rightarrow> \<lparr>sel_anchor = pos, sel_focus = pos\<rparr>)\<rparr>)"

definition cellMouseEnter :: "grid \<Rightarrow> int \<Rightarrow> int \<Rightarrow> bool \<Rightarrow> grid" where
  "cellMouseEnter g rowIndex ci held =
     (if held \<and> gr_editing g = None
      then g\<lparr>gr_selection := map_option (\<lambda>prev. prev\<lparr>sel_focus := \<lparr>cp_r = rowIndex, cp_c = ci\<rparr>\<rparr>) (gr_selection g)\<rparr>
      else g)"

definition insertMouseDown :: "grid \<Rightarrow> nat \<Rightarrow> int \<Rightarrow> grid" where
  "insertMouseDown g di ci =
     (if gr_editing g = Some (EditingInsert (id_draftId (es_inserts (gridEdits g) ! di)) (cm_name (gridColumns g ! nat ci)))
      then g
      else let position = \<lparr>cp_r = dataRows g + int di, cp_c = ci\<rparr>
           in g\<lparr>gr_selection := Some \<lparr>sel_anchor = position, sel_focus = position\<rparr>\<rparr>)"

definition selectedRange :: "grid \<Rightarrow> sel_range option" where
  "selectedRange g = map_option selectionRange (gr_selection g)"

definition fullRowsSelected :: "grid \<Rightarrow> bool" where
  "fullRowsSelected g = (case selectedRange g of
     None \<Rightarrow> False | Some rg \<Rightarrow> rg_minC rg = 0 \<and> rg_maxC rg = shownCols g - 1)"

definition inSelection :: "grid \<Rightarrow> int \<Rightarrow> int \<Rightarrow> bool" where
  "inSelection g r ci = (case selectedRange g of
     None \<Rightarrow> False
   | Some rg \<Rightarrow> r \<ge> rg_minR rg \<and> r \<le> rg_maxR rg \<and> ci \<ge> rg_minC rg \<and> ci \<le> rg_maxC rg)"

subsection \<open>Editing\<close>

text \<open>\<open>None\<close>: \<open>cellText\<close> threw.\<close>

definition commitCell :: "grid \<Rightarrow> edit_store \<Rightarrow> int \<Rightarrow> column_meta \<Rightarrow> paste_marker \<Rightarrow> edit_store option" where
  "commitCell g st rowIndex column v =
     (case cellText (cellAt g rowIndex column) of
        Inl e \<Rightarrow> None
      | Inr original \<Rightarrow> Some (case v of
            MarkNull \<Rightarrow> setCell st (gr_tab g) rowIndex (cm_name column)
              (if cellAt g rowIndex column = Some VNull then None else Some None)
          | MarkValue s \<Rightarrow> setCell st (gr_tab g) rowIndex (cm_name column)
              (if s = original \<and> cellAt g rowIndex column \<noteq> Some VNull then None else Some (Some s))
          | MarkDefault \<Rightarrow> st))"

fun insertCellOf :: "paste_marker \<Rightarrow> insert_cell" where
  "insertCellOf (MarkValue s) = CellValue s"
| "insertCellOf MarkNull = CellNull"
| "insertCellOf MarkDefault = CellDefault"

definition columnEditable :: "grid \<Rightarrow> column_meta \<Rightarrow> bool" where
  "columnEditable g c = (case gr_edit g of None \<Rightarrow> False | Some names \<Rightarrow> cm_name c \<in> set names)"

fun isBinary :: "db_value option \<Rightarrow> bool" where
  "isBinary (Some (VBinary enc val len trunc h)) = True"
| "isBinary _ = False"

definition cellDoubleClick :: "grid \<Rightarrow> int \<Rightarrow> int \<Rightarrow> grid" where
  "cellDoubleClick g rowIndex ci = (let c = gridColumns g ! nat ci in
     if columnEditable g c \<and> \<not> isBinary (cellAt g rowIndex c) \<and> \<not> es_locked (gridEdits g)
     then g\<lparr>gr_editing := Some (EditingCell rowIndex (cm_name c))\<rparr> else g)"

definition insertDoubleClick :: "grid \<Rightarrow> nat \<Rightarrow> int \<Rightarrow> grid" where
  "insertDoubleClick g di ci = (let c = gridColumns g ! nat ci in
     if columnEditable g c \<and> \<not> es_locked (gridEdits g)
     then g\<lparr>gr_editing := Some (EditingInsert (id_draftId (es_inserts (gridEdits g) ! di)) (cm_name c))\<rparr> else g)"

text \<open>The editor of a cell calls its \<open>onCommit\<close> or \<open>onCancel\<close> once; both close it.\<close>

definition stopEditing :: "grid \<Rightarrow> grid" where
  "stopEditing g = g\<lparr>gr_editing := None\<rparr>"

definition editorCommit :: "grid \<Rightarrow> paste_marker \<Rightarrow> grid" where
  "editorCommit g v =
     (case gr_editing g of
        None \<Rightarrow> g
      | Some (EditingCell rowIndex name) \<Rightarrow>
          (case find (\<lambda>c. cm_name c = name) (gridColumns g) of
             None \<Rightarrow> g
           | Some c \<Rightarrow> (case commitCell g (gr_edits g) rowIndex c v of
                 None \<Rightarrow> g
               | Some st \<Rightarrow> stopEditing (g\<lparr>gr_edits := st\<rparr>)))
      | Some (EditingInsert draftId name) \<Rightarrow>
          (stopEditing g)\<lparr>gr_edits := setInsertCell (gr_edits g) (gr_tab g) draftId name (insertCellOf v)\<rparr>)"

definition addRowClick :: "grid \<Rightarrow> string \<Rightarrow> grid" where
  "addRowClick g draftId =
     (if es_locked (gridEdits g) \<or> length (es_inserts (gridEdits g)) \<ge> 500 then g
      else g\<lparr>gr_edits := nullish (addInsert (gr_edits g) (gr_tab g) draftId []) (gr_edits g)\<rparr>)"

subsection \<open>Marking rows for deletion\<close>

definition allSelectedDeleted :: "grid \<Rightarrow> bool" where
  "allSelectedDeleted g = (case selectedRange g of
     None \<Rightarrow> False
   | Some rg \<Rightarrow> fullRowsSelected g \<and> rg_maxR rg < dataRows g
       \<and> list_all (\<lambda>r. r \<in> set (es_deletes (gridEdits g))) [rg_minR rg .. rg_maxR rg])"

text \<open>One turn of the loop of \<open>deleteSelectedRows\<close>; it reads the buffer as it was rendered.\<close>

definition deleteTurn :: "grid \<Rightarrow> int \<Rightarrow> edit_store \<Rightarrow> edit_store" where
  "deleteTurn g r st =
     (case js_at (es_inserts (gridEdits g)) (r - dataRows g) of
        Some draft \<Rightarrow> removeInsert st (gr_tab g) (id_draftId draft)
      | None \<Rightarrow>
          if r < dataRows g \<and> (r \<in> set (es_deletes (gridEdits g))) = allSelectedDeleted g
          then toggleDelete st (gr_tab g) r else st)"

definition deleteSelectedRows :: "grid \<Rightarrow> grid" where
  "deleteSelectedRows g =
     (case selectedRange g of
        None \<Rightarrow> g
      | Some rg \<Rightarrow>
          if gr_edit g = None \<or> es_locked (gridEdits g) \<or> \<not> fullRowsSelected g then g
          else g\<lparr>gr_edits := fold (deleteTurn g) [rg_minR rg .. rg_maxR rg] (gr_edits g)\<rparr>)"

subsection \<open>The keyboard\<close>

definition arrowKeys :: "string list" where
  "arrowKeys = [''ArrowUp'', ''ArrowDown'', ''ArrowLeft'', ''ArrowRight'', ''Home'', ''End'']"

definition movedPos :: "grid \<Rightarrow> key_event \<Rightarrow> cell_pos \<Rightarrow> cell_pos" where
  "movedPos g e position =
     (let jump = ke_ctrlKey e \<or> ke_metaKey e;
          r = (if ke_key e = ''ArrowUp'' then cp_r position - 1
               else if ke_key e = ''ArrowDown'' then cp_r position + 1
               else if ke_key e = ''Home'' \<and> jump then 0
               else if ke_key e = ''End'' \<and> jump then shownRows g - 1
               else cp_r position);
          c = (if ke_key e = ''ArrowLeft'' then cp_c position - 1
               else if ke_key e = ''ArrowRight'' then cp_c position + 1
               else if ke_key e = ''Home'' then 0
               else if ke_key e = ''End'' then shownCols g - 1
               else cp_c position)
      in \<lparr>cp_r = max 0 (min (shownRows g - 1) r), cp_c = max 0 (min (shownCols g - 1) c)\<rparr>)"

text \<open>The second result: whether the key started \<open>copySelection\<close>.\<close>

definition gridKeyDown :: "bool \<Rightarrow> shortcut_settings \<Rightarrow> grid \<Rightarrow> key_event \<Rightarrow> grid \<times> bool" where
  "gridKeyDown mac shortcuts g e =
     (let matches = (\<lambda>i. shortcutMatches mac e (shortcutOf shortcuts i));
          position = (case gr_selection g of Some sel \<Rightarrow> sel_focus sel | None \<Rightarrow> \<lparr>cp_r = 0, cp_c = 0\<rparr>)
      in if gr_editing g \<noteq> None then (g, False)
         else if matches ''copyGrid'' then (g, True)
         else if gridColumns g = [] \<or> shownRows g = 0 then (g, False)
         else if matches ''selectAllGrid''
         then (g\<lparr>gr_selection := Some \<lparr>sel_anchor = \<lparr>cp_r = 0, cp_c = 0\<rparr>,
                 sel_focus = \<lparr>cp_r = shownRows g - 1, cp_c = shownCols g - 1\<rparr>\<rparr>\<rparr>, False)
         else if gr_selection g \<noteq> None \<and> matches ''selectGridRow'' then (selectRow g (cp_r position) False, False)
         else if ke_key e = ''Backspace'' \<and> gr_edit g \<noteq> None \<and> fullRowsSelected g \<and> \<not> es_locked (gridEdits g)
         then (deleteSelectedRows g, False)
         else if ke_key e \<in> set arrowKeys
         then let moved = movedPos g e position
              in (g\<lparr>gr_selection := Some \<lparr>sel_anchor = (case gr_selection g of
                     Some sel \<Rightarrow> if ke_shiftKey e then sel_anchor sel else moved | None \<Rightarrow> moved), sel_focus = moved\<rparr>\<rparr>, False)
         else if (matches ''editCell'' \<or> ke_key e = ''Enter'')
              \<and> columnEditable g (gridColumns g ! nat (cp_c position)) \<and> \<not> es_locked (gridEdits g)
         then (g\<lparr>gr_editing := Some (case js_at (es_inserts (gridEdits g)) (cp_r position - dataRows g) of
                 Some draft \<Rightarrow> EditingInsert (id_draftId draft) (cm_name (gridColumns g ! nat (cp_c position)))
               | None \<Rightarrow> EditingCell (cp_r position) (cm_name (gridColumns g ! nat (cp_c position))))\<rparr>, False)
         else if ke_key e = ''Escape'' then (g\<lparr>gr_selection := None\<rparr>, False)
         else (g, False))"

subsection \<open>Pasting\<close>

text \<open>
  The pasted rectangle as a list: the row index, the column and the meaning of every field, row
  by row. The column exists once \<open>onPaste\<close> has compared the widths.
\<close>

definition pasteCells :: "grid \<Rightarrow> cell_pos \<Rightarrow> string list list \<Rightarrow> bool list list \<Rightarrow> (int \<times> column_meta \<times> paste_marker) list" where
  "pasteCells g start rows quoted =
     concat (map (\<lambda>(r, row). map (\<lambda>(c, field).
         (cp_r start + int r, gridColumns g ! nat (cp_c start + int c),
          interpretMarker field (nullish (Option.bind (js_at quoted (int r)) (\<lambda>q. js_at q (int c))) False)))
       (enumerate 0 row)) (enumerate 0 rows))"

definition pasteCellError :: "grid \<Rightarrow> int \<times> column_meta \<times> paste_marker \<Rightarrow> grid_message option" where
  "pasteCellError g = (\<lambda>(rowIndex, column, cell).
     if \<not> columnEditable g column \<or> rowIndex \<in> set (es_deletes (gridEdits g)) \<or> isBinary (cellAt g rowIndex column)
     then Some PasteNotEditable
     else if rowIndex < dataRows g \<and> cell = MarkDefault then Some PasteDefaultOnRow
     else None)"

fun firstError :: "('a \<Rightarrow> 'e option) \<Rightarrow> 'a list \<Rightarrow> 'e option" where
  "firstError f [] = None"
| "firstError f (x # xs) = (case f x of Some e \<Rightarrow> Some e | None \<Rightarrow> firstError f xs)"

text \<open>The loop that writes the drafts; the flag tells that it threw.\<close>

definition pasteCell :: "grid \<Rightarrow> edit_store \<Rightarrow> int \<times> column_meta \<times> paste_marker \<Rightarrow> edit_store option" where
  "pasteCell g st = (\<lambda>(rowIndex, column, cell).
     case js_at (es_inserts (gridEdits g)) (rowIndex - dataRows g) of
       Some draft \<Rightarrow> Some (setInsertCell st (gr_tab g) (id_draftId draft) (cm_name column) (insertCellOf cell))
     | None \<Rightarrow> commitCell g st rowIndex column cell)"

fun pasteLoop :: "grid \<Rightarrow> edit_store \<Rightarrow> (int \<times> column_meta \<times> paste_marker) list \<Rightarrow> edit_store \<times> bool" where
  "pasteLoop g st [] = (st, False)"
| "pasteLoop g st (x # xs) = (case pasteCell g st x of None \<Rightarrow> (st, True) | Some st' \<Rightarrow> pasteLoop g st' xs)"

definition pasteSelected :: "grid \<Rightarrow> cell_pos \<Rightarrow> string list list \<Rightarrow> bool list list \<Rightarrow> grid \<times> bool" where
  "pasteSelected g start rows quoted =
     (if cp_r start + int (length rows) > shownRows g then (g\<lparr>gr_message := PasteRowsExceed\<rparr>, False)
      else if list_ex (\<lambda>row. cp_c start + int (length row) > shownCols g) rows
      then (g\<lparr>gr_message := PasteColumnsExceed\<rparr>, False)
      else let cells = pasteCells g start rows quoted
           in case firstError (pasteCellError g) cells of
                Some e \<Rightarrow> (g\<lparr>gr_message := e\<rparr>, False)
              | None \<Rightarrow> (case pasteLoop g (gr_edits g) cells of
                    (st, threw) \<Rightarrow> (g\<lparr>gr_message := NoMessage, gr_edits := st\<rparr>, threw)))"

definition pasteTargets :: "grid \<Rightarrow> column_meta list" where
  "pasteTargets g = filter (columnEditable g) (gridColumns g)"

definition insertCells :: "column_meta list \<Rightarrow> string list \<Rightarrow> bool list \<Rightarrow> (string, insert_cell) js_map" where
  "insertCells targets raw quoted = fold (\<lambda>(i, field) cells. AList.update (cm_name (targets ! i))
       (insertCellOf (interpretMarker field (nullish (js_at quoted (int i)) False))) cells)
     (enumerate 0 raw) []"

definition pasteInserts :: "grid \<Rightarrow> string list list \<Rightarrow> bool list list \<Rightarrow> string list \<Rightarrow> grid" where
  "pasteInserts g rows quoted ids =
     (let targets = pasteTargets g in
      if targets = [] \<or> list_ex (\<lambda>row. length row > length targets) rows then g\<lparr>gr_message := PasteTargetsExceed\<rparr>
      else if length (es_inserts (gridEdits g)) + length rows > 500 then g\<lparr>gr_message := PasteTooManyInserts\<rparr>
      else g\<lparr>gr_message := NoMessage, gr_edits := fold (\<lambda>(rowIndex, raw) st.
             nullish (addInsert st (gr_tab g) (ids ! rowIndex)
               (insertCells targets raw (nullish (js_at quoted (int rowIndex)) []))) st)
           (enumerate 0 rows) (gr_edits g)\<rparr>)"

text \<open>The argument \<open>ids\<close> lists what \<open>crypto.randomUUID()\<close> answers, one for every pasted row.\<close>

definition onPaste :: "grid \<Rightarrow> string \<Rightarrow> string list \<Rightarrow> grid \<times> bool" where
  "onPaste g clipboard ids =
     (if gr_edit g = None \<or> gr_editing g \<noteq> None \<or> es_locked (gridEdits g) \<or> clipboard = [] then (g, False)
      else case parseTsv clipboard of
             Inl e \<Rightarrow> (g\<lparr>gr_message := PasteRefused e\<rparr>, False)
           | Inr (rows, quoted) \<Rightarrow>
               if rows = [] then (g, False)
               else case gr_selection g of
                      Some sel \<Rightarrow> pasteSelected g (sel_focus sel) rows quoted
                    | None \<Rightarrow> (pasteInserts g rows quoted ids, False))"

subsection \<open>Every row of the result\<close>

definition MAX_COLLECTED_BYTES :: nat where
  "MAX_COLLECTED_BYTES = 100 * 1024 * 1024"

fun textBytes :: "db_value \<Rightarrow> nat" where
  "textBytes (VArray dims vs t) = sum_list (map textBytes vs)"
| "textBytes VNull = 0"
| "textBytes (VBoolean b) = 0"
| "textBytes (VInteger s) = length s"
| "textBytes (VDecimal s) = length s"
| "textBytes (VFloat s) = length s"
| "textBytes (VText s) = length s"
| "textBytes (VUuid s) = length s"
| "textBytes (VTemporal t s) = length s"
| "textBytes (VJson s t) = length s"
| "textBytes (VBinary enc val len trunc h) = (case val of None \<Rightarrow> 0 | Some s \<Rightarrow> length s)"
| "textBytes (VEnum s t) = length s"
| "textBytes (VNetwork s t) = length s"
| "textBytes (VRange s t) = length s"
| "textBytes (VComposite s t) = length s"
| "textBytes (VUnknown s oid t) = length s"

definition rowsBytes :: "db_value list list \<Rightarrow> nat" where
  "rowsBytes rows = sum_list (map (\<lambda>row. sum_list (map textBytes row)) rows)"

text \<open>
  The loop of \<open>allResultRows\<close> over the answers of \<open>resultRowsFetch\<close>, \<open>None\<close> for a call that was
  rejected. The first result lists the offsets asked for; \<open>Waiting\<close> is the state at the next
  unanswered call.
\<close>

datatype collected = Waiting int | Failed collect_error | Rows "db_value list list"

fun collectPages :: "db_value list list \<Rightarrow> int \<Rightarrow> nat \<Rightarrow> result_page option list \<Rightarrow> int list \<times> collected" where
  "collectPages rows offset bytes [] = ([offset], Waiting offset)"
| "collectPages rows offset bytes (None # answers) = ([offset], Failed FetchFailed)"
| "collectPages rows offset bytes (Some page # answers) =
     (if pg_nextOffset page \<noteq> offset + int (length (pg_rows page)) \<or> (pg_hasMore page \<and> pg_rows page = [])
      then ([offset], Failed PageOrder)
      else let bytes' = bytes + rowsBytes (pg_rows page)
           in if bytes' > MAX_COLLECTED_BYTES then ([offset], Failed TooLarge)
              else if \<not> pg_hasMore page then ([offset], Rows (rows @ pg_rows page))
              else (case collectPages (rows @ pg_rows page) (pg_nextOffset page) bytes' answers of
                      (asked, out) \<Rightarrow> (offset # asked, out)))"

definition allResultRows :: "result_snapshot \<Rightarrow> db_value list list \<Rightarrow> result_page option list \<Rightarrow> int list \<times> collected" where
  "allResultRows snapshot rows answers =
     (if \<not> rs_hasMoreRows snapshot \<or> \<not> truthy_str (rs_executionId snapshot) \<or> rs_tablePage snapshot \<noteq> None
      then ([], Rows rows)
      else collectPages rows (nullish (rs_nextRowOffset snapshot) 0) (rowsBytes rows) answers)"

subsection \<open>Copy and export\<close>

text \<open>A selected row that is an insert, as the values its cells stand for.\<close>

definition draftRow :: "grid \<Rightarrow> insert_draft option \<Rightarrow> db_value list" where
  "draftRow g draft = map (\<lambda>c.
     case Option.bind draft (\<lambda>d. map_of (id_cells d) (cm_name c)) of
       Some CellNull \<Rightarrow> VNull
     | Some (CellValue s) \<Rightarrow> VText s
     | _ \<Rightarrow> VText ''DEFAULT'') (gr_allColumns g)"

definition selectedRows :: "grid \<Rightarrow> sel_range \<Rightarrow> db_value list list" where
  "selectedRows g rg = map (\<lambda>r.
     if r < dataRows g then gr_rows g ! nat r
     else draftRow g (js_at (es_inserts (gridEdits g)) (r - dataRows g))) [rg_minR rg .. rg_maxR rg]"

definition selectedColumns :: "grid \<Rightarrow> sel_range \<Rightarrow> column_meta list" where
  "selectedColumns g rg = slice (gridColumns g) (nat (rg_minC rg)) (nat (rg_maxC rg + 1))"

text \<open>
  \<open>copySelection\<close> once its rows are there, with the outcome of collecting them when nothing is
  selected and whether the clipboard took the text. The second result is the text handed to the
  clipboard, if any.
\<close>

definition writeTsv :: "grid \<Rightarrow> column_meta list \<Rightarrow> db_value list list \<Rightarrow> bool \<Rightarrow> bool \<Rightarrow> grid \<times> string option" where
  "writeTsv g cols rows header written =
     (if rows = [] then (g, None)
      else case toTsv cols rows header of
             Inl e \<Rightarrow> (g\<lparr>gr_message := ExportRefused e\<rparr>, None)
           | Inr s \<Rightarrow> (g\<lparr>gr_message := (if written then NoMessage else WriteFailed)\<rparr>, Some s))"

definition copySelection :: "grid \<Rightarrow> collected \<Rightarrow> bool \<Rightarrow> grid \<times> string option" where
  "copySelection g all written =
     (case selectedRange g of
        Some rg \<Rightarrow> writeTsv g (selectedColumns g rg) (selectedRows g rg) False written
      | None \<Rightarrow> (case all of
            Rows rows \<Rightarrow> writeTsv g (gridColumns g) rows True written
          | Failed e \<Rightarrow> (g\<lparr>gr_message := CollectRefused e\<rparr>, None)
          | Waiting offset \<Rightarrow> (g, None)))"

text \<open>\<open>exportAs\<close> for CSV: the content handed to \<open>exportSave\<close>, with whether that call succeeds.\<close>

definition exportCsv :: "grid \<Rightarrow> collected \<Rightarrow> bool \<Rightarrow> grid \<times> string option" where
  "exportCsv g all written =
     (case all of
        Rows rows \<Rightarrow> (case toCsv (gridColumns g) rows True of
            Inl e \<Rightarrow> (g\<lparr>gr_message := ExportRefused e\<rparr>, None)
          | Inr s \<Rightarrow> (g\<lparr>gr_message := (if written then NoMessage else WriteFailed)\<rparr>, Some s))
      | Failed e \<Rightarrow> (g\<lparr>gr_message := CollectRefused e\<rparr>, None)
      | Waiting offset \<Rightarrow> (g, None))"

subsection \<open>Scrolling and column widths\<close>

text \<open>\<open>loadNearEnd\<close>: whether the next page is asked for, from the measures of the scroll element.\<close>

definition loadNearEnd :: "result_snapshot \<Rightarrow> rat \<Rightarrow> rat \<Rightarrow> rat \<Rightarrow> bool" where
  "loadNearEnd current scrollHeight scrollTop clientHeight \<longleftrightarrow>
     clientHeight > 0 \<and> scrollHeight - scrollTop - clientHeight < 28 * 20
     \<and> rs_hasMoreRows current \<and> \<not> rs_loadingMore current \<and> \<not> truthy_str (rs_pageError current)"

definition DEFAULT_COLUMN_WIDTH :: int where
  "DEFAULT_COLUMN_WIDTH = 200"

definition MIN_COLUMN_WIDTH :: int where
  "MIN_COLUMN_WIDTH = 60"

definition getColumnWidth :: "result_store \<Rightarrow> string \<Rightarrow> string \<Rightarrow> int" where
  "getColumnWidth st resultTab name = nullish (map_of (fst (resultColumnWidths st resultTab)) name) DEFAULT_COLUMN_WIDTH"

definition setColumnWidth :: "result_store \<Rightarrow> string \<Rightarrow> string \<Rightarrow> int \<Rightarrow> result_store" where
  "setColumnWidth st resultTab name width = (case resultColumnWidths st resultTab of
     (widths, st') \<Rightarrow> st'\<lparr>rst_columnWidths := AList.update resultTab (AList.update name width widths) (rst_columnWidths st')\<rparr>)"

record column_drag =
  dr_name :: string
  dr_startX :: rat
  dr_startWidth :: int

definition resizeStart :: "result_store \<Rightarrow> string \<Rightarrow> string \<Rightarrow> rat \<Rightarrow> column_drag" where
  "resizeStart st resultTab name clientX = \<lparr>dr_name = name, dr_startX = clientX, dr_startWidth = getColumnWidth st resultTab name\<rparr>"

text \<open>\<open>Math.round\<close> rounds halves up.\<close>

definition resizeMove :: "result_store \<Rightarrow> string \<Rightarrow> column_drag \<Rightarrow> rat \<Rightarrow> result_store" where
  "resizeMove st resultTab drag clientX = setColumnWidth st resultTab (dr_name drag)
     (max MIN_COLUMN_WIDTH \<lfloor>of_int (dr_startWidth drag) + (clientX - dr_startX drag) + 1 / 2\<rfloor>)"

subsection \<open>The grid as a machine\<close>

text \<open>
  What the user and the rest of the program do to a grid. \<open>External\<close> is a change of the rows or of
  the edit store by another component; every step is followed by the effect on the row count.
\<close>

datatype grid_event =
    Key key_event
  | CellDown int int bool
  | CellEnter int int bool
  | InsertDown nat int
  | RowHeader int bool
  | CellDouble int int
  | InsertDouble nat int
  | EditorCommit paste_marker
  | EditorCancel
  | Paste string "string list"
  | DeleteButton
  | AddRow string
  | External "db_value list list" edit_store

fun gridHandler :: "bool \<Rightarrow> shortcut_settings \<Rightarrow> grid \<Rightarrow> grid_event \<Rightarrow> grid" where
  "gridHandler mac sc g (Key e) = fst (gridKeyDown mac sc g e)"
| "gridHandler mac sc g (CellDown r c shift) = cellMouseDown g r c shift"
| "gridHandler mac sc g (CellEnter r c held) = cellMouseEnter g r c held"
| "gridHandler mac sc g (InsertDown di c) = insertMouseDown g di c"
| "gridHandler mac sc g (RowHeader r shift) = selectRow g r shift"
| "gridHandler mac sc g (CellDouble r c) = cellDoubleClick g r c"
| "gridHandler mac sc g (InsertDouble di c) = insertDoubleClick g di c"
| "gridHandler mac sc g (EditorCommit v) = editorCommit g v"
| "gridHandler mac sc g EditorCancel = stopEditing g"
| "gridHandler mac sc g (Paste s ids) = fst (onPaste g s ids)"
| "gridHandler mac sc g DeleteButton = deleteSelectedRows g"
| "gridHandler mac sc g (AddRow u) = addRowClick g u"
| "gridHandler mac sc g (External rows st) = g\<lparr>gr_rows := rows, gr_edits := st\<rparr>"

definition gridStep :: "bool \<Rightarrow> shortcut_settings \<Rightarrow> grid \<Rightarrow> grid_event \<Rightarrow> grid option" where
  "gridStep mac sc g ev = Some (rowCountEffect (gridHandler mac sc g ev))"

text \<open>
  The drafts of a buffer are for columns of a given set; the parts of the state that the handlers
  themselves keep; and the position of a selected cell.
\<close>

definition editableDrafts :: "string list \<Rightarrow> edit_snapshot \<Rightarrow> bool" where
  "editableDrafts names s \<longleftrightarrow> list_all (\<lambda>m. list_all (\<lambda>c. c \<in> set names) (map fst (snd m))) (es_updates s)"

definition editNames :: "grid \<Rightarrow> string list" where
  "editNames g = nullish (gr_edit g) []"

definition editingOk :: "grid \<Rightarrow> bool" where
  "editingOk g = (case gr_editing g of
     None \<Rightarrow> True | Some (EditingCell r name) \<Rightarrow> name \<in> set (editNames g) | Some (EditingInsert u name) \<Rightarrow> name \<in> set (editNames g))"

definition posIn :: "grid \<Rightarrow> cell_pos \<Rightarrow> bool" where
  "posIn g p \<longleftrightarrow> 0 \<le> cp_r p \<and> cp_r p < shownRows g \<and> 0 \<le> cp_c p \<and> cp_c p < shownCols g"

definition selectionIn :: "grid \<Rightarrow> bool" where
  "selectionIn g = (case gr_selection g of None \<Rightarrow> True | Some sel \<Rightarrow> posIn g (sel_anchor sel) \<and> posIn g (sel_focus sel))"

definition gridInv :: "grid \<Rightarrow> bool" where
  "gridInv g \<longleftrightarrow> edits_inv (gr_edits g) \<and> editableDrafts (editNames g) (gridEdits g) \<and> editingOk g
     \<and> selectionIn g \<and> gr_previousRowCount g = length (gr_rows g)"

text \<open>
  What the environment respects: pointer events come from cells on screen, fresh ids are fresh, and
  another component leaves a well-formed store with drafts for editable columns.
\<close>

definition freshIds :: "grid \<Rightarrow> string list \<Rightarrow> bool" where
  "freshIds g ids \<longleftrightarrow> distinct ids \<and> list_all (\<lambda>d. id_draftId d \<notin> set ids) (es_inserts (gridEdits g))"

fun gridGuard :: "grid \<Rightarrow> grid_event \<Rightarrow> bool" where
  "gridGuard g (CellDown r c shift) \<longleftrightarrow> 0 \<le> r \<and> r < dataRows g \<and> 0 \<le> c \<and> c < shownCols g"
| "gridGuard g (CellEnter r c held) \<longleftrightarrow> 0 \<le> r \<and> r < dataRows g \<and> 0 \<le> c \<and> c < shownCols g"
| "gridGuard g (InsertDown di c) \<longleftrightarrow> di < length (es_inserts (gridEdits g)) \<and> 0 \<le> c \<and> c < shownCols g"
| "gridGuard g (RowHeader r shift) \<longleftrightarrow> 0 \<le> r \<and> r < shownRows g"
| "gridGuard g (CellDouble r c) \<longleftrightarrow> 0 \<le> r \<and> r < dataRows g \<and> 0 \<le> c \<and> c < shownCols g"
| "gridGuard g (InsertDouble di c) \<longleftrightarrow> di < length (es_inserts (gridEdits g)) \<and> 0 \<le> c \<and> c < shownCols g"
| "gridGuard g (Paste s ids) \<longleftrightarrow> freshIds g ids \<and> (case parseTsv s of Inl e \<Rightarrow> True | Inr (rows, quoted) \<Rightarrow> length rows \<le> length ids)"
| "gridGuard g (AddRow u) \<longleftrightarrow> freshIds g [u]"
| "gridGuard g (External rows st) \<longleftrightarrow> edits_inv st \<and> editableDrafts (editNames g) (getEdits st (gr_tab g))"
| "gridGuard g _ \<longleftrightarrow> True"

subsection \<open>The buffer under the handlers\<close>

lemma editableDrafts_iff:
  assumes "buffer_ok s"
  shows "editableDrafts names s \<longleftrightarrow> (\<forall>i c. draft_at s i c \<noteq> None \<longrightarrow> c \<in> set names)"
proof
  assume e: "editableDrafts names s"
  show "\<forall>i c. draft_at s i c \<noteq> None \<longrightarrow> c \<in> set names"
  proof (intro allI impI)
    fix i c assume "draft_at s i c \<noteq> None"
    then obtain m d where "map_of (es_updates s) i = Some m" "map_of m c = Some d"
      unfolding draft_at_def by (auto split: Option.bind_splits)
    then have "(i, m) \<in> set (es_updates s)" "(c, d) \<in> set m" by (auto dest: map_of_SomeD)
    then show "c \<in> set names" using e unfolding editableDrafts_def list_all_iff by fastforce
  qed
next
  assume d: "\<forall>i c. draft_at s i c \<noteq> None \<longrightarrow> c \<in> set names"
  have "c \<in> set names" if "(i, m) \<in> set (es_updates s)" "(c, v) \<in> set m" for i m c v
  proof -
    have "map_of (es_updates s) i = Some m" using assms that(1) by (simp add: buffer_ok_def)
    moreover have "map_of m c \<noteq> None" using that(2) by (metis map_of_eq_None_iff fst_conv image_eqI)
    ultimately have "draft_at s i c \<noteq> None" by (simp add: draft_at_def)
    then show ?thesis using d by blast
  qed
  then show "editableDrafts names s" unfolding editableDrafts_def list_all_iff by fastforce
qed

lemma editableDrafts_frame [simp]:
  "editableDrafts names (s\<lparr>es_deletes := d\<rparr>) = editableDrafts names s"
  "editableDrafts names (s\<lparr>es_inserts := i\<rparr>) = editableDrafts names s"
  "editableDrafts names (s\<lparr>es_pendingCount := n\<rparr>) = editableDrafts names s"
  by (simp_all add: editableDrafts_def)

text \<open>The pair of facts about the store that every handler keeps.\<close>

definition storeOk :: "string list \<Rightarrow> string \<Rightarrow> edit_store \<Rightarrow> bool" where
  "storeOk names t st \<longleftrightarrow> edits_inv st \<and> editableDrafts names (getEdits st t)"

lemma storeOk_setCell:
  assumes "storeOk names t st" "c \<in> set names" shows "storeOk names t (setCell st t i c d)"
proof -
  have inv: "edits_inv st" "edits_inv (setCell st t i c d)" using assms by (auto simp: storeOk_def edits_inv_ops)
  note ok = buffer_ok_getEdits [OF inv(1), of t] buffer_ok_getEdits [OF inv(2), of t]
  have "\<forall>i c. draft_at (getEdits st t) i c \<noteq> None \<longrightarrow> c \<in> set names"
    using assms(1) editableDrafts_iff [OF ok(1)] by (simp add: storeOk_def)
  then have "\<forall>i' c'. draft_at (getEdits (setCell st t i c d) t) i' c' \<noteq> None \<longrightarrow> c' \<in> set names"
    using assms(2) by (simp add: setCell_def draft_at_setCellIn)
  then show ?thesis using inv(2) editableDrafts_iff [OF ok(2)] by (simp add: storeOk_def)
qed

lemma storeOk_ops:
  assumes "storeOk names t st"
  shows "storeOk names t (toggleDelete st t i)" "storeOk names t (setInsertCell st t u c x)" "storeOk names t (removeInsert st t u)"
  using assms by (simp_all add: storeOk_def edits_inv_ops)
    (simp_all add: toggleDelete_def setInsertCell_def removeInsert_def Let_def)

lemma storeOk_addInsert:
  assumes "storeOk names t st" "u \<notin> id_draftId ` set (es_inserts (getEdits st t))"
  shows "storeOk names t (nullish (addInsert st t u cells) st)"
proof (cases "es_locked (getEdits st t)")
  case False
  then have "edit_ok st (AddInsert u cells, t)" using assms(2) by simp
  from edits_inv_addInsert [OF _ this] obtain st' where st': "addInsert st t u cells = Some st'" "edits_inv st'"
    using assms(1) by (auto simp: storeOk_def)
  moreover have "editableDrafts names (getEdits st' t)"
    using st'(1) False assms(1) by (auto simp: addInsert_def Let_def storeOk_def)
  ultimately show ?thesis by (simp add: storeOk_def)
qed (simp add: addInsert_def Let_def assms(1))

lemma storeOk_commitCell:
  assumes "storeOk names (gr_tab g) st" "cm_name c \<in> set names" "commitCell g st r c v = Some st'"
  shows "storeOk names (gr_tab g) st'"
  using assms by (auto simp: commitCell_def storeOk_setCell split: sum.splits paste_marker.splits)

lemma storeOk_deleteTurn: "storeOk names (gr_tab g) st \<Longrightarrow> storeOk names (gr_tab g) (deleteTurn g r st)"
  by (simp add: deleteTurn_def storeOk_ops split: option.split)

lemma storeOk_fold: "(\<And>x st. x \<in> set xs \<Longrightarrow> P st \<Longrightarrow> P (f x st)) \<Longrightarrow> P st \<Longrightarrow> P (fold f xs st)"
  by (induction xs arbitrary: st) simp_all

lemma firstError_None: "firstError f xs = None \<longleftrightarrow> (\<forall>x\<in>set xs. f x = None)"
  by (induction xs) (auto split: option.splits)

lemma pasteCellError_None:
  assumes "pasteCellError g (r, c, m) = None" shows "columnEditable g c" "cm_name c \<in> set (editNames g)"
  using assms by (auto simp: pasteCellError_def columnEditable_def editNames_def split: if_splits option.splits)

lemma storeOk_pasteLoop:
  assumes "\<forall>x\<in>set xs. pasteCellError g x = None" "storeOk (editNames g) (gr_tab g) st"
  shows "storeOk (editNames g) (gr_tab g) (fst (pasteLoop g st xs))"
  using assms
proof (induction xs arbitrary: st)
  case (Cons x xs)
  obtain r c m where x: "x = (r, c, m)" by (cases x)
  have name: "cm_name c \<in> set (editNames g)" using Cons.prems(1) pasteCellError_None(2) [of g r c m] by (simp add: x)
  have "storeOk (editNames g) (gr_tab g) st'" if "pasteCell g st x = Some st'" for st'
    using that Cons.prems(2) storeOk_commitCell [OF Cons.prems(2) name, of r m]
    by (auto simp: pasteCell_def x storeOk_ops split: option.splits)
  then show ?case using Cons by (auto split: option.split)
qed simp

lemma fold_addInsert_ids:
  assumes "storeOk names t st" "distinct (map (\<lambda>(i, raw). ids ! i) xs)"
    and "\<forall>(i, raw)\<in>set xs. ids ! i \<notin> id_draftId ` set (es_inserts (getEdits st t))"
  shows "storeOk names t (fold (\<lambda>(i, raw) st. nullish (addInsert st t (ids ! i) (f i raw)) st) xs st)"
  using assms
proof (induction xs arbitrary: st)
  case (Cons x xs)
  obtain i raw where x: "x = (i, raw)" by (cases x)
  let ?st = "nullish (addInsert st t (ids ! i) (f i raw)) st"
  have ok: "storeOk names t ?st" using Cons.prems by (intro storeOk_addInsert) (auto simp: x)
  have ids: "id_draftId ` set (es_inserts (getEdits ?st t)) \<subseteq> insert (ids ! i) (id_draftId ` set (es_inserts (getEdits st t)))"
    by (auto simp: addInsert_def Let_def)
  have other: "ids ! i \<noteq> ids ! j" if "(j, raw') \<in> set xs" for j raw'
    using Cons.prems(2) that by (force simp: x)
  have "\<forall>(j, raw')\<in>set xs. ids ! j \<notin> id_draftId ` set (es_inserts (getEdits ?st t))"
  proof clarify
    fix j raw' d assume j: "(j, raw') \<in> set xs" and d: "d \<in> set (es_inserts (getEdits ?st t))" "ids ! j = id_draftId d"
    then have "ids ! j \<in> insert (ids ! i) (id_draftId ` set (es_inserts (getEdits st t)))" using ids by blast
    moreover have "ids ! j \<notin> id_draftId ` set (es_inserts (getEdits st t))" using Cons.prems(3) j by fastforce
    ultimately show False using other [OF j] by simp
  qed
  then show ?case using Cons.IH [OF ok] Cons.prems(2) by (simp add: x)
qed simp

lemma distinct_nth_enumerate:
  assumes "distinct ids" "length rows \<le> length ids"
  shows "distinct (map (\<lambda>(i, raw). ids ! i) (enumerate 0 rows))"
proof -
  have "map (\<lambda>(i, raw). ids ! i) (enumerate 0 rows) = take (length rows) ids"
    using assms(2) by (intro nth_equalityI) (simp_all add: nth_enumerate_eq)
  then show ?thesis using assms(1) by simp
qed

lemma storeOk_onPaste:
  assumes "storeOk (editNames g) (gr_tab g) (gr_edits g)" "gridGuard g (Paste s ids)"
  shows "storeOk (editNames g) (gr_tab g) (gr_edits (fst (onPaste g s ids)))"
proof -
  have ins: "storeOk (editNames g) (gr_tab g) (gr_edits (pasteInserts g rows quoted ids))" if "length rows \<le> length ids" for rows quoted
  proof -
    have fresh: "ids ! i \<notin> id_draftId ` set (es_inserts (gridEdits g))" if "(i, raw) \<in> set (enumerate 0 rows)" for i raw
    proof -
      have "i < length ids" using that \<open>length rows \<le> length ids\<close> by (auto simp: enumerate_eq_zip dest: set_zip_leftD)
      then show ?thesis using assms(2) by (auto simp: freshIds_def list_all_iff) (metis nth_mem)
    qed
    have dist: "distinct ids" using assms(2) by (simp add: freshIds_def)
    have "\<forall>(i, raw)\<in>set (enumerate 0 rows). ids ! i \<notin> id_draftId ` set (es_inserts (gridEdits g))" using fresh by blast
    note fold_addInsert_ids [OF assms(1) distinct_nth_enumerate [OF dist that] this]
    then show ?thesis using assms(1) by (simp add: pasteInserts_def Let_def)
  qed
  have sel: "storeOk (editNames g) (gr_tab g) (gr_edits (fst (pasteSelected g start rows quoted)))" for start rows quoted
    using assms(1) storeOk_pasteLoop [OF _ assms(1)]
    by (auto simp: pasteSelected_def Let_def firstError_None split: option.splits prod.splits) (metis fst_conv)
  show ?thesis
    using assms ins sel by (auto simp: onPaste_def split: sum.splits prod.splits option.splits)
qed

text \<open>Nothing but the store, the selection, the editor and the message changes.\<close>

definition sameView :: "grid \<Rightarrow> grid \<Rightarrow> bool" where
  "sameView g g' \<longleftrightarrow> gr_tab g' = gr_tab g \<and> gr_rows g' = gr_rows g \<and> gr_allColumns g' = gr_allColumns g
     \<and> gr_hidden g' = gr_hidden g \<and> gr_edit g' = gr_edit g \<and> gr_previousRowCount g' = gr_previousRowCount g"

lemma sameView_simps [simp]:
  "sameView g g" "sameView g (g\<lparr>gr_edits := st\<rparr>)" "sameView g (g\<lparr>gr_selection := sel\<rparr>)" "sameView g (g\<lparr>gr_editing := ed\<rparr>)"
  "sameView g (g\<lparr>gr_message := m\<rparr>)" "sameView g (g\<lparr>gr_message := m, gr_edits := st\<rparr>)" "sameView g (g\<lparr>gr_edits := st, gr_editing := ed\<rparr>)"
  "sameView g (g\<lparr>gr_editing := ed, gr_edits := st\<rparr>)"
  by (simp_all add: sameView_def)

lemma sameView_selectRow [simp]: "sameView g (selectRow g r x)"
  by (simp add: selectRow_def)

lemma sameView_deleteSelectedRows [simp]: "sameView g (deleteSelectedRows g)"
  by (simp add: deleteSelectedRows_def split: option.split)

lemma sameView_gridKeyDown: "sameView g (fst (gridKeyDown mac sc g e))"
  unfolding gridKeyDown_def Let_def by simp

lemma sameView_editorCommit: "sameView g (editorCommit g v)"
  by (simp add: editorCommit_def stopEditing_def split: option.split editing_cell.split)

lemma sameView_onPaste: "sameView g (fst (onPaste g s ids))"
proof -
  have "sameView g (fst (pasteSelected g start rows quoted))" for start rows quoted
    by (simp add: pasteSelected_def Let_def split: option.split prod.split)
  moreover have "sameView g (pasteInserts g rows quoted ids)" for rows quoted
    by (simp add: pasteInserts_def Let_def)
  ultimately show ?thesis by (simp add: onPaste_def split: sum.split prod.split option.split)
qed

lemma sameView_handler: "\<nexists>rows st. ev = External rows st \<Longrightarrow> sameView g (gridHandler mac sc g ev)"
  by (cases ev) (simp_all add: sameView_gridKeyDown sameView_editorCommit sameView_onPaste cellMouseDown_def cellMouseEnter_def
      insertMouseDown_def cellDoubleClick_def insertDoubleClick_def stopEditing_def addRowClick_def Let_def)

lemma gridHandler_frame [simp]:
  "gr_tab (gridHandler mac sc g ev) = gr_tab g" "gridColumns (gridHandler mac sc g ev) = gridColumns g"
  "editNames (gridHandler mac sc g ev) = editNames g" "gr_previousRowCount (gridHandler mac sc g ev) = gr_previousRowCount g"
proof -
  have "gr_tab (gridHandler mac sc g ev) = gr_tab g \<and> gridColumns (gridHandler mac sc g ev) = gridColumns g
    \<and> editNames (gridHandler mac sc g ev) = editNames g \<and> gr_previousRowCount (gridHandler mac sc g ev) = gr_previousRowCount g"
  proof (cases "\<exists>rows st. ev = External rows st")
    case False
    then show ?thesis using sameView_handler [of ev g mac sc] by (simp add: sameView_def gridColumns_def editNames_def)
  qed (auto simp: gridColumns_def editNames_def)
  then show "gr_tab (gridHandler mac sc g ev) = gr_tab g" "gridColumns (gridHandler mac sc g ev) = gridColumns g"
    "editNames (gridHandler mac sc g ev) = editNames g" "gr_previousRowCount (gridHandler mac sc g ev) = gr_previousRowCount g"
    by blast+
qed

lemma columnEditable_names: "columnEditable g c \<longleftrightarrow> cm_name c \<in> set (editNames g)"
  by (simp add: columnEditable_def editNames_def split: option.split)

lemma storeOk_deleteSelectedRows:
  "storeOk (editNames g) (gr_tab g) (gr_edits g) \<Longrightarrow> storeOk (editNames g) (gr_tab g) (gr_edits (deleteSelectedRows g))"
  using storeOk_fold [where P = "storeOk (editNames g) (gr_tab g)" and f = "deleteTurn g", OF storeOk_deleteTurn]
  by (simp add: deleteSelectedRows_def split: option.split)

lemma gridKeyDown_edits:
  assumes "P (gr_edits g)" "P (gr_edits (deleteSelectedRows g))" shows "P (gr_edits (fst (gridKeyDown mac sc g e)))"
  unfolding gridKeyDown_def Let_def selectRow_def using assms by simp

lemma gridHandler_store:
  assumes "storeOk (editNames g) (gr_tab g) (gr_edits g)" "editingOk g" "gridGuard g ev"
  shows "storeOk (editNames g) (gr_tab g) (gr_edits (gridHandler mac sc g ev))"
proof (cases ev)
  case (Key e)
  show ?thesis unfolding Key gridHandler.simps
    by (rule gridKeyDown_edits [OF assms(1) storeOk_deleteSelectedRows [OF assms(1)]])
next
  case (EditorCommit v)
  show ?thesis
  proof (cases "gr_editing g")
    case (Some e)
    then show ?thesis using assms(1,2) EditorCommit storeOk_commitCell [OF assms(1)]
      by (cases e) (auto simp: editorCommit_def stopEditing_def editingOk_def storeOk_ops find_Some_iff split: option.splits)
  qed (use assms(1) EditorCommit in \<open>simp add: editorCommit_def\<close>)
next
  case (Paste s ids)
  then show ?thesis using storeOk_onPaste [OF assms(1)] assms(3) by simp
next
  case DeleteButton
  then show ?thesis using assms(1) storeOk_deleteSelectedRows by simp
next
  case (AddRow u)
  have "u \<notin> id_draftId ` set (es_inserts (gridEdits g))" using assms(3) by (auto simp: AddRow freshIds_def list_all_iff)
  then show ?thesis using storeOk_addInsert [OF assms(1), of u "[]"] assms(1) by (simp add: AddRow addRowClick_def)
next
  case (External rows st)
  then show ?thesis using assms(3) by (simp add: storeOk_def)
qed (use assms(1) in \<open>simp_all add: cellMouseDown_def cellMouseEnter_def insertMouseDown_def selectRow_def cellDoubleClick_def
    insertDoubleClick_def stopEditing_def Let_def\<close>)

subsection \<open>The selection under the handlers\<close>

text \<open>Before the effect has run, a position may be past the last row but not before the first.\<close>

definition posWeak :: "grid \<Rightarrow> cell_pos \<Rightarrow> bool" where
  "posWeak g p \<longleftrightarrow> 0 \<le> cp_r p \<and> 0 \<le> cp_c p \<and> cp_c p < shownCols g"

definition selectionWeak :: "grid \<Rightarrow> bool" where
  "selectionWeak g = (case gr_selection g of None \<Rightarrow> True | Some sel \<Rightarrow> posWeak g (sel_anchor sel) \<and> posWeak g (sel_focus sel))"

lemma selectionIn_weak: "selectionIn g \<Longrightarrow> selectionWeak g"
  by (auto simp: selectionIn_def selectionWeak_def posIn_def posWeak_def split: option.split)

lemma rowCountEffect_frame [simp]:
  "gr_edits (rowCountEffect g) = gr_edits g" "gr_tab (rowCountEffect g) = gr_tab g" "gr_rows (rowCountEffect g) = gr_rows g"
  "gr_editing (rowCountEffect g) = gr_editing g" "editNames (rowCountEffect g) = editNames g"
  "gridColumns (rowCountEffect g) = gridColumns g" "gr_previousRowCount (rowCountEffect g) = length (gr_rows g)"
  by (simp_all add: rowCountEffect_def Let_def editNames_def gridColumns_def)

lemma rowCountEffect_selection:
  assumes "selectionWeak g" shows "selectionIn (rowCountEffect g)"
proof (cases "gr_selection g")
  case (Some sel)
  have in_eq: "posIn (rowCountEffect g) p \<longleftrightarrow> posWeak g p \<and> cp_r p < shownRows g" for p
    by (auto simp: posIn_def posWeak_def)
  have weak: "posWeak g (sel_anchor sel)" "posWeak g (sel_focus sel)" using assms Some by (simp_all add: selectionWeak_def)
  have shift: "posWeak g (rebasePos previous delta p)" if "posWeak g p" "0 \<le> delta" for previous delta p
    using that by (simp add: posWeak_def rebasePos_def)
  have stay: "rebasePos previous 0 p = p" for previous p by (simp add: rebasePos_def)
  have "selectionIn (rowCountEffect g) = (case gr_selection (rowCountEffect g) of None \<Rightarrow> True
      | Some sel \<Rightarrow> (posWeak g (sel_anchor sel) \<and> cp_r (sel_anchor sel) < shownRows g)
                  \<and> posWeak g (sel_focus sel) \<and> cp_r (sel_focus sel) < shownRows g)"
    unfolding selectionIn_def in_eq ..
  also have "\<dots>" using weak shift by (auto simp: rowCountEffect_def Let_def Some stay)
  finally show ?thesis .
qed (simp add: rowCountEffect_def selectionIn_def)

lemma gridColumns_upd [simp]:
  "gridColumns (g\<lparr>gr_selection := s\<rparr>) = gridColumns g" "gridColumns (g\<lparr>gr_edits := st\<rparr>) = gridColumns g"
  "gridColumns (g\<lparr>gr_editing := ed\<rparr>) = gridColumns g" "gridColumns (g\<lparr>gr_message := m\<rparr>) = gridColumns g"
  "gridColumns (g\<lparr>gr_rows := rows\<rparr>) = gridColumns g"
  by (simp_all add: gridColumns_def)

lemma selectionWeak_upd [simp]:
  "selectionWeak (g\<lparr>gr_edits := st\<rparr>) = selectionWeak g" "selectionWeak (g\<lparr>gr_editing := ed\<rparr>) = selectionWeak g"
  "selectionWeak (g\<lparr>gr_message := m\<rparr>) = selectionWeak g" "selectionWeak (g\<lparr>gr_rows := rows\<rparr>) = selectionWeak g"
  "selectionWeak (g\<lparr>gr_selection := None\<rparr>)"
  "selectionWeak (g\<lparr>gr_selection := Some sel\<rparr>) \<longleftrightarrow> posWeak g (sel_anchor sel) \<and> posWeak g (sel_focus sel)"
  by (simp_all add: selectionWeak_def posWeak_def cong: option.case_cong)

lemma posWeak_moved: "gridColumns g \<noteq> [] \<Longrightarrow> posWeak g (movedPos g e p)"
  by (cases "gridColumns g") (simp_all add: posWeak_def movedPos_def Let_def)

lemma selectionWeak_selectRow:
  assumes "selectionWeak g" "0 \<le> r" shows "selectionWeak (selectRow g r x)"
  using assms by (cases "gridColumns g") (auto simp: selectRow_def selectionWeak_def posWeak_def split: option.split)

lemma selectionWeak_delete: "selectionWeak (deleteSelectedRows g) = selectionWeak g"
  by (simp add: deleteSelectedRows_def split: option.split)

lemma selectionWeak_key:
  assumes "selectionIn g" shows "selectionWeak (fst (gridKeyDown mac sc g e))"
proof -
  note weak = selectionIn_weak [OF assms]
  let ?p = "case gr_selection g of Some sel \<Rightarrow> sel_focus sel | None \<Rightarrow> \<lparr>cp_r = 0, cp_c = 0\<rparr>"
  have r: "0 \<le> cp_r ?p" using weak by (auto simp: selectionWeak_def posWeak_def split: option.split)
  have all: "selectionWeak (g\<lparr>gr_selection := Some \<lparr>sel_anchor = \<lparr>cp_r = 0, cp_c = 0\<rparr>,
      sel_focus = \<lparr>cp_r = shownRows g - 1, cp_c = shownCols g - 1\<rparr>\<rparr>\<rparr>)" if "\<not> (gridColumns g = [] \<or> shownRows g = 0)"
    using that by (cases "gridColumns g") (auto simp: posWeak_def)
  have arrow: "selectionWeak (g\<lparr>gr_selection := Some \<lparr>sel_anchor = (case gr_selection g of
      Some sel \<Rightarrow> if ke_shiftKey e then sel_anchor sel else movedPos g e ?p | None \<Rightarrow> movedPos g e ?p),
      sel_focus = movedPos g e ?p\<rparr>\<rparr>)" if "\<not> (gridColumns g = [] \<or> shownRows g = 0)"
    using that weak posWeak_moved [of g e ?p] by (auto simp: selectionWeak_def posWeak_def split: option.split)
  show ?thesis
    unfolding gridKeyDown_def Let_def
    by (simp only: fst_conv selectionWeak_delete split: if_split)
      (intro conjI impI; (rule weak | erule all | erule arrow | rule selectionWeak_selectRow [OF weak r] | simp add: weak))
qed

lemma selectionWeak_onPaste: "selectionWeak (fst (onPaste g s ids)) = selectionWeak g"
proof -
  have "selectionWeak (fst (pasteSelected g start rows quoted)) = selectionWeak g" for start rows quoted
    by (simp add: pasteSelected_def Let_def split: option.split prod.split)
  moreover have "selectionWeak (pasteInserts g rows quoted ids) = selectionWeak g" for rows quoted
    by (simp add: pasteInserts_def Let_def)
  ultimately show ?thesis by (simp add: onPaste_def split: sum.split prod.split option.split)
qed

lemma gridHandler_selection:
  assumes "selectionIn g" "gridGuard g ev" shows "selectionWeak (gridHandler mac sc g ev)"
proof -
  note weak = selectionIn_weak [OF assms(1)]
  show ?thesis
  proof (cases ev)
    case (Key e)
    then show ?thesis using selectionWeak_key [OF assms(1)] by simp
  next
    case (CellDown r c shift)
    then have "posWeak g \<lparr>cp_r = r, cp_c = c\<rparr>" using assms(2) by (simp add: posWeak_def)
    then show ?thesis using weak
      by (cases "gr_selection g") (simp_all add: CellDown cellMouseDown_def Let_def selectionWeak_def [of g])
  next
    case (CellEnter r c held)
    then have "posWeak g \<lparr>cp_r = r, cp_c = c\<rparr>" using assms(2) by (simp add: posWeak_def)
    then show ?thesis using weak
      by (cases "gr_selection g") (simp_all add: CellEnter cellMouseEnter_def selectionWeak_def [of g])
  next
    case (InsertDown di c)
    then have "posWeak g \<lparr>cp_r = dataRows g + int di, cp_c = c\<rparr>" using assms(2) by (simp add: posWeak_def)
    then show ?thesis using weak by (simp add: InsertDown insertMouseDown_def Let_def)
  next
    case (RowHeader r shift)
    then show ?thesis using assms(2) selectionWeak_selectRow [OF weak] by simp
  next
    case (Paste s ids)
    then show ?thesis using weak by (simp add: selectionWeak_onPaste)
  next
    case (EditorCommit v)
    then show ?thesis using weak
      by (simp add: editorCommit_def stopEditing_def split: option.split editing_cell.split)
  qed (use weak in \<open>simp_all add: cellDoubleClick_def insertDoubleClick_def stopEditing_def selectionWeak_delete addRowClick_def Let_def\<close>)
qed

lemma editingOk_upd [simp]:
  "editingOk (g\<lparr>gr_edits := st\<rparr>) = editingOk g" "editingOk (g\<lparr>gr_selection := sel\<rparr>) = editingOk g"
  "editingOk (g\<lparr>gr_message := m\<rparr>) = editingOk g" "editingOk (g\<lparr>gr_rows := rows\<rparr>) = editingOk g"
  "editingOk (g\<lparr>gr_editing := None\<rparr>)"
  "editingOk (g\<lparr>gr_editing := Some (EditingCell r name)\<rparr>) \<longleftrightarrow> name \<in> set (editNames g)"
  "editingOk (g\<lparr>gr_editing := Some (EditingInsert u name)\<rparr>) \<longleftrightarrow> name \<in> set (editNames g)"
  by (simp_all add: editingOk_def editNames_def split: option.split editing_cell.split)

lemma editingOk_effect [simp]: "editingOk (rowCountEffect g) = editingOk g"
  by (simp add: editingOk_def split: option.split editing_cell.split)

lemma editingOk_key:
  assumes "editingOk g" shows "editingOk (fst (gridKeyDown mac sc g e))"
proof -
  have "editingOk (deleteSelectedRows g)" using assms by (simp add: deleteSelectedRows_def split: option.split)
  moreover have "editingOk (selectRow g r x)" for r x using assms by (simp add: selectRow_def)
  ultimately show ?thesis
    unfolding gridKeyDown_def Let_def using assms
    by (simp add: columnEditable_names split: option.split)
qed

lemma editingOk_onPaste: "editingOk (fst (onPaste g s ids)) = editingOk g"
proof -
  have "editingOk (fst (pasteSelected g start rows quoted)) = editingOk g" for start rows quoted
    by (simp add: pasteSelected_def Let_def split: option.split prod.split)
  moreover have "editingOk (pasteInserts g rows quoted ids) = editingOk g" for rows quoted
    by (simp add: pasteInserts_def Let_def)
  ultimately show ?thesis by (simp add: onPaste_def split: sum.split prod.split option.split)
qed

lemma gridHandler_editing:
  assumes "editingOk g" shows "editingOk (gridHandler mac sc g ev)"
  using assms
  by (cases ev) (simp_all add: editingOk_key editingOk_onPaste cellMouseDown_def cellMouseEnter_def insertMouseDown_def selectRow_def
      cellDoubleClick_def insertDoubleClick_def editorCommit_def stopEditing_def deleteSelectedRows_def addRowClick_def Let_def
      columnEditable_names split: option.split editing_cell.split)

lemma gridStep_inv:
  assumes "gridInv g" "gridGuard g ev" shows "\<exists>g'. gridStep mac sc g ev = Some g' \<and> gridInv g'"
proof -
  let ?g = "gridHandler mac sc g ev"
  have "storeOk (editNames g) (gr_tab g) (gr_edits g)" "editingOk g" "selectionIn g"
    using assms(1) by (simp_all add: gridInv_def storeOk_def)
  then have "storeOk (editNames g) (gr_tab g) (gr_edits ?g)" "editingOk ?g" "selectionIn (rowCountEffect ?g)"
    using assms(2) by (simp_all add: gridHandler_store gridHandler_editing gridHandler_selection rowCountEffect_selection)
  then have "gridInv (rowCountEffect ?g)"
    by (simp add: gridInv_def storeOk_def)
  then show ?thesis by (simp add: gridStep_def)
qed

interpretation grm: guarded_machine "gridStep mac sc" gridGuard gridInv
  by unfold_locales (rule gridStep_inv)

subsection \<open>Deleting the selected rows\<close>

lemma deleteTurn_edits:
  assumes "\<not> es_locked (getEdits st (gr_tab g))" "r < shownRows g"
  defines "s \<equiv> getEdits st (gr_tab g)" and "s' \<equiv> getEdits (deleteTurn g r st) (gr_tab g)"
  shows "\<not> es_locked s'" "es_updates s' = es_updates s"
    and "x \<in> set (es_deletes s') \<longleftrightarrow> (x \<in> set (es_deletes s)) \<noteq>
      (x = r \<and> r < dataRows g \<and> (r \<in> set (es_deletes (gridEdits g))) = allSelectedDeleted g)"
    and "es_inserts s' = filter (\<lambda>d. dataRows g \<le> r \<longrightarrow> id_draftId d \<noteq> id_draftId (es_inserts (gridEdits g) ! nat (r - dataRows g))) (es_inserts s)"
proof -
  have "js_at (es_inserts (gridEdits g)) (r - dataRows g) =
      (if r < dataRows g then None else Some (es_inserts (gridEdits g) ! nat (r - dataRows g)))"
    using assms(2) by (simp add: js_at_def)
  note turn = deleteTurn_def [of g r st, unfolded this]
  show "\<not> es_locked s'" "es_updates s' = es_updates s"
    using assms(1) by (auto simp: s_def s'_def turn toggleDelete_def removeInsert_def Let_def)
  show "x \<in> set (es_deletes s') \<longleftrightarrow> (x \<in> set (es_deletes s)) \<noteq>
      (x = r \<and> r < dataRows g \<and> (r \<in> set (es_deletes (gridEdits g))) = allSelectedDeleted g)"
    using assms(1) by (auto simp: s_def s'_def turn toggleDelete_def removeInsert_def Let_def js_set_add_def js_set_delete_def)
  show "es_inserts s' = filter (\<lambda>d. dataRows g \<le> r \<longrightarrow> id_draftId d \<noteq> id_draftId (es_inserts (gridEdits g) ! nat (r - dataRows g))) (es_inserts s)"
    using assms(1) by (auto simp: s_def s'_def turn toggleDelete_def removeInsert_def Let_def)
qed

lemma deleteTurns_edits:
  assumes "\<not> es_locked (getEdits st (gr_tab g))" "\<forall>r\<in>set rs. r < shownRows g" "distinct rs"
  defines "s \<equiv> getEdits st (gr_tab g)" and "s' \<equiv> getEdits (fold (deleteTurn g) rs st) (gr_tab g)"
  shows "es_updates s' = es_updates s
    \<and> (\<forall>x. x \<in> set (es_deletes s') \<longleftrightarrow> (x \<in> set (es_deletes s)) \<noteq>
        (x \<in> set rs \<and> x < dataRows g \<and> (x \<in> set (es_deletes (gridEdits g))) = allSelectedDeleted g))
    \<and> es_inserts s' = filter (\<lambda>d. \<forall>r\<in>set rs. dataRows g \<le> r \<longrightarrow>
        id_draftId d \<noteq> id_draftId (es_inserts (gridEdits g) ! nat (r - dataRows g))) (es_inserts s)"
  using assms(1-3) unfolding s_def s'_def
proof (induction rs arbitrary: st)
  case (Cons r rs)
  have r: "r < shownRows g" using Cons.prems(2) by simp
  note turn = deleteTurn_edits [OF Cons.prems(1) r]
  have "\<forall>r\<in>set rs. r < shownRows g" "distinct rs" "r \<notin> set rs" using Cons.prems by simp_all
  from Cons.IH [OF turn(1) this(1,2)] this(3) show ?case
    unfolding fold_Cons comp_def turn(2,4) filter_filter turn(3) by (auto intro: filter_cong)
qed simp

lemma filter_by_id:
  assumes "distinct (map f xs)"
  shows "filter (\<lambda>d. \<forall>k<length xs. P k \<longrightarrow> f d \<noteq> f (xs ! k)) xs = map snd (filter (\<lambda>(k, d). \<not> P k) (enumerate 0 xs))"
proof -
  have iff: "(\<forall>k<length xs. P k \<longrightarrow> f d \<noteq> f (xs ! k)) \<longleftrightarrow> \<not> P i" if "(i, d) \<in> set (enumerate 0 xs)" for i d
  proof -
    have i: "i < length xs" "d = xs ! i" using that by (auto simp: in_set_enumerate_eq)
    have "f (xs ! i) = f (xs ! k) \<longleftrightarrow> i = k" if "k < length xs" for k
      using nth_eq_iff_index_eq [OF assms, of i k] i that by simp
    then show ?thesis using i by auto
  qed
  have "filter (\<lambda>p. \<forall>k<length xs. P k \<longrightarrow> f (snd p) \<noteq> f (xs ! k)) (enumerate 0 xs) = filter (\<lambda>(k, d). \<not> P k) (enumerate 0 xs)"
  proof (intro filter_cong refl)
    fix p assume "p \<in> set (enumerate 0 xs)"
    then show "(\<forall>k<length xs. P k \<longrightarrow> f (snd p) \<noteq> f (xs ! k)) \<longleftrightarrow> (case p of (k, d) \<Rightarrow> \<not> P k)"
      using iff [of "fst p" "snd p"] by (simp add: case_prod_beta)
  qed
  then have "map snd (filter (\<lambda>p. \<forall>k<length xs. P k \<longrightarrow> f (snd p) \<noteq> f (xs ! k)) (enumerate 0 xs))
      = map snd (filter (\<lambda>(k, d). \<not> P k) (enumerate 0 xs))" by simp
  moreover have snd: "map snd (filter (\<lambda>p. Q (snd p)) (enumerate 0 xs)) = filter Q xs" for Q
    using filter_map [of Q snd "enumerate 0 xs"] by (simp add: comp_def)
  ultimately show ?thesis using snd [of "\<lambda>d. \<forall>k<length xs. P k \<longrightarrow> f d \<noteq> f (xs ! k)"] by argo
qed

text \<open>Deleting the selected rows marks every selected row of the result, or, when all of them
  are marked already, unmarks all of them; it takes the selected inserts out of the buffer, and
  leaves every other row, every other insert and all cell drafts as they are.\<close>

theorem delete_selected_rows_exact:
  assumes "gridInv g" "gr_edit g \<noteq> None" "\<not> es_locked (gridEdits g)" "fullRowsSelected g" "selectedRange g = Some rg"
  shows "set (es_deletes (gridEdits (deleteSelectedRows g))) = (if allSelectedDeleted g then set (es_deletes (gridEdits g)) - {rg_minR rg .. rg_maxR rg}
      else set (es_deletes (gridEdits g)) \<union> {r \<in> {rg_minR rg .. rg_maxR rg}. r < dataRows g})
    \<and> es_inserts (gridEdits (deleteSelectedRows g)) = map snd (filter (\<lambda>(k, d). dataRows g + int k \<notin> {rg_minR rg .. rg_maxR rg}) (enumerate 0 (es_inserts (gridEdits g))))
    \<and> es_updates (gridEdits (deleteSelectedRows g)) = es_updates (gridEdits g)"
proof -
  let ?rs = "[rg_minR rg .. rg_maxR rg]" and ?s = "gridEdits g" and ?n = "dataRows g"
  define s' where "s' = gridEdits (deleteSelectedRows g)"
  obtain sel where sel: "gr_selection g = Some sel" "rg = selectionRange sel"
    using assms(5) by (auto simp: selectedRange_def)
  have bounds: "0 \<le> rg_minR rg" "rg_maxR rg < shownRows g"
    using assms(1) sel by (auto simp: gridInv_def selectionIn_def posIn_def selectionRange_def)
  have "\<forall>r\<in>set ?rs. r < shownRows g" using bounds by auto
  note turns = deleteTurns_edits [OF assms(3) this distinct_upto]
  have s': "s' = getEdits (fold (deleteTurn g) ?rs (gr_edits g)) (gr_tab g)"
    using assms(2-5) by (auto simp: s'_def deleteSelectedRows_def)
  have all: "allSelectedDeleted g \<Longrightarrow> {rg_minR rg .. rg_maxR rg} \<subseteq> set (es_deletes ?s) \<and> rg_maxR rg < ?n"
    using assms(5) by (auto simp: allSelectedDeleted_def list_all_iff)
  have dels: "set (es_deletes s') = (if allSelectedDeleted g then set (es_deletes ?s) - {rg_minR rg .. rg_maxR rg}
      else set (es_deletes ?s) \<union> {r \<in> {rg_minR rg .. rg_maxR rg}. r < ?n})"
    using turns all unfolding s' by (auto simp: set_eq_iff)
  have "distinct (map id_draftId (es_inserts ?s))"
    using assms(1) buffer_ok_getEdits by (simp add: gridInv_def buffer_ok_def)
  note byId = filter_by_id [OF this, of "\<lambda>k. ?n + int k \<in> {rg_minR rg .. rg_maxR rg}"]
  have same: "(\<forall>r\<in>set ?rs. ?n \<le> r \<longrightarrow> id_draftId d \<noteq> id_draftId (es_inserts ?s ! nat (r - ?n)))
    \<longleftrightarrow> (\<forall>k<length (es_inserts ?s). ?n + int k \<in> {rg_minR rg .. rg_maxR rg} \<longrightarrow> id_draftId d \<noteq> id_draftId (es_inserts ?s ! k))" for d
  proof
    assume r: "\<forall>r\<in>set ?rs. ?n \<le> r \<longrightarrow> id_draftId d \<noteq> id_draftId (es_inserts ?s ! nat (r - ?n))"
    show "\<forall>k<length (es_inserts ?s). ?n + int k \<in> {rg_minR rg .. rg_maxR rg} \<longrightarrow> id_draftId d \<noteq> id_draftId (es_inserts ?s ! k)"
    proof (intro allI impI)
      fix k assume "?n + int k \<in> {rg_minR rg .. rg_maxR rg}"
      then show "id_draftId d \<noteq> id_draftId (es_inserts ?s ! k)" using r [rule_format, of "?n + int k"] by simp
    qed
  next
    assume k: "\<forall>k<length (es_inserts ?s). ?n + int k \<in> {rg_minR rg .. rg_maxR rg} \<longrightarrow> id_draftId d \<noteq> id_draftId (es_inserts ?s ! k)"
    show "\<forall>r\<in>set ?rs. ?n \<le> r \<longrightarrow> id_draftId d \<noteq> id_draftId (es_inserts ?s ! nat (r - ?n))"
    proof (intro ballI impI)
      fix r assume r: "r \<in> set ?rs" "?n \<le> r"
      have "nat (r - ?n) < length (es_inserts ?s)" using bounds(2) r by (simp add: nat_less_iff)
      then show "id_draftId d \<noteq> id_draftId (es_inserts ?s ! nat (r - ?n))"
        using k [rule_format, of "nat (r - ?n)"] r by simp
    qed
  qed
  note turns [THEN conjunct2, THEN conjunct2, unfolded same byId, folded s']
  with turns [THEN conjunct1, folded s'] dels show ?thesis unfolding s'_def by blast
qed

subsection \<open>What a paste writes\<close>

text \<open>
  The draft of a cell on screen, whether its row is of the result or an insert, and the draft that
  a pasted field stands for: a value equal to the text of the cell withdraws its draft.
\<close>

definition draftView :: "grid \<Rightarrow> edit_snapshot \<Rightarrow> int \<times> string \<Rightarrow> cell_draft option + insert_cell option" where
  "draftView g s = (\<lambda>(r, name). if r < dataRows g then Inl (draft_at s r name)
     else Inr (Option.bind (js_at (es_inserts s) (r - dataRows g)) (\<lambda>d. map_of (id_cells d) name)))"

definition pastedDraft :: "grid \<Rightarrow> int \<times> column_meta \<times> paste_marker \<Rightarrow> cell_draft option + insert_cell option" where
  "pastedDraft g = (\<lambda>(r, c, m). if r < dataRows g
     then Inl (case m of MarkNull \<Rightarrow> if cellAt g r c = Some VNull then None else Some None
             | MarkValue s \<Rightarrow> if Inr s = cellText (cellAt g r c) \<and> cellAt g r c \<noteq> Some VNull then None else Some (Some s)
             | MarkDefault \<Rightarrow> None)
     else Inr (Some (insertCellOf m)))"

abbreviation pasteAt :: "int \<times> column_meta \<times> paste_marker \<Rightarrow> int \<times> string" where
  "pasteAt x \<equiv> (fst x, cm_name (fst (snd x)))"

definition renderable :: "grid \<Rightarrow> bool" where
  "renderable g \<longleftrightarrow> list_all (list_all (\<lambda>v. \<exists>s. cellText (Some v) = Inr s)) (gr_rows g)"

lemma renderable_cell:
  assumes "renderable g" shows "\<exists>s. cellText (cellAt g r c) = Inr s"
proof (cases "cellAt g r c")
  case (Some v)
  then obtain row where "js_at (gr_rows g) r = Some row" "js_at row (cm_index c) = Some v"
    by (auto simp: cellAt_def split: Option.bind_splits)
  then have "row \<in> set (gr_rows g)" "v \<in> set row" by (auto simp: js_at_def split: if_splits)
  then show ?thesis using assms Some by (auto simp: renderable_def list_all_iff)
qed (simp add: cellText_def)

lemma js_at_map: "js_at (map f xs) i = map_option f (js_at xs i)"
  by (simp add: js_at_def nat_less_iff)

lemma js_at_ids:
  assumes "map f xs = map f ys" "js_at xs i = Some x" obtains y where "js_at ys i = Some y" "f y = f x"
  using assms js_at_map [of f xs i] js_at_map [of f ys i] by auto

lemma js_at_inj:
  assumes "distinct (map f xs)" "js_at xs i = Some x" "js_at xs j = Some y" shows "f x = f y \<longleftrightarrow> i = j"
  using assms nth_eq_iff_index_eq [OF assms(1), of "nat i" "nat j"]
  by (auto simp: js_at_def nat_less_iff split: if_splits)

lemma draftView_setInsertCell:
  assumes "\<not> es_locked (getEdits st (gr_tab g))" "js_at (es_inserts (getEdits st (gr_tab g))) (r - dataRows g) = Some d"
    and "distinct (map id_draftId (es_inserts (getEdits st (gr_tab g))))" "dataRows g \<le> r"
  shows "draftView g (getEdits (setInsertCell st (gr_tab g) (id_draftId d) name x) (gr_tab g))
    = (draftView g (getEdits st (gr_tab g)))((r, name) := Inr (Some x))"
proof
  fix p :: "int \<times> string"
  obtain r' name' where p: "p = (r', name')" by (cases p)
  let ?s = "getEdits st (gr_tab g)"
  let ?f = "\<lambda>e. if id_draftId e = id_draftId d then e\<lparr>id_cells := AList.update name x (id_cells e)\<rparr> else e"
  have edits: "getEdits (setInsertCell st (gr_tab g) (id_draftId d) name x) (gr_tab g)
      = (?s\<lparr>es_inserts := map ?f (es_inserts ?s)\<rparr>)\<lparr>es_pendingCount := pendingOf (?s\<lparr>es_inserts := map ?f (es_inserts ?s)\<rparr>)\<rparr>"
    using assms(1) by (simp add: setInsertCell_def Let_def)
  show "draftView g (getEdits (setInsertCell st (gr_tab g) (id_draftId d) name x) (gr_tab g)) p
      = ((draftView g ?s)((r, name) := Inr (Some x))) p"
  proof (cases "js_at (es_inserts ?s) (r' - dataRows g)")
    case (Some e)
    have "id_draftId e = id_draftId d \<longleftrightarrow> r' = r" using js_at_inj [OF assms(3) Some assms(2)] by simp
    then show ?thesis using Some assms(2,4) by (auto simp: p edits draftView_def js_at_map draft_at_def)
  next
    case None
    then show ?thesis using assms(2,4) by (auto simp: p edits draftView_def js_at_map draft_at_def)
  qed
qed

text \<open>One pasted cell changes the draft it is for and nothing else.\<close>

lemma pasteCell_view:
  assumes "renderable g" "\<not> es_locked (getEdits st (gr_tab g))" "distinct (map id_draftId (es_inserts (gridEdits g)))"
    and "map id_draftId (es_inserts (getEdits st (gr_tab g))) = map id_draftId (es_inserts (gridEdits g))"
    and "r < shownRows g" "pasteCellError g (r, c, m) = None"
  shows "\<exists>st'. pasteCell g st (r, c, m) = Some st' \<and> \<not> es_locked (getEdits st' (gr_tab g))
    \<and> map id_draftId (es_inserts (getEdits st' (gr_tab g))) = map id_draftId (es_inserts (gridEdits g))
    \<and> es_deletes (getEdits st' (gr_tab g)) = es_deletes (getEdits st (gr_tab g))
    \<and> draftView g (getEdits st' (gr_tab g)) = (draftView g (getEdits st (gr_tab g)))((r, cm_name c) := pastedDraft g (r, c, m))"
proof (cases "r < dataRows g")
  case True
  then have none: "js_at (es_inserts (gridEdits g)) (r - dataRows g) = None" by (simp add: js_at_def)
  obtain s where s: "cellText (cellAt g r c) = Inr s" using renderable_cell [OF assms(1)] by blast
  have "m \<noteq> MarkDefault" using assms(6) True by (auto simp: pasteCellError_def split: if_splits)
  then obtain dr where dr: "pasteCell g st (r, c, m) = Some (setCell st (gr_tab g) r (cm_name c) dr)" "pastedDraft g (r, c, m) = Inl dr"
    using True by (cases m) (simp_all add: pasteCell_def none commitCell_def s pastedDraft_def)
  have frame: "es_deletes (setCellIn r n e q) = es_deletes q" "es_inserts (setCellIn r n e q) = es_inserts q" "es_locked (setCellIn r n e q) = es_locked q" for n e q
    by (simp_all add: setCellIn_def Let_def)
  show ?thesis
    using True assms(2,4) by (auto simp: dr setCell_def frame draftView_def draft_at_setCellIn fun_eq_iff)
next
  case False
  then obtain d where d: "js_at (es_inserts (gridEdits g)) (r - dataRows g) = Some d" using assms(5) by (simp add: js_at_def)
  obtain e where e: "js_at (es_inserts (getEdits st (gr_tab g))) (r - dataRows g) = Some e" "id_draftId e = id_draftId d"
    using js_at_ids [OF assms(4) [symmetric] d] by blast
  have ids: "distinct (map id_draftId (es_inserts (getEdits st (gr_tab g))))" using assms(3,4) by simp
  have dr: "pasteCell g st (r, c, m) = Some (setInsertCell st (gr_tab g) (id_draftId e) (cm_name c) (insertCellOf m))"
    "pastedDraft g (r, c, m) = Inr (Some (insertCellOf m))"
    using False by (simp_all add: pasteCell_def d e(2) pastedDraft_def)
  have "draftView g (getEdits (setInsertCell st (gr_tab g) (id_draftId e) (cm_name c) (insertCellOf m)) (gr_tab g))
      = (draftView g (getEdits st (gr_tab g)))((r, cm_name c) := Inr (Some (insertCellOf m)))"
    using draftView_setInsertCell [OF assms(2) e(1) ids] False by simp
  moreover have "\<not> es_locked (getEdits (setInsertCell st (gr_tab g) (id_draftId e) (cm_name c) (insertCellOf m)) (gr_tab g))"
    "es_deletes (getEdits (setInsertCell st (gr_tab g) (id_draftId e) (cm_name c) (insertCellOf m)) (gr_tab g)) = es_deletes (getEdits st (gr_tab g))"
    "map id_draftId (es_inserts (getEdits (setInsertCell st (gr_tab g) (id_draftId e) (cm_name c) (insertCellOf m)) (gr_tab g)))
      = map id_draftId (es_inserts (gridEdits g))"
    using assms(2,4) by (simp_all add: setInsertCell_def Let_def cong: if_cong) (simp add: comp_def if_distrib cong: if_cong)
  ultimately show ?thesis by (simp add: dr)
qed

lemma pasteLoop_view:
  assumes "renderable g" "distinct (map id_draftId (es_inserts (gridEdits g)))" "\<not> es_locked (getEdits st (gr_tab g))"
    and "map id_draftId (es_inserts (getEdits st (gr_tab g))) = map id_draftId (es_inserts (gridEdits g))"
    and "\<forall>x\<in>set xs. fst x < shownRows g \<and> pasteCellError g x = None" "distinct (map pasteAt xs)"
  shows "\<exists>st'. pasteLoop g st xs = (st', False)
    \<and> map id_draftId (es_inserts (getEdits st' (gr_tab g))) = map id_draftId (es_inserts (gridEdits g))
    \<and> es_deletes (getEdits st' (gr_tab g)) = es_deletes (getEdits st (gr_tab g))
    \<and> (\<forall>x\<in>set xs. draftView g (getEdits st' (gr_tab g)) (pasteAt x) = pastedDraft g x)
    \<and> (\<forall>p. p \<notin> pasteAt ` set xs \<longrightarrow> draftView g (getEdits st' (gr_tab g)) p = draftView g (getEdits st (gr_tab g)) p)"
  using assms(3-6)
proof (induction xs arbitrary: st)
  case (Cons x xs)
  obtain r c m where x: "x = (r, c, m)" by (cases x)
  from pasteCell_view [OF assms(1) Cons.prems(1) assms(2) Cons.prems(2), of r c m] Cons.prems(3)
  obtain st' where st': "pasteCell g st x = Some st'" "\<not> es_locked (getEdits st' (gr_tab g))"
    "map id_draftId (es_inserts (getEdits st' (gr_tab g))) = map id_draftId (es_inserts (gridEdits g))"
    "es_deletes (getEdits st' (gr_tab g)) = es_deletes (getEdits st (gr_tab g))"
    "draftView g (getEdits st' (gr_tab g)) = (draftView g (getEdits st (gr_tab g)))(pasteAt x := pastedDraft g x)"
    by (auto simp: x)
  have "\<forall>x\<in>set xs. fst x < shownRows g \<and> pasteCellError g x = None" "distinct (map pasteAt xs)" "pasteAt x \<notin> pasteAt ` set xs"
    using Cons.prems by simp_all
  from Cons.IH [OF st'(2,3) this(1,2)] this(3) st'(1,4,5) show ?case
    by (auto simp: x)
qed simp

lemma distinct_concat_map_fst:
  assumes "\<And>r row. (r, row) \<in> set ps \<Longrightarrow> distinct (f r row)" "distinct (map fst ps)"
    and "\<And>r row y. (r, row) \<in> set ps \<Longrightarrow> y \<in> set (f r row) \<Longrightarrow> fst y = k + int r"
  shows "distinct (concat (map (\<lambda>(r, row). f r row) ps))"
  using assms
proof (induction ps)
  case (Cons p ps)
  obtain r row where p: "p = (r, row)" by (cases p)
  have "fst y = k + int r" if "y \<in> set (f r row)" for y using Cons.prems(3) [of r row y] that by (simp add: p)
  moreover have "\<exists>r'. r' \<in> fst ` set ps \<and> fst y = k + int r'" if y: "y \<in> set (concat (map (\<lambda>(r, row). f r row) ps))" for y
  proof -
    obtain r' row' where "(r', row') \<in> set ps" "y \<in> set (f r' row')" using y by auto
    then show ?thesis using Cons.prems(3) [of r' row' y] by force
  qed
  moreover have "r \<notin> fst ` set ps" using Cons.prems(2) by (simp add: p)
  ultimately have "y \<notin> set (concat (map (\<lambda>(r, row). f r row) ps))" if "y \<in> set (f r row)" for y
    using that by (metis add_left_cancel of_nat_eq_iff)
  then have "set (f r row) \<inter> set (concat (map (\<lambda>(r, row). f r row) ps)) = {}" by blast
  moreover have "distinct (concat (map (\<lambda>(r, row). f r row) ps))"
  proof (rule Cons.IH)
    show "distinct (map fst ps)" using Cons.prems(2) by simp
    show "distinct (f r row)" if "(r, row) \<in> set ps" for r row using Cons.prems(1) that by simp
    show "fst y = k + int r" if "(r, row) \<in> set ps" "y \<in> set (f r row)" for r row y
      using Cons.prems(3) [of r row y] that by simp
  qed
  moreover have "distinct (f r row)" using Cons.prems(1) [of r row] by (simp add: p)
  ultimately show ?case by (simp add: p)
qed simp

lemma pasteCells_places:
  assumes "0 \<le> cp_c start" "\<not> list_ex (\<lambda>row. cp_c start + int (length row) > shownCols g) rows"
    and "distinct (map cm_name (gridColumns g))"
  shows "distinct (map pasteAt (pasteCells g start rows quoted))"
    and "x \<in> set (pasteCells g start rows quoted) \<Longrightarrow> cp_r start \<le> fst x \<and> fst x < cp_r start + int (length rows)"
proof -
  let ?f = "\<lambda>r row. map (\<lambda>(c, field). (cp_r start + int r, cm_name (gridColumns g ! nat (cp_c start + int c)))) (enumerate 0 (row :: string list))"
  have eq: "map pasteAt (pasteCells g start rows quoted) = concat (map (\<lambda>(r, row). ?f r row) (enumerate 0 rows))"
    by (simp add: pasteCells_def map_concat case_prod_unfold comp_def)
  have "distinct (?f r row)" if "(r, row) \<in> set (enumerate 0 rows)" for r row
  proof -
    have "row \<in> set rows" using that by (auto simp: in_set_enumerate_eq)
    then have fits: "cp_c start + int (length row) \<le> shownCols g" using assms(2) by (auto simp: list_ex_iff)
    have nth: "?f r row ! i = (cp_r start + int r, map cm_name (gridColumns g) ! nat (cp_c start + int i))" if "i < length row" for i
      using that fits assms(1) by (simp add: nth_enumerate_eq nat_less_iff)
    show ?thesis unfolding distinct_conv_nth
    proof (intro allI impI)
      fix i j assume ij: "i < length (?f r row)" "j < length (?f r row)" "i \<noteq> j"
      then have "nat (cp_c start + int i) < length (gridColumns g)" "nat (cp_c start + int j) < length (gridColumns g)"
        "nat (cp_c start + int i) \<noteq> nat (cp_c start + int j)" using fits assms(1) by auto
      then show "?f r row ! i \<noteq> ?f r row ! j"
        using ij nth_eq_iff_index_eq [OF assms(3)] nth by auto
    qed
  qed
  moreover have "fst y = cp_r start + int r" if "(r, row) \<in> set (enumerate 0 rows)" "y \<in> set (?f r row)" for r row y
    using that by auto
  ultimately show "distinct (map pasteAt (pasteCells g start rows quoted))"
    unfolding eq by (intro distinct_concat_map_fst [where k = "cp_r start"]) simp_all
  show "cp_r start \<le> fst x \<and> fst x < cp_r start + int (length rows)" if "x \<in> set (pasteCells g start rows quoted)"
    using that by (auto simp: pasteCells_def in_set_enumerate_eq)
qed

text \<open>Claim C16: pasting at a selected cell is all or nothing. Either the grid says why it refuses and
  no draft has changed; or every pasted field is the draft of the cell it falls on (for a row of the
  result a value equal to the one shown withdraws the draft), and no other draft, no deletion and
  no insert has been touched.\<close>

theorem paste_all_or_nothing:
  assumes "gridInv g" "renderable g" "distinct (map cm_name (gridColumns g))"
    and "gr_edit g \<noteq> None" "gr_editing g = None" "\<not> es_locked (gridEdits g)"
    and "gr_selection g = Some sel" "clipboard \<noteq> []" "parseTsv clipboard = Inr (rows, quoted)" "rows \<noteq> []"
    and "onPaste g clipboard ids = (g', threw)"
  shows "\<not> threw \<and> (gr_message g' \<noteq> NoMessage \<longrightarrow> gr_edits g' = gr_edits g)
    \<and> (gr_message g' = NoMessage \<longrightarrow>
        (\<forall>x\<in>set (pasteCells g (sel_focus sel) rows quoted). draftView g (gridEdits g') (pasteAt x) = pastedDraft g x)
      \<and> (\<forall>p. p \<notin> pasteAt ` set (pasteCells g (sel_focus sel) rows quoted) \<longrightarrow> draftView g (gridEdits g') p = draftView g (gridEdits g) p)
      \<and> es_deletes (gridEdits g') = es_deletes (gridEdits g)
      \<and> map id_draftId (es_inserts (gridEdits g')) = map id_draftId (es_inserts (gridEdits g)))"
proof -
  let ?start = "sel_focus sel" and ?cells = "pasteCells g (sel_focus sel) rows quoted"
  have start: "0 \<le> cp_c ?start" using assms(1,7) by (simp add: gridInv_def selectionIn_def posIn_def)
  have ids: "distinct (map id_draftId (es_inserts (gridEdits g)))"
    using assms(1) buffer_ok_getEdits by (simp add: gridInv_def buffer_ok_def)
  have paste: "pasteSelected g ?start rows quoted = (g', threw)"
    using assms(4-11) by (auto simp: onPaste_def)
  show ?thesis
  proof (cases "cp_r ?start + int (length rows) > shownRows g \<or> list_ex (\<lambda>row. cp_c ?start + int (length row) > shownCols g) rows
      \<or> firstError (pasteCellError g) ?cells \<noteq> None")
    case True
    have "e \<noteq> NoMessage" if "firstError (pasteCellError g) xs = Some e" for xs e
      using that by (induction xs) (auto simp: pasteCellError_def split: option.splits if_splits)
    then show ?thesis using True paste by (auto simp: pasteSelected_def Let_def split: if_splits)
  next
    case False
    then have fits: "cp_r ?start + int (length rows) \<le> shownRows g" "\<not> list_ex (\<lambda>row. cp_c ?start + int (length row) > shownCols g) rows"
      and none: "firstError (pasteCellError g) ?cells = None" by auto
    note places = pasteCells_places [OF start fits(2) assms(3)]
    have "\<forall>x\<in>set ?cells. fst x < shownRows g \<and> pasteCellError g x = None"
      using none places(2) fits(1) unfolding firstError_None by fastforce
    from pasteLoop_view [OF assms(2) ids assms(6) refl this places(1)] obtain st'
      where st': "pasteLoop g (gr_edits g) ?cells = (st', False)"
        "map id_draftId (es_inserts (getEdits st' (gr_tab g))) = map id_draftId (es_inserts (gridEdits g))"
        "es_deletes (getEdits st' (gr_tab g)) = es_deletes (gridEdits g)"
        "\<forall>x\<in>set ?cells. draftView g (getEdits st' (gr_tab g)) (pasteAt x) = pastedDraft g x"
        "\<forall>p. p \<notin> pasteAt ` set ?cells \<longrightarrow> draftView g (getEdits st' (gr_tab g)) p = draftView g (gridEdits g) p" by blast
    have "g' = g\<lparr>gr_message := NoMessage, gr_edits := st'\<rparr>" "\<not> threw"
      using paste fits none st'(1) by (auto simp: pasteSelected_def Let_def)
    then show ?thesis using st'(2-5) by simp
  qed
qed

subsection \<open>Collecting every page\<close>

text \<open>Pages that continue each other from an offset, the last one saying that it is the last.\<close>

fun pagesFrom :: "int \<Rightarrow> result_page list \<Rightarrow> bool" where
  "pagesFrom offset [] \<longleftrightarrow> False"
| "pagesFrom offset (page # pages) \<longleftrightarrow> pg_nextOffset page = offset + int (length (pg_rows page))
     \<and> (if pg_hasMore page then pg_rows page \<noteq> [] \<and> pagesFrom (pg_nextOffset page) pages else pages = [])"

definition pageOffsets :: "int \<Rightarrow> result_page list \<Rightarrow> int list" where
  "pageOffsets offset pages = offset # butlast (map pg_nextOffset pages)"

lemma rowsBytes_append [simp]: "rowsBytes (xs @ ys) = rowsBytes xs + rowsBytes ys"
  by (simp add: rowsBytes_def)

lemma rowsBytes_Nil [simp]: "rowsBytes [] = 0"
  by (simp add: rowsBytes_def)

lemma collectPages_complete:
  assumes "pagesFrom offset pages" "bytes + rowsBytes (concat (map pg_rows pages)) \<le> MAX_COLLECTED_BYTES"
  shows "collectPages rows offset bytes (map Some pages @ rest) = (pageOffsets offset pages, Rows (rows @ concat (map pg_rows pages)))"
  using assms
proof (induction pages arbitrary: rows offset bytes)
  case (Cons page pages)
  have "pages \<noteq> []" if "pg_hasMore page" using Cons.prems(1) that by (cases pages) auto
  then show ?case using Cons.prems Cons.IH [of "pg_nextOffset page" "bytes + rowsBytes (pg_rows page)" "rows @ pg_rows page"]
    by (auto simp: pageOffsets_def Let_def)
qed simp

lemma collectPages_sound:
  assumes "snd (collectPages rows offset bytes answers) = Rows out"
  shows "\<exists>pages rest. answers = map Some pages @ rest \<and> pagesFrom offset pages \<and> out = rows @ concat (map pg_rows pages)
    \<and> bytes + rowsBytes (concat (map pg_rows pages)) \<le> MAX_COLLECTED_BYTES"
  using assms
proof (induction rows offset bytes answers rule: collectPages.induct)
  case (3 rows offset bytes page answers)
  show ?case
  proof (cases "pg_hasMore page")
    case False
    then have "pagesFrom offset [page]" "out = rows @ pg_rows page" "bytes + rowsBytes (pg_rows page) \<le> MAX_COLLECTED_BYTES"
      using "3.prems" by (auto simp: Let_def split: if_splits)
    then show ?thesis using False by (intro exI [of _ "[page]"] exI [of _ answers]) simp
  next
    case True
    have step: "pg_nextOffset page = offset + int (length (pg_rows page))" "pg_rows page \<noteq> []"
      "bytes + rowsBytes (pg_rows page) \<le> MAX_COLLECTED_BYTES"
      "snd (collectPages (rows @ pg_rows page) (pg_nextOffset page) (bytes + rowsBytes (pg_rows page)) answers) = Rows out"
      using "3.prems" True by (auto simp: Let_def split: if_splits prod.splits)
    have "\<exists>pages rest. answers = map Some pages @ rest \<and> pagesFrom (pg_nextOffset page) pages
        \<and> out = (rows @ pg_rows page) @ concat (map pg_rows pages)
        \<and> bytes + rowsBytes (pg_rows page) + rowsBytes (concat (map pg_rows pages)) \<le> MAX_COLLECTED_BYTES"
      using "3.IH" [OF _ refl _ _ step(4)] step True by simp
    then obtain pages rest where "answers = map Some pages @ rest" "pagesFrom (pg_nextOffset page) pages"
      "out = (rows @ pg_rows page) @ concat (map pg_rows pages)"
      "bytes + rowsBytes (pg_rows page) + rowsBytes (concat (map pg_rows pages)) \<le> MAX_COLLECTED_BYTES" by blast
    then show ?thesis using step True by (intro exI [of _ "page # pages"] exI [of _ rest]) simp
  qed
qed simp_all

text \<open>Claim C26: copying or exporting a whole result collects exactly its rows. The rows handed on are
  those on screen followed by those of a sequence of pages, each asked for at the offset where
  the one before ended and the last saying that there are no more; and whenever the answers
  begin with such a sequence and the text stays within the limit, they are all collected. A gap,
  a page that is empty although more follow, a text over the limit or a failed call never
  gives rows.\<close>

theorem collect_all_rows:
  assumes "rs_hasMoreRows snapshot" "truthy_str (rs_executionId snapshot)" "rs_tablePage snapshot = None"
  shows "(snd (allResultRows snapshot rows answers) = Rows out \<longleftrightarrow>
    (\<exists>pages rest. answers = map Some pages @ rest \<and> pagesFrom (nullish (rs_nextRowOffset snapshot) 0) pages
       \<and> out = rows @ concat (map pg_rows pages) \<and> rowsBytes out \<le> MAX_COLLECTED_BYTES
       \<and> fst (allResultRows snapshot rows answers) = pageOffsets (nullish (rs_nextRowOffset snapshot) 0) pages))"
proof -
  let ?off = "nullish (rs_nextRowOffset snapshot) 0"
  have run: "allResultRows snapshot rows xs = collectPages rows ?off (rowsBytes rows) xs" for xs
    using assms by (simp add: allResultRows_def)
  show ?thesis unfolding run
  proof
    assume "snd (collectPages rows ?off (rowsBytes rows) answers) = Rows out"
    from collectPages_sound [OF this] obtain pages rest
      where p: "answers = map Some pages @ rest" "pagesFrom ?off pages" "out = rows @ concat (map pg_rows pages)"
        "rowsBytes rows + rowsBytes (concat (map pg_rows pages)) \<le> MAX_COLLECTED_BYTES" by blast
    note collectPages_complete [OF p(2,4), of rows rest]
    then show "\<exists>pages rest. answers = map Some pages @ rest \<and> pagesFrom ?off pages \<and> out = rows @ concat (map pg_rows pages)
       \<and> rowsBytes out \<le> MAX_COLLECTED_BYTES \<and> fst (collectPages rows ?off (rowsBytes rows) answers) = pageOffsets ?off pages"
      using p by (intro exI [of _ pages] exI [of _ rest]) simp
  qed (auto simp: collectPages_complete)
qed

lemma collectPages_ends:
  assumes "\<forall>a\<in>set answers. case a of None \<Rightarrow> True | Some page \<Rightarrow> rowsBytes (pg_rows page) > 0"
    and "bytes + length answers > MAX_COLLECTED_BYTES" "bytes \<le> MAX_COLLECTED_BYTES"
  shows "snd (collectPages rows offset bytes answers) \<noteq> Waiting next_offset"
  using assms
proof (induction rows offset bytes answers rule: collectPages.induct)
  case (3 rows offset bytes page answers)
  let ?bytes = "bytes + rowsBytes (pg_rows page)"
  have pos: "rowsBytes (pg_rows page) > 0" using "3.prems"(1) by simp
  show ?case
  proof (cases "pg_nextOffset page \<noteq> offset + int (length (pg_rows page)) \<or> (pg_hasMore page \<and> pg_rows page = [])
      \<or> ?bytes > MAX_COLLECTED_BYTES \<or> \<not> pg_hasMore page")
    case False
    have "?bytes + length answers > MAX_COLLECTED_BYTES" using "3.prems"(2) pos by simp
    then have "snd (collectPages (rows @ pg_rows page) (pg_nextOffset page) ?bytes answers) \<noteq> Waiting next_offset"
      using "3.IH" [OF _ refl] "3.prems"(1) False by simp
    then show ?thesis using False by (auto simp: Let_def split: prod.split)
  qed (auto simp: Let_def)
qed simp_all

text \<open>Claim C27: collecting the rows ends. As long as every page brings some text, the loop never waits
  for another page once as many calls were answered as the limit has bytes: it has the rows or has
  failed.\<close>

theorem collecting_ends:
  assumes "\<forall>a\<in>set answers. case a of None \<Rightarrow> True | Some page \<Rightarrow> rowsBytes (pg_rows page) > 0"
    and "length answers > MAX_COLLECTED_BYTES" "rowsBytes rows \<le> MAX_COLLECTED_BYTES"
  shows "(\<exists>e. snd (allResultRows snapshot rows answers) = Failed e) \<or> (\<exists>out. snd (allResultRows snapshot rows answers) = Rows out)"
proof (cases "snd (allResultRows snapshot rows answers)")
  case (Waiting w)
  then have "snd (collectPages rows (nullish (rs_nextRowOffset snapshot) 0) (rowsBytes rows) answers) = Waiting w"
    by (simp add: allResultRows_def split: if_splits)
  with collectPages_ends [OF assms(1) _ assms(3)] assms(2) show ?thesis by simp
qed auto

text \<open>Claim C18: whatever the user does in a grid and however the rows and the edits change around it, the
  selection stays within the rows and columns on screen, the inline editor and every cell draft
  are for an editable column, and the counter of pending edits is exact.\<close>

theorem grid_stays_consistent:
  assumes "edits_inv (gr_edits g)" "editableDrafts (editNames g) (gridEdits g)" "gr_selection g = None" "gr_editing g = None"
    and "gr_previousRowCount g = length (gr_rows g)" "run_ok (gridStep mac sc) gridGuard g events"
  shows "\<exists>g'. run_actions (gridStep mac sc) g events = Some g' \<and> selectionIn g' \<and> editingOk g'
    \<and> editableDrafts (editNames g') (gridEdits g') \<and> edits_inv (gr_edits g')"
proof -
  have "gridInv g" using assms(1-5) by (simp add: gridInv_def selectionIn_def editingOk_def)
  from grm.run_inv [OF this assms(6)] show ?thesis by (auto simp: gridInv_def)
qed

subsection \<open>A grid at work\<close>

definition grid_column :: "int \<Rightarrow> string \<Rightarrow> column_meta" where
  "grid_column i name = \<lparr>cm_index = i, cm_name = name, cm_pgTypeOid = 25, cm_pgTypeName = ''text'', cm_category = TextC,
     cm_source = None, cm_nullable = None, cm_editable = True\<rparr>"

definition example_grid :: grid where
  "example_grid = \<lparr>gr_tab = ''t'', gr_rows = [[VText ''a'', VNull], [VText ''b'', VText ''c'']],
     gr_allColumns = [grid_column 0 ''x'', grid_column 1 ''y''], gr_hidden = [], gr_edit = Some [''x'', ''y''],
     gr_edits = emptyEditStore, gr_selection = None, gr_editing = None, gr_message = NoMessage, gr_previousRowCount = 2\<rparr>"

definition example_pages :: "result_page list" where
  "example_pages = [\<lparr>pg_rows = [[VText ''b'']], pg_nextOffset = 2, pg_hasMore = True\<rparr>, \<lparr>pg_rows = [], pg_nextOffset = 2, pg_hasMore = False\<rparr>]"

definition example_result :: result_snapshot where
  "example_result = EMPTY_RESULT\<lparr>rs_hasMoreRows := True, rs_executionId := Some ''e'', rs_nextRowOffset := Some 1\<rparr>"

lemma edits_inv_empty [simp]: "edits_inv emptyEditStore"
  by (simp add: edits_inv_def emptyEditStore_def)

theorem delete_selected_rows_exact_witness:
  "set (es_deletes (gridEdits (deleteSelectedRows (selectRow example_grid 1 False)))) = {1}"
proof -
  let ?g = "selectRow example_grid 1 False"
  have "gridInv ?g" unfolding gridInv_def by (simp add: example_grid_def selectRow_def gridColumns_def) code_simp
  moreover have "gr_edit ?g \<noteq> None" "\<not> es_locked (gridEdits ?g)" "fullRowsSelected ?g"
    "selectedRange ?g = Some \<lparr>rg_minR = 1, rg_maxR = 1, rg_minC = 0, rg_maxC = 1\<rparr>" "\<not> allSelectedDeleted ?g"
    "set (es_deletes (gridEdits ?g)) = {}" "length (gr_rows ?g) = 2" by code_simp+
  ultimately have "set (es_deletes (gridEdits (deleteSelectedRows ?g))) = {} \<union> {r \<in> {1..1}. r < 2}"
    using delete_selected_rows_exact [of ?g "\<lparr>rg_minR = 1, rg_maxR = 1, rg_minC = 0, rg_maxC = 1\<rparr>"] by simp
  also have "\<dots> = {1}" by auto
  finally show ?thesis .
qed

lemmas parse_eval = parseTsv_def MAX_PASTE_BYTES_def MAX_PASTE_CELLS_def MAX_PASTE_ROWS_def utf8_length_def tsvStart_def
  tsvLimit_def endRow_def endField_def Let_def

theorem paste_all_or_nothing_witness:
  "\<exists>g'. onPaste (cellMouseDown example_grid 0 0 False) ''q'' [] = (g', False) \<and> draftView example_grid (gridEdits g') (0, ''x'') = Inl (Some (Some ''q''))"
proof -
  let ?g = "cellMouseDown example_grid 0 0 False" and ?sel = "\<lparr>sel_anchor = \<lparr>cp_r = 0, cp_c = 0\<rparr>, sel_focus = \<lparr>cp_r = 0, cp_c = 0\<rparr>\<rparr>"
  let ?g' = "fst (pasteSelected ?g (sel_focus ?sel) [[''q'']] [[False]])" and ?x = "(0, grid_column 0 ''x'', MarkValue ''q'')"
  have facts: "gr_edit ?g \<noteq> None" "gr_editing ?g = None" "\<not> es_locked (gridEdits ?g)" "gr_selection ?g = Some ?sel" by code_simp+
  have parsed: "parseTsv ''q'' = Inr ([[''q'']], [[False]])" by (simp add: parse_eval)
  have "gridInv ?g" unfolding gridInv_def by (simp add: example_grid_def cellMouseDown_def gridColumns_def) code_simp
  moreover have "renderable ?g" unfolding renderable_def by (simp add: example_grid_def cellMouseDown_def Let_def cellText_def)
  moreover have "distinct (map cm_name (gridColumns ?g))" by code_simp
  moreover have "onPaste ?g ''q'' [] = pasteSelected ?g (sel_focus ?sel) [[''q'']] [[False]]"
    using facts by (auto simp: onPaste_def parsed)
  moreover have "snd (pasteSelected ?g (sel_focus ?sel) [[''q'']] [[False]]) = False" by code_simp
  ultimately have run: "onPaste ?g ''q'' [] = (?g', False)" and pre: "gridInv ?g" "renderable ?g" "distinct (map cm_name (gridColumns ?g))"
    by (simp_all add: prod_eq_iff)
  have "gr_message ?g' = NoMessage" by code_simp
  moreover have "?x \<in> set (pasteCells ?g (sel_focus ?sel) [[''q'']] [[False]])" by code_simp
  ultimately have "draftView ?g (gridEdits ?g') (pasteAt ?x) = pastedDraft ?g ?x"
    using paste_all_or_nothing [OF pre facts(1-4) _ parsed _ run] by blast
  moreover have "pastedDraft ?g ?x = Inl (Some (Some ''q''))" "pasteAt ?x = (0, ''x'')" by code_simp+
  moreover have rows: "gr_rows ?g = gr_rows example_grid" by code_simp
  have "draftView ?g s = draftView example_grid s" for s by (simp only: draftView_def rows)
  ultimately show ?thesis using run by metis
qed

theorem collect_all_rows_witness:
  "snd (allResultRows example_result [[VText ''a'']] (map Some example_pages)) = Rows [[VText ''a''], [VText ''b'']]"
proof -
  have "rs_hasMoreRows example_result" "truthy_str (rs_executionId example_result)" "rs_tablePage example_result = None"
    by (simp_all add: example_result_def EMPTY_RESULT_def truthy_str_def)
  note iff = collect_all_rows [OF this, of "[[VText ''a'']]" "map Some example_pages" "[[VText ''a''], [VText ''b'']]"]
  have "map Some example_pages = map Some example_pages @ []" by simp
  moreover have "pagesFrom (nullish (rs_nextRowOffset example_result) 0) example_pages"
    "[[VText ''a''], [VText ''b'']] = [[VText ''a'']] @ concat (map pg_rows example_pages)"
    by code_simp+
  moreover have "rowsBytes [[VText ''a''], [VText ''b'']] \<le> MAX_COLLECTED_BYTES"
    "fst (allResultRows example_result [[VText ''a'']] (map Some example_pages)) = pageOffsets (nullish (rs_nextRowOffset example_result) 0) example_pages"
    by (simp_all add: rowsBytes_def MAX_COLLECTED_BYTES_def allResultRows_def example_result_def EMPTY_RESULT_def truthy_str_def
        example_pages_def pageOffsets_def Let_def)
  ultimately show ?thesis using iff by blast
qed

theorem collecting_ends_witness:
  "let answers = replicate (MAX_COLLECTED_BYTES + 1) (Some (hd example_pages)) in
   (\<exists>e. snd (allResultRows example_result [] answers) = Failed e) \<or> (\<exists>out. snd (allResultRows example_result [] answers) = Rows out)"
  unfolding Let_def by (rule collecting_ends) (simp_all add: example_pages_def rowsBytes_def)

theorem grid_stays_consistent_witness:
  "\<exists>g'. run_actions (gridStep False defaultShortcuts) example_grid [CellDown 1 1 False, CellDouble 1 1, EditorCommit MarkNull, AddRow ''n''] = Some g'
     \<and> selectionIn g'"
proof -
  have "edits_inv (gr_edits example_grid)" by (simp add: example_grid_def)
  moreover have "editableDrafts (editNames example_grid) (gridEdits example_grid)" "gr_selection example_grid = None"
    "gr_editing example_grid = None" "gr_previousRowCount example_grid = length (gr_rows example_grid)"
    "run_ok (gridStep False defaultShortcuts) gridGuard example_grid [CellDown 1 1 False, CellDouble 1 1, EditorCommit MarkNull, AddRow ''n'']"
    by code_simp+
  ultimately show ?thesis using grid_stays_consistent [of example_grid False defaultShortcuts] by blast
qed

text \<open>
  A new row whose cells stand for DEFAULT does not survive copy and paste: \<open>copySelection\<close> turns the
  cell into the text DEFAULT, \<open>toTsv\<close> quotes that text to keep it apart from the marker, and
  \<open>onPaste\<close> reads it back as a value.
\<close>

definition example_insert_grid :: grid where
  "example_insert_grid = insertMouseDown (addRowClick (example_grid\<lparr>gr_rows := [], gr_previousRowCount := 0\<rparr>) ''n'') 0 0"

theorem copied_default_pastes_as_text:
  "map id_cells (es_inserts (gridEdits example_insert_grid)) = [[]]
   \<and> snd (copySelection example_insert_grid (Rows []) True) = Some ([quo] @ ''DEFAULT'' @ [quo])
   \<and> map id_cells (es_inserts (gridEdits (fst (onPaste example_insert_grid ([quo] @ ''DEFAULT'' @ [quo]) []))))
       = [[(''x'', CellValue ''DEFAULT'')]]"
proof (intro conjI)
  let ?g = "example_insert_grid"
  have "gr_edit ?g \<noteq> None" "gr_editing ?g = None" "\<not> es_locked (gridEdits ?g)"
    "gr_selection ?g = Some \<lparr>sel_anchor = \<lparr>cp_r = 0, cp_c = 0\<rparr>, sel_focus = \<lparr>cp_r = 0, cp_c = 0\<rparr>\<rparr>" by code_simp+
  moreover have "parseTsv ([quo] @ ''DEFAULT'' @ [quo]) = Inr ([[''DEFAULT'']], [[True]])" by (simp add: parse_eval)
  ultimately have paste: "onPaste ?g ([quo] @ ''DEFAULT'' @ [quo]) [] = pasteSelected ?g \<lparr>cp_r = 0, cp_c = 0\<rparr> [[''DEFAULT'']] [[True]]"
    by (auto simp: onPaste_def)
  show "map id_cells (es_inserts (gridEdits (fst (onPaste ?g ([quo] @ ''DEFAULT'' @ [quo]) [])))) = [[(''x'', CellValue ''DEFAULT'')]]"
    unfolding paste by code_simp
qed code_simp+

end
