(* ===== verification/Editability.thy ===== *)
theory Editability
  imports Statement_Splitter Value_Text Js_Regex
begin

text \<open>
  Which results can be edited, \<open>src/features/data-editing/editability.ts\<close>: the gate for a table
  tab and for a query result. A result is editable only if every displayed column is proved to
  be a distinct column of one base table whose primary key is displayed. The reasons are
  constructors in place of the Korean texts.
\<close>

subsection \<open>Data\<close>

datatype lock_mode = LockXmin | LockDisplayed

record pk_column =
  pk_attributeNumber :: int
  pk_columnName :: string
  pk_columnIndex :: int

record editable_info =
  ei_relationOid :: nat
  ei_meta :: table_metadata
  ei_xminColumnIndex :: "int option"
  ei_pk :: "pk_column list"
  ei_editableColumns :: "string js_set"
  ei_catalogName :: "(string, string) js_map"
  ei_lockMode :: lock_mode

datatype read_only_reason =
    UnknownColumns | UnsafeCatalogName | UnsafeColumnName | ComputedColumn | DuplicateSource
  | UnlockableType | UnknownType | MissingPrimaryKey | NoPrimaryKey | ReadOnlyConnection
  | NotBaseTable | NoRowVersion | NoSql | NotPlainSelect | NotSingleTable | NoMetadata | ViewResult

datatype editability = NotEditable read_only_reason | Editable editable_info

definition xminName :: string where
  "xminName = ''__dbpod_xmin''"

fun UNSUPPORTED :: "column_category \<Rightarrow> bool" where
  "UNSUPPORTED ArrayC = True"
| "UNSUPPORTED BinaryC = True"
| "UNSUPPORTED RangeC = True"
| "UNSUPPORTED CompositeC = True"
| "UNSUPPORTED UnknownC = True"
| "UNSUPPORTED c = False"

definition unsupportedColumn :: "column_meta \<Rightarrow> bool" where
  "unsupportedColumn c \<longleftrightarrow> UNSUPPORTED (cm_category c) \<and> \<not> (cm_category c = ArrayC \<and> cm_pgTypeOid c = 1009)"

text \<open>The own properties of \<open>Object.prototype\<close>.\<close>

definition objectPrototype :: "string list" where
  "objectPrototype = [''constructor'', ''__defineGetter__'', ''__defineSetter__'', ''hasOwnProperty'',
     ''__lookupGetter__'', ''__lookupSetter__'', ''isPrototypeOf'', ''propertyIsEnumerable'', ''toString'',
     ''valueOf'', ''__proto__'', ''toLocaleString'']"

definition unsafeName :: "string \<Rightarrow> bool" where
  "unsafeName name \<longleftrightarrow> name = '''' \<or> name = ''prototype'' \<or> name \<in> set objectPrototype"

subsection \<open>The grammar of a plain SELECT\<close>

definition words_i :: "string list \<Rightarrow> re" where
  "words_i ws = alts (map word_i ws)"

definition wordPair :: "string \<Rightarrow> string \<Rightarrow> re" where
  "wordPair a b = seqs [word_i a, spaces1, word_i b]"

definition BLOCKED :: re where
  "BLOCKED = alts
     [seqs [WordB,
        alts [word_i ''JOIN'', wordPair ''GROUP'' ''BY'', words_i [''HAVING'', ''DISTINCT'', ''UNION'', ''INTERSECT'',
           ''EXCEPT'', ''OVER'', ''INTO'', ''RETURNING'']], WordB],
      seqs [AtStart, spaces, word_i ''WITH'', WordB],
      seqs [lit (CHR ''(''), spaces, words_i [''SELECT'', ''TABLE'', ''WITH'', ''VALUES''], WordB]]"

text \<open>\<open>/"(?:""|[^"])*"/\<close>.\<close>

definition quotedIdentifier :: re where
  "quotedIdentifier = seqs [lit dq, Greedy (alts [seqs [lit dq, lit dq], Cls (\<lambda>c. c \<noteq> dq)]), lit dq]"

text \<open>\<open>/^\s*SELECT\s+([\s\S]+?)\s+FROM\s+([\s\S]+)$/i.exec\<close>: the two groups of the first match.\<close>

definition selectParts :: "string \<Rightarrow> (string \<times> string) option" where
  "selectParts s =
     (case [(slice s i j, slice s k e).
              i \<leftarrow> ends (seqs [AtStart, spaces, word_i ''SELECT'', spaces1]) s 0,
              j \<leftarrow> ends (lazy_plus any_char) s i,
              k \<leftarrow> ends (seqs [spaces1, word_i ''FROM'', spaces1]) s j,
              e \<leftarrow> ends (Seq (plus any_char) AtEnd) s k] of
        [] \<Rightarrow> None | p # _ \<Rightarrow> Some p)"

definition ident :: re where
  "ident = Seq (Cls is_ident_start) (Greedy (Cls (\<lambda>c. is_word c \<or> c = CHR ''$'')))"

definition alias_clause :: re where
  "alias_clause = opt (seqs [spaces1, opt (Seq (word_i ''AS'') spaces1), ident])"

definition qualifier :: re where
  "qualifier = seqs [ident, spaces, lit (CHR ''.''), spaces]"

text \<open>\<open>^(?:ident\s*\.\s*){0,2}(?:ident|\*)alias$\<close>.\<close>

definition projection :: re where
  "projection = seqs [AtStart, opt (Seq qualifier (opt qualifier)), alts [ident, lit (CHR ''*'')], alias_clause, AtEnd]"

definition fromClause :: re where
  "fromClause = seqs [AtStart, opt (Seq (word_i ''ONLY'') spaces1), ident,
     opt (seqs [spaces, lit (CHR ''.''), spaces, ident]), alias_clause, AtEnd]"

definition fromEnd :: re where
  "fromEnd = seqs [WordB, alts [word_i ''WHERE'', wordPair ''ORDER'' ''BY'', words_i [''LIMIT'', ''OFFSET'', ''FETCH'', ''FOR'']], WordB]"

text \<open>The text that the keyword scan reads.\<close>

definition lexicalText :: "string \<Rightarrow> string" where
  "lexicalText sql = re_replace quotedIdentifier ''dbpod_identifier'' sql"

definition isPlainSelect :: "string \<Rightarrow> bool" where
  "isPlainSelect sql =
     (case splitStatements (stripLiterals sql) of
        [st] \<Rightarrow>
          let lexical = lexicalText (st_sql st) in
          if re_test BLOCKED lexical then False
          else (case selectParts lexical of
                  None \<Rightarrow> False
                | Some (cols, src) \<Rightarrow>
                    if \<not> list_all (\<lambda>column. re_test projection (trim column)) (split_on (CHR '','') cols) then False
                    else re_test fromClause (trim (re_split_head fromEnd src)))
      | _ \<Rightarrow> False)"

subsection \<open>The columns of an editable result\<close>

definition visibleColumns :: "column_meta list \<Rightarrow> int option \<Rightarrow> column_meta list" where
  "visibleColumns columns xminColumnIndex = filter (\<lambda>c. Some (cm_index c) \<noteq> xminColumnIndex) columns"

text \<open>The loop over the visible columns, with the attribute numbers and names seen so far.\<close>

fun checkVisible :: "nat \<Rightarrow> int option \<Rightarrow> column_meta list \<Rightarrow> int js_set \<Rightarrow> string js_set \<Rightarrow> read_only_reason option" where
  "checkVisible relationOid xmin [] seen names = None"
| "checkVisible relationOid xmin (c # cs) seen names =
     (if unsafeName (cm_name c) \<or> cm_name c = xminName \<or> cm_name c \<in> set names then Some UnsafeColumnName
      else case cm_source c of
        None \<Rightarrow> Some ComputedColumn
      | Some src \<Rightarrow>
          if cs_relationOid src \<noteq> relationOid then Some ComputedColumn
          else if cs_attributeNumber src \<in> set seen then Some DuplicateSource
          else if xmin = None \<and> (unsupportedColumn c \<or> cm_pgTypeOid c = 114 \<or> cm_pgTypeOid c = 142) then Some UnlockableType
          else checkVisible relationOid xmin cs (js_set_add (cs_attributeNumber src) seen) (js_set_add (cm_name c) names))"

definition catalogByAttnum :: "table_metadata \<Rightarrow> (int, table_column_metadata) js_map" where
  "catalogByAttnum meta = js_map_of (map (\<lambda>c. (tc_attributeNumber c, c)) (tm_columns meta))"

definition catalogOf :: "table_metadata \<Rightarrow> column_meta \<Rightarrow> table_column_metadata option" where
  "catalogOf meta c = Option.bind (cm_source c) (\<lambda>src. map_of (catalogByAttnum meta) (cs_attributeNumber src))"

definition displayByAttnum :: "column_meta list \<Rightarrow> (int, column_meta) js_map" where
  "displayByAttnum visible = js_map_of (List.map_filter
     (\<lambda>c. map_option (\<lambda>src. (cs_attributeNumber src, c)) (cm_source c)) visible)"

text \<open>The primary key, \<open>None\<close> when a part of it is not displayed.\<close>

fun pkColumns :: "table_metadata \<Rightarrow> column_meta list \<Rightarrow> int list \<Rightarrow> pk_column list option" where
  "pkColumns meta visible [] = Some []"
| "pkColumns meta visible (attnum # rest) =
     (case (map_of (displayByAttnum visible) attnum, map_of (catalogByAttnum meta) attnum) of
        (Some display, Some catalog) \<Rightarrow>
          if UNSUPPORTED (cm_category display) then None
          else map_option (\<lambda>pk. \<lparr>pk_attributeNumber = attnum, pk_columnName = tc_name catalog,
                 pk_columnIndex = cm_index display\<rparr> # pk) (pkColumns meta visible rest)
      | _ \<Rightarrow> None)"

definition nameStep :: "table_metadata \<Rightarrow> nat \<Rightarrow> string js_set \<times> (string, string) js_map \<Rightarrow> column_meta
    \<Rightarrow> string js_set \<times> (string, string) js_map" where
  "nameStep meta relationOid acc c =
     (case cm_source c of
        None \<Rightarrow> acc
      | Some src \<Rightarrow>
          if cs_relationOid src \<noteq> relationOid then acc
          else case map_of (catalogByAttnum meta) (cs_attributeNumber src) of
                 None \<Rightarrow> acc
               | Some catalog \<Rightarrow>
                   (if \<not> tc_isGenerated catalog \<and> \<not> unsupportedColumn c then js_set_add (cm_name c) (fst acc) else fst acc,
                    AList.update (cm_name c) (tc_name catalog) (snd acc)))"

definition columnNames :: "table_metadata \<Rightarrow> nat \<Rightarrow> column_meta list \<Rightarrow> string js_set \<times> (string, string) js_map" where
  "columnNames meta relationOid visible = foldl (nameStep meta relationOid) ([], []) visible"

definition analyzeColumns ::
  "column_meta list \<Rightarrow> table_metadata \<Rightarrow> nat \<Rightarrow> int option \<Rightarrow> editability" where
  "analyzeColumns columns meta relationOid xminColumnIndex =
     (if tm_relationOid meta \<noteq> relationOid \<or> (\<exists>i\<in>set [0..<length columns]. cm_index (columns ! i) \<noteq> int i)
      then NotEditable UnknownColumns
      else if \<exists>c\<in>set (tm_columns meta). tc_name c = xminName \<or> unsafeName (tc_name c) then NotEditable UnsafeCatalogName
      else let visible = visibleColumns columns xminColumnIndex in
      case checkVisible relationOid xminColumnIndex visible [] [] of
        Some reason \<Rightarrow> NotEditable reason
      | None \<Rightarrow>
          if \<exists>c\<in>set visible. map_option tc_pgTypeOid (catalogOf meta c) \<noteq> Some (cm_pgTypeOid c) then NotEditable UnknownType
          else case pkColumns meta visible (tm_primaryKey meta) of
                 None \<Rightarrow> NotEditable MissingPrimaryKey
               | Some pk \<Rightarrow>
                   if pk = [] then NotEditable NoPrimaryKey
                   else let names = columnNames meta relationOid visible in
                     Editable \<lparr>ei_relationOid = relationOid, ei_meta = meta, ei_xminColumnIndex = xminColumnIndex, ei_pk = pk,
                       ei_editableColumns = fst names, ei_catalogName = snd names,
                       ei_lockMode = (if xminColumnIndex \<noteq> None then LockXmin else LockDisplayed)\<rparr>)"

definition baseTable :: "table_metadata \<Rightarrow> bool" where
  "baseTable meta \<longleftrightarrow> tm_kind meta = ''table'' \<or> tm_kind meta = ''partitioned-table''"

definition tableDataEditability :: "column_meta list \<Rightarrow> table_metadata \<Rightarrow> bool \<Rightarrow> editability" where
  "tableDataEditability columns meta readOnly =
     (if readOnly then NotEditable ReadOnlyConnection
      else if \<not> baseTable meta then NotEditable NotBaseTable
      else case filter (\<lambda>c. cm_name c = xminName) columns of
             [x] \<Rightarrow> if cm_index x \<noteq> 0 \<or> cm_source x \<noteq> None \<or> cm_pgTypeOid x \<noteq> 25 \<or> cm_category x \<noteq> TextC
                     then NotEditable NoRowVersion
                     else analyzeColumns columns meta (tm_relationOid meta) (Some (cm_index x))
           | _ \<Rightarrow> NotEditable NoRowVersion)"

text \<open>
  \<open>queryEditability\<close>. \<open>getTable\<close> is the backend call \<open>metadataGetTable\<close>, \<open>None\<close> when it fails.
\<close>

definition queryEditability ::
  "(nat \<Rightarrow> table_metadata option) \<Rightarrow> string option \<Rightarrow> column_meta list \<Rightarrow> bool \<Rightarrow> editability" where
  "queryEditability getTable executedSql columns readOnly =
     (if readOnly then NotEditable ReadOnlyConnection
      else if \<not> truthy_str executedSql then NotEditable NoSql
      else if \<not> isPlainSelect (nullish executedSql '''') then NotEditable NotPlainSelect
      else case js_set_of (map cs_relationOid (List.map_filter cm_source columns)) of
             [relationOid] \<Rightarrow>
               (case getTable relationOid of
                  None \<Rightarrow> NotEditable NoMetadata
                | Some meta \<Rightarrow> if \<not> baseTable meta then NotEditable ViewResult
                               else analyzeColumns columns meta relationOid None)
           | _ \<Rightarrow> NotEditable NotSingleTable)"

subsection \<open>What an editable result guarantees\<close>

definition attnumOf :: "column_meta \<Rightarrow> int" where
  "attnumOf c = (case cm_source c of None \<Rightarrow> 0 | Some src \<Rightarrow> cs_attributeNumber src)"

lemma js_map_of_SomeD: "map_of (js_map_of es) k = Some v \<Longrightarrow> (k, v) \<in> set es"
proof -
  have "map_of (foldl (\<lambda>m (k, v). AList.update k v m) m es) k = Some v \<Longrightarrow> (k, v) \<in> set es \<or> map_of m k = Some v" for m
  proof (induction es arbitrary: m)
    case (Cons e es)
    from Cons.IH [of "AList.update (fst e) (snd e) m"] Cons.prems
    show ?case by (cases e) (auto split: if_splits)
  qed simp
  from this [of "[]"] show "map_of (js_map_of es) k = Some v \<Longrightarrow> (k, v) \<in> set es" by (simp add: js_map_of_def)
qed

lemma catalogByAttnum_SomeD:
  "map_of (catalogByAttnum meta) a = Some k \<Longrightarrow> k \<in> set (tm_columns meta) \<and> tc_attributeNumber k = a"
  unfolding catalogByAttnum_def by (drule js_map_of_SomeD) auto

lemma displayByAttnum_SomeD:
  "map_of (displayByAttnum visible) a = Some c \<Longrightarrow> c \<in> set visible \<and> (\<exists>src. cm_source c = Some src \<and> cs_attributeNumber src = a)"
  unfolding displayByAttnum_def by (drule js_map_of_SomeD) (auto simp: map_filter_def split: option.splits)

lemma checkVisible_None:
  "checkVisible oid xmin cs seen names = None \<Longrightarrow>
   (\<forall>c\<in>set cs. \<not> unsafeName (cm_name c) \<and> cm_name c \<noteq> xminName
      \<and> map_option cs_relationOid (cm_source c) = Some oid
      \<and> (xmin = None \<longrightarrow> \<not> unsupportedColumn c))
   \<and> distinct (map cm_name cs) \<and> set (map cm_name cs) \<inter> set names = {}
   \<and> distinct (map attnumOf cs) \<and> set (map attnumOf cs) \<inter> set seen = {}"
proof (induction cs arbitrary: seen names)
  case (Cons c cs)
  then obtain src where "cm_source c = Some src" by (auto split: if_splits option.splits)
  with Cons.prems Cons.IH [of "js_set_add (cs_attributeNumber src) seen" "js_set_add (cm_name c) names"]
  show ?case by (auto simp: attnumOf_def split: if_splits)
qed simp

lemma pkColumns_Some:
  "pkColumns meta visible as = Some pk \<Longrightarrow> map pk_attributeNumber pk = as
   \<and> (\<forall>p\<in>set pk. \<exists>c\<in>set visible. \<exists>k\<in>set (tm_columns meta). attnumOf c = pk_attributeNumber p
        \<and> tc_attributeNumber k = pk_attributeNumber p \<and> pk_columnName p = tc_name k
        \<and> pk_columnIndex p = cm_index c \<and> \<not> UNSUPPORTED (cm_category c))"
proof (induction as arbitrary: pk)
  case (Cons a as)
  then obtain c k rest where ck: "map_of (displayByAttnum visible) a = Some c" "map_of (catalogByAttnum meta) a = Some k"
    "\<not> UNSUPPORTED (cm_category c)" "pkColumns meta visible as = Some rest"
    and pk: "pk = \<lparr>pk_attributeNumber = a, pk_columnName = tc_name k, pk_columnIndex = cm_index c\<rparr> # rest"
    by (auto split: option.splits if_splits)
  have "c \<in> set visible \<and> attnumOf c = a" using displayByAttnum_SomeD [OF ck(1)] by (auto simp: attnumOf_def)
  moreover have "k \<in> set (tm_columns meta) \<and> tc_attributeNumber k = a" using catalogByAttnum_SomeD [OF ck(2)] .
  ultimately show ?case using Cons.IH [OF ck(4)] ck(3) pk by auto
qed simp

definition catalogEntry :: "table_metadata \<Rightarrow> column_meta \<Rightarrow> table_column_metadata" where
  "catalogEntry meta c = the (catalogOf meta c)"

lemma columnNames_fold:
  "(\<forall>c\<in>set cs. map_option cs_relationOid (cm_source c) = Some oid \<and> catalogOf meta c \<noteq> None) \<Longrightarrow> distinct (map cm_name cs) \<Longrightarrow>
   (\<forall>c\<in>set cs. cm_name c \<notin> fst ` set m \<and> cm_name c \<notin> set ed) \<Longrightarrow>
   foldl (nameStep meta oid) (ed, m) cs
     = (ed @ map cm_name (filter (\<lambda>c. \<not> tc_isGenerated (catalogEntry meta c) \<and> \<not> unsupportedColumn c) cs),
        m @ map (\<lambda>c. (cm_name c, tc_name (catalogEntry meta c))) cs)"
proof (induction cs arbitrary: ed m)
  case (Cons c cs)
  let ?k = "catalogEntry meta c"
  let ?ed = "if \<not> tc_isGenerated ?k \<and> \<not> unsupportedColumn c then ed @ [cm_name c] else ed"
  have "nameStep meta oid (ed, m) c = (?ed, m @ [(cm_name c, tc_name ?k)])"
    using Cons.prems by (auto simp: nameStep_def catalogOf_def catalogEntry_def js_set_add_def update_fresh split: option.splits)
  moreover have "foldl (nameStep meta oid) (?ed, m @ [(cm_name c, tc_name ?k)]) cs
     = (?ed @ map cm_name (filter (\<lambda>c. \<not> tc_isGenerated (catalogEntry meta c) \<and> \<not> unsupportedColumn c) cs),
        (m @ [(cm_name c, tc_name ?k)]) @ map (\<lambda>c. (cm_name c, tc_name (catalogEntry meta c))) cs)"
  proof (rule Cons.IH)
    have "cm_name d \<noteq> cm_name c" if d: "d \<in> set cs" for d
      using Cons.prems(2) image_eqI [OF refl d, of cm_name] by auto
    then show "\<forall>d\<in>set cs. cm_name d \<notin> fst ` set (m @ [(cm_name c, tc_name ?k)]) \<and> cm_name d \<notin> set ?ed"
      using Cons.prems(3) by auto
  qed (use Cons.prems in auto)
  ultimately show ?case by simp
qed simp

lemma analyzeColumns_Editable:
  assumes "analyzeColumns columns meta oid xmin = Editable info"
  defines "visible \<equiv> visibleColumns columns xmin"
  shows "tm_relationOid meta = oid" "\<forall>i<length columns. cm_index (columns ! i) = int i"
    and "\<forall>k\<in>set (tm_columns meta). tc_name k \<noteq> xminName \<and> \<not> unsafeName (tc_name k)"
    and "checkVisible oid xmin visible [] [] = None"
    and "\<forall>c\<in>set visible. map_option tc_pgTypeOid (catalogOf meta c) = Some (cm_pgTypeOid c)"
    and "pkColumns meta visible (tm_primaryKey meta) = Some (ei_pk info)" "ei_pk info \<noteq> []"
    and "info = \<lparr>ei_relationOid = oid, ei_meta = meta, ei_xminColumnIndex = xmin, ei_pk = ei_pk info,
           ei_editableColumns = fst (columnNames meta oid visible), ei_catalogName = snd (columnNames meta oid visible),
           ei_lockMode = (if xmin \<noteq> None then LockXmin else LockDisplayed)\<rparr>"
  using assms(1) unfolding analyzeColumns_def visible_def [symmetric] Let_def
  by (auto split: if_splits option.splits)

lemma catalogOf_entry:
  assumes "map_option tc_pgTypeOid (catalogOf meta c) = Some t"
  shows "catalogOf meta c \<noteq> None" "catalogEntry meta c \<in> set (tm_columns meta)"
    "tc_attributeNumber (catalogEntry meta c) = attnumOf c" "tc_pgTypeOid (catalogEntry meta c) = t"
proof -
  obtain src k where src: "cm_source c = Some src" "map_of (catalogByAttnum meta) (cs_attributeNumber src) = Some k" "tc_pgTypeOid k = t"
    using assms by (auto simp: catalogOf_def split: bind_splits)
  then have k: "catalogOf meta c = Some k" by (simp add: catalogOf_def)
  with catalogByAttnum_SomeD [OF src(2)] src show "catalogOf meta c \<noteq> None" "catalogEntry meta c \<in> set (tm_columns meta)"
    "tc_attributeNumber (catalogEntry meta c) = attnumOf c" "tc_pgTypeOid (catalogEntry meta c) = t"
    by (simp_all add: catalogEntry_def attnumOf_def)
qed

text \<open>The columns of an editable result: their shape as one predicate.\<close>

definition info_ok :: "column_meta list \<Rightarrow> editable_info \<Rightarrow> bool" where
  "info_ok columns info \<longleftrightarrow>
     (let visible = visibleColumns columns (ei_xminColumnIndex info); meta = ei_meta info in
      ei_catalogName info = map (\<lambda>c. (cm_name c, tc_name (catalogEntry meta c))) visible
      \<and> distinct (map cm_name visible)
      \<and> (\<forall>c\<in>set visible. catalogEntry meta c \<in> set (tm_columns meta)
            \<and> tc_attributeNumber (catalogEntry meta c) = attnumOf c \<and> cm_name c \<noteq> xminName)
      \<and> (\<forall>k\<in>set (tm_columns meta). tc_name k \<noteq> xminName \<and> tc_name k \<noteq> '''')
      \<and> inj_on attnumOf (set visible)
      \<and> ei_pk info \<noteq> [])"

lemma inj_on_distinct_map: "distinct (map f xs) \<Longrightarrow> inj_on f (set xs)"
  by (simp add: distinct_map)

lemma analyzeColumns_info_ok:
  assumes "analyzeColumns columns meta oid xmin = Editable info"
  shows "info_ok columns info" "ei_xminColumnIndex info = xmin" "ei_meta info = meta" "ei_relationOid info = oid"
    "ei_editableColumns info = map cm_name (filter (\<lambda>c. \<not> tc_isGenerated (catalogEntry meta c) \<and> \<not> unsupportedColumn c)
        (visibleColumns columns xmin))"
proof -
  note a = analyzeColumns_Editable [OF assms]
  note v = checkVisible_None [OF a(4)]
  let ?vis = "visibleColumns columns xmin"
  have some: "\<forall>c\<in>set ?vis. catalogOf meta c \<noteq> None" using a(5) catalogOf_entry(1) by blast
  have names: "columnNames meta oid ?vis
     = (map cm_name (filter (\<lambda>c. \<not> tc_isGenerated (catalogEntry meta c) \<and> \<not> unsupportedColumn c) ?vis),
        map (\<lambda>c. (cm_name c, tc_name (catalogEntry meta c))) ?vis)"
    using columnNames_fold [of ?vis oid meta "[]" "[]"] v some by (simp add: columnNames_def)
  have i: "ei_xminColumnIndex info = xmin" "ei_meta info = meta" "ei_relationOid info = oid"
    "ei_catalogName info = snd (columnNames meta oid ?vis)" "ei_editableColumns info = fst (columnNames meta oid ?vis)"
    by (subst a(8), simp)+
  show "ei_xminColumnIndex info = xmin" "ei_meta info = meta" "ei_relationOid info = oid" using i by auto
  show "ei_editableColumns info = map cm_name (filter (\<lambda>c. \<not> tc_isGenerated (catalogEntry meta c) \<and> \<not> unsupportedColumn c) ?vis)"
    by (simp add: i(5) names)
  show "info_ok columns info"
    unfolding info_ok_def Let_def i(1,2,4) names snd_conv
    using v a(3,5,7) catalogOf_entry inj_on_distinct_map by (auto simp: unsafeName_def)
qed

text \<open>Claim C31: an editable result is what the editor takes it for. Its identity columns are the
  primary key of the table, in order and not empty, and each one is displayed at the given index
  by a column with exactly that origin. Every visible column comes from the table, has the type
  of its catalog column and is written under that catalog column's name; no two visible
  columns share a name or an origin; and only visible columns that are not generated are editable.\<close>

theorem editable_result_sound:
  assumes "analyzeColumns columns meta oid xmin = Editable info"
  shows "map pk_attributeNumber (ei_pk info) = tm_primaryKey meta \<and> ei_pk info \<noteq> []
    \<and> (\<forall>p\<in>set (ei_pk info). \<exists>c k. js_at columns (pk_columnIndex p) = Some c \<and> k \<in> set (tm_columns meta)
         \<and> cm_source c = Some \<lparr>cs_relationOid = oid, cs_attributeNumber = pk_attributeNumber p\<rparr>
         \<and> tc_attributeNumber k = pk_attributeNumber p \<and> pk_columnName p = tc_name k)
    \<and> (\<forall>c\<in>set (visibleColumns columns xmin). \<exists>k\<in>set (tm_columns meta).
         map_of (ei_catalogName info) (cm_name c) = Some (tc_name k) \<and> tc_pgTypeOid k = cm_pgTypeOid c
         \<and> cm_source c = Some \<lparr>cs_relationOid = oid, cs_attributeNumber = tc_attributeNumber k\<rparr>
         \<and> (cm_name c \<in> set (ei_editableColumns info) \<longrightarrow> \<not> tc_isGenerated k))
    \<and> distinct (map cm_name (visibleColumns columns xmin)) \<and> distinct (map cm_source (visibleColumns columns xmin))
    \<and> set (ei_editableColumns info) \<subseteq> cm_name ` set (visibleColumns columns xmin)"
proof -
  note a = analyzeColumns_Editable [OF assms]
  note v = checkVisible_None [OF a(4)]
  note pk = pkColumns_Some [OF a(6)]
  note i = analyzeColumns_info_ok [OF assms]
  let ?vis = "visibleColumns columns xmin"
  have src: "cm_source c = Some \<lparr>cs_relationOid = oid, cs_attributeNumber = attnumOf c\<rparr>" if c: "c \<in> set ?vis" for c
    using v c by (cases "cm_source c") (auto simp: attnumOf_def)
  have at: "js_at columns (cm_index c) = Some c" if c: "c \<in> set ?vis" for c
  proof -
    have "c \<in> set columns" using c by (simp add: visibleColumns_def)
    then obtain n where "n < length columns" "c = columns ! n" by (auto simp: in_set_conv_nth)
    then show ?thesis using a(2) by simp
  qed
  have names: "ei_catalogName info = map (\<lambda>c. (cm_name c, tc_name (catalogEntry meta c))) ?vis" "distinct (map cm_name ?vis)"
    using i(1) unfolding info_ok_def Let_def i(2,3) by auto
  have get: "map_of (ei_catalogName info) (cm_name c) = Some (tc_name (catalogEntry meta c))" if c: "c \<in> set ?vis" for c
    using c names by (intro map_of_is_SomeI) (auto simp: comp_def)
  have edit: "\<not> tc_isGenerated (catalogEntry meta c)" if c: "c \<in> set ?vis" "cm_name c \<in> set (ei_editableColumns info)" for c
    using c inj_on_distinct_map [OF names(2)] unfolding i(5) by (auto dest: inj_onD)
  have col: "\<exists>k\<in>set (tm_columns meta). map_of (ei_catalogName info) (cm_name c) = Some (tc_name k)
      \<and> tc_pgTypeOid k = cm_pgTypeOid c \<and> cm_source c = Some \<lparr>cs_relationOid = oid, cs_attributeNumber = tc_attributeNumber k\<rparr>
      \<and> (cm_name c \<in> set (ei_editableColumns info) \<longrightarrow> \<not> tc_isGenerated k)" if c: "c \<in> set ?vis" for c
    using catalogOf_entry [of meta c "cm_pgTypeOid c"] a(5) src [OF c] get [OF c] edit [OF c] c
    by (intro bexI [of _ "catalogEntry meta c"]) auto
  have sources: "distinct (map cm_source ?vis)"
    using v src unfolding distinct_map inj_on_def by (metis column_source.ext_inject option.inject)
  have keys: "\<forall>p\<in>set (ei_pk info). \<exists>c k. js_at columns (pk_columnIndex p) = Some c \<and> k \<in> set (tm_columns meta)
         \<and> cm_source c = Some \<lparr>cs_relationOid = oid, cs_attributeNumber = pk_attributeNumber p\<rparr>
         \<and> tc_attributeNumber k = pk_attributeNumber p \<and> pk_columnName p = tc_name k"
    using pk src at by metis
  have sub: "set (ei_editableColumns info) \<subseteq> cm_name ` set ?vis" unfolding i(5) by auto
  show ?thesis using pk a(7) keys col names(2) sources sub by blast
qed

definition example_meta :: table_metadata where
  "example_meta = \<lparr>tm_relationOid = 7, tm_schema = ''public'', tm_name = ''users'', tm_kind = ''table'',
     tm_columns = [\<lparr>tc_attributeNumber = 1, tc_name = ''id'', tc_pgTypeOid = 20, tc_pgTypeName = ''int8'', tc_nullable = False,
        tc_defaultExpr = None, tc_comment = None, tc_isGenerated = False, tc_isPrimaryKey = True\<rparr>,
       \<lparr>tc_attributeNumber = 2, tc_name = ''name'', tc_pgTypeOid = 25, tc_pgTypeName = ''text'', tc_nullable = True,
        tc_defaultExpr = None, tc_comment = None, tc_isGenerated = False, tc_isPrimaryKey = False\<rparr>],
     tm_primaryKey = [1], tm_uniqueKeys = [], tm_rowLevelSecurity = False\<rparr>"

definition example_columns :: "column_meta list" where
  "example_columns = [\<lparr>cm_index = 0, cm_name = ''id'', cm_pgTypeOid = 20, cm_pgTypeName = ''int8'', cm_category = IntegerC,
      cm_source = Some \<lparr>cs_relationOid = 7, cs_attributeNumber = 1\<rparr>, cm_nullable = Some False, cm_editable = True\<rparr>,
     \<lparr>cm_index = 1, cm_name = ''n'', cm_pgTypeOid = 25, cm_pgTypeName = ''text'', cm_category = TextC,
      cm_source = Some \<lparr>cs_relationOid = 7, cs_attributeNumber = 2\<rparr>, cm_nullable = Some True, cm_editable = True\<rparr>]"

definition example_info :: editable_info where
  "example_info = \<lparr>ei_relationOid = 7, ei_meta = example_meta, ei_xminColumnIndex = None,
     ei_pk = [\<lparr>pk_attributeNumber = 1, pk_columnName = ''id'', pk_columnIndex = 0\<rparr>],
     ei_editableColumns = [''id'', ''n''], ei_catalogName = [(''id'', ''id''), (''n'', ''name'')], ei_lockMode = LockDisplayed\<rparr>"

lemma example_analyze: "analyzeColumns example_columns example_meta 7 None = Editable example_info"
  by code_simp

theorem editable_result_sound_witness:
  "analyzeColumns example_columns example_meta 7 None = Editable example_info
   \<and> map pk_attributeNumber (ei_pk example_info) = tm_primaryKey example_meta
   \<and> distinct (map cm_source (visibleColumns example_columns None))"
  using editable_result_sound [OF example_analyze] example_analyze by blast

subsection \<open>The gate of query results\<close>

definition blockedWords :: "string list" where
  "blockedWords = [''JOIN'', ''HAVING'', ''DISTINCT'', ''UNION'', ''INTERSECT'', ''EXCEPT'', ''OVER'', ''INTO'', ''RETURNING'']"

text \<open>The word \<open>w\<close>, in any case, stands at \<open>i\<close> and is a word of its own.\<close>

definition wordAt :: "string \<Rightarrow> string \<Rightarrow> nat \<Rightarrow> bool" where
  "wordAt w s i \<longleftrightarrow> i + length w \<le> length s \<and> to_upper (slice s i (i + length w)) = w
     \<and> word_boundary s i \<and> word_boundary s (i + length w)"

lemma ends_SeqI: "j \<in> set (ends p s i) \<Longrightarrow> e \<in> set (ends q s j) \<Longrightarrow> e \<in> set (ends (Seq p q) s i)"
  by auto

lemma ends_WordBI: "word_boundary s i \<Longrightarrow> i \<in> set (ends WordB s i)"
  by simp

lemma wordAt_ends:
  assumes "wordAt w s i" "w \<noteq> []" "to_upper w = w"
  shows "ends (word_i w) s i = [i + length w]"
  using assms by (simp add: ends_word_i wordAt_def)

lemma blocked_word_found:
  assumes "wordAt w s i" "w \<in> set blockedWords"
  shows "re_test BLOCKED s"
proof -
  have up: "w \<noteq> [] \<and> to_upper w = w"
    using assms(2) by (auto simp: blockedWords_def to_upper_def to_upper_char_def is_lower_def Let_def)
  let ?ws = "alts [word_i ''JOIN'', wordPair ''GROUP'' ''BY'', words_i [''HAVING'', ''DISTINCT'', ''UNION'', ''INTERSECT'',
     ''EXCEPT'', ''OVER'', ''INTO'', ''RETURNING'']]"
  have "i + length w \<in> set (ends ?ws s i)"
    using wordAt_ends [OF assms(1)] up assms(2) by (auto simp: blockedWords_def words_i_def)
  moreover have b: "word_boundary s i" "word_boundary s (i + length w)" "i \<le> length s"
    using assms(1) by (auto simp: wordAt_def)
  ultimately have "i + length w \<in> set (ends (Seq WordB (Seq ?ws WordB)) s i)"
    by (intro ends_SeqI [OF ends_WordBI] ends_SeqI [OF _ ends_WordBI])
  then have "ends (seqs [WordB, ?ws, WordB]) s i \<noteq> []" by (metis empty_iff empty_set seqs.simps(2,3))
  then have "ends BLOCKED s i \<noteq> []" unfolding BLOCKED_def alts.simps(3) [of "seqs [WordB, ?ws, WordB]"] ends.simps(4)
    by (simp only: append_is_Nil_conv simp_thms)
  then show ?thesis using b(3) by (auto simp: re_test_iff)
qed



end
