(* ===== verification/Save_Changes.thy ===== *)
theory Save_Changes
  imports Editability Result_Store
begin

text \<open>
  Saving the drafts of a result, \<open>src/features/data-editing/saveChanges.ts\<close>: the row changes
  that are sent to the backend, the commit with its event channel, and what the events do to the
  row store and the edit buffer. \<open>commitChangeSet\<close> is split at its \<open>await\<close>: \<open>commitStart\<close>,
  \<open>commitMessage\<close> for every event, \<open>commitCall\<close> for the end of the backend call and
  \<open>commitSettle\<close> for the continuation with its \<open>finally\<close> block.
\<close>

subsection \<open>Row changes\<close>

datatype save_error = UndefinedRow | Unexportable export_error

fun textOf :: "db_value option \<Rightarrow> string option" where
  "textOf None = None"
| "textOf (Some VNull) = None"
| "textOf (Some (VBoolean b)) = Some (if b then ''true'' else ''false'')"
| "textOf (Some (VBinary enc val len trunc h)) = None"
| "textOf (Some (VArray ds vs t)) = None"
| "textOf (Some (VInteger s)) = Some s"
| "textOf (Some (VDecimal s)) = Some s"
| "textOf (Some (VFloat s)) = Some s"
| "textOf (Some (VText s)) = Some s"
| "textOf (Some (VUuid s)) = Some s"
| "textOf (Some (VTemporal t s)) = Some s"
| "textOf (Some (VJson s t)) = Some s"
| "textOf (Some (VEnum s t)) = Some s"
| "textOf (Some (VNetwork s t)) = Some s"
| "textOf (Some (VRange s t)) = Some s"
| "textOf (Some (VComposite s t)) = Some s"
| "textOf (Some (VUnknown s oid t)) = Some s"

definition draftValue :: "string option \<Rightarrow> db_value" where
  "draftValue value = (case value of None \<Rightarrow> VNull | Some s \<Rightarrow> VText s)"

text \<open>\<open>row[i]\<close> for a row that may be \<open>undefined\<close>, which throws.\<close>

definition cellOf :: "db_value list option \<Rightarrow> int \<Rightarrow> save_error + db_value option" where
  "cellOf row i = (case row of None \<Rightarrow> Inl UndefinedRow | Some r \<Rightarrow> Inr (js_at r i))"

definition pkValue :: "db_value list option \<Rightarrow> pk_column \<Rightarrow> save_error + primary_key_value" where
  "pkValue row p = (case cellOf row (pk_columnIndex p) of
     Inl e \<Rightarrow> Inl e
   | Inr v \<Rightarrow> Inr \<lparr>pv_attributeNumber = pk_attributeNumber p, pv_columnName = pk_columnName p, pv_value = v\<rparr>)"

definition identityFor :: "editable_info \<Rightarrow> db_value list list \<Rightarrow> int \<Rightarrow> save_error + row_identity" where
  "identityFor info rows rowIndex =
     (let row = js_at rows rowIndex in
      case map_throw (pkValue row) (ei_pk info) of
        Inl e \<Rightarrow> Inl e
      | Inr pk \<Rightarrow>
         (case ei_xminColumnIndex info of
            None \<Rightarrow> Inr \<lparr>ri_relationOid = ei_relationOid info, ri_primaryKey = pk, ri_xmin = None\<rparr>
          | Some i \<Rightarrow>
             (case cellOf row i of
                Inl e \<Rightarrow> Inl e
              | Inr v \<Rightarrow> Inr \<lparr>ri_relationOid = ei_relationOid info, ri_primaryKey = pk, ri_xmin = textOf v\<rparr>)))"

fun is_binary :: "db_value \<Rightarrow> bool" where
  "is_binary (VBinary enc val len trunc h) = True"
| "is_binary v = False"

fun originalsLoop :: "editable_info \<Rightarrow> db_value list option \<Rightarrow> column_meta list \<Rightarrow> (string, db_value) js_map
    \<Rightarrow> save_error + (string, db_value) js_map" where
  "originalsLoop info row [] out = Inr out"
| "originalsLoop info row (col # cols) out =
     (let catalog = map_of (ei_catalogName info) (cm_name col) in
      if \<not> truthy_str catalog then originalsLoop info row cols out
      else case cellOf row (cm_index col) of
        Inl e \<Rightarrow> Inl e
      | Inr None \<Rightarrow> originalsLoop info row cols out
      | Inr (Some v) \<Rightarrow>
          if is_array v \<and> cm_pgTypeOid col = 1009
          then (case exportText (Some v) of
                  Inl e \<Rightarrow> Inl (Unexportable e)
                | Inr s \<Rightarrow> originalsLoop info row cols (AList.update (the catalog) (VText s) out))
          else if \<not> is_binary v \<and> \<not> is_array v
          then originalsLoop info row cols (AList.update (the catalog) v out)
          else originalsLoop info row cols out)"

definition originalsFor :: "editable_info \<Rightarrow> column_meta list \<Rightarrow> db_value list list \<Rightarrow> int
    \<Rightarrow> save_error + (string, db_value) js_map" where
  "originalsFor info columns rows rowIndex =
     (if ei_lockMode info = LockXmin then Inr [] else originalsLoop info (js_at rows rowIndex) columns [])"

text \<open>\<open>info.catalogName[name] ?? name\<close>.\<close>

definition catalogOr :: "editable_info \<Rightarrow> string \<Rightarrow> string" where
  "catalogOr info name = nullish (map_of (ei_catalogName info) name) name"

definition deleteId :: "int \<Rightarrow> string" where
  "deleteId i = ''d:'' @ show_int i"

definition updateId :: "int \<Rightarrow> string" where
  "updateId i = ''u:'' @ show_int i"

definition deleteChange :: "editable_info \<Rightarrow> column_meta list \<Rightarrow> db_value list list \<Rightarrow> int \<Rightarrow> save_error + row_change" where
  "deleteChange info columns rows rowIndex =
     (case identityFor info rows rowIndex of
        Inl e \<Rightarrow> Inl e
      | Inr rid \<Rightarrow> (case originalsFor info columns rows rowIndex of
            Inl e \<Rightarrow> Inl e | Inr orig \<Rightarrow> Inr (DeleteChange (deleteId rowIndex) rid orig)))"

definition changedCells :: "editable_info \<Rightarrow> (string, cell_draft) js_map \<Rightarrow> (string, db_value) js_map" where
  "changedCells info cells = foldl (\<lambda>m (name, draft). AList.update (catalogOr info name) (draftValue draft) m) [] cells"

definition updateChange :: "editable_info \<Rightarrow> column_meta list \<Rightarrow> db_value list list \<Rightarrow> int \<times> (string, cell_draft) js_map
    \<Rightarrow> save_error + row_change" where
  "updateChange info columns rows u =
     (case identityFor info rows (fst u) of
        Inl e \<Rightarrow> Inl e
      | Inr rid \<Rightarrow> (case originalsFor info columns rows (fst u) of
            Inl e \<Rightarrow> Inl e
          | Inr orig \<Rightarrow> Inr (UpdateChange (updateId (fst u)) rid orig (changedCells info (snd u)))))"

fun insertValue :: "insert_cell \<Rightarrow> insert_cell_draft" where
  "insertValue (CellValue s) = DraftValue (VText s)"
| "insertValue CellNull = DraftNull"
| "insertValue CellDefault = DraftDefault"

definition insertChange :: "editable_info \<Rightarrow> insert_draft \<Rightarrow> row_change" where
  "insertChange info d = InsertChange (''i:'' @ id_draftId d)
     (foldl (\<lambda>m (name, cell). AList.update (catalogOr info name) (insertValue cell) m) [] (id_cells d))"

definition buildRowChanges :: "editable_info \<Rightarrow> column_meta list \<Rightarrow> db_value list list \<Rightarrow> edit_snapshot
    \<Rightarrow> save_error + row_change list" where
  "buildRowChanges info columns rows edits =
     (case map_throw (deleteChange info columns rows) (es_deletes edits) of
        Inl e \<Rightarrow> Inl e
      | Inr ds \<Rightarrow>
         (case map_throw (updateChange info columns rows)
                 (filter (\<lambda>(i, cells). i \<notin> set (es_deletes edits)) (es_updates edits)) of
            Inl e \<Rightarrow> Inl e
          | Inr us \<Rightarrow> Inr (ds @ us @ map (insertChange info) (es_inserts edits))))"

subsection \<open>Server rows\<close>

definition serverCell :: "editable_info \<Rightarrow> updated_row \<Rightarrow> db_value list option \<Rightarrow> column_meta \<Rightarrow> db_value" where
  "serverCell info updated fallback col =
     (let old = Option.bind fallback (\<lambda>r. js_at r (cm_index col)) in
      if cm_name col = xminName
      then (case ur_xmin updated of Some x \<Rightarrow> VText x | None \<Rightarrow> nullish old VNull)
      else nullish (nullish_opt (map_of (ur_values updated) (catalogOr info (cm_name col))) old) VNull)"

definition serverRowToGridRow :: "column_meta list \<Rightarrow> editable_info \<Rightarrow> updated_row \<Rightarrow> db_value list option \<Rightarrow> db_value list" where
  "serverRowToGridRow columns info updated fallback = map (serverCell info updated fallback) columns"

text \<open>
  \<open>Number(s)\<close> for the texts that row ids carry: optional blanks, an optional sign and decimal
  digits, where no digits at all give 0. Every other text is read as \<open>NaN\<close>, which is \<open>None\<close>.
\<close>

definition parse_digits :: "string \<Rightarrow> nat option" where
  "parse_digits s = (if list_all is_digit s then Some (foldl (\<lambda>n c. 10 * n + (code c - 48)) 0 s) else None)"

definition js_number :: "string \<Rightarrow> int option" where
  "js_number s = (case trim s of
       [] \<Rightarrow> Some 0
     | c # ds \<Rightarrow>
        if c = CHR ''-'' \<and> ds \<noteq> [] then map_option (\<lambda>n. - int n) (parse_digits ds)
        else if c = CHR ''+'' \<and> ds \<noteq> [] then map_option int (parse_digits ds)
        else map_option int (parse_digits (c # ds)))"

text \<open>The loop of \<open>applyUpdatedRows\<close>: replaced rows as they come, deleted indices and inserted rows collected.\<close>

definition updatedStep :: "string \<Rightarrow> editable_info \<Rightarrow> result_snapshot \<Rightarrow> result_store \<times> int option list \<times> db_value list list
    \<Rightarrow> updated_row \<Rightarrow> result_store \<times> int option list \<times> db_value list list" where
  "updatedStep tab info snapshot acc r =
     (case acc of (st, deleted, inserted) \<Rightarrow>
      let kind = take 2 (ur_rowId r); idx = js_number (drop 2 (ur_rowId r)) in
      if kind = ''u:''
      then (case idx of
              None \<Rightarrow> replaceRow st tab (- 1) (serverRowToGridRow (rs_columns snapshot) info r None)
            | Some i \<Rightarrow> replaceRow st tab i (serverRowToGridRow (rs_columns snapshot) info r
                          (js_at (rst_heap st (rs_rows snapshot)) i)), deleted, inserted)
      else if kind = ''d:'' then (st, deleted @ [idx], inserted)
      else if kind = ''i:'' then (st, deleted, inserted @ [serverRowToGridRow (rs_columns snapshot) info r None])
      else acc)"

text \<open>\<open>None\<close> when an id of a deleted row is no number: the splice of \<open>NaN\<close> is not modelled.\<close>

definition applyUpdatedRows :: "result_store \<Rightarrow> string \<Rightarrow> updated_row list \<Rightarrow> editable_info \<Rightarrow> result_store option" where
  "applyUpdatedRows st tab rows info =
     (case foldl (updatedStep tab info (getResult st tab)) (st, [], []) rows of
        (st1, deleted, inserted) \<Rightarrow>
          if None \<in> set deleted then None
          else let st2 = (if deleted \<noteq> [] then removeRows st1 tab (map the deleted) else st1)
               in Some (if inserted \<noteq> [] then pushRows st2 tab inserted else st2))"

definition conflictIndex :: "row_conflict \<Rightarrow> int option" where
  "conflictIndex c = (if take 2 (rcf_rowId c) = ''u:'' \<or> take 2 (rcf_rowId c) = ''d:''
     then js_number (drop 2 (rcf_rowId c)) else None)"

definition conflictStep :: "string \<Rightarrow> editable_info \<Rightarrow> result_snapshot \<Rightarrow> result_store \<times> int list \<times> int list
    \<Rightarrow> row_conflict \<Rightarrow> result_store \<times> int list \<times> int list" where
  "conflictStep tab info snapshot acc c =
     (case acc of (st, resolved, removed) \<Rightarrow>
      case conflictIndex c of
        None \<Rightarrow> acc
      | Some idx \<Rightarrow>
          let rows = rst_heap st (rs_rows snapshot) in
          if \<bar>idx\<bar> > MAX_SAFE_INTEGER \<or> idx < 0 \<or> idx \<ge> int (length rows) then acc
          else case rcf_current c of
                 Some current \<Rightarrow>
                   (replaceRow st tab idx (serverRowToGridRow (rs_columns snapshot) info
                      \<lparr>ur_rowId = rcf_rowId c, ur_operation = ''current'', ur_values = current,
                       ur_xmin = textOf (map_of current xminName)\<rparr> (js_at rows idx)),
                    resolved @ [idx], removed)
               | None \<Rightarrow> (st, resolved @ [idx], removed @ [idx]))"

definition applyServerValues :: "edit_store \<Rightarrow> result_store \<Rightarrow> string \<Rightarrow> row_conflict list \<Rightarrow> editable_info
    \<Rightarrow> edit_store \<times> result_store" where
  "applyServerValues edits st tab conflicts info =
     (case foldl (conflictStep tab info (getResult st tab)) (st, [], []) conflicts of
        (st1, resolved, removed) \<Rightarrow> (resolveRows edits tab resolved removed, removeRows st1 tab removed))"

subsection \<open>The commit\<close>

datatype commit_outcome =
    CommitCompleted nat
  | CommitConflict "row_conflict list"
  | CommitFailed string "string option"

datatype promise = Pending | Resolved commit_outcome | Rejected

record commit_run =
  cr_tab :: string
  cr_info :: editable_info
  cr_originalRows :: nat
  cr_terminal :: bool
  cr_promise :: promise

record save_state =
  sv_edits :: edit_store
  sv_results :: result_store
  sv_run :: commit_run

definition commitStart :: "edit_store \<Rightarrow> result_store \<Rightarrow> string \<Rightarrow> editable_info \<Rightarrow> save_state" where
  "commitStart edits st tab info = \<lparr>sv_edits = setLocked edits tab True, sv_results = st,
     sv_run = \<lparr>cr_tab = tab, cr_info = info, cr_originalRows = rs_rows (getResult st tab), cr_terminal = False, cr_promise = Pending\<rparr>\<rparr>"

text \<open>A promise settles once.\<close>

definition settle :: "promise \<Rightarrow> commit_run \<Rightarrow> commit_run" where
  "settle p r = (if cr_promise r = Pending then r\<lparr>cr_promise := p\<rparr> else r)"

definition failureText :: "app_error \<Rightarrow> string" where
  "failureText e = ae_message e @ (if truthy_str (ae_sqlState e) then '' (SQLSTATE '' @ the (ae_sqlState e) @ '')'' else '''')"

fun commitEvent :: "save_state \<Rightarrow> changes_commit_event \<Rightarrow> save_state option" where
  "commitEvent s (CeStarted n) = Some s"
| "commitEvent s (CeProgress n) = Some s"
| "commitEvent s (CeCompleted rows) =
     (let r = sv_run s in
      map_option (\<lambda>st. s\<lparr>sv_results := st, sv_run := settle (Resolved (CommitCompleted (length rows))) r\<rparr>)
        (if rs_rows (getResult (sv_results s) (cr_tab r)) = cr_originalRows r
         then applyUpdatedRows (sv_results s) (cr_tab r) rows (cr_info r) else Some (sv_results s)))"
| "commitEvent s (CeConflict conflicts) =
     Some (s\<lparr>sv_run := settle (Resolved (CommitConflict conflicts)) (sv_run s)\<rparr>)"
| "commitEvent s (CeFailed e) =
     Some (s\<lparr>sv_run := settle (Resolved (CommitFailed (failureText e) (ae_sqlState e))) (sv_run s)\<rparr>)"

fun isTerminalEvent :: "changes_commit_event \<Rightarrow> bool" where
  "isTerminalEvent (CeStarted n) = False"
| "isTerminalEvent (CeProgress n) = False"
| "isTerminalEvent e = True"

definition commitMessage :: "save_state \<Rightarrow> changes_commit_event \<Rightarrow> save_state option" where
  "commitMessage s e =
     (if cr_terminal (sv_run s) then Some s
      else commitEvent (s\<lparr>sv_run := (sv_run s)\<lparr>cr_terminal := isTerminalEvent e\<rparr>\<rparr>) e)"

text \<open>The backend call ended, well or with an error.\<close>

definition commitCall :: "save_state \<Rightarrow> bool \<Rightarrow> save_state" where
  "commitCall s ok = s\<lparr>sv_run := (if ok \<and> cr_terminal (sv_run s) then sv_run s else settle Rejected (sv_run s))\<rparr>"

text \<open>The continuation, once the promise is settled: \<open>None\<close> while it is pending.\<close>

definition commitSettle :: "save_state \<Rightarrow> save_state option" where
  "commitSettle s = (let r = sv_run s; unlock = (\<lambda>ed. setLocked ed (cr_tab r) False) in
     case cr_promise r of
       Pending \<Rightarrow> None
     | Rejected \<Rightarrow> Some (s\<lparr>sv_edits := unlock (sv_edits s)\<rparr>)
     | Resolved outcome \<Rightarrow> Some (s\<lparr>sv_edits := unlock (case outcome of
           CommitCompleted n \<Rightarrow> clearEdits (sv_edits s) (cr_tab r) | _ \<Rightarrow> sv_edits s)\<rparr>))"

subsection \<open>Row ids\<close>

lemma digit_char_facts:
  assumes "d < 10"
  shows "is_digit (digit_char d)" "code (digit_char d) = 48 + d"
proof -
  have "code (digit_char d) = 48 + d" using assms by (simp add: digit_char_def)
  then show "is_digit (digit_char d)" "code (digit_char d) = 48 + d" using assms by (simp_all add: is_digit_def)
qed

lemma show_nat_digits: "show_nat n \<noteq> [] \<and> list_all is_digit (show_nat n)"
proof (induction n rule: show_nat.induct)
  case (1 n)
  then show ?case using digit_char_facts(1) by (subst (1 2) show_nat.simps) simp
qed

lemma parse_show_nat: "foldl (\<lambda>n c. 10 * n + (code c - 48)) 0 (show_nat n) = n"
proof (induction n rule: show_nat.induct)
  case (1 n)
  show ?case
  proof (cases "n < 10")
    case False
    then show ?thesis using 1 digit_char_facts(2) [of "n mod 10"] by (subst show_nat.simps) simp
  qed (use digit_char_facts(2) [of n] in \<open>simp add: show_nat.simps\<close>)
qed

lemma trim_nospace: "(\<forall>c\<in>set s. \<not> is_space c) \<Longrightarrow> trim s = s"
proof -
  have id: "(\<forall>c\<in>set t. \<not> is_space c) \<Longrightarrow> dropWhile is_space t = t" for t by (cases t) auto
  from id [of s] id [of "rev s"] show "(\<forall>c\<in>set s. \<not> is_space c) \<Longrightarrow> trim s = s"
    by (simp add: trim_def trim_start_def trim_end_def)
qed

lemma digit_no_space: "is_digit c \<Longrightarrow> \<not> is_space c \<and> c \<noteq> CHR ''-'' \<and> c \<noteq> CHR ''+''"
  by (auto simp: is_digit_def is_space_def Let_def)

lemma js_number_show_int [simp]: "js_number (show_int i) = Some i"
proof -
  have num: "parse_digits (show_nat n) = Some n" for n
    using show_nat_digits [of n] parse_show_nat [of n] by (simp add: parse_digits_def)
  have sp: "\<forall>c\<in>set (show_nat n). \<not> is_space c" for n
    using show_nat_digits [of n] digit_no_space by (auto simp: list_all_iff)
  show ?thesis
  proof (cases "i < 0")
    case True
    have "trim (CHR ''-'' # show_nat (nat (- i))) = CHR ''-'' # show_nat (nat (- i))"
      using sp [of "nat (- i)"] by (intro trim_nospace) (auto simp: is_space_def Let_def)
    then show ?thesis using True num [of "nat (- i)"] show_nat_digits [of "nat (- i)"]
      by (simp add: js_number_def show_int_def)
  next
    case False
    obtain c ds where cs: "show_nat (nat i) = c # ds" using show_nat_digits [of "nat i"] by (cases "show_nat (nat i)") auto
    have "is_digit c" using show_nat_digits [of "nat i"] cs by simp
    then have "c \<noteq> CHR ''-''" "c \<noteq> CHR ''+''" using digit_no_space by auto
    then show ?thesis using False num [of "nat i"] trim_nospace [OF sp, of "nat i"] cs
      by (simp add: js_number_def show_int_def)
  qed
qed

lemma show_int_inj: "show_int i = show_int j \<longleftrightarrow> i = j"
  by (metis js_number_show_int option.inject)

lemma row_id_simps [simp]:
  "updateId i = updateId j \<longleftrightarrow> i = j" "deleteId i = deleteId j \<longleftrightarrow> i = j" "updateId i \<noteq> deleteId j" "deleteId j \<noteq> updateId i"
  "updateId i \<noteq> CHR ''i'' # s" "deleteId i \<noteq> CHR ''i'' # s"
  "take 2 (updateId i) = ''u:''" "take 2 (deleteId i) = ''d:''"
  "drop 2 (updateId i) = show_int i" "drop 2 (deleteId i) = show_int i"
  by (simp_all add: updateId_def deleteId_def show_int_inj)

subsection \<open>The changes that are sent\<close>

lemma changedCells_map:
  "changedCells info cells = js_map_of (map (\<lambda>(name, draft). (catalogOr info name, draftValue draft)) cells)"
  unfolding changedCells_def js_map_of_def foldl_map by (rule arg_cong [of _ _ "\<lambda>f. foldl f [] cells"]) auto

lemma catalogOr_visible:
  assumes "info_ok columns info" "c \<in> set (visibleColumns columns (ei_xminColumnIndex info))"
  shows "map_of (ei_catalogName info) (cm_name c) = Some (tc_name (catalogEntry (ei_meta info) c))"
    "catalogOr info (cm_name c) = tc_name (catalogEntry (ei_meta info) c)"
proof -
  show "map_of (ei_catalogName info) (cm_name c) = Some (tc_name (catalogEntry (ei_meta info) c))"
    using assms by (auto simp: info_ok_def Let_def comp_def intro!: map_of_is_SomeI)
  then show "catalogOr info (cm_name c) = tc_name (catalogEntry (ei_meta info) c)" by (simp add: catalogOr_def nullish_def)
qed

lemma catalogOr_inj:
  assumes ok: "info_ok columns info" and names: "distinct (map tc_name (tm_columns (ei_meta info)))"
  shows "inj_on (catalogOr info) (fst ` set (ei_catalogName info))"
proof (rule inj_onI)
  fix x y assume x: "x \<in> fst ` set (ei_catalogName info)" and y: "y \<in> fst ` set (ei_catalogName info)" and eq: "catalogOr info x = catalogOr info y"
  let ?vis = "visibleColumns columns (ei_xminColumnIndex info)" and ?e = "catalogEntry (ei_meta info)"
  obtain c d where c: "c \<in> set ?vis" "x = cm_name c" and d: "d \<in> set ?vis" "y = cm_name d"
    using x y ok by (auto simp: info_ok_def Let_def)
  have e: "?e c \<in> set (tm_columns (ei_meta info))" "?e d \<in> set (tm_columns (ei_meta info))"
    "tc_attributeNumber (?e c) = attnumOf c" "tc_attributeNumber (?e d) = attnumOf d"
    using ok c d by (auto simp: info_ok_def Let_def)
  have "tc_name (?e c) = tc_name (?e d)" using eq catalogOr_visible(2) [OF ok] c d by simp
  then have "?e c = ?e d" using inj_on_distinct_map [OF names] e by (auto dest: inj_onD)
  then have "attnumOf c = attnumOf d" using e by simp
  then have "c = d" using ok c d by (auto simp: info_ok_def Let_def dest: inj_onD)
  then show "x = y" using c d by simp
qed

lemma changedCells_exact:
  assumes "info_ok columns info" "distinct (map tc_name (tm_columns (ei_meta info)))"
    and "distinct (map fst cells)" "fst ` set cells \<subseteq> fst ` set (ei_catalogName info)"
  shows "changedCells info cells = map (\<lambda>(name, draft). (catalogOr info name, draftValue draft)) cells"
    and "distinct (map fst (changedCells info cells))"
proof -
  let ?es = "map (\<lambda>(name, draft). (catalogOr info name, draftValue draft)) cells"
  have "map fst ?es = map (catalogOr info) (map fst cells)" by auto
  moreover have "inj_on (catalogOr info) (set (map fst cells))"
    using inj_on_subset [OF catalogOr_inj [OF assms(1,2)]] assms(4) by simp
  ultimately have "distinct (map fst ?es)" using assms(3) by (metis distinct_map)
  then show "changedCells info cells = ?es" "distinct (map fst (changedCells info cells))"
    unfolding changedCells_map by (simp_all only: js_map_of_distinct)
qed

lemma list_all2_map_eq: "list_all2 (\<lambda>x y. P x y) xs ys \<Longrightarrow> (\<And>x y. P x y \<Longrightarrow> f y = g x) \<Longrightarrow> map f ys = map g xs"
  by (induction rule: list_all2_induct) auto

lemma list_all2_mem: "list_all2 P xs ys \<Longrightarrow> x \<in> set xs \<Longrightarrow> \<exists>y\<in>set ys. P x y"
  by (induction rule: list_all2_induct) auto

lemma deleteChange_Inr: "deleteChange info columns rows i = Inr ch \<Longrightarrow> \<exists>rid orig. ch = DeleteChange (deleteId i) rid orig \<and> identityFor info rows i = Inr rid"
  by (auto simp: deleteChange_def split: sum.splits)

lemma updateChange_Inr:
  "updateChange info columns rows u = Inr ch \<Longrightarrow>
   \<exists>rid orig. ch = UpdateChange (updateId (fst u)) rid orig (changedCells info (snd u)) \<and> identityFor info rows (fst u) = Inr rid"
  by (auto simp: updateChange_def split: sum.splits)

lemma buildRowChanges_parts:
  assumes "buildRowChanges info columns rows edits = Inr changes"
  obtains ds us where "list_all2 (\<lambda>i ch. deleteChange info columns rows i = Inr ch) (es_deletes edits) ds"
    and "list_all2 (\<lambda>u ch. updateChange info columns rows u = Inr ch)
           (filter (\<lambda>(i, cells). i \<notin> set (es_deletes edits)) (es_updates edits)) us"
    and "changes = ds @ us @ map (insertChange info) (es_inserts edits)"
  using assms unfolding buildRowChanges_def by (auto simp: map_throw_Inr split: sum.splits)

lemma buildRowChanges_ids:
  assumes "buildRowChanges info columns rows edits = Inr changes"
  shows "map rc_rowId changes = map deleteId (es_deletes edits)
     @ map updateId (map fst (filter (\<lambda>(i, cells). i \<notin> set (es_deletes edits)) (es_updates edits)))
     @ map (\<lambda>d. ''i:'' @ id_draftId d) (es_inserts edits)"
proof -
  from buildRowChanges_parts [OF assms] obtain ds us
    where ds: "list_all2 (\<lambda>i ch. deleteChange info columns rows i = Inr ch) (es_deletes edits) ds"
    and us: "list_all2 (\<lambda>u ch. updateChange info columns rows u = Inr ch)
           (filter (\<lambda>(i, cells). i \<notin> set (es_deletes edits)) (es_updates edits)) us"
    and changes: "changes = ds @ us @ map (insertChange info) (es_inserts edits)" .
  have "map rc_rowId ds = map deleteId (es_deletes edits)"
    using ds by (rule list_all2_map_eq) (auto dest: deleteChange_Inr)
  moreover have "map rc_rowId us = map (\<lambda>u. updateId (fst u)) (filter (\<lambda>(i, cells). i \<notin> set (es_deletes edits)) (es_updates edits))"
    using us by (rule list_all2_map_eq) (auto dest: updateChange_Inr)
  moreover have "map rc_rowId (map (insertChange info) (es_inserts edits)) = map (\<lambda>d. ''i:'' @ id_draftId d) (es_inserts edits)"
    by (simp add: insertChange_def)
  ultimately show ?thesis unfolding changes by (simp add: comp_def)
qed

lemma buildRowChanges_update:
  assumes "buildRowChanges info columns rows edits = Inr changes"
    and "u \<in> set (filter (\<lambda>(i, cells). i \<notin> set (es_deletes edits)) (es_updates edits))"
  shows "\<exists>ch\<in>set changes. updateChange info columns rows u = Inr ch"
proof -
  from buildRowChanges_parts [OF assms(1)] obtain ds us
    where us: "list_all2 (\<lambda>u ch. updateChange info columns rows u = Inr ch)
           (filter (\<lambda>(i, cells). i \<notin> set (es_deletes edits)) (es_updates edits)) us"
    and changes: "changes = ds @ us @ map (insertChange info) (es_inserts edits)" .
  have sub: "set us \<subseteq> set changes" unfolding changes by auto
  show ?thesis using list_all2_mem [OF us assms(2)] sub by blast
qed


subsection \<open>Server values in the grid\<close>

lemma replaceRow_tab:
  assumes "map_of (rst_states st) tab = Some s"
  shows "map_of (rst_states (replaceRow st tab i row)) tab = Some s"
    and "rst_heap (replaceRow st tab i row) (rs_rows s)
      = (if 0 \<le> i \<and> i < int (length (rst_heap st (rs_rows s))) then (rst_heap st (rs_rows s))[nat i := row] else rst_heap st (rs_rows s))"
  using assms by (simp_all add: replaceRow_def map_of_update_snapshot heap_update_snapshot)

lemma removeRows_rows:
  assumes "map_of (rst_states st) tab = Some s"
  shows "rowsOf (removeRows st tab is) tab = spliceOut is (rst_heap st (rs_rows s))"
  using assms by (simp add: removeRows_def rowsOf_def getResult_def nullish_def map_of_update_snapshot heap_update_snapshot Let_def)

lemma pushRows_rows:
  "map_of (rst_states st) tab = Some s \<Longrightarrow> rowsOf (pushRows st tab new) tab = rst_heap st (rs_rows s) @ new"
  by (simp add: pushRows_def rowsOf_def getResult_def nullish_def map_of_update_snapshot heap_update_snapshot Let_def)

lemma removeRows_tab:
  "map_of (rst_states st) tab = Some s \<Longrightarrow> \<exists>s'. map_of (rst_states (removeRows st tab is)) tab = Some s'
     \<and> rst_heap (removeRows st tab is) (rs_rows s') = spliceOut is (rst_heap st (rs_rows s))"
  by (simp add: removeRows_def map_of_update_snapshot heap_update_snapshot Let_def)

text \<open>
  What the grid must show after the server answered \<open>answers\<close>: the rows it did not delete, each
  one as the server sent it or as it was, and then the inserted rows.
\<close>

definition answeredRow :: "column_meta list \<Rightarrow> editable_info \<Rightarrow> updated_row list \<Rightarrow> db_value list list \<Rightarrow> nat \<Rightarrow> db_value list" where
  "answeredRow columns info answers rows i =
     (case find (\<lambda>r. ur_rowId r = updateId (int i)) answers of
        None \<Rightarrow> rows ! i | Some r \<Rightarrow> serverRowToGridRow columns info r (Some (rows ! i)))"

definition answeredRows :: "column_meta list \<Rightarrow> editable_info \<Rightarrow> updated_row list \<Rightarrow> db_value list list \<Rightarrow> db_value list list" where
  "answeredRows columns info answers rows =
     map (answeredRow columns info answers rows)
       (filter (\<lambda>i. deleteId (int i) \<notin> ur_rowId ` set answers) [0..<length rows])
     @ map (\<lambda>r. serverRowToGridRow columns info r None) (filter (\<lambda>r. take 2 (ur_rowId r) = ''i:'') answers)"

text \<open>The server answers the changes it was sent: rows of the result, each once, and inserts.\<close>

definition answers_ok :: "nat \<Rightarrow> updated_row list \<Rightarrow> bool" where
  "answers_ok n answers \<longleftrightarrow> distinct (map ur_rowId answers)
     \<and> (\<forall>r\<in>set answers. take 2 (ur_rowId r) = ''i:''
          \<or> (\<exists>i<n. ur_rowId r = updateId (int i) \<or> ur_rowId r = deleteId (int i)))"

lemma updateId_not_insert: "ur_rowId r = updateId i \<Longrightarrow> take 2 (ur_rowId r) \<noteq> ''i:'' \<and> take 2 (ur_rowId r) \<noteq> ''d:''"
  by simp

lemma answeredRow_Nil [simp]: "answeredRow columns info [] rows = (!) rows"
  by (simp add: answeredRow_def fun_eq_iff)

lemma answeredRow_snoc:
  assumes "ur_rowId r \<noteq> updateId (int i)"
  shows "answeredRow columns info (answers @ [r]) rows i = answeredRow columns info answers rows i"
proof -
  have "find (\<lambda>x. ur_rowId x = updateId (int i)) (answers @ [r]) = find (\<lambda>x. ur_rowId x = updateId (int i)) answers"
    using assms by (induction answers) auto
  then show ?thesis by (simp add: answeredRow_def)
qed

lemma answeredRow_new:
  assumes "ur_rowId r = updateId (int i)" "\<forall>x\<in>set answers. ur_rowId x \<noteq> updateId (int i)"
  shows "answeredRow columns info (answers @ [r]) rows i = serverRowToGridRow columns info r (Some (rows ! i))"
    and "answeredRow columns info answers rows i = rows ! i"
proof -
  have "find (\<lambda>x. ur_rowId x = updateId (int i)) answers = None" using assms(2) by (simp add: find_None_iff)
  moreover have "find P xs = None \<Longrightarrow> find P (xs @ [y]) = (if P y then Some y else None)" for P xs and y :: updated_row
    by (induction xs) (auto split: if_splits)
  ultimately show "answeredRow columns info (answers @ [r]) rows i = serverRowToGridRow columns info r (Some (rows ! i))"
    "answeredRow columns info answers rows i = rows ! i" using assms(1) by (simp_all add: answeredRow_def)
qed

lemma updated_fold:
  assumes s: "map_of (rst_states st) tab = Some s" and n: "length (rst_heap st (rs_rows s)) = n"
  shows "answers_ok n answers \<Longrightarrow> \<exists>st'. foldl (updatedStep tab info s) (st, [], []) answers
      = (st', map (\<lambda>r. js_number (drop 2 (ur_rowId r))) (filter (\<lambda>r. take 2 (ur_rowId r) = ''d:'') answers),
         map (\<lambda>r. serverRowToGridRow (rs_columns s) info r None) (filter (\<lambda>r. take 2 (ur_rowId r) = ''i:'') answers))
     \<and> map_of (rst_states st') tab = Some s
     \<and> rst_heap st' (rs_rows s) = map (answeredRow (rs_columns s) info answers (rst_heap st (rs_rows s))) [0..<n]"
proof (induction answers rule: rev_induct)
  case Nil
  have "map (answeredRow (rs_columns s) info [] (rst_heap st (rs_rows s))) [0..<n] = rst_heap st (rs_rows s)"
    using n map_nth [of "rst_heap st (rs_rows s)"] by simp
  then show ?case using s by simp
next
  case (snoc r answers)
  let ?rows = "rst_heap st (rs_rows s)"
  have ok: "answers_ok n answers" and fresh: "ur_rowId r \<notin> ur_rowId ` set answers" using snoc.prems by (auto simp: answers_ok_def)
  obtain st' where IH: "foldl (updatedStep tab info s) (st, [], []) answers
      = (st', map (\<lambda>r. js_number (drop 2 (ur_rowId r))) (filter (\<lambda>r. take 2 (ur_rowId r) = ''d:'') answers),
         map (\<lambda>r. serverRowToGridRow (rs_columns s) info r None) (filter (\<lambda>r. take 2 (ur_rowId r) = ''i:'') answers))"
    and st': "map_of (rst_states st') tab = Some s" "rst_heap st' (rs_rows s) = map (answeredRow (rs_columns s) info answers ?rows) [0..<n]"
    using snoc.IH [OF ok] by blast
  consider (ins) "take 2 (ur_rowId r) = ''i:''" | (del) j where "j < n" "ur_rowId r = deleteId (int j)"
    | (upd) j where "j < n" "ur_rowId r = updateId (int j)"
    using snoc.prems by (auto simp: answers_ok_def)
  then show ?case
  proof cases
    case ins
    have "answeredRow (rs_columns s) info (answers @ [r]) ?rows i = answeredRow (rs_columns s) info answers ?rows i" for i
      using ins by (intro answeredRow_snoc) auto
    moreover have "updatedStep tab info s (st', ds, ns) r = (st', ds, ns @ [serverRowToGridRow (rs_columns s) info r None])" for ds ns
      using ins by (simp add: updatedStep_def Let_def)
    ultimately show ?thesis using ins IH st' by simp
  next
    case del
    have "answeredRow (rs_columns s) info (answers @ [r]) ?rows i = answeredRow (rs_columns s) info answers ?rows i" for i
      using del by (intro answeredRow_snoc) auto
    moreover have "updatedStep tab info s (st', ds, ns) r = (st', ds @ [Some (int j)], ns)" for ds ns
      using del by (simp add: updatedStep_def Let_def)
    ultimately show ?thesis using del IH st' by simp
  next
    case upd
    have new: "\<forall>x\<in>set answers. ur_rowId x \<noteq> updateId (int j)" using fresh upd(2) by force
    note aj = answeredRow_new [OF upd(2) new, of "rs_columns s" info ?rows]
    let ?row = "serverRowToGridRow (rs_columns s) info r (Some (?rows ! j))"
    have step: "updatedStep tab info s (st', ds, ins) r = (replaceRow st' tab (int j) ?row, ds, ins)" for ds ins
      using upd aj(2) st'(2) by (simp add: updatedStep_def Let_def js_at_def)
    have "(map (answeredRow (rs_columns s) info answers ?rows) [0..<n])[j := ?row] = map (answeredRow (rs_columns s) info (answers @ [r]) ?rows) [0..<n]"
    proof (rule nth_equalityI)
      fix k assume "k < length ((map (answeredRow (rs_columns s) info answers ?rows) [0..<n])[j := ?row])"
      then show "(map (answeredRow (rs_columns s) info answers ?rows) [0..<n])[j := ?row] ! k
          = map (answeredRow (rs_columns s) info (answers @ [r]) ?rows) [0..<n] ! k"
        using aj(1) answeredRow_snoc [of r k "rs_columns s" info answers ?rows] upd by (cases "k = j") simp_all
    qed simp
    then show ?thesis using IH step upd replaceRow_tab [OF st'(1), of "int j" ?row] st'(2) by simp
  qed
qed

lemma map_filter_upt_nths: "nths (map f [0..<n]) {k. P k} = map f (filter P [0..<n])"
proof (induction n)
  case (Suc n)
  then show ?case by (simp add: nths_append)
qed simp

lemma applyUpdatedRows_answers:
  assumes "map_of (rst_states st) tab = Some s" and "answers_ok (length (rowsOf st tab)) answers"
  shows "\<exists>st'. applyUpdatedRows st tab answers info = Some st'
     \<and> rowsOf st' tab = answeredRows (rs_columns s) info answers (rowsOf st tab)"
proof -
  have get: "getResult st tab = s" "rowsOf st tab = rst_heap st (rs_rows s)"
    using assms(1) by (simp_all add: getResult_def nullish_def rowsOf_def)
  let ?rows = "rst_heap st (rs_rows s)" and ?dels = "filter (\<lambda>r. take 2 (ur_rowId r) = ''d:'') answers"
  let ?ins = "map (\<lambda>r. serverRowToGridRow (rs_columns s) info r None) (filter (\<lambda>r. take 2 (ur_rowId r) = ''i:'') answers)"
  let ?n = "length ?rows" and ?del = "\<lambda>r. js_number (drop 2 (ur_rowId r))"
  obtain st1 where f: "foldl (updatedStep tab info s) (st, [], []) answers = (st1, map ?del ?dels, ?ins)"
    and st1: "map_of (rst_states st1) tab = Some s" "rst_heap st1 (rs_rows s) = map (answeredRow (rs_columns s) info answers ?rows) [0..<?n]"
    using updated_fold [OF assms(1) refl, of answers info] assms(2) get by auto
  have id: "\<exists>j<?n. ur_rowId r = deleteId (int j)" if r: "r \<in> set ?dels" for r
    using assms(2) r get by (auto simp: answers_ok_def)
  then have num: "\<exists>j<?n. ?del r = Some (int j) \<and> ur_rowId r = deleteId (int j)" if r: "r \<in> set ?dels" for r using r by force
  then have none: "None \<notin> set (map ?del ?dels)" by fastforce
  let ?is = "map (the \<circ> ?del) ?dels"
  have dist: "distinct ?is"
  proof -
    have "distinct (map ur_rowId ?dels)" using assms(2) by (simp add: answers_ok_def distinct_map_filter)
    moreover have "map ur_rowId ?dels = map deleteId ?is" using num by force
    ultimately show ?thesis by (metis distinct_map)
  qed
  have range: "\<forall>i\<in>set ?is. 0 \<le> i \<and> i < int ?n" using num by force
  have mem: "int k \<in> set ?is \<longleftrightarrow> deleteId (int k) \<in> ur_rowId ` set answers" if k: "k < ?n" for k
  proof
    assume "int k \<in> set ?is"
    then obtain r where r: "r \<in> set ?dels" "int k = the (?del r)" by auto
    with num [OF r(1)] show "deleteId (int k) \<in> ur_rowId ` set answers" by force
  next
    assume "deleteId (int k) \<in> ur_rowId ` set answers"
    then obtain r where "r \<in> set answers" "ur_rowId r = deleteId (int k)" by force
    then show "int k \<in> set ?is" by (force simp: image_iff)
  qed
  have cut: "spliceOut ?is (map (answeredRow (rs_columns s) info answers ?rows) [0..<?n])
     = map (answeredRow (rs_columns s) info answers ?rows) (filter (\<lambda>i. deleteId (int i) \<notin> ur_rowId ` set answers) [0..<?n])"
  proof -
    have "spliceOut ?is (map (answeredRow (rs_columns s) info answers ?rows) [0..<?n])
       = map (answeredRow (rs_columns s) info answers ?rows) (filter (\<lambda>i. int i \<notin> set ?is) [0..<?n])"
      using spliceOut_nths [OF dist, of "map (answeredRow (rs_columns s) info answers ?rows) [0..<?n]"] range
      by (simp add: map_filter_upt_nths)
    also have "filter (\<lambda>i. int i \<notin> set ?is) [0..<?n] = filter (\<lambda>i. deleteId (int i) \<notin> ur_rowId ` set answers) [0..<?n]"
      using mem by (intro filter_cong) auto
    finally show ?thesis .
  qed
  define st2 where "st2 = (if ?is \<noteq> [] then removeRows st1 tab ?is else st1)"
  obtain s2 where s2: "map_of (rst_states st2) tab = Some s2" "rst_heap st2 (rs_rows s2)
      = map (answeredRow (rs_columns s) info answers ?rows) (filter (\<lambda>i. deleteId (int i) \<notin> ur_rowId ` set answers) [0..<?n])"
  proof (cases "?is = []")
    case True
    then have "spliceOut ?is xs = xs" for xs :: "db_value list list" by (simp add: spliceOut_def)
    then show ?thesis using True st1 cut that [of s] by (simp add: st2_def)
  next
    case False
    then show ?thesis using removeRows_tab [OF st1(1), of ?is] st1(2) cut that by (auto simp: st2_def)
  qed
  have "rowsOf (if ?ins \<noteq> [] then pushRows st2 tab ?ins else st2) tab = rst_heap st2 (rs_rows s2) @ ?ins"
    using pushRows_rows [OF s2(1)] s2(1) by (simp add: rowsOf_def getResult_def nullish_def)
  moreover have "applyUpdatedRows st tab answers info = Some (if ?ins \<noteq> [] then pushRows st2 tab ?ins else st2)"
    using none unfolding applyUpdatedRows_def get(1) f st2_def Let_def prod.case by (simp only: map_map map_is_Nil_conv if_False)
  ultimately show ?thesis using s2(2) get by (simp add: answeredRows_def)
qed


subsection \<open>Conflict resolution\<close>

definition conflictValid :: "nat \<Rightarrow> row_conflict \<Rightarrow> bool" where
  "conflictValid n c \<longleftrightarrow> (case conflictIndex c of None \<Rightarrow> False | Some i \<Rightarrow> \<bar>i\<bar> \<le> MAX_SAFE_INTEGER \<and> 0 \<le> i \<and> i < int n)"

abbreviation conflictRow :: "row_conflict \<Rightarrow> int" where
  "conflictRow c \<equiv> the (conflictIndex c)"

lemma conflict_fold:
  assumes s: "map_of (rst_states st) tab = Some s" and n: "length (rst_heap st (rs_rows s)) = n"
  shows "\<exists>st'. foldl (conflictStep tab info s) (st, [], []) cs
      = (st', map conflictRow (filter (conflictValid n) cs),
         map conflictRow (filter (\<lambda>c. conflictValid n c \<and> rcf_current c = None) cs))
     \<and> map_of (rst_states st') tab = Some s \<and> length (rst_heap st' (rs_rows s)) = n
     \<and> (\<forall>k<n. int k \<notin> set (map conflictRow (filter (conflictValid n) cs))
           \<longrightarrow> rst_heap st' (rs_rows s) ! k = rst_heap st (rs_rows s) ! k)"
proof (induction cs rule: rev_induct)
  case (snoc c cs)
  let ?res = "map conflictRow (filter (conflictValid n) cs)" and ?rem = "map conflictRow (filter (\<lambda>c. conflictValid n c \<and> rcf_current c = None) cs)"
  obtain st' where IH: "foldl (conflictStep tab info s) (st, [], []) cs = (st', ?res, ?rem)"
    and st': "map_of (rst_states st') tab = Some s" "length (rst_heap st' (rs_rows s)) = n"
      "\<forall>k<n. int k \<notin> set ?res \<longrightarrow> rst_heap st' (rs_rows s) ! k = rst_heap st (rs_rows s) ! k"
    using snoc by blast
  show ?case
  proof (cases "conflictValid n c")
    case False
    then have "conflictStep tab info s (st', ?res, ?rem) c = (st', ?res, ?rem)"
      using st'(2) by (auto simp: conflictStep_def conflictValid_def Let_def split: option.splits)
    then show ?thesis using IH st' False by simp
  next
    case True
    then obtain i where i: "conflictIndex c = Some i" "\<bar>i\<bar> \<le> MAX_SAFE_INTEGER" "0 \<le> i" "i < int n"
      by (auto simp: conflictValid_def split: option.splits)
    show ?thesis
    proof (cases "rcf_current c")
      case None
      then have "conflictStep tab info s (st', ?res, ?rem) c = (st', ?res @ [i], ?rem @ [i])"
        using i st'(2) by (simp add: conflictStep_def Let_def)
      then show ?thesis using IH st' True None i(1) by simp
    next
      case (Some current)
      then obtain row where step: "conflictStep tab info s (st', ?res, ?rem) c = (replaceRow st' tab i row, ?res @ [i], ?rem)"
        using i st'(2) by (simp add: conflictStep_def Let_def)
      note rep = replaceRow_tab [OF st'(1), of i row]
      have "rst_heap (replaceRow st' tab i row) (rs_rows s) ! k = rst_heap st (rs_rows s) ! k"
        if k: "k < n" "int k \<notin> set ?res" "int k \<noteq> i" for k
        using k i st'(2,3) rep(2) by (simp add: nth_list_update)
      then show ?thesis using IH step rep(1) rep(2) True Some i(1) st'(2) by simp
    qed
  qed
qed (use s n in simp)

lemma map_of_rekey:
  "inj_on f S \<Longrightarrow> fst ` set xs \<subseteq> S \<Longrightarrow> k \<in> S \<Longrightarrow> map_of (map (\<lambda>(i, c). (f i, c)) xs) (f k) = map_of xs k"
proof (induction xs)
  case (Cons x xs)
  obtain i c where x: "x = (i, c)" by (cases x)
  have "f i = f k \<longleftrightarrow> i = k" using Cons.prems x by (auto dest: inj_onD)
  then show ?case using Cons x by auto
qed simp

lemma map_of_filter_key: "P i \<Longrightarrow> map_of (filter (\<lambda>(k, v). P k) xs) i = map_of xs i"
  by (induction xs) auto

lemma resolveRows_drafts:
  assumes ok: "buffer_ok (getEdits st tab)" and d: "distinct removed" and sub: "set removed \<subseteq> set resolved"
  defines "s \<equiv> getEdits st tab" and "s' \<equiv> getEdits (resolveRows st tab resolved removed) tab"
  shows "i \<notin> set resolved \<Longrightarrow> draft_at s' (rebase removed i) c = draft_at s i c"
    and "i \<notin> set resolved \<Longrightarrow> rebase removed i \<in> set (es_deletes s') \<longleftrightarrow> i \<in> set (es_deletes s)"
    and "fst ` set (es_updates s') \<union> set (es_deletes s') \<subseteq> rebase removed ` (- set resolved)"
    and "es_inserts s' = es_inserts s"
proof -
  note r = buffer_ok_resolve [OF ok d sub]
  have s': "es_updates s' = keptUpdates resolved removed s" "es_deletes s' = keptDeletes resolved removed s" "es_inserts s' = es_inserts s"
    using r(1,2) by (simp_all add: s'_def s_def resolveRows_def getEdits_commit Let_def)
  have inj: "inj_on (rebase removed) (- set resolved)" using rebase_inj [OF d] sub by (blast intro: inj_on_subset)
  show "draft_at s' (rebase removed i) c = draft_at s i c" if i: "i \<notin> set resolved"
  proof -
    let ?fs = "filter (\<lambda>(i, cells). i \<notin> set resolved) (es_updates s)"
    have "map_of (keptUpdates resolved removed s) (rebase removed i) = map_of ?fs i"
      unfolding keptUpdates_def using i by (intro map_of_rekey [OF inj]) auto
    also have "\<dots> = map_of (es_updates s) i" using map_of_filter_key [of "\<lambda>i. i \<notin> set resolved" i] i by simp
    finally show ?thesis unfolding draft_at_def s'(1) by simp
  qed
  show "rebase removed i \<in> set (es_deletes s') \<longleftrightarrow> i \<in> set (es_deletes s)" if i: "i \<notin> set resolved"
    using i inj unfolding s'(2) keptDeletes_def by (auto dest: inj_onD)
  show "fst ` set (es_updates s') \<union> set (es_deletes s') \<subseteq> rebase removed ` (- set resolved)"
    unfolding s'(1,2) keptUpdates_def keptDeletes_def by auto
  show "es_inserts s' = es_inserts s" by (rule s'(3))
qed

text \<open>Claim C28: resolving conflicts with the server's values never moves a draft to another row. Rows
  that are gone on the server are removed from the grid, so the rows behind them move up; every
  row that was in no conflict is afterwards at some index where the grid shows the same row and
  the buffer holds exactly the drafts and the deletion mark it held before; no draft and no
  mark remains for a row in conflict; and the inserts stay.\<close>

theorem conflict_resolution_keeps_drafts:
  assumes "map_of (rst_states st) tab = Some s" and "buffer_ok (getEdits edits tab)"
    and "distinct (List.map_filter conflictIndex conflicts)"
    and "applyServerValues edits st tab conflicts info = (edits', st')"
  defines "old \<equiv> getEdits edits tab" and "new \<equiv> getEdits edits' tab"
    and "resolved \<equiv> {i. \<exists>c\<in>set conflicts. conflictValid (length (rowsOf st tab)) c \<and> conflictIndex c = Some i}"
  shows "\<exists>place. inj_on place (- resolved)
     \<and> (\<forall>i. 0 \<le> i \<and> i < int (length (rowsOf st tab)) \<and> i \<notin> resolved \<longrightarrow> js_at (rowsOf st' tab) (place i) = js_at (rowsOf st tab) i)
     \<and> (\<forall>i column. i \<notin> resolved \<longrightarrow> draft_at new (place i) column = draft_at old i column
           \<and> (place i \<in> set (es_deletes new) \<longleftrightarrow> i \<in> set (es_deletes old)))
     \<and> fst ` set (es_updates new) \<union> set (es_deletes new) \<subseteq> place ` (- resolved)
     \<and> es_inserts new = es_inserts old"
proof -
  have get: "getResult st tab = s" "rowsOf st tab = rst_heap st (rs_rows s)"
    using assms(1) by (simp_all add: getResult_def nullish_def rowsOf_def)
  let ?n = "length (rowsOf st tab)"
  let ?res = "map conflictRow (filter (conflictValid ?n) conflicts)"
  let ?rem = "map conflictRow (filter (\<lambda>c. conflictValid ?n c \<and> rcf_current c = None) conflicts)"
  obtain st1 where f: "foldl (conflictStep tab info s) (st, [], []) conflicts = (st1, ?res, ?rem)"
    and st1: "map_of (rst_states st1) tab = Some s" "length (rst_heap st1 (rs_rows s)) = ?n"
      "\<forall>k<?n. int k \<notin> set ?res \<longrightarrow> rst_heap st1 (rs_rows s) ! k = rst_heap st (rs_rows s) ! k"
    using conflict_fold [OF assms(1), of ?n info conflicts] get by auto
  have e: "edits' = resolveRows edits tab ?res ?rem" "st' = removeRows st1 tab ?rem"
    using assms(4) unfolding applyServerValues_def get(1) f by simp_all
  have range: "\<forall>i\<in>set ?rem. 0 \<le> i \<and> i < int ?n" by (auto simp: conflictValid_def split: option.splits)
  have res: "set ?res = resolved" unfolding resolved_def by (force simp: conflictValid_def split: option.splits)
  have d: "distinct ?rem"
  proof -
    have "map conflictRow (filter (conflictValid ?n) cs) = filter (\<lambda>i. \<bar>i\<bar> \<le> MAX_SAFE_INTEGER \<and> 0 \<le> i \<and> i < int ?n) (List.map_filter conflictIndex cs)" for cs
      by (induction cs) (auto simp: map_filter_simps conflictValid_def split: option.splits)
    then have "distinct ?res" using assms(3) by simp
    moreover have "?rem = map conflictRow (filter (\<lambda>c. rcf_current c = None) (filter (conflictValid ?n) conflicts))"
      by (simp add: conj_commute)
    ultimately show ?thesis by (metis distinct_map_filter)
  qed
  have sub: "set ?rem \<subseteq> set ?res" by auto
  have rows': "rowsOf st' tab = spliceOut ?rem (rst_heap st1 (rs_rows s))" unfolding e(2) by (rule removeRows_rows [OF st1(1)])
  have keep: "js_at (rowsOf st' tab) (rebase ?rem i) = js_at (rowsOf st tab) i"
    if i: "0 \<le> i" "i < int ?n" "i \<notin> resolved" for i
  proof -
    have "js_at (rowsOf st' tab) (rebase ?rem i) = js_at (rst_heap st1 (rs_rows s)) i"
      unfolding rows' using i sub res range d st1(2) by (intro nth_spliceOut_rebase) auto
    also have "\<dots> = js_at (rowsOf st tab) i"
      using i st1(2,3) res get(2) by (simp add: js_at_def)
    finally show ?thesis .
  qed
  have inj: "inj_on (rebase ?rem) (- resolved)" using rebase_inj [OF d] sub res by (blast intro: inj_on_subset)
  note r = resolveRows_drafts [OF assms(2) d sub, folded e(1), folded old_def new_def, unfolded res]
  show ?thesis using inj keep r by (intro exI [of _ "rebase ?rem"]) blast
qed

subsection \<open>The commit protocol\<close>

datatype commit_step = Message changes_commit_event | CallEnds bool

fun commitStep :: "save_state \<Rightarrow> commit_step \<Rightarrow> save_state option" where
  "commitStep s (Message e) = commitMessage s e"
| "commitStep s (CallEnds ok) = Some (commitCall s ok)"

text \<open>The outcome that the order of events prescribes: whatever comes first decides.\<close>

fun eventOutcome :: "changes_commit_event \<Rightarrow> commit_outcome option" where
  "eventOutcome (CeCompleted rows) = Some (CommitCompleted (length rows))"
| "eventOutcome (CeConflict cs) = Some (CommitConflict cs)"
| "eventOutcome (CeFailed e) = Some (CommitFailed (failureText e) (ae_sqlState e))"
| "eventOutcome e = None"

fun expectedOutcome :: "commit_step list \<Rightarrow> promise" where
  "expectedOutcome [] = Pending"
| "expectedOutcome (CallEnds ok # steps) = Rejected"
| "expectedOutcome (Message e # steps) =
     (case eventOutcome e of None \<Rightarrow> expectedOutcome steps | Some outcome \<Rightarrow> Resolved outcome)"

text \<open>A settled run, or one that has seen no terminal event.\<close>

definition run_decided :: "commit_run \<Rightarrow> bool" where
  "run_decided r \<longleftrightarrow> cr_promise r \<noteq> Pending"

lemma commitEvent_frame:
  assumes "commitEvent s e = Some s'"
  shows "sv_edits s' = sv_edits s" "cr_tab (sv_run s') = cr_tab (sv_run s)" "cr_terminal (sv_run s') = cr_terminal (sv_run s)"
    "cr_promise (sv_run s') = (case eventOutcome e of None \<Rightarrow> cr_promise (sv_run s)
       | Some outcome \<Rightarrow> if cr_promise (sv_run s) = Pending then Resolved outcome else cr_promise (sv_run s))"
proof -
  have "sv_edits s' = sv_edits s \<and> cr_tab (sv_run s') = cr_tab (sv_run s) \<and> cr_terminal (sv_run s') = cr_terminal (sv_run s)
    \<and> cr_promise (sv_run s') = (case eventOutcome e of None \<Rightarrow> cr_promise (sv_run s)
       | Some outcome \<Rightarrow> if cr_promise (sv_run s) = Pending then Resolved outcome else cr_promise (sv_run s))"
  proof (cases e)
    case (CeCompleted rows)
    then obtain st where "s' = s\<lparr>sv_results := st, sv_run := settle (Resolved (CommitCompleted (length rows))) (sv_run s)\<rparr>"
      using assms by (simp only: commitEvent.simps Let_def map_option_eq_Some) blast
    then show ?thesis using CeCompleted by (simp add: settle_def)
  qed (use assms in \<open>auto simp: settle_def\<close>)
  then show "sv_edits s' = sv_edits s" "cr_tab (sv_run s') = cr_tab (sv_run s)" "cr_terminal (sv_run s') = cr_terminal (sv_run s)"
    "cr_promise (sv_run s') = (case eventOutcome e of None \<Rightarrow> cr_promise (sv_run s)
       | Some outcome \<Rightarrow> if cr_promise (sv_run s) = Pending then Resolved outcome else cr_promise (sv_run s))" by blast+
qed

lemma isTerminalEvent_outcome: "isTerminalEvent e \<longleftrightarrow> eventOutcome e \<noteq> None"
  by (cases e) auto

lemma commitStep_frame:
  assumes "commitStep s p = Some s'"
  shows "sv_edits s' = sv_edits s" "cr_tab (sv_run s') = cr_tab (sv_run s)"
    "cr_promise (sv_run s) \<noteq> Pending \<Longrightarrow> cr_promise (sv_run s') = cr_promise (sv_run s)"
    "cr_promise (sv_run s) = Pending \<Longrightarrow> \<not> cr_terminal (sv_run s) \<Longrightarrow>
       cr_promise (sv_run s') = expectedOutcome [p] \<and> (cr_promise (sv_run s') = Pending \<longrightarrow> \<not> cr_terminal (sv_run s'))"
proof -
  have "sv_edits s' = sv_edits s \<and> cr_tab (sv_run s') = cr_tab (sv_run s)
    \<and> (cr_promise (sv_run s) \<noteq> Pending \<longrightarrow> cr_promise (sv_run s') = cr_promise (sv_run s))
    \<and> (cr_promise (sv_run s) = Pending \<and> \<not> cr_terminal (sv_run s) \<longrightarrow>
       cr_promise (sv_run s') = expectedOutcome [p] \<and> (cr_promise (sv_run s') = Pending \<longrightarrow> \<not> cr_terminal (sv_run s')))"
  proof (cases p)
    case (Message e)
    show ?thesis
    proof (cases "cr_terminal (sv_run s)")
      case False
      then have "commitEvent (s\<lparr>sv_run := (sv_run s)\<lparr>cr_terminal := isTerminalEvent e\<rparr>\<rparr>) e = Some s'"
        using assms Message by (simp add: commitMessage_def)
      from commitEvent_frame [OF this] show ?thesis using Message by (auto simp: isTerminalEvent_outcome split: option.splits)
    qed (use assms Message in \<open>simp add: commitMessage_def\<close>)
  qed (use assms in \<open>auto simp: commitCall_def settle_def\<close>)
  then show "sv_edits s' = sv_edits s" "cr_tab (sv_run s') = cr_tab (sv_run s)"
    "cr_promise (sv_run s) \<noteq> Pending \<Longrightarrow> cr_promise (sv_run s') = cr_promise (sv_run s)"
    "cr_promise (sv_run s) = Pending \<Longrightarrow> \<not> cr_terminal (sv_run s) \<Longrightarrow>
       cr_promise (sv_run s') = expectedOutcome [p] \<and> (cr_promise (sv_run s') = Pending \<longrightarrow> \<not> cr_terminal (sv_run s'))"
    by auto
qed

lemma run_decided_stays:
  "run_actions commitStep s steps = Some s' \<Longrightarrow> cr_promise (sv_run s) \<noteq> Pending \<Longrightarrow> cr_promise (sv_run s') = cr_promise (sv_run s)"
proof (induction steps arbitrary: s)
  case (Cons p steps)
  then obtain s1 where s1: "commitStep s p = Some s1" "run_actions commitStep s1 steps = Some s'" by (auto split: bind_splits)
  then show ?case using Cons commitStep_frame(3) [OF s1(1)] by metis
qed simp

lemma run_commit:
  "run_actions commitStep s steps = Some s' \<Longrightarrow> cr_promise (sv_run s) = Pending \<Longrightarrow> \<not> cr_terminal (sv_run s) \<Longrightarrow>
   sv_edits s' = sv_edits s \<and> cr_tab (sv_run s') = cr_tab (sv_run s) \<and> cr_promise (sv_run s') = expectedOutcome steps"
proof (induction steps arbitrary: s)
  case (Cons p steps)
  then obtain s1 where s1: "commitStep s p = Some s1" "run_actions commitStep s1 steps = Some s'" by (auto split: bind_splits)
  note f = commitStep_frame [OF s1(1)]
  have frame: "sv_edits s' = sv_edits s1 \<and> cr_tab (sv_run s') = cr_tab (sv_run s1)"
    using s1(2) commitStep_frame(1,2)
  proof (induction steps arbitrary: s1)
    case (Cons q steps)
    then obtain s2 where "commitStep s1 q = Some s2" "run_actions commitStep s2 steps = Some s'" by (auto split: bind_splits)
    then show ?case using Cons by metis
  qed simp
  show ?case
  proof (cases "cr_promise (sv_run s1) = Pending")
    case True
    then have "expectedOutcome [p] = Pending" using f(4) Cons.prems by simp
    then have "expectedOutcome (p # steps) = expectedOutcome steps" by (cases p) (auto split: option.splits)
    then show ?thesis using Cons.IH [OF s1(2) True] f Cons.prems True by simp
  next
    case False
    then have p: "expectedOutcome [p] \<noteq> Pending" "cr_promise (sv_run s1) = expectedOutcome [p]" using f(4) Cons.prems by auto
    have "expectedOutcome (p # steps) = expectedOutcome [p]" using p(1) by (cases p) (auto split: option.splits)
    then show ?thesis using run_decided_stays [OF s1(2) False] p frame f(1,2) by simp
  qed
qed simp

lemma expectedOutcome_ends: "CallEnds ok \<in> set steps \<Longrightarrow> expectedOutcome steps \<noteq> Pending"
  by (induction steps rule: expectedOutcome.induct) (auto split: option.splits)

lemma getEdits_lock: "getEdits (setLocked st tab b) tab = (getEdits st tab)\<lparr>es_locked := b, es_pendingCount := pendingOf (getEdits st tab)\<rparr>"
  by (simp add: setLocked_def getEdits_commit pendingOf_def)

text \<open>A commit always ends and releases the buffer. However its events and the end of the
  backend call are ordered, the buffer of the tab is locked while the commit runs; once the call
  has ended the continuation runs and unlocks it. The outcome is the first terminal event,
  or a failure when the call ended before one; the drafts are dropped if that outcome is
  completion, and otherwise every draft, deletion mark and insert is kept.\<close>

theorem commit_releases_lock:
  assumes "run_actions commitStep (commitStart edits st tab info) steps = Some s" and "CallEnds ok \<in> set steps"
  shows "es_locked (getEdits (sv_edits s) tab)
    \<and> (\<exists>s'. commitSettle s = Some s' \<and> \<not> es_locked (getEdits (sv_edits s') tab)
        \<and> cr_promise (sv_run s') = expectedOutcome steps \<and> expectedOutcome steps \<noteq> Pending
        \<and> (\<forall>n. expectedOutcome steps = Resolved (CommitCompleted n) \<longrightarrow> getEdits (sv_edits s') tab = EMPTY_EDITS)
        \<and> ((\<forall>n. expectedOutcome steps \<noteq> Resolved (CommitCompleted n)) \<longrightarrow>
             es_updates (getEdits (sv_edits s') tab) = es_updates (getEdits edits tab)
             \<and> es_deletes (getEdits (sv_edits s') tab) = es_deletes (getEdits edits tab)
             \<and> es_inserts (getEdits (sv_edits s') tab) = es_inserts (getEdits edits tab)))"
proof -
  have r: "sv_edits s = setLocked edits tab True" "cr_tab (sv_run s) = tab" "cr_promise (sv_run s) = expectedOutcome steps"
    using run_commit [OF assms(1)] by (simp_all add: commitStart_def)
  have ends: "expectedOutcome steps \<noteq> Pending" using expectedOutcome_ends [OF assms(2)] .
  have clear: "getEdits (setLocked (clearEdits ed tab) tab False) tab = EMPTY_EDITS" for ed
    by (simp add: getEdits_lock) (simp add: clearEdits_def getEdits_def nullish_def EMPTY_EDITS_def pendingOf_def)
  show ?thesis
  proof (cases "\<exists>n. expectedOutcome steps = Resolved (CommitCompleted n)")
    case True
    then show ?thesis using r clear by (auto simp: getEdits_lock commitSettle_def Let_def EMPTY_EDITS_def)
  next
    case False
    then have "commitSettle s = Some (s\<lparr>sv_edits := setLocked (sv_edits s) tab False\<rparr>)"
      using r ends by (auto simp: commitSettle_def Let_def split: promise.splits commit_outcome.splits)
    then show ?thesis using r ends False by (simp add: getEdits_lock)
  qed
qed

text \<open>A completion event that arrives after the end of the backend call is still applied.
  The commit is then reported as failed and its drafts are kept, while the rows of the grid are
  replaced, removed and appended as the event says; the drafts are not rebased to the new rows.\<close>

theorem late_completion_applies:
  assumes "map_of (rst_states st) tab = Some snap" and "answers_ok (length (rowsOf st tab)) answers"
  shows "\<exists>s s'. run_actions commitStep (commitStart edits st tab info) [CallEnds True, Message (CeCompleted answers)] = Some s
     \<and> commitSettle s = Some s' \<and> cr_promise (sv_run s') = Rejected
     \<and> rowsOf (sv_results s') tab = answeredRows (rs_columns snap) info answers (rowsOf st tab)
     \<and> es_updates (getEdits (sv_edits s') tab) = es_updates (getEdits edits tab)
     \<and> es_deletes (getEdits (sv_edits s') tab) = es_deletes (getEdits edits tab)"
proof -
  obtain st' where st': "applyUpdatedRows st tab answers info = Some st'"
    "rowsOf st' tab = answeredRows (rs_columns snap) info answers (rowsOf st tab)"
    using applyUpdatedRows_answers [OF assms] by blast
  then show ?thesis
    by (simp add: commitStart_def commitCall_def commitMessage_def settle_def commitSettle_def Let_def getEdits_lock)
qed

subsection \<open>Examples\<close>

definition example_rows :: "db_value list list" where
  "example_rows = [[VInteger ''1'', VText ''a''], [VInteger ''2'', VText ''b''], [VInteger ''3'', VText ''c'']]"

definition example_snapshot :: result_snapshot where
  "example_snapshot = EMPTY_RESULT\<lparr>rs_columns := example_columns, rs_rows := 1, rs_status := StCompleted\<rparr>"

definition example_results :: result_store where
  "example_results = emptyResultStore\<lparr>rst_states := [(''t'', example_snapshot)], rst_heap := (\<lambda>a. if a = 1 then example_rows else []),
     rst_fresh := 2\<rparr>"

definition example_buffer :: edit_snapshot where
  "example_buffer = EMPTY_EDITS\<lparr>es_updates := [(2, [(''n'', Some ''z'')])], es_deletes := [1], es_pendingCount := 2\<rparr>"

definition example_edits :: edit_store where
  "example_edits = emptyEditStore\<lparr>eds_states := [(''t'', example_buffer)]\<rparr>"

lemma example_facts:
  "map_of (rst_states example_results) ''t'' = Some example_snapshot" "rowsOf example_results ''t'' = example_rows"
  "getEdits example_edits ''t'' = example_buffer" "buffer_ok example_buffer"
  by (simp_all add: example_results_def rowsOf_def getResult_def nullish_def example_snapshot_def getEdits_def
      example_edits_def example_buffer_def buffer_ok_def EMPTY_EDITS_def)


definition example_answers :: "updated_row list" where
  "example_answers = [\<lparr>ur_rowId = ''d:1'', ur_operation = ''delete'', ur_values = [], ur_xmin = None\<rparr>,
     \<lparr>ur_rowId = ''u:2'', ur_operation = ''update'', ur_values = [(''name'', VText ''z'')], ur_xmin = None\<rparr>]"

lemma example_answers_ok: "answers_ok (length (rowsOf example_results ''t'')) example_answers"
proof -
  have "''d:1'' = deleteId (int 1)" "''u:2'' = updateId (int 2)" by code_simp+
  then show ?thesis unfolding example_facts(2) answers_ok_def example_answers_def
    by (auto simp: example_rows_def intro: exI [of _ "1 :: nat"] exI [of _ "2 :: nat"])
qed


definition example_conflict :: row_conflict where
  "example_conflict = \<lparr>rcf_rowId = ''d:1'', rcf_reason = ''deleted'', rcf_current = None\<rparr>"

theorem conflict_resolution_keeps_drafts_witness:
  "\<exists>edits' st' place. applyServerValues example_edits example_results ''t'' [example_conflict] example_info = (edits', st')
     \<and> js_at (rowsOf st' ''t'') (place 2) = Some [VInteger ''3'', VText ''c'']
     \<and> draft_at (getEdits edits' ''t'') (place 2) ''n'' = Some (Some ''z'')"
proof -
  obtain edits' st' where a: "applyServerValues example_edits example_results ''t'' [example_conflict] example_info = (edits', st')"
    by (cases "applyServerValues example_edits example_results ''t'' [example_conflict] example_info")
  have i: "conflictIndex example_conflict = Some 1" by code_simp
  have d: "distinct (List.map_filter conflictIndex [example_conflict])" by (simp add: map_filter_simps i)
  have ok: "buffer_ok (getEdits example_edits ''t'')" by (simp add: example_facts)
  let ?R = "{i. \<exists>c\<in>set [example_conflict]. conflictValid (length (rowsOf example_results ''t'')) c \<and> conflictIndex c = Some i}"
  have two: "2 \<notin> ?R" by (simp add: i)
  obtain place where rows: "\<forall>i. 0 \<le> i \<and> i < int (length (rowsOf example_results ''t'')) \<and> i \<notin> ?R \<longrightarrow>
        js_at (rowsOf st' ''t'') (place i) = js_at (rowsOf example_results ''t'') i"
    and drafts: "\<forall>i column. i \<notin> ?R \<longrightarrow> draft_at (getEdits edits' ''t'') (place i) column = draft_at (getEdits example_edits ''t'') i column
        \<and> (place i \<in> set (es_deletes (getEdits edits' ''t'')) \<longleftrightarrow> i \<in> set (es_deletes (getEdits example_edits ''t'')))"
    using conflict_resolution_keeps_drafts [OF example_facts(1) ok d a] by blast
  have "length example_rows = 3" by (simp add: example_rows_def)
  then have "js_at (rowsOf st' ''t'') (place 2) = js_at example_rows 2"
    using rows [THEN spec, of 2] two by (simp add: example_facts(2))
  moreover have "draft_at (getEdits edits' ''t'') (place 2) ''n'' = draft_at example_buffer 2 ''n''"
    using drafts [THEN spec, THEN spec, of 2 "''n''"] two by (simp add: example_facts(3))
  moreover have "js_at example_rows 2 = Some [VInteger ''3'', VText ''c'']" "draft_at example_buffer 2 ''n'' = Some (Some ''z'')"
    by (simp_all add: example_rows_def js_at_def draft_at_def example_buffer_def)
  ultimately show ?thesis using a by auto
qed

theorem commit_releases_lock_witness:
  "\<exists>s s'. run_actions commitStep (commitStart example_edits example_results ''t'' example_info) [Message (CeConflict [example_conflict]), CallEnds True] = Some s
     \<and> commitSettle s = Some s' \<and> \<not> es_locked (getEdits (sv_edits s') ''t'')
     \<and> es_updates (getEdits (sv_edits s') ''t'') = es_updates example_buffer"
proof -
  let ?steps = "[Message (CeConflict [example_conflict]), CallEnds True]"
  obtain s where s: "run_actions commitStep (commitStart example_edits example_results ''t'' example_info) ?steps = Some s"
    by (simp add: commitMessage_def commitStart_def)
  from commit_releases_lock [OF s, of True] s show ?thesis by (auto simp: example_facts)
qed

theorem late_completion_applies_witness:
  "\<exists>s s'. run_actions commitStep (commitStart example_edits example_results ''t'' example_info) [CallEnds True, Message (CeCompleted example_answers)] = Some s
     \<and> commitSettle s = Some s' \<and> cr_promise (sv_run s') = Rejected
     \<and> rowsOf (sv_results s') ''t'' = [[VInteger ''1'', VText ''a''], [VInteger ''3'', VText ''z'']]
     \<and> es_updates (getEdits (sv_edits s') ''t'') = [(2, [(''n'', Some ''z'')])]"
proof -
  have "answeredRows example_columns example_info example_answers example_rows = [[VInteger ''1'', VText ''a''], [VInteger ''3'', VText ''z'']]"
    by code_simp
  moreover have "rs_columns example_snapshot = example_columns" "es_updates example_buffer = [(2, [(''n'', Some ''z'')])]"
    by (simp_all add: example_snapshot_def example_buffer_def)
  ultimately show ?thesis
    using late_completion_applies [OF example_facts(1) example_answers_ok, of example_edits example_info]
    by (simp only: example_facts) blast
qed

end
