(* ===== verification/Edit_Bar.thy ===== *)
theory Edit_Bar
  imports Save_Changes
begin

text \<open>
  The bar above an editable result, \<open>src/features/data-editing/EditBar.tsx\<close>: saving in two steps,
  a preview that the backend prepares and a commit of it, with the lock of the edit buffer held
  in between, and the dialog that resolves conflicts. The state of one mounted bar is the record
  \<open>edit_bar\<close>, its \<open>useState\<close> and \<open>useRef\<close> cells together with the calls it is waiting for; the
  stores, the calls sent to the backend and the change sets it handed out are shared. The code between two awaits is one step,
  so that the bar's own steps interleave with those of an earlier bar on the same result.
\<close>

subsection \<open>State\<close>

record preview =
  pv_changeSetId :: string
  pv_deleteCount :: nat

datatype bar_call = PreviewChanges "row_change list" | DiscardChanges string | CommitChanges string

datatype bar_error = OutcomeError string "string option" | CallRejected

datatype bar_message = NoText | CheckFailed | Saved nat | SaveFailed

record edit_bar =
  eb_tab :: string
  eb_info :: editable_info
  eb_preview :: "preview option"
  eb_conflicts :: "row_conflict list option"
  eb_message :: bar_message
  eb_commitError :: "bar_error option"
  eb_showValues :: bool
  eb_busy :: bool
  eb_alive :: bool
  eb_previewId :: "string option"
  eb_committing :: bool
  eb_opening :: bool
  eb_discarding :: bool
  eb_confirming :: "preview option"
  eb_clearing :: bool
  eb_run :: "commit_run option"

record bar_stores =
  bs_edits :: edit_store
  bs_results :: result_store
  bs_calls :: "bar_call list"
  bs_answers :: "string list"

definition mountBar :: "string \<Rightarrow> editable_info \<Rightarrow> edit_bar" where
  "mountBar t info = \<lparr>eb_tab = t, eb_info = info, eb_preview = None, eb_conflicts = None, eb_message = NoText, eb_commitError = None,
     eb_showValues = False, eb_busy = False, eb_alive = True, eb_previewId = None, eb_committing = False,
     eb_opening = False, eb_discarding = False, eb_confirming = None, eb_clearing = False, eb_run = None\<rparr>"

definition sendCall :: "bar_stores \<Rightarrow> bar_call \<Rightarrow> bar_stores" where
  "sendCall s c = s\<lparr>bs_calls := bs_calls s @ [c]\<rparr>"

definition lockTab :: "bar_stores \<Rightarrow> string \<Rightarrow> bool \<Rightarrow> bar_stores" where
  "lockTab s t b = s\<lparr>bs_edits := setLocked (bs_edits s) t b\<rparr>"

subsection \<open>The preview\<close>

definition openPreview :: "bar_stores \<times> edit_bar \<Rightarrow> bar_stores \<times> edit_bar" where
  "openPreview w = (case w of (s, b) \<Rightarrow>
     let b1 = b\<lparr>eb_message := NoText\<rparr>; t = eb_tab b; edits = getEdits (bs_edits s) t in
     if es_locked edits then (s, b1)
     else let s1 = lockTab s t True in
       case buildRowChanges (eb_info b) (rs_columns (getResult (bs_results s) t)) (rowsOf (bs_results s) t) edits of
         Inl e \<Rightarrow> (lockTab s1 t False, b1\<lparr>eb_message := CheckFailed, eb_busy := False\<rparr>)
       | Inr changes \<Rightarrow> (sendCall s1 (PreviewChanges changes), b1\<lparr>eb_busy := True, eb_opening := True\<rparr>))"

text \<open>The answer of \<open>changesPreview\<close>, \<open>None\<close> when it was rejected, and the answer of the discard that an
  unmounted bar waits for; that call may fail, and the buffer is unlocked either way.\<close>

definition previewAnswer :: "bar_stores \<times> edit_bar \<Rightarrow> preview option \<Rightarrow> bar_stores \<times> edit_bar" where
  "previewAnswer w resp = (case w of (s, b) \<Rightarrow>
     if \<not> eb_opening b then w
     else let b1 = b\<lparr>eb_opening := False\<rparr> in
       case resp of
         None \<Rightarrow> (lockTab s (eb_tab b) False, b1\<lparr>eb_message := CheckFailed, eb_busy := False\<rparr>)
       | Some p \<Rightarrow>
           let s = s\<lparr>bs_answers := bs_answers s @ [pv_changeSetId p]\<rparr> in
           if \<not> eb_alive b then (sendCall s (DiscardChanges (pv_changeSetId p)), b1\<lparr>eb_discarding := True\<rparr>)
           else (s, b1\<lparr>eb_previewId := Some (pv_changeSetId p), eb_preview := Some p, eb_busy := False\<rparr>))"

definition discardAnswer :: "bar_stores \<times> edit_bar \<Rightarrow> bool \<Rightarrow> bar_stores \<times> edit_bar" where
  "discardAnswer w ok = (case w of (s, b) \<Rightarrow>
     if \<not> eb_discarding b then w
     else (lockTab s (eb_tab b) False,
           b\<lparr>eb_discarding := False, eb_message := (if ok then eb_message b else CheckFailed), eb_busy := False\<rparr>))"

definition cancelPreview :: "bar_stores \<times> edit_bar \<Rightarrow> bar_stores \<times> edit_bar" where
  "cancelPreview w = (case w of (s, b) \<Rightarrow>
     if eb_committing b then w
     else let s1 = lockTab s (eb_tab b) False in
       (case eb_preview b of None \<Rightarrow> s1 | Some p \<Rightarrow> sendCall s1 (DiscardChanges (pv_changeSetId p)),
        b\<lparr>eb_previewId := None, eb_preview := None, eb_showValues := False\<rparr>))"

subsection \<open>The commit\<close>

definition saveState :: "bar_stores \<Rightarrow> commit_run \<Rightarrow> save_state" where
  "saveState s r = \<lparr>sv_edits = bs_edits s, sv_results = bs_results s, sv_run = r\<rparr>"

definition startCommit :: "bar_stores \<times> edit_bar \<Rightarrow> preview \<Rightarrow> bar_stores \<times> edit_bar" where
  "startCommit w p = (case w of (s, b) \<Rightarrow>
     let v = commitStart (bs_edits s) (bs_results s) (eb_tab b) (eb_info b)
     in (sendCall (s\<lparr>bs_edits := sv_edits v\<rparr>) (CommitChanges (pv_changeSetId p)),
         b\<lparr>eb_committing := True, eb_busy := True, eb_run := Some (sv_run v)\<rparr>))"

text \<open>Ten or more deletions are confirmed first.\<close>

definition commitClick :: "bar_stores \<times> edit_bar \<Rightarrow> bar_stores \<times> edit_bar" where
  "commitClick w = (case w of (s, b) \<Rightarrow>
     case eb_preview b of
       None \<Rightarrow> w
     | Some p \<Rightarrow>
         if eb_committing b then w
         else if pv_deleteCount p \<ge> 10 then (s, b\<lparr>eb_confirming := Some p\<rparr>)
         else startCommit w p)"

definition confirmAnswer :: "bar_stores \<times> edit_bar \<Rightarrow> bool \<Rightarrow> bar_stores \<times> edit_bar" where
  "confirmAnswer w ok = (case w of (s, b) \<Rightarrow>
     case eb_confirming b of
       None \<Rightarrow> w
     | Some p \<Rightarrow> let b1 = b\<lparr>eb_confirming := None\<rparr> in if ok then startCommit (s, b1) p else (s, b1))"

text \<open>A step of \<open>commitChangeSet\<close>; \<open>None\<close> when its channel handler threw.\<close>

definition commitProgress :: "bar_stores \<times> edit_bar \<Rightarrow> commit_step \<Rightarrow> (bar_stores \<times> edit_bar) option" where
  "commitProgress w st = (case w of (s, b) \<Rightarrow>
     case eb_run b of
       None \<Rightarrow> Some w
     | Some r \<Rightarrow> map_option (\<lambda>v. (s\<lparr>bs_edits := sv_edits v, bs_results := sv_results v\<rparr>, b\<lparr>eb_run := Some (sv_run v)\<rparr>))
         (commitStep (saveState s r) st))"

text \<open>The continuation of \<open>commit\<close>, which runs once the promise of \<open>commitChangeSet\<close> is settled.\<close>

definition commitDone :: "bar_stores \<times> edit_bar \<Rightarrow> bar_stores \<times> edit_bar" where
  "commitDone w = (case w of (s, b) \<Rightarrow>
     case eb_run b of
       None \<Rightarrow> w
     | Some r \<Rightarrow> (case commitSettle (saveState s r) of
           None \<Rightarrow> w
         | Some v \<Rightarrow>
             let b1 = b\<lparr>eb_preview := None\<rparr>;
                 b2 = (case cr_promise (sv_run v) of
                     Resolved (CommitCompleted n) \<Rightarrow> b1\<lparr>eb_message := Saved n\<rparr>
                   | Resolved (CommitConflict cs) \<Rightarrow> b1\<lparr>eb_conflicts := Some cs\<rparr>
                   | Resolved (CommitFailed m sqlState) \<Rightarrow> b1\<lparr>eb_message := SaveFailed, eb_commitError := Some (OutcomeError m sqlState)\<rparr>
                   | _ \<Rightarrow> b1\<lparr>eb_message := SaveFailed, eb_commitError := Some CallRejected\<rparr>)
             in (lockTab (s\<lparr>bs_edits := sv_edits v, bs_results := sv_results v\<rparr>) (eb_tab b) False,
                 b2\<lparr>eb_committing := False, eb_previewId := None, eb_busy := False, eb_run := None\<rparr>)))"

subsection \<open>The other controls\<close>

text \<open>Unmounting: the clean-up of the effect.\<close>

definition unmountBar :: "bar_stores \<times> edit_bar \<Rightarrow> bar_stores \<times> edit_bar" where
  "unmountBar w = (case w of (s, b) \<Rightarrow>
     let b1 = b\<lparr>eb_alive := False\<rparr> in
     if eb_committing b then (s, b1)
     else let s1 = (case eb_previewId b of None \<Rightarrow> s | Some i \<Rightarrow> if i \<noteq> [] then sendCall s (DiscardChanges i) else s)
          in (lockTab s1 (eb_tab b) False, b1))"

text \<open>Discarding all pending changes, after a confirmation.\<close>

definition clearClick :: "bar_stores \<times> edit_bar \<Rightarrow> bar_stores \<times> edit_bar" where
  "clearClick w = (case w of (s, b) \<Rightarrow>
     if es_pendingCount (getEdits (bs_edits s) (eb_tab b)) = 0 \<or> eb_busy b then w else (s, b\<lparr>eb_clearing := True\<rparr>))"

definition clearAnswer :: "bar_stores \<times> edit_bar \<Rightarrow> bool \<Rightarrow> bar_stores \<times> edit_bar" where
  "clearAnswer w ok = (case w of (s, b) \<Rightarrow>
     if \<not> eb_clearing b then w
     else (if ok then s\<lparr>bs_edits := clearEdits (bs_edits s) (eb_tab b)\<rparr> else s, b\<lparr>eb_clearing := False\<rparr>))"

definition saveClick :: "bar_stores \<times> edit_bar \<Rightarrow> bar_stores \<times> edit_bar" where
  "saveClick w = (case w of (s, b) \<Rightarrow>
     if es_pendingCount (getEdits (bs_edits s) (eb_tab b)) = 0 \<or> eb_busy b then w else openPreview w)"

definition useServerValues :: "bar_stores \<times> edit_bar \<Rightarrow> bar_stores \<times> edit_bar" where
  "useServerValues w = (case w of (s, b) \<Rightarrow>
     case eb_conflicts b of
       None \<Rightarrow> w
     | Some cs \<Rightarrow> (case applyServerValues (bs_edits s) (bs_results s) (eb_tab b) cs (eb_info b) of
           (edits, results) \<Rightarrow> (s\<lparr>bs_edits := edits, bs_results := results\<rparr>, b\<lparr>eb_conflicts := None\<rparr>)))"

definition keepEditing :: "bar_stores \<times> edit_bar \<Rightarrow> bar_stores \<times> edit_bar" where
  "keepEditing w = (case w of (s, b) \<Rightarrow> (s, b\<lparr>eb_conflicts := None\<rparr>))"

definition dropAll :: "bar_stores \<times> edit_bar \<Rightarrow> bar_stores \<times> edit_bar" where
  "dropAll w = (case w of (s, b) \<Rightarrow>
     case eb_conflicts b of
       None \<Rightarrow> w
     | Some cs \<Rightarrow> (s\<lparr>bs_edits := clearEdits (bs_edits s) (eb_tab b)\<rparr>, b\<lparr>eb_conflicts := None\<rparr>))"

definition closeError :: "bar_stores \<times> edit_bar \<Rightarrow> bar_stores \<times> edit_bar" where
  "closeError w = (case w of (s, b) \<Rightarrow> (s, b\<lparr>eb_commitError := None\<rparr>))"

subsection \<open>The bar as a machine\<close>

datatype bar_event =
    SaveClick | PreviewAnswer "preview option" | DiscardAnswer bool | CancelClick | CommitClick | ConfirmAnswer bool
  | Progress commit_step | CommitDone | Unmount | ClearClick | ClearAnswer bool | ServerValues | KeepEditing | DropAll
  | CloseError | OtherEdit edit_op

text \<open>An edit made elsewhere, in the grid.\<close>

fun barStep :: "bar_stores \<times> edit_bar \<Rightarrow> bar_event \<Rightarrow> (bar_stores \<times> edit_bar) option" where
  "barStep w SaveClick = Some (saveClick w)"
| "barStep w (PreviewAnswer resp) = Some (previewAnswer w resp)"
| "barStep w (DiscardAnswer ok) = Some (discardAnswer w ok)"
| "barStep w CancelClick = Some (cancelPreview w)"
| "barStep w CommitClick = Some (commitClick w)"
| "barStep w (ConfirmAnswer ok) = Some (confirmAnswer w ok)"
| "barStep w (Progress st) = commitProgress w st"
| "barStep w CommitDone = Some (commitDone w)"
| "barStep w Unmount = Some (unmountBar w)"
| "barStep w ClearClick = Some (clearClick w)"
| "barStep w (ClearAnswer ok) = Some (clearAnswer w ok)"
| "barStep w ServerValues = Some (useServerValues w)"
| "barStep w KeepEditing = Some (keepEditing w)"
| "barStep w DropAll = Some (dropAll w)"
| "barStep w CloseError = Some (closeError w)"
| "barStep w (OtherEdit p) = map_option (\<lambda>e. ((fst w)\<lparr>bs_edits := e\<rparr>, snd w)) (edit_step (bs_edits (fst w)) (p, eb_tab (snd w)))"

text \<open>
  What the environment respects: a control is used on a mounted bar and not behind a modal dialog,
  the backend names change sets by non-empty ids, the channel handler of a commit does not throw,
  and other components neither lock nor, while it is locked, clear the buffer.
\<close>

definition noModal :: "edit_bar \<Rightarrow> bool" where
  "noModal b \<longleftrightarrow> eb_preview b = None \<and> eb_conflicts b = None \<and> eb_commitError b = None \<and> eb_confirming b = None \<and> \<not> eb_clearing b"

fun gridEdit :: "edit_op \<Rightarrow> bool" where
  "gridEdit (SetLocked x) = False"
| "gridEdit (ResolveRows xs ys) = False"
| "gridEdit _ = True"

abbreviation lockedTab :: "bar_stores \<Rightarrow> string \<Rightarrow> bool" where
  "lockedTab s t \<equiv> es_locked (getEdits (bs_edits s) t)"

fun barGuard :: "bar_stores \<times> edit_bar \<Rightarrow> bar_event \<Rightarrow> bool" where
  "barGuard (s, b) SaveClick \<longleftrightarrow> eb_alive b \<and> noModal b"
| "barGuard (s, b) ClearClick \<longleftrightarrow> eb_alive b \<and> noModal b"
| "barGuard (s, b) CancelClick \<longleftrightarrow> eb_alive b \<and> eb_preview b \<noteq> None \<and> eb_confirming b = None"
| "barGuard (s, b) CommitClick \<longleftrightarrow> eb_alive b \<and> eb_confirming b = None"
| "barGuard (s, b) Unmount \<longleftrightarrow> eb_alive b"
| "barGuard (s, b) ServerValues \<longleftrightarrow> eb_alive b"
| "barGuard (s, b) DropAll \<longleftrightarrow> eb_alive b"
| "barGuard (s, b) (ClearAnswer ok) \<longleftrightarrow> eb_alive b"
| "barGuard (s, b) (PreviewAnswer (Some p)) \<longleftrightarrow> pv_changeSetId p \<noteq> []"
| "barGuard (s, b) (Progress st) \<longleftrightarrow> commitProgress (s, b) st \<noteq> None"
| "barGuard (s, b) (OtherEdit p) \<longleftrightarrow> gridEdit p \<and> edit_ok (bs_edits s) (p, eb_tab b) \<and> (p = ClearEdits \<longrightarrow> \<not> lockedTab s (eb_tab b))"
| "barGuard w _ \<longleftrightarrow> True"

subsection \<open>The lock and the change sets\<close>

text \<open>Every change set is the open preview, or was committed or discarded.\<close>

definition settledSets :: "bar_stores \<Rightarrow> edit_bar \<Rightarrow> bool" where
  "settledSets s b \<longleftrightarrow> list_all (\<lambda>i. map_option pv_changeSetId (eb_preview b) = Some i
     \<or> DiscardChanges i \<in> set (bs_calls s) \<or> CommitChanges i \<in> set (bs_calls s)) (bs_answers s)"

definition barInv :: "bar_stores \<times> edit_bar \<Rightarrow> bool" where
  "barInv w = (case w of (s, b) \<Rightarrow>
     eb_committing b = (eb_run b \<noteq> None)
     \<and> (case eb_run b of None \<Rightarrow> True | Some r \<Rightarrow> cr_tab r = eb_tab b \<and> eb_confirming b = None
          \<and> (case eb_preview b of None \<Rightarrow> False | Some p \<Rightarrow> CommitChanges (pv_changeSetId p) \<in> set (bs_calls s)))
     \<and> lockedTab s (eb_tab b) = (eb_run b \<noteq> None \<or> eb_alive b \<and> (eb_opening b \<or> eb_preview b \<noteq> None))
     \<and> (eb_opening b \<longrightarrow> eb_preview b = None \<and> eb_run b = None \<and> eb_confirming b = None \<and> \<not> eb_clearing b \<and> eb_conflicts b = None \<and> eb_busy b)
     \<and> (eb_discarding b \<longrightarrow> \<not> eb_alive b \<and> eb_preview b = None \<and> eb_run b = None \<and> eb_confirming b = None \<and> \<not> eb_opening b)
     \<and> (case eb_confirming b of None \<Rightarrow> True | Some p \<Rightarrow> eb_preview b = Some p)
     \<and> (case eb_preview b of None \<Rightarrow> True | Some p \<Rightarrow> eb_previewId b = Some (pv_changeSetId p) \<and> pv_changeSetId p \<noteq> [] \<and> \<not> eb_clearing b \<and> eb_conflicts b = None)
     \<and> settledSets s b)"

lemma lockTab_locked [simp]:
  "lockedTab (lockTab s t x) t = x" "bs_results (lockTab s t x) = bs_results s" "bs_calls (lockTab s t x) = bs_calls s"
  "bs_answers (lockTab s t x) = bs_answers s"
  by (simp_all add: lockTab_def getEdits_lock)

lemma sendCall_simps [simp]:
  "bs_edits (sendCall s c) = bs_edits s" "bs_results (sendCall s c) = bs_results s" "bs_calls (sendCall s c) = bs_calls s @ [c]"
  "bs_answers (sendCall s c) = bs_answers s"
  by (simp_all add: sendCall_def)

lemma settledSets_mono:
  assumes "settledSets s b" "set (bs_calls s) \<subseteq> set (bs_calls s')" "bs_answers s' = bs_answers s"
    and "eb_preview b' = eb_preview b \<or> (\<forall>p. eb_preview b = Some p \<longrightarrow> DiscardChanges (pv_changeSetId p) \<in> set (bs_calls s') \<or> CommitChanges (pv_changeSetId p) \<in> set (bs_calls s'))"
  shows "settledSets s' b'"
  using assms unfolding settledSets_def list_all_iff by (cases "eb_preview b") fastforce+

lemma settledSets_edits [simp]:
  "settledSets (s\<lparr>bs_edits := e\<rparr>) b = settledSets s b" "settledSets (s\<lparr>bs_results := x\<rparr>) b = settledSets s b"
  "settledSets (lockTab s t l) b = settledSets s b"
  by (simp_all add: settledSets_def)

lemma commitStart_simps [simp]:
  "sv_edits (commitStart ed st t info) = setLocked ed t True" "cr_tab (sv_run (commitStart ed st t info)) = t"
  by (simp_all add: commitStart_def)

lemma gridEdit_lock:
  assumes "gridEdit p" "edit_step st (p, t) = Some st'" "p = ClearEdits \<longrightarrow> \<not> es_locked (getEdits st t)"
  shows "es_locked (getEdits st' t) = es_locked (getEdits st t)"
  using assms by (cases p) (auto simp: setCell_def setCellIn_def toggleDelete_def addInsert_def setInsertCell_def removeInsert_def Let_def
      EMPTY_EDITS_def split: if_splits)

lemma barInv_commitDone:
  assumes "barInv (s, b)" shows "barInv (commitDone (s, b))"
proof (cases "eb_run b")
  case (Some r)
  show ?thesis
  proof (cases "commitSettle (saveState s r)")
    case None
    then show ?thesis using assms Some by (simp add: commitDone_def)
  next
    case v: (Some v)
    let ?s = "lockTab (s\<lparr>bs_edits := sv_edits v, bs_results := sv_results v\<rparr>) (eb_tab b) False"
    obtain b' where fin: "commitDone (s, b) = (?s, b')" "eb_preview b' = None" "eb_run b' = None" "\<not> eb_committing b'" "eb_previewId b' = None"
      "eb_tab b' = eb_tab b" "eb_alive b' = eb_alive b" "eb_opening b' = eb_opening b" "eb_confirming b' = eb_confirming b"
      "eb_discarding b' = eb_discarding b" "eb_clearing b' = eb_clearing b"
      using Some v by (simp add: commitDone_def Let_def split: promise.split commit_outcome.split)
    obtain p where p: "eb_preview b = Some p" "CommitChanges (pv_changeSetId p) \<in> set (bs_calls s)"
      using assms Some by (auto simp: barInv_def split: option.splits)
    have "settledSets s b" using assms by (simp add: barInv_def)
    then have "settledSets ?s b'" by (rule settledSets_mono) (use p in auto)
    then show ?thesis using assms Some p unfolding fin(1) by (simp add: barInv_def fin(2-))
  qed
qed (use assms in \<open>simp add: commitDone_def\<close>)

lemma barInv_startCommit:
  assumes "barInv (s, b)" "eb_preview b = Some p" "eb_run b = None" "eb_confirming b = None"
  shows "barInv (startCommit (s, b) p)"
proof -
  have "settledSets s b" using assms(1) by (simp add: barInv_def)
  then have "settledSets (fst (startCommit (s, b) p)) (snd (startCommit (s, b) p))"
    by (rule settledSets_mono) (auto simp: startCommit_def Let_def)
  then show ?thesis
    using assms by (simp add: barInv_def startCommit_def Let_def getEdits_lock)
qed

lemma barInv_confirm:
  assumes "barInv (s, b)" shows "barInv (s, b\<lparr>eb_confirming := None\<rparr>)"
  using assms by (simp add: barInv_def settledSets_def split: option.splits)

lemma barInv_confirmAnswer:
  assumes "barInv (s, b)" shows "barInv (confirmAnswer (s, b) ok)"
proof (cases "eb_confirming b")
  case (Some p)
  then have "eb_preview b = Some p" "eb_run b = None" using assms by (auto simp: barInv_def split: option.splits)
  then show ?thesis using barInv_startCommit [OF barInv_confirm [OF assms]] barInv_confirm [OF assms] Some
    by (simp add: confirmAnswer_def Let_def)
qed (use assms in \<open>simp add: confirmAnswer_def\<close>)

lemma barInv_commitClick:
  assumes "barInv (s, b)" "eb_confirming b = None" shows "barInv (commitClick (s, b))"
proof (cases "eb_preview b")
  case (Some p)
  show ?thesis
  proof (cases "eb_committing b")
    case False
    then have run: "eb_run b = None" using assms(1) by (simp add: barInv_def)
    have "barInv (s, b\<lparr>eb_confirming := Some p\<rparr>)"
      using assms Some run by (simp add: barInv_def settledSets_def)
    then show ?thesis using barInv_startCommit [OF assms(1) Some run assms(2)] False Some by (simp add: commitClick_def)
  qed (use assms Some in \<open>simp add: commitClick_def\<close>)
qed (use assms in \<open>simp add: commitClick_def\<close>)

lemma barInv_saveClick:
  assumes "barInv (s, b)" "eb_alive b" "noModal b" shows "barInv (saveClick (s, b))"
proof (cases "es_pendingCount (getEdits (bs_edits s) (eb_tab b)) = 0 \<or> eb_busy b")
  case False
  let ?t = "eb_tab b"
  have idle: "\<not> eb_opening b" "eb_preview b = None" "eb_run b = None" "eb_confirming b = None" "\<not> eb_clearing b" "eb_conflicts b = None"
    "\<not> eb_discarding b" "\<not> lockedTab s ?t" "settledSets s b" "\<not> eb_committing b"
    using assms False by (auto simp: barInv_def noModal_def split: option.splits)
  show ?thesis
  proof (cases "buildRowChanges (eb_info b) (rs_columns (getResult (bs_results s) ?t)) (rowsOf (bs_results s) ?t) (getEdits (bs_edits s) ?t)")
    case (Inl e)
    have "settledSets (lockTab (lockTab s ?t True) ?t False) (b\<lparr>eb_message := CheckFailed, eb_busy := False\<rparr>)"
      using idle(9) by (simp add: settledSets_def)
    then show ?thesis using False Inl idle by (simp add: saveClick_def openPreview_def Let_def barInv_def)
  next
    case (Inr changes)
    have "settledSets (sendCall (lockTab s ?t True) (PreviewChanges changes)) (b\<lparr>eb_message := NoText, eb_busy := True, eb_opening := True\<rparr>)"
      using idle(9) by (auto simp: settledSets_def list_all_iff)
    then show ?thesis using False Inr idle assms(2) by (simp add: saveClick_def openPreview_def Let_def barInv_def)
  qed
qed (use assms in \<open>auto simp: saveClick_def\<close>)

lemma barInv_previewAnswer:
  assumes "barInv (s, b)" "\<And>p. resp = Some p \<Longrightarrow> pv_changeSetId p \<noteq> []" shows "barInv (previewAnswer (s, b) resp)"
proof (cases "eb_opening b")
  case True
  then have idle: "eb_preview b = None" "eb_run b = None" "eb_confirming b = None" "\<not> eb_clearing b" "eb_conflicts b = None"
    "\<not> eb_discarding b" "lockedTab s (eb_tab b) = eb_alive b" "settledSets s b" "\<not> eb_committing b"
    using assms(1) by (auto simp: barInv_def split: option.splits)
  show ?thesis
  proof (cases resp)
    case None
    have "settledSets (lockTab s (eb_tab b) False) (b\<lparr>eb_opening := False, eb_message := CheckFailed, eb_busy := False\<rparr>)"
      using idle(8) by (simp add: settledSets_def)
    then show ?thesis using True None idle by (simp add: previewAnswer_def Let_def barInv_def)
  next
    case (Some p)
    then show ?thesis using True idle assms(2) [OF Some]
      by (auto simp: previewAnswer_def Let_def barInv_def settledSets_def list_all_iff)
  qed
qed (use assms in \<open>simp add: previewAnswer_def\<close>)

lemma barInv_discardAnswer:
  assumes "barInv (s, b)" shows "barInv (discardAnswer (s, b) ok)"
  using assms by (auto simp: discardAnswer_def barInv_def settledSets_def split: option.split)

lemma barInv_cancelPreview:
  assumes "barInv (s, b)" "eb_alive b" "eb_confirming b = None" "eb_preview b = Some p" shows "barInv (cancelPreview (s, b))"
proof (cases "eb_committing b")
  case False
  then have idle: "eb_run b = None" "\<not> eb_opening b" "\<not> eb_discarding b" "settledSets s b"
    using assms by (auto simp: barInv_def)
  let ?w = "cancelPreview (s, b)"
  have w: "fst ?w = sendCall (lockTab s (eb_tab b) False) (DiscardChanges (pv_changeSetId p))"
    "snd ?w = b\<lparr>eb_previewId := None, eb_preview := None, eb_showValues := False\<rparr>"
    using False assms(4) by (simp_all add: cancelPreview_def Let_def)
  have "settledSets (fst ?w) (snd ?w)"
    by (rule settledSets_mono [OF idle(4)]) (use assms(4) in \<open>auto simp: w\<close>)
  then have "barInv (fst ?w, snd ?w)" using idle False assms unfolding w by (simp add: barInv_def)
  then show ?thesis by simp
qed (use assms in \<open>simp add: cancelPreview_def\<close>)

lemma barInv_unmountBar:
  assumes "barInv (s, b)" "eb_alive b" shows "barInv (unmountBar (s, b))"
proof (cases "eb_committing b")
  case True
  then show ?thesis using assms by (auto simp: unmountBar_def Let_def barInv_def settledSets_def split: option.splits)
next
  case False
  have "settledSets s b" using assms(1) by (simp add: barInv_def)
  then have "settledSets (fst (unmountBar (s, b))) (snd (unmountBar (s, b)))"
    by (rule settledSets_mono) (auto simp: unmountBar_def Let_def False split: option.split)
  then show ?thesis using assms False
    by (auto simp: unmountBar_def Let_def barInv_def split: option.splits)
qed

lemma barInv_commitProgress:
  assumes "barInv (s, b)" "commitProgress (s, b) st = Some w" shows "barInv w"
proof (cases "eb_run b")
  case (Some r)
  obtain v where v: "commitStep (saveState s r) st = Some v"
    "w = (s\<lparr>bs_edits := sv_edits v, bs_results := sv_results v\<rparr>, b\<lparr>eb_run := Some (sv_run v)\<rparr>)"
    using assms(2) Some by (auto simp: commitProgress_def)
  have "sv_edits v = bs_edits s" "cr_tab (sv_run v) = cr_tab r" using commitStep_frame [OF v(1)] by (simp_all add: saveState_def)
  then show ?thesis using assms(1) Some by (auto simp: v(2) barInv_def settledSets_def split: option.splits)
qed (use assms in \<open>simp add: commitProgress_def\<close>)

lemma barInv_edits:
  assumes "barInv (s, b)" "es_locked (getEdits e (eb_tab b)) = lockedTab s (eb_tab b)" shows "barInv (s\<lparr>bs_edits := e\<rparr>, b)"
  using assms by (auto simp: barInv_def split: option.splits)

lemma barInv_results: "barInv (s, b) \<Longrightarrow> barInv (s\<lparr>bs_results := r\<rparr>, b)"
  by (auto simp: barInv_def split: option.splits)

lemma barStep_inv:
  assumes "barInv w" "barGuard w ev" shows "\<exists>w'. barStep w ev = Some w' \<and> barInv w'"
proof -
  obtain s b where w: "w = (s, b)" by (cases w)
  note inv = assms(1) [unfolded w] and guard = assms(2) [unfolded w]
  have unlocked: "\<not> lockedTab s (eb_tab b)" if "eb_alive b" "eb_clearing b \<or> eb_conflicts b \<noteq> None"
    using inv that by (auto simp: barInv_def split: option.splits)
  show ?thesis
  proof (cases ev)
    case (PreviewAnswer resp)
    then show ?thesis using barInv_previewAnswer [OF inv, of resp] guard by (cases resp) (simp_all add: w)
  next
    case CancelClick
    then show ?thesis using barInv_cancelPreview [OF inv] guard by (auto simp: w)
  next
    case (Progress st)
    then show ?thesis using barInv_commitProgress [OF inv] guard by (auto simp: w)
  next
    case (ClearAnswer ok)
    have "barInv (s, b\<lparr>eb_clearing := False\<rparr>)" using inv by (auto simp: barInv_def settledSets_def split: option.splits)
    from barInv_edits [OF this, of "clearEdits (bs_edits s) (eb_tab b)"] this show ?thesis
      using ClearAnswer inv guard unlocked by (auto simp: w clearAnswer_def EMPTY_EDITS_def)
  next
    case ServerValues
    have base: "barInv (s, b\<lparr>eb_conflicts := None\<rparr>)" using inv by (auto simp: barInv_def settledSets_def split: option.splits)
    have keep: "barInv (s\<lparr>bs_edits := e, bs_results := r\<rparr>, b\<lparr>eb_conflicts := None\<rparr>)"
      if "es_locked (getEdits e (eb_tab b)) = lockedTab s (eb_tab b)" for e r
      using barInv_results [OF barInv_edits [OF base, of e], of r] that by simp
    show ?thesis
    proof (cases "eb_conflicts b")
      case (Some cs)
      obtain e r where app: "applyServerValues (bs_edits s) (bs_results s) (eb_tab b) cs (eb_info b) = (e, r)" by fastforce
      then have "es_locked (getEdits e (eb_tab b)) = lockedTab s (eb_tab b)"
        by (auto simp: applyServerValues_def resolveRows_def Let_def split: prod.splits)
      then show ?thesis using keep Some app by (simp add: ServerValues w useServerValues_def)
    qed (use inv in \<open>simp add: ServerValues w useServerValues_def\<close>)
  next
    case DropAll
    have "barInv (s, b\<lparr>eb_conflicts := None\<rparr>)" using inv by (auto simp: barInv_def settledSets_def split: option.splits)
    from barInv_edits [OF this, of "clearEdits (bs_edits s) (eb_tab b)"] inv guard unlocked show ?thesis
      by (cases "eb_conflicts b") (auto simp: DropAll w dropAll_def EMPTY_EDITS_def)
  next
    case (OtherEdit p)
    have "\<exists>e. edit_step (bs_edits s) (p, eb_tab b) = Some e"
      using guard OtherEdit by (cases p) (auto simp: addInsert_def Let_def)
    then obtain e where "edit_step (bs_edits s) (p, eb_tab b) = Some e" by blast
    then show ?thesis using barInv_edits [OF inv, of e] gridEdit_lock [of p "bs_edits s" "eb_tab b" e] guard OtherEdit by (simp add: w)
  next
    case ClearClick
    then show ?thesis using inv guard by (auto simp: w clearClick_def barInv_def noModal_def settledSets_def split: option.splits)
  next
    case KeepEditing
    then show ?thesis using inv by (auto simp: w keepEditing_def barInv_def settledSets_def split: option.splits)
  next
    case CloseError
    then show ?thesis using inv by (auto simp: w closeError_def barInv_def settledSets_def split: option.splits)
  qed (use inv guard in \<open>simp_all add: w barInv_saveClick barInv_discardAnswer barInv_commitClick barInv_confirmAnswer barInv_commitDone
      barInv_unmountBar\<close>)
qed

interpretation barm: guarded_machine barStep barGuard barInv
  by unfold_locales (rule barStep_inv)

text \<open>Claim C17: saving in two steps keeps the buffer as it was previewed. From the preview on until the
  commit is answered the buffer of a mounted bar is locked; when no preview is open or under way
  and no commit runs it is unlocked, and so it is after the bar was unmounted, unless a commit
  still runs; and every change set that the backend prepared is the one on screen, or was committed
  or discarded. This holds whatever the order of clicks, answers, commit events and unmounting.\<close>

theorem save_protocol_holds_lock:
  assumes "\<not> es_locked (getEdits edits t)"
    and "run_ok barStep barGuard (\<lparr>bs_edits = edits, bs_results = results, bs_calls = [], bs_answers = []\<rparr>, mountBar t info) events"
  shows "\<exists>s b. run_actions barStep (\<lparr>bs_edits = edits, bs_results = results, bs_calls = [], bs_answers = []\<rparr>, mountBar t info) events = Some (s, b)
    \<and> (eb_alive b \<and> (eb_opening b \<or> eb_preview b \<noteq> None) \<or> eb_committing b \<longrightarrow> lockedTab s (eb_tab b))
    \<and> (\<not> eb_committing b \<and> (eb_alive b \<longrightarrow> \<not> eb_opening b \<and> eb_preview b = None) \<longrightarrow> \<not> lockedTab s (eb_tab b))
    \<and> (\<forall>i\<in>set (bs_answers s). map_option pv_changeSetId (eb_preview b) = Some i
         \<or> DiscardChanges i \<in> set (bs_calls s) \<or> CommitChanges i \<in> set (bs_calls s))"
proof -
  let ?w = "(\<lparr>bs_edits = edits, bs_results = results, bs_calls = [], bs_answers = []\<rparr>, mountBar t info)"
  have "barInv ?w" using assms(1) by (simp add: barInv_def mountBar_def settledSets_def)
  from barm.run_inv [OF this assms(2)] obtain s b where run: "run_actions barStep ?w events = Some (s, b)" "barInv (s, b)" by auto
  then show ?thesis by (intro exI [of _ s] exI [of _ b]) (auto simp: barInv_def settledSets_def list_all_iff split: option.splits)
qed

subsection \<open>Two bars on one result\<close>

definition bar_edits :: edit_store where
  "bar_edits = nullish (addInsert emptyEditStore ''t'' ''n'' []) emptyEditStore"

definition bar_start :: bar_stores where
  "bar_start = \<lparr>bs_edits = bar_edits, bs_results = emptyResultStore, bs_calls = [], bs_answers = []\<rparr>"

definition bar_preview :: "string \<Rightarrow> preview" where
  "bar_preview i = \<lparr>pv_changeSetId = i, pv_deleteCount = 0\<rparr>"

theorem save_protocol_holds_lock_witness:
  "\<exists>s b. run_actions barStep (bar_start, mountBar ''t'' example_info)
      [SaveClick, PreviewAnswer (Some (bar_preview ''c'')), CommitClick] = Some (s, b) \<and> lockedTab s (eb_tab b)"
proof -
  let ?ev = "[SaveClick, PreviewAnswer (Some (bar_preview ''c'')), CommitClick]"
  let ?w = "(\<lparr>bs_edits = bar_edits, bs_results = emptyResultStore, bs_calls = [], bs_answers = []\<rparr>, mountBar ''t'' example_info)"
  have "\<not> es_locked (getEdits bar_edits ''t'')" "run_ok barStep barGuard ?w ?ev" by code_simp+
  from save_protocol_holds_lock [OF this]
  obtain s b where run: "run_actions barStep ?w ?ev = Some (s, b)" and lock: "eb_committing b \<longrightarrow> lockedTab s (eb_tab b)" by blast
  have "map_option (\<lambda>w. eb_committing (snd w)) (run_actions barStep ?w ?ev) = Some True" by code_simp
  then have "eb_committing b" unfolding run by simp
  then show ?thesis using run lock by (auto simp: bar_start_def)
qed

text \<open>
  A bar that was unmounted while its preview was being prepared unlocks the buffer when the answer
  comes, although by then another bar on the same result holds the lock: the second bar shows its
  preview while the buffer is unlocked.
\<close>

theorem stale_bar_releases_lock:
  "let bar = mountBar ''t'' example_info;
       (s1, a1) = saveClick (bar_start, bar);
       (s2, a2) = unmountBar (s1, a1);
       (s3, b1) = saveClick (s2, bar);
       (s4, b2) = previewAnswer (s3, b1) (Some (bar_preview ''c2''));
       (s5, a3) = previewAnswer (s4, a2) (Some (bar_preview ''c1''));
       (s6, a4) = discardAnswer (s5, a3) True
   in lockedTab s4 ''t'' \<and> eb_alive b2 \<and> eb_preview b2 \<noteq> None \<and> \<not> lockedTab s6 ''t''"
  by code_simp

end
