(* ===== verification/Async_Task.thy ===== *)
theory Async_Task
  imports Js_Prelude
begin

text \<open>
  Asynchronous handlers. A handler runs until it awaits something, a dialog or a call to the
  backend; then other code may change the state, and it goes on with the answer in the state it
  finds. \<open>Ask q s k\<close> is a handler that has left the state \<open>s\<close> and waits for the answer to \<open>q\<close>, and
  \<open>Return s r\<close> one that has ended with the result \<open>r\<close>. What is local to the handler, such as a tab
  it was called with, lives in the continuation and does not change meanwhile.
\<close>

datatype ('q, 'a, 's, 'r) task =
    Return 's 'r
  | Ask 'q 's "'a \<Rightarrow> 's \<Rightarrow> ('q, 'a, 's, 'r) task"

text \<open>\<open>await\<close> of another handler: \<open>f\<close> is what follows.\<close>

primrec and_then :: "('q, 'a, 's, 'r) task \<Rightarrow> ('s \<Rightarrow> 'r \<Rightarrow> ('q, 'a, 's, 't) task) \<Rightarrow> ('q, 'a, 's, 't) task" where
  "and_then (Return s r) f = f s r"
| "and_then (Ask q s k) f = Ask q s (\<lambda>a s'. and_then (k a s') f)"

text \<open>
  A run against an environment: each entry is the answer to the pending question with what the
  rest of the program does to the state before the handler goes on. The result is the trace of
  answered questions and the handler as the run leaves it.
\<close>

type_synonym ('a, 's) env = "('a \<times> ('s \<Rightarrow> 's)) list"

fun run_task :: "('q, 'a, 's, 'r) task \<Rightarrow> ('a, 's) env \<Rightarrow> ('q \<times> 'a) list \<times> ('q, 'a, 's, 'r) task" where
  "run_task (Return s r) env = ([], Return s r)"
| "run_task (Ask q s k) [] = ([], Ask q s k)"
| "run_task (Ask q s k) ((a, f) # env) = (case run_task (k a (f s)) env of (tr, t) \<Rightarrow> ((q, a) # tr, t))"

primrec state_of :: "('q, 'a, 's, 'r) task \<Rightarrow> 's" where
  "state_of (Return s r) = s"
| "state_of (Ask q s k) = s"

text \<open>The question a task waits for, and the result it ended with.\<close>

primrec pending_question :: "('q, 'a, 's, 'r) task \<Rightarrow> 'q option" where
  "pending_question (Return s r) = None"
| "pending_question (Ask q s k) = Some q"

primrec result_of :: "('q, 'a, 's, 'r) task \<Rightarrow> 'r option" where
  "result_of (Return s r) = Some r"
| "result_of (Ask q s k) = None"

text \<open>Every question of a run, the one still pending included.\<close>

definition questions :: "('q \<times> 'a) list \<times> ('q, 'a, 's, 'r) task \<Rightarrow> 'q list" where
  "questions p = map fst (fst p) @ (case pending_question (snd p) of None \<Rightarrow> [] | Some q \<Rightarrow> [q])"

subsection \<open>What holds along every run\<close>

text \<open>
  \<open>safe I Q A P t\<close>: until an answer satisfies \<open>A\<close>, the task asks only questions that satisfy \<open>Q\<close>, leaves
  a state that satisfies \<open>I\<close> whenever it was resumed in one, and a result it returns satisfies \<open>P\<close>.
  After an answer that satisfies \<open>A\<close> nothing is required.
\<close>

primrec safe :: "('s \<Rightarrow> bool) \<Rightarrow> ('q \<Rightarrow> bool) \<Rightarrow> ('q \<Rightarrow> 'a \<Rightarrow> bool) \<Rightarrow> ('s \<Rightarrow> 'r \<Rightarrow> bool) \<Rightarrow> ('q, 'a, 's, 'r) task \<Rightarrow> bool" where
  "safe I Q A P (Return s r) = (I s \<and> P s r)"
| "safe I Q A P (Ask q s k) = (I s \<and> Q q \<and> (\<forall>a s'. I s' \<longrightarrow> A q a \<or> safe I Q A P (k a s')))"

definition env_keeps :: "('s \<Rightarrow> bool) \<Rightarrow> ('a, 's) env \<Rightarrow> bool" where
  "env_keeps I env \<longleftrightarrow> (\<forall>(a, f)\<in>set env. \<forall>s. I s \<longrightarrow> I (f s))"

lemma safe_run:
  assumes "safe I Q A P t" "run_task t env = (tr, t')" "\<forall>(q, a)\<in>set tr. \<not> A q a" "env_keeps I env"
  shows "I (state_of t')" "\<forall>q\<in>set (questions (tr, t')). Q q" "\<And>r. result_of t' = Some r \<Longrightarrow> P (state_of t') r"
proof -
  have "I (state_of t') \<and> (\<forall>q\<in>set (questions (tr, t')). Q q) \<and> (\<forall>r. result_of t' = Some r \<longrightarrow> P (state_of t') r)"
    using assms
  proof (induction t arbitrary: env tr)
    case (Ask q s k)
    show ?case
    proof (cases env)
      case (Cons e env')
      obtain a g where e: "e = (a, g)" by (cases e)
      obtain tr' where tr': "tr = (q, a) # tr'" "run_task (k a (g s)) env' = (tr', t')"
        using Ask.prems(2) by (auto simp: Cons e split: prod.splits)
      have "I (g s)" using Ask.prems(1,4) by (auto simp: Cons e env_keeps_def)
      then have k: "safe I Q A P (k a (g s))" using Ask.prems(1,3) tr'(1) by auto
      have "I (state_of t') \<and> (\<forall>q\<in>set (questions (tr', t')). Q q) \<and> (\<forall>r. result_of t' = Some r \<longrightarrow> P (state_of t') r)"
        by (rule Ask.IH [OF rangeI rangeI k tr'(2)]) (use Ask.prems(3,4) tr'(1) in \<open>auto simp: Cons e env_keeps_def\<close>)
      then show ?thesis using Ask.prems(1) tr'(1) by (auto simp: questions_def)
    qed (use Ask.prems in \<open>auto simp: questions_def\<close>)
  qed (auto simp: questions_def)
  then show "I (state_of t')" "\<forall>q\<in>set (questions (tr, t')). Q q" "\<And>r. result_of t' = Some r \<Longrightarrow> P (state_of t') r" by blast+
qed

lemma safe_and_then:
  assumes "safe I Q A P t" "\<And>s r. I s \<Longrightarrow> P s r \<Longrightarrow> safe I Q A P' (f s r)" shows "safe I Q A P' (and_then t f)"
  using assms(1)
proof (induction t)
  case (Ask q s k)
  have "A q a \<or> safe I Q A P' (and_then (k a s') f)" if "I s'" for a s'
    using Ask.prems Ask.IH [OF rangeI rangeI, of a s'] that by auto
  then show ?case using Ask.prems by auto
qed (simp add: assms(2))

lemma safe_mono:
  assumes "safe I Q A P t" "\<And>q. Q q \<Longrightarrow> Q' q" "\<And>q a. A q a \<Longrightarrow> A' q a" "\<And>s r. I s \<Longrightarrow> P s r \<Longrightarrow> P' s r" shows "safe I Q' A' P' t"
  using assms(1)
proof (induction t)
  case (Ask q s k)
  have "A' q a \<or> safe I Q' A' P' (k a s')" if "I s'" for a s'
    using Ask.prems Ask.IH [OF rangeI rangeI, of a s'] that assms(3) by auto
  then show ?case using Ask.prems assms(2) by auto
qed (simp add: assms(4))

end
