(* ===== verification/Workspace_Page.thy ===== *)
theory Workspace_Page
  imports Async_Task Query_Channel Persistence Completion Shortcuts
begin

text \<open>
  The workspace page, \<open>src/app/shell/WorkspacePage.tsx\<close>: the handlers that tie the stores together.
  The record \<open>page\<close> is the component's state and the stores it works on, for one connection; what
  is sent and not waited for is the trace \<open>wp_effects\<close>. A handler that awaits a dialog or the backend
  is a task over \<open>page\<close>, with the question it asks; values captured when the handler was called
  (the tab, the workspace as rendered) are its arguments. Random ids and times are arguments or
  answers, the messages shown to the user are constructors.
\<close>

subsection \<open>State\<close>

record editor_view =
  ev_doc :: string
  ev_anchor :: nat
  ev_head :: nat

abbreviation ev_from :: "editor_view \<Rightarrow> nat" where
  "ev_from v \<equiv> min (ev_anchor v) (ev_head v)"

abbreviation ev_to :: "editor_view \<Rightarrow> nat" where
  "ev_to v \<equiv> max (ev_anchor v) (ev_head v)"

datatype page_notice =
    NoNotice
  | NothingToSave | SaveQueryFailed
  | NothingToRun | ManyStatements nat | NothingToRefresh | RefreshWhileSaving
  | BusyForSwitch | LostConnection | BusyForClose | StartRefused start_error
  | ErrorNotice string

datatype page_toast = SavedToast string | RefreshedToast | ReconnectedToast

datatype page_effect =
    SaveSoon | CancelExecution string | RemoveQueries | InvalidateQueries | ClearCompletion
  | ReplaceDoc string string | ClickSaveEdits | ClickRefresh | FocusGrid

record page =
  wp_conn :: string
  wp_app :: app
  wp_drafts :: draft_maps
  wp_selections :: "(string, nat \<times> nat) js_map"
  wp_tableViews :: "(string, int option \<times> bool) js_map"
  wp_saved :: saved_store
  wp_connections :: open_connections
  wp_views :: "(string, editor_view) js_map"
  wp_dirtyTabs :: "string js_set"
  wp_notice :: page_notice
  wp_toast :: "page_toast option"
  wp_changingDatabase :: bool
  wp_focusEditor :: "string option"
  wp_focused :: "string option"
  wp_effects :: "page_effect list"

text \<open>The questions of the handlers, dialogs and calls to the backend, and their answers.\<close>

datatype page_question =
    PromptName string | ConfirmOverwrite string | PersistQuery string string
  | ConfirmStatement string | ConfirmWithoutWhere string | ConfirmDiscardAndRun
  | AwaitQuery string execution
  | ConfirmSwitch | PersistDrafts | CancelQueries | SwitchDatabase string
  | RefetchQueries | ListDatabases | ConfirmReconnect | Reconnect
  | ConfirmClose | ConfirmCloseResult string | ReleaseResult string | ConfirmSaveFirst string
  | CloseSession string | CloseConnection | NavigateHome
  | PromptTitle string | FindSelectedTable string

text \<open>\<open>Answered\<close>: the call succeeded, or a confirmation was accepted; a dialog that is dismissed answers
  \<open>Refused\<close>, a call that is rejected \<open>Rejected\<close> with the code and message of the error.\<close>

datatype page_answer =
    Answered | Refused | Typed string | Stored string string | StoreRefused string string
  | Opened string | FoundTable catalog_item | Rejected "string option" string

type_synonym 'r page_task = "(page_question, page_answer, page, 'r) task"

abbreviation editsOf :: "page \<Rightarrow> string \<Rightarrow> edit_snapshot" where
  "editsOf p rid \<equiv> getEdits (app_edits (wp_app p)) rid"

definition currentWorkspace :: "page \<Rightarrow> workspace_state option" where
  "currentWorkspace p = map_of (wst_states (app_ws (wp_app p))) (wp_conn p)"

definition openTabs :: "page \<Rightarrow> query_tab list" where
  "openTabs p = (case currentWorkspace p of None \<Rightarrow> [] | Some w \<Rightarrow> ws_tabs w)"

definition currentActiveTab :: "page \<Rightarrow> query_tab option" where
  "currentActiveTab p = Option.bind (currentWorkspace p) (\<lambda>w. find (\<lambda>t. Some (qt_id t) = ws_activeTabId w) (ws_tabs w))"

definition profileOf :: "page \<Rightarrow> connection_profile option" where
  "profileOf p = map_of (oc_map (wp_connections p)) (wp_conn p)"

definition dispatch :: "page \<Rightarrow> workspace_action \<Rightarrow> page" where
  "dispatch p action = p\<lparr>wp_app := dispatchApp (wp_app p) (wp_conn p) action\<rparr>"

definition effect :: "page_effect \<Rightarrow> page \<Rightarrow> page" where
  "effect e p = p\<lparr>wp_effects := wp_effects p @ [e]\<rparr>"

definition setNotice :: "page \<Rightarrow> page_notice \<Rightarrow> page" where
  "setNotice p n = p\<lparr>wp_notice := n\<rparr>"

abbreviation addTab :: tab_added where
  "addTab \<equiv> \<lparr>ta_title = None, ta_tableData = None, ta_routineOid = None, ta_split = False, ta_groupId = None\<rparr>"

subsection \<open>Mounting and tabs\<close>

text \<open>The first render of a connection, and the effect that never leaves a workspace empty.\<close>

definition mountWorkspace :: "(nat \<Rightarrow> string) \<Rightarrow> string \<Rightarrow> workspace_snapshot option \<Rightarrow> page \<Rightarrow> page \<times> workspace_snapshot option" where
  "mountWorkspace fresh tabId cache p =
     (if currentWorkspace p \<noteq> None then (p, cache)
      else let (restored, cache', drafts) = (case profileOf p of
               None \<Rightarrow> (None, cache, wp_drafts p)
             | Some profile \<Rightarrow> restoreWorkspace fresh cache (wp_drafts p) (cp_id profile) (cp_database profile));
             initial = nullish restored emptyWorkspace;
             ws = (if ws_tabs initial \<noteq> [] then initial else nullish (workspaceReducer initial (TAB_ADDED tabId addTab)) initial);
             st = app_ws (wp_app p)
           in (p\<lparr>wp_drafts := drafts,
                 wp_app := (wp_app p)\<lparr>app_ws := st\<lparr>wst_states := AList.update (wp_conn p) ws (wst_states st)\<rparr>\<rparr>\<rparr>, cache'))"

definition refillEffect :: "string \<Rightarrow> page \<Rightarrow> page" where
  "refillEffect tabId p = (if openTabs p = [] then dispatch p (TAB_ADDED tabId addTab) else p)"

definition focusActiveEditor :: "page \<Rightarrow> page" where
  "focusActiveEditor p =
     (let target = (case currentWorkspace p of
              None \<Rightarrow> None | Some w \<Rightarrow> nullish_opt (ws_activeTabId w) (map_option qt_id (js_at (ws_tabs w) 0)))
      in case map_of (wp_views p) (nullish target []) of
           None \<Rightarrow> p\<lparr>wp_focusEditor := target\<rparr>
         | Some view \<Rightarrow> p\<lparr>wp_focusEditor := None, wp_focused := Some (nullish target [])\<rparr>)"

definition dispatchAndFocusEditor :: "page \<Rightarrow> workspace_action \<Rightarrow> page" where
  "dispatchAndFocusEditor p action = focusActiveEditor (dispatch p action)"

definition draftOf :: "page \<Rightarrow> string \<Rightarrow> string" where
  "draftOf p tabId = nullish (map_of (dm_sql (wp_drafts p)) tabId) []"

definition openSqlInNewTab :: "page \<Rightarrow> string \<Rightarrow> string option \<Rightarrow> string option \<Rightarrow> string \<Rightarrow> page" where
  "openSqlInNewTab p sql title savedQueryId tabId =
     (let normalizedSql = trim sql;
          existing = (if normalizedSql = [] then None
            else find (\<lambda>tab. qt_kind tab = QueryKind \<and>
                (savedQueryId \<noteq> None \<and> map_of (dm_saved (wp_drafts p)) (qt_id tab) = savedQueryId
                 \<or> trim (draftOf p (qt_id tab)) = normalizedSql)) (openTabs p))
      in case existing of
           Some tab \<Rightarrow> dispatchAndFocusEditor p (TAB_ACTIVATED (qt_id tab))
         | None \<Rightarrow> dispatchAndFocusEditor
             (p\<lparr>wp_drafts := (wp_drafts p)\<lparr>dm_sql := AList.update tabId sql (dm_sql (wp_drafts p)),
                  dm_saved := (if truthy_str savedQueryId then AList.update tabId (the savedQueryId) (dm_saved (wp_drafts p))
                               else dm_saved (wp_drafts p))\<rparr>\<rparr>)
             (TAB_ADDED tabId (addTab\<lparr>ta_title := title\<rparr>)))"

definition savedEntry :: "page \<Rightarrow> string \<Rightarrow> saved_query option" where
  "savedEntry p tabId = find (\<lambda>entry. Some (sq_id entry) = map_of (dm_saved (wp_drafts p)) tabId) (wp_saved p)"

definition noteSqlChanged :: "page \<Rightarrow> string \<Rightarrow> string \<Rightarrow> page" where
  "noteSqlChanged p tabId sql =
     (let dirty = (case savedEntry p tabId of None \<Rightarrow> False | Some saved \<Rightarrow> sq_sql saved \<noteq> sql) in
      if (tabId \<in> set (wp_dirtyTabs p)) = dirty then p
      else p\<lparr>wp_dirtyTabs := (if dirty then js_set_add tabId (wp_dirtyTabs p) else js_set_delete tabId (wp_dirtyTabs p))\<rparr>)"

text \<open>\<open>dirtyTabs\<close>: the set as it was rendered when the calling handler started.\<close>

definition isDirtyQuery :: "string js_set \<Rightarrow> page \<Rightarrow> query_tab \<Rightarrow> bool" where
  "isDirtyQuery dirtyTabs p tab =
     (if qt_kind tab \<noteq> QueryKind then False
      else qt_id tab \<in> set dirtyTabs
        \<or> (case savedEntry p (qt_id tab) of None \<Rightarrow> False | Some saved \<Rightarrow> sq_sql saved \<noteq> draftOf p (qt_id tab)))"

definition addQueryTab :: "page \<Rightarrow> bool \<Rightarrow> string option \<Rightarrow> string \<Rightarrow> page" where
  "addQueryTab p split groupId tabId = dispatchAndFocusEditor p (TAB_ADDED tabId (addTab\<lparr>ta_split := split, ta_groupId := groupId\<rparr>))"

definition tableDataTab :: "catalog_item \<Rightarrow> bool \<Rightarrow> string \<Rightarrow> workspace_action" where
  "tableDataTab obj split tabId = TAB_ADDED tabId (addTab\<lparr>ta_title := Some (ci_name obj), ta_split := split,
     ta_tableData := Some \<lparr>td_relationOid = ci_oid obj, td_schema = ci_schema obj, td_name = ci_name obj\<rparr>\<rparr>)"

subsection \<open>Saving a query tab\<close>

definition showError :: "page \<Rightarrow> string \<Rightarrow> page" where
  "showError p message = setNotice p (ErrorNotice message)"

definition undirty :: "string \<Rightarrow> page \<Rightarrow> page" where
  "undirty tabId p = p\<lparr>wp_dirtyTabs := js_set_delete tabId (wp_dirtyTabs p)\<rparr>"

text \<open>The editors of the tabs that follow the save get the new text.\<close>

definition replaceDocs :: "string \<Rightarrow> string list \<Rightarrow> page \<Rightarrow> page" where
  "replaceDocs sql moved p = fold (\<lambda>tabId p. case map_of (wp_views p) tabId of
       None \<Rightarrow> p
     | Some view \<Rightarrow> effect (ReplaceDoc tabId sql) (p\<lparr>wp_views := AList.update tabId (view\<lparr>ev_doc := sql\<rparr>) (wp_views p)\<rparr>)) moved p"

definition afterSave :: "query_tab \<Rightarrow> saved_query option \<Rightarrow> saved_query \<Rightarrow> page \<Rightarrow> page" where
  "afterSave tab previous saved p =
     (let drafts = wp_drafts p;
          ids = AList.update (qt_id tab) (sq_id saved) (dm_saved drafts);
          synced = syncSavedQueryTabs (wst_states (app_ws (wp_app p))) ids (dm_sql drafts) (sq_id saved) (sq_sql saved)
                     (map_option sq_sql previous) (Some (qt_id tab));
          p1 = replaceDocs (sq_sql saved) (snd synced) (p\<lparr>wp_drafts := \<lparr>dm_sql = fst synced, dm_saved = ids\<rparr>\<rparr>);
          p2 = undirty (qt_id tab) (effect SaveSoon p1)
      in (dispatch p2 (TAB_RENAMED (qt_id tab) (sq_name saved)))\<lparr>wp_toast := Some (SavedToast (sq_name saved))\<rparr>)"

text \<open>The call of \<open>savedQueryStore.save\<close>, whose checks and effect are those of \<open>saveQuery\<close>, at the time
  its promise settles.\<close>

definition storeQuery :: "string comparator \<Rightarrow> query_tab \<Rightarrow> string \<Rightarrow> string \<Rightarrow> saved_query option \<Rightarrow> page \<Rightarrow> bool page_task" where
  "storeQuery localeCompare tab name sql previous p =
     Ask (PersistQuery name sql) p (\<lambda>a p.
       let (outcome, st) = (case a of
             Stored uuid now \<Rightarrow> saveQuery localeCompare (wp_saved p) name sql uuid now True
           | StoreRefused uuid now \<Rightarrow> saveQuery localeCompare (wp_saved p) name sql uuid now False
           | _ \<Rightarrow> (Inl PersistFailed, wp_saved p))
       in case outcome of
            Inl e \<Rightarrow> Return (setNotice (p\<lparr>wp_saved := st\<rparr>) SaveQueryFailed) False
          | Inr saved \<Rightarrow> Return (afterSave tab previous saved (p\<lparr>wp_saved := st\<rparr>)) True)"

definition saveQueryTab :: "string comparator \<Rightarrow> query_tab \<Rightarrow> page \<Rightarrow> bool page_task" where
  "saveQueryTab localeCompare tab p =
     (let sql = draftOf p (qt_id tab) in
      if qt_kind tab \<noteq> QueryKind then Return p False
      else if trim sql = [] then Return (setNotice p NothingToSave) False
      else let bound = savedEntry p (qt_id tab) in
        if truthy_str (map_option sq_name bound) then storeQuery localeCompare tab (sq_name (the bound)) sql bound p
        else Ask (PromptName (qt_title tab)) p (\<lambda>a p.
          case a of
            Typed name \<Rightarrow>
              if trim name = [] then Return p False
              else (case findSaved (wp_saved p) (trim name) of
                  None \<Rightarrow> storeQuery localeCompare tab (trim name) sql None p
                | Some clash \<Rightarrow> Ask (ConfirmOverwrite (sq_name clash)) p (\<lambda>a p.
                    if a = Answered then storeQuery localeCompare tab (trim name) sql (Some clash) p else Return p False))
          | _ \<Rightarrow> Return p False))"

definition saveCurrentQuery :: "string comparator \<Rightarrow> page \<Rightarrow> unit page_task" where
  "saveCurrentQuery localeCompare p =
     (case currentActiveTab p of None \<Rightarrow> Return p () | Some tab \<Rightarrow> and_then (saveQueryTab localeCompare tab p) (\<lambda>p saved. Return p ()))"

subsection \<open>Running SQL\<close>

definition pickSql :: "page \<Rightarrow> string \<Rightarrow> string option" where
  "pickSql p tabId =
     (case map_of (wp_views p) tabId of
        None \<Rightarrow> None
      | Some view \<Rightarrow>
          if ev_from view \<noteq> ev_to view
          then (let s = trim (slice (ev_doc view) (ev_from view) (ev_to view)) in if s = [] then None else Some s)
          else map_option st_sql (statementAt (ev_doc view) (ev_from view)))"

definition hasWhere :: "string \<Rightarrow> bool" where
  "hasWhere sql = re_test (seqs [WordB, word_i ''WHERE'', WordB]) (stripLiterals sql)"

definition confirmSql :: "string \<Rightarrow> page \<Rightarrow> bool page_task" where
  "confirmSql sql p =
     (let keyword = firstKeyword sql in
      if keyword = ''DROP'' \<or> keyword = ''TRUNCATE'' then Ask (ConfirmStatement keyword) p (\<lambda>a p. Return p (a = Answered))
      else if (keyword = ''DELETE'' \<or> keyword = ''UPDATE'') \<and> \<not> hasWhere sql
      then Ask (ConfirmWithoutWhere keyword) p (\<lambda>a p. Return p (a = Answered))
      else Return p True)"

definition statementCount :: "string \<Rightarrow> nat" where
  "statementCount sql = length (filter (\<lambda>st. trim (stripLiterals (st_sql st)) \<noteq> []) (splitStatements sql))"

text \<open>\<open>try { await runQuery(...) } catch\<close>: what is thrown becomes the notice.\<close>

definition awaitRun :: "string \<Rightarrow> string \<Rightarrow> string \<Rightarrow> string \<Rightarrow> string \<Rightarrow> page \<Rightarrow> unit page_task" where
  "awaitRun tabId resultTabId sql startedAt historyId p =
     (case runQuery (wp_app p) (wp_conn p) tabId resultTabId sql startedAt historyId of
        Inl e \<Rightarrow> Return (setNotice p (StartRefused e)) ()
      | Inr (app, x) \<Rightarrow> Ask (AwaitQuery sql x) (p\<lparr>wp_app := app\<rparr>) (\<lambda>a p.
          Return (case a of Rejected c m \<Rightarrow> showError p m | _ \<Rightarrow> p) ()))"

definition reusable :: "page \<Rightarrow> bool \<Rightarrow> query_tab \<Rightarrow> string option" where
  "reusable p replace tab =
     (case find (\<lambda>r. Some (rt_id r) = qt_activeResultTabId tab) (qt_resultTabs tab) of
        None \<Rightarrow> None
      | Some active \<Rightarrow>
          if replace \<and> \<not> rt_isPinned active \<and> \<not> rt_isRunning active
             \<and> es_pendingCount (editsOf p (rt_id active)) = 0 \<and> \<not> es_locked (editsOf p (rt_id active))
          then Some (rt_id active) else None)"

definition tabIdle :: "page \<Rightarrow> query_tab \<Rightarrow> bool" where
  "tabIdle p tab \<longleftrightarrow> \<not> wp_changingDatabase p \<and> qt_kind tab = QueryKind \<and> \<not> truthy_str (qt_runningExecutionId tab)"

text \<open>What follows a confirmed run: the active result is replaced, or a new one added and filled.\<close>

definition startRun :: "bool \<Rightarrow> query_tab \<Rightarrow> string \<Rightarrow> string \<Rightarrow> string \<Rightarrow> string \<Rightarrow> page \<Rightarrow> unit page_task" where
  "startRun replace tab sql freshId startedAt historyId p =
     (let p1 = setNotice p NoNotice in
      case reusable p1 replace tab of
        Some rid \<Rightarrow> awaitRun (qt_id tab) rid sql startedAt historyId p1
      | None \<Rightarrow> awaitRun (qt_id tab) freshId sql startedAt historyId (dispatch p1 (RESULT_ADDED (qt_id tab) freshId)))"

definition runHandler :: "bool \<Rightarrow> query_tab option \<Rightarrow> string \<Rightarrow> string \<Rightarrow> string \<Rightarrow> page \<Rightarrow> unit page_task" where
  "runHandler replace target freshId startedAt historyId p =
     (case target of
        None \<Rightarrow> Return p ()
      | Some tab \<Rightarrow>
          if \<not> tabIdle p tab then Return p ()
          else (case pickSql p (qt_id tab) of
              None \<Rightarrow> Return (setNotice p NothingToRun) ()
            | Some sql \<Rightarrow>
                if statementCount sql > 1 then Return (setNotice p (ManyStatements (statementCount sql))) ()
                else and_then (confirmSql sql p) (\<lambda>p ok.
                  if ok then startRun replace tab sql freshId startedAt historyId p else Return p ())))"

text \<open>What follows a confirmed refresh: the result's unsaved edits must go before it runs again.
  \<open>editorOpen\<close>: whether a cell editor is open when the handler looks.\<close>

definition startRefresh :: "bool \<Rightarrow> query_tab \<Rightarrow> string \<Rightarrow> string \<Rightarrow> string \<Rightarrow> string \<Rightarrow> page \<Rightarrow> unit page_task" where
  "startRefresh editorOpen tab rid sql startedAt historyId p =
     (if es_locked (editsOf p rid) then Return (setNotice p RefreshWhileSaving) ()
      else if es_pendingCount (editsOf p rid) > 0 \<or> editorOpen
      then Ask ConfirmDiscardAndRun p (\<lambda>a p.
        if a \<noteq> Answered then Return p ()
        else awaitRun (qt_id tab) rid sql startedAt historyId
               (setNotice (p\<lparr>wp_app := (wp_app p)\<lparr>app_edits := clearEdits (app_edits (wp_app p)) rid\<rparr>\<rparr>) NoNotice))
      else awaitRun (qt_id tab) rid sql startedAt historyId (setNotice p NoNotice))"

definition refreshResultTab :: "bool \<Rightarrow> query_tab option \<Rightarrow> string \<Rightarrow> string \<Rightarrow> page \<Rightarrow> unit page_task" where
  "refreshResultTab editorOpen target startedAt historyId p =
     (case target of
        None \<Rightarrow> Return p ()
      | Some tab \<Rightarrow>
          if \<not> tabIdle p tab then Return p ()
          else (case qt_activeResultTabId tab of
              None \<Rightarrow> Return (setNotice p NothingToRefresh) ()
            | Some rid \<Rightarrow> (case rs_executedSql (getResult (app_results (wp_app p)) rid) of
                None \<Rightarrow> Return (setNotice p NothingToRefresh) ()
              | Some sql \<Rightarrow>
                  if rid = [] \<or> sql = [] then Return (setNotice p NothingToRefresh) ()
                  else and_then (confirmSql sql p) (\<lambda>p ok.
                    if ok then startRefresh editorOpen tab rid sql startedAt historyId p else Return p ()))))"

definition cancelRun :: "query_tab option \<Rightarrow> page \<Rightarrow> page" where
  "cancelRun target p = (case Option.bind target qt_runningExecutionId of
     None \<Rightarrow> p
   | Some e \<Rightarrow> if e \<noteq> [] \<and> \<not> starts_with e ''pending:'' then effect (CancelExecution e) p else p)"

subsection \<open>Closing\<close>

definition busyTab :: "query_tab \<Rightarrow> bool" where
  "busyTab t \<longleftrightarrow> truthy_str (qt_runningExecutionId t) \<or> (qt_transactionState t \<noteq> None \<and> qt_transactionState t \<noteq> Some TxIdle)"

definition lockedResults :: "page \<Rightarrow> query_tab \<Rightarrow> bool" where
  "lockedResults p t = list_ex (\<lambda>rid. es_locked (editsOf p rid)) (resultIds t)"

definition editedResults :: "page \<Rightarrow> query_tab \<Rightarrow> bool" where
  "editedResults p t = list_ex (\<lambda>rid. es_pendingCount (editsOf p rid) > 0) (resultIds t)"

definition preparing :: "query_tab \<Rightarrow> bool" where
  "preparing t \<longleftrightarrow> (case qt_runningExecutionId t of None \<Rightarrow> False | Some e \<Rightarrow> starts_with e ''pending:'')"

text \<open>The answer tells that the tabs must stay open.\<close>

definition protectedTabs :: "query_tab list \<Rightarrow> page \<Rightarrow> bool page_task" where
  "protectedTabs tabs p =
     (if list_ex preparing tabs \<or> list_ex (lockedResults p) tabs then Return (setNotice p BusyForClose) True
      else if list_ex (editedResults p) tabs \<or> list_ex busyTab tabs
      then Ask ConfirmClose p (\<lambda>a p. Return p (a \<noteq> Answered))
      else Return p False)"

definition disposeTab :: "query_tab \<Rightarrow> page \<Rightarrow> page" where
  "disposeTab tab p =
     (let (edits, results) = foldl dispose (app_edits (wp_app p), app_results (wp_app p)) (resultIds tab);
          p1 = p\<lparr>wp_app := (wp_app p)\<lparr>app_edits := edits, app_results := results\<rparr>,
                 wp_tableViews := AList.delete (qt_id tab) (wp_tableViews p),
                 wp_drafts := \<lparr>dm_sql = AList.delete (qt_id tab) (dm_sql (wp_drafts p)),
                              dm_saved = AList.delete (qt_id tab) (dm_saved (wp_drafts p))\<rparr>,
                 wp_selections := AList.delete (qt_id tab) (wp_selections p)\<rparr>
      in undirty (qt_id tab) p1)"

definition closeResultTab :: "query_tab \<Rightarrow> string \<Rightarrow> page \<Rightarrow> unit page_task" where
  "closeResultTab tab rid p =
     (case find (\<lambda>x. rt_id x = rid) (qt_resultTabs tab) of
        None \<Rightarrow> Return p ()
      | Some r \<Rightarrow>
          let edits = editsOf p rid;
              release = (\<lambda>p. Ask (ReleaseResult rid) p (\<lambda>a p. case a of
                  Rejected c m \<Rightarrow> Return (showError p m) ()
                | _ \<Rightarrow> let (edits, results) = dispose (app_edits (wp_app p), app_results (wp_app p)) rid
                       in Return (dispatch (p\<lparr>wp_app := (wp_app p)\<lparr>app_edits := edits, app_results := results\<rparr>\<rparr>)
                                    (RESULT_CLOSED (qt_id tab) rid)) ()))
          in if rt_isRunning r \<or> es_locked edits then Return p ()
             else if rt_isPinned r \<or> es_pendingCount edits > 0
             then Ask (ConfirmCloseResult (rt_title r)) p (\<lambda>a p. if a = Answered then release p else Return p ())
             else release p)"

text \<open>The first loop of \<open>closeQueryTabs\<close>: a tab with unsaved changes may be saved first. The result tells
  whether to go on.\<close>

fun offerSaves :: "string comparator \<Rightarrow> string js_set \<Rightarrow> query_tab list \<Rightarrow> page \<Rightarrow> bool page_task" where
  "offerSaves localeCompare dirtyTabs [] p = Return p True"
| "offerSaves localeCompare dirtyTabs (tab # tabs) p =
     (if \<not> isDirtyQuery dirtyTabs p tab then offerSaves localeCompare dirtyTabs tabs p
      else Ask (ConfirmSaveFirst (qt_title tab)) p (\<lambda>a p.
        if a \<noteq> Answered then offerSaves localeCompare dirtyTabs tabs p
        else and_then (saveQueryTab localeCompare tab p) (\<lambda>p saved.
          if saved then offerSaves localeCompare dirtyTabs tabs p else Return p False)))"

fun releaseResults :: "string list \<Rightarrow> page \<Rightarrow> bool page_task" where
  "releaseResults [] p = Return p True"
| "releaseResults (rid # rids) p = Ask (ReleaseResult rid) p (\<lambda>a p. case a of
     Rejected c m \<Rightarrow> Return (showError p m) False
   | _ \<Rightarrow> releaseResults rids p)"

definition closedTab :: "query_tab \<Rightarrow> page \<Rightarrow> page" where
  "closedTab tab p =
     (let p1 = disposeTab tab p in
      if Option.bind (currentWorkspace p1) ws_activeTabId = Some (qt_id tab)
      then dispatchAndFocusEditor p1 (TAB_CLOSED (qt_id tab)) else dispatch p1 (TAB_CLOSED (qt_id tab)))"

definition endSession :: "query_tab \<Rightarrow> page \<Rightarrow> bool page_task" where
  "endSession tab p =
     (if truthy_str (qt_sessionId tab)
      then Ask (CloseSession (the (qt_sessionId tab))) p (\<lambda>a p. case a of
        Rejected c m \<Rightarrow> Return (showError p m) False | _ \<Rightarrow> Return p True)
      else Return p True)"

text \<open>The second loop; a call that fails ends it.\<close>

fun closeTabs :: "query_tab list \<Rightarrow> page \<Rightarrow> unit page_task" where
  "closeTabs [] p = Return p ()"
| "closeTabs (tab # tabs) p =
     and_then (endSession tab p) (\<lambda>p ok. if \<not> ok then Return p ()
       else and_then (releaseResults (resultIds tab) p) (\<lambda>p ok. if \<not> ok then Return p ()
         else closeTabs tabs (closedTab tab p)))"

definition closeQueryTabs :: "string comparator \<Rightarrow> query_tab list \<Rightarrow> page \<Rightarrow> unit page_task" where
  "closeQueryTabs localeCompare tabs p =
     and_then (offerSaves localeCompare (wp_dirtyTabs p) tabs p) (\<lambda>p goOn. if \<not> goOn then Return p ()
       else and_then (protectedTabs tabs p) (\<lambda>p protected. if protected then Return p () else closeTabs tabs p))"

definition closeActiveTab :: "string comparator \<Rightarrow> page \<Rightarrow> unit page_task" where
  "closeActiveTab localeCompare p =
     (case currentActiveTab p of None \<Rightarrow> Return p () | Some tab \<Rightarrow> closeQueryTabs localeCompare [tab] p)"

subsection \<open>Changing the database, refreshing, disconnecting\<close>

definition clearConnHistory :: "page \<Rightarrow> page" where
  "clearConnHistory p = p\<lparr>wp_app := (wp_app p)\<lparr>app_history := clearHistory (app_history (wp_app p)) (Some (wp_conn p))\<rparr>\<rparr>"

definition forgetWorkspace :: "page \<Rightarrow> page" where
  "forgetWorkspace p = (let st = app_ws (wp_app p) in
     p\<lparr>wp_app := (wp_app p)\<lparr>app_ws := st\<lparr>wst_states := AList.delete (wp_conn p) (wst_states st)\<rparr>\<rparr>\<rparr>)"

definition disposeTabs :: "query_tab list \<Rightarrow> page \<Rightarrow> page" where
  "disposeTabs tabs p = fold disposeTab tabs p"

definition connectAs :: "connection_profile \<Rightarrow> page \<Rightarrow> page" where
  "connectAs profile p = p\<lparr>wp_connections := setConnection (wp_connections p) (wp_conn p) profile\<rparr>"

text \<open>What follows a successful switch or reconnect: the tabs as they were rendered are disposed of and
  the workspace is forgotten, so that it mounts anew.\<close>

definition resetWorkspace :: "query_tab list \<Rightarrow> connection_profile \<Rightarrow> page \<Rightarrow> page" where
  "resetWorkspace tabs profile p =
     connectAs profile (forgetWorkspace (effect RemoveQueries (clearConnHistory (disposeTabs tabs p))))"

definition switchFailed :: "page \<Rightarrow> string \<Rightarrow> unit page_task" where
  "switchFailed p message = Return ((effect InvalidateQueries (showError p message))\<lparr>wp_changingDatabase := False\<rparr>) ()"

definition doSwitch :: "string \<Rightarrow> query_tab list \<Rightarrow> connection_profile \<Rightarrow> page \<Rightarrow> unit page_task" where
  "doSwitch database tabs profile p =
     Ask PersistDrafts (setNotice (p\<lparr>wp_changingDatabase := True\<rparr>) NoNotice) (\<lambda>a p. case a of
       Rejected c m \<Rightarrow> switchFailed p m
     | _ \<Rightarrow> Ask CancelQueries p (\<lambda>a p. case a of
         Rejected c m \<Rightarrow> switchFailed p m
       | _ \<Rightarrow> Ask (SwitchDatabase database) p (\<lambda>a p. case a of
           Opened name \<Rightarrow> Return ((resetWorkspace tabs (profile\<lparr>cp_database := name\<rparr>) p)\<lparr>wp_changingDatabase := False\<rparr>) ()
         | Rejected c m \<Rightarrow> switchFailed p m
         | _ \<Rightarrow> switchFailed p [])))"

definition changeDatabase :: "string \<Rightarrow> connection_profile \<Rightarrow> query_tab list \<Rightarrow> page \<Rightarrow> unit page_task" where
  "changeDatabase database profile tabs p =
     (if wp_changingDatabase p \<or> database = cp_database profile then Return p ()
      else if list_ex (\<lambda>t. busyTab t \<or> lockedResults p t) tabs then Return (setNotice p BusyForSwitch) ()
      else if list_ex (editedResults p) tabs
      then Ask ConfirmSwitch p (\<lambda>a p. if a = Answered then doSwitch database tabs profile p else Return p ())
      else doSwitch database tabs profile p)"

definition idleAgain :: "page \<Rightarrow> unit page_task" where
  "idleAgain p = Return (p\<lparr>wp_changingDatabase := False\<rparr>) ()"

definition reconnect :: "query_tab list \<Rightarrow> connection_profile \<Rightarrow> page \<Rightarrow> unit page_task" where
  "reconnect tabs profile p =
     Ask PersistDrafts p (\<lambda>a p. case a of
       Rejected c m \<Rightarrow> idleAgain (showError p m)
     | _ \<Rightarrow> Ask Reconnect p (\<lambda>a p. case a of
         Rejected c m \<Rightarrow> idleAgain (showError p m)
       | _ \<Rightarrow> idleAgain ((resetWorkspace tabs profile p)\<lparr>wp_toast := Some ReconnectedToast\<rparr>)))"

definition refreshFailed :: "query_tab list \<Rightarrow> connection_profile \<Rightarrow> page \<Rightarrow> string option \<Rightarrow> string \<Rightarrow> unit page_task" where
  "refreshFailed tabs profile p errorCode message =
     (if errorCode \<noteq> Some ''CONNECTION_LOST'' then idleAgain (showError p message)
      else Ask ConfirmReconnect p (\<lambda>a p.
        if a \<noteq> Answered then idleAgain (setNotice p LostConnection) else reconnect tabs profile p))"

definition refresh :: "connection_profile \<Rightarrow> query_tab list \<Rightarrow> page \<Rightarrow> unit page_task" where
  "refresh profile tabs p =
     (if wp_changingDatabase p then Return p ()
      else Ask CancelQueries (effect ClearCompletion (setNotice (p\<lparr>wp_changingDatabase := True\<rparr>) NoNotice)) (\<lambda>a p. case a of
        Rejected c m \<Rightarrow> refreshFailed tabs profile p c m
      | _ \<Rightarrow> Ask RefetchQueries p (\<lambda>a p. case a of
          Rejected c m \<Rightarrow> refreshFailed tabs profile p c m
        | _ \<Rightarrow> Ask ListDatabases p (\<lambda>a p. case a of
            Rejected c m \<Rightarrow> refreshFailed tabs profile p c m
          | _ \<Rightarrow> idleAgain (p\<lparr>wp_toast := Some RefreshedToast\<rparr>)))))"

definition dropConnection :: "page \<Rightarrow> page" where
  "dropConnection p = p\<lparr>wp_connections := deleteConnection (wp_connections p) (wp_conn p)\<rparr>"

definition disconnect :: "query_tab list \<Rightarrow> page \<Rightarrow> unit page_task" where
  "disconnect tabs p =
     and_then (protectedTabs tabs p) (\<lambda>p protected.
       if protected then Return p ()
       else Ask PersistDrafts p (\<lambda>a p. case a of
         Rejected c m \<Rightarrow> Return (showError p m) ()
       | _ \<Rightarrow> Ask CloseConnection p (\<lambda>a p. case a of
           Rejected c m \<Rightarrow> Return (showError p m) ()
         | _ \<Rightarrow> Ask NavigateHome (dropConnection (clearConnHistory (disposeTabs tabs p))) (\<lambda>a p. case a of
             Rejected c m \<Rightarrow> Return (showError p m) ()
           | _ \<Rightarrow> Return (forgetWorkspace p) ()))))"

subsection \<open>Tabs of objects, and renaming\<close>

definition renameTab :: "query_tab \<Rightarrow> page \<Rightarrow> unit page_task" where
  "renameTab tab p = Ask (PromptTitle (qt_title tab)) p (\<lambda>a p. case a of
     Typed title \<Rightarrow> Return (if trim title \<noteq> [] then dispatch p (TAB_RENAMED (qt_id tab) (trim title)) else p) ()
   | _ \<Rightarrow> Return p ())"

record object_summary = catalog_item +
  os_functionArguments :: "string option"

definition openObject :: "object_summary \<Rightarrow> workspace_state \<Rightarrow> string \<Rightarrow> page \<Rightarrow> page" where
  "openObject obj rendered tabId p =
     (if ci_kind obj = ''function''
      then (case find (\<lambda>t. qt_kind t = RoutineDefinitionKind \<and> qt_routineOid t = Some (ci_oid obj)) (ws_tabs rendered) of
          Some existing \<Rightarrow> dispatch p (TAB_ACTIVATED (qt_id existing))
        | None \<Rightarrow> dispatch p (TAB_ADDED tabId (addTab\<lparr>ta_routineOid := Some (ci_oid obj),
            ta_title := Some (ci_schema obj @ ''.'' @ ci_name obj @ ''('' @ nullish (os_functionArguments obj) [] @ '')'')\<rparr>)))
      else dispatch p (tableDataTab (catalog_item.truncate obj) False tabId))"

subsection \<open>The keyboard of the workspace\<close>

text \<open>
  What the handler reads besides the event itself: whether it composes or repeats, whether a dialog
  is open, whether the target lies in a result and which buttons that result has, and the text
  selected in the focused editor.
\<close>

record key_context =
  kc_isComposing :: bool
  kc_repeat :: bool
  kc_dialogOpen :: bool
  kc_inResult :: bool
  kc_saveButton :: bool
  kc_refreshButton :: bool
  kc_selected :: string

text \<open>The asynchronous handler that a key starts.\<close>

datatype key_command = NoCommand | CloseActive | SaveCurrent | RefreshActive | SplitWithTable string

record key_outcome =
  ko_page :: page
  ko_prevented :: bool
  ko_command :: key_command

definition keyAction :: "(string \<Rightarrow> bool) \<Rightarrow> key_event \<Rightarrow> workspace_action option" where
  "keyAction matches e =
     (if matches ''previousPanel'' then Some (PANEL_CYCLED Backward)
      else if matches ''nextPanel'' then Some (PANEL_CYCLED Forward)
      else if matches ''previousTab'' \<or> matches ''previousTabArrow'' then Some (TAB_CYCLED Backward)
      else if matches ''nextTab'' \<or> matches ''nextTabArrow'' then Some (TAB_CYCLED Forward)
      else if matches ''previousResult'' then Some (RESULT_CYCLED Backward)
      else if matches ''nextResult'' then Some (RESULT_CYCLED Forward)
      else if matches ''tabByNumber''
      then (case shortcutDigit e of None \<Rightarrow> None | Some digit \<Rightarrow> if digit = 0 then None else Some (TAB_ACTIVATED_BY_INDEX (int digit - 1)))
      else None)"

text \<open>Cycling through the results keeps the focus in the result; every other move focuses the editor.\<close>

definition navigateBy :: "key_context \<Rightarrow> page \<Rightarrow> workspace_action \<Rightarrow> page" where
  "navigateBy ctx p action =
     (case action of
        RESULT_CYCLED d \<Rightarrow> (let p1 = dispatch p action in if kc_inResult ctx then effect FocusGrid p1 else p1)
      | _ \<Rightarrow> dispatchAndFocusEditor p action)"

definition onKey :: "bool \<Rightarrow> shortcut_settings \<Rightarrow> key_context \<Rightarrow> string \<Rightarrow> page \<Rightarrow> key_event \<Rightarrow> key_outcome" where
  "onKey mac shortcuts ctx freshId p e =
     (let matches = (\<lambda>i. shortcutMatches mac e (shortcutOf shortcuts i));
          ignored = \<lparr>ko_page = p, ko_prevented = False, ko_command = NoCommand\<rparr>;
          swallowed = \<lparr>ko_page = p, ko_prevented = True, ko_command = NoCommand\<rparr>
      in if wp_changingDatabase p \<or> kc_isComposing ctx then ignored
         else if kc_dialogOpen ctx then ignored\<lparr>ko_prevented := matches ''refreshResult'' \<or> matches ''saveQuery''\<rparr>
         else if matches ''newQueryTab''
         then (if kc_repeat ctx then swallowed else swallowed\<lparr>ko_page := addQueryTab p False None freshId\<rparr>)
         else if matches ''splitPanel''
         then (if kc_repeat ctx then swallowed
               else if kc_selected ctx = [] then swallowed\<lparr>ko_page := addQueryTab p True None freshId\<rparr>
               else swallowed\<lparr>ko_command := SplitWithTable (kc_selected ctx)\<rparr>)
         else if matches ''closeTab'' then (if kc_repeat ctx then swallowed else swallowed\<lparr>ko_command := CloseActive\<rparr>)
         else if matches ''saveQuery''
         then (if kc_repeat ctx then swallowed
               else if kc_inResult ctx \<and> kc_saveButton ctx then swallowed\<lparr>ko_page := effect ClickSaveEdits p\<rparr>
               else swallowed\<lparr>ko_command := SaveCurrent\<rparr>)
         else if matches ''refreshResult''
         then (if kc_repeat ctx \<or> \<not> kc_inResult ctx then swallowed
               else if kc_refreshButton ctx then swallowed\<lparr>ko_page := effect ClickRefresh p\<rparr>
               else swallowed\<lparr>ko_command := RefreshActive\<rparr>)
         else (case keyAction matches e of
             None \<Rightarrow> ignored
           | Some action \<Rightarrow> swallowed\<lparr>ko_page := navigateBy ctx p action\<rparr>))"

text \<open>Splitting with a selected name: the table of that name if the catalog has one.\<close>

definition splitWithTable :: "string \<Rightarrow> string \<Rightarrow> page \<Rightarrow> unit page_task" where
  "splitWithTable selected freshId p = Ask (FindSelectedTable selected) p (\<lambda>a p. case a of
     FoundTable item \<Rightarrow> Return (dispatch p (tableDataTab item True freshId)) ()
   | Rejected c m \<Rightarrow> Return p ()
   | _ \<Rightarrow> Return (addQueryTab p True None freshId) ())"

definition toastExpired :: "page \<Rightarrow> page" where
  "toastExpired p = p\<lparr>wp_toast := None\<rparr>"

end
