(* ===== verification/Page_Protocols.thy ===== *)
theory Page_Protocols
  imports Workspace_Page
begin

text \<open>
  What the asynchronous handlers of the workspace page guarantee whatever the user answers, whichever
  calls fail and whatever else happens between their steps: nothing is thrown away before it was
  confirmed and saved, only one confirmed statement runs, and the keyboard does not act behind a
  dialog.
\<close>

subsection \<open>What the steps leave alone\<close>

lemma dispatchApp_stores [simp]:
  "app_edits (dispatchApp app conn a) = app_edits app" "app_results (dispatchApp app conn a) = app_results app"
  "app_history (dispatchApp app conn a) = app_history app"
  by (simp_all add: dispatchApp_def)

lemma dispatch_frame [simp]:
  "app_edits (wp_app (dispatch p a)) = app_edits (wp_app p)" "app_results (wp_app (dispatch p a)) = app_results (wp_app p)"
  "wp_drafts (dispatch p a) = wp_drafts p" "wp_conn (dispatch p a) = wp_conn p" "wp_saved (dispatch p a) = wp_saved p"
  "wp_views (dispatch p a) = wp_views p"
  by (simp_all add: dispatch_def)

lemma setNotice_frame [simp]:
  "wp_app (setNotice p n) = wp_app p" "wp_drafts (setNotice p n) = wp_drafts p" "wp_conn (setNotice p n) = wp_conn p"
  "wp_app (showError p m) = wp_app p" "wp_drafts (showError p m) = wp_drafts p" "wp_conn (showError p m) = wp_conn p"
  by (simp_all add: setNotice_def showError_def)

lemma effect_frame [simp]:
  "wp_app (effect e p) = wp_app p" "wp_drafts (effect e p) = wp_drafts p" "wp_conn (effect e p) = wp_conn p"
  by (simp_all add: effect_def)

lemma undirty_frame [simp]: "wp_app (undirty t p) = wp_app p" "wp_drafts (undirty t p) = wp_drafts p"
  by (simp_all add: undirty_def)

lemma replaceDocs_frame [simp]: "wp_app (replaceDocs sql moved p) = wp_app p"
  unfolding replaceDocs_def by (induction moved arbitrary: p) (simp_all split: option.split)

lemma afterSave_frame [simp]:
  "app_edits (wp_app (afterSave tab prev saved p)) = app_edits (wp_app p)" "app_results (wp_app (afterSave tab prev saved p)) = app_results (wp_app p)"
  by (simp_all add: afterSave_def Let_def)

subsection \<open>Closing tabs\<close>

text \<open>
  The guarantees are relative to the rest of the program: whatever property \<open>J\<close> of the edits and the
  rows the other code keeps while the handler waits, the handler keeps it too. With \<open>J\<close> the equality
  with the initial stores they are untouched.
\<close>

abbreviation data_of :: "page \<Rightarrow> edit_store \<times> result_store" where
  "data_of p \<equiv> (app_edits (wp_app p), app_results (wp_app p))"

definition unfinished :: "query_tab list \<Rightarrow> page \<Rightarrow> bool" where
  "unfinished tabs p \<longleftrightarrow> list_ex (editedResults p) tabs \<or> list_ex busyTab tabs"

fun endsWork :: "page_question \<Rightarrow> bool" where
  "endsWork (CloseSession x) = True"
| "endsWork (ReleaseResult x) = True"
| "endsWork q = False"

abbreviation confirmedClose :: "page_question \<Rightarrow> page_answer \<Rightarrow> bool" where
  "confirmedClose q a \<equiv> q = ConfirmClose \<and> a = Answered"

lemma unfinished_data: "data_of s = data_of s' \<Longrightarrow> unfinished tabs s = unfinished tabs s'"
  by (simp add: unfinished_def editedResults_def list_ex_iff)

text \<open>Saving a query tab asks for nothing that ends work and leaves the edits and the rows alone.\<close>

lemma storeQuery_safe:
  "G (data_of s) \<Longrightarrow> safe (\<lambda>s. G (data_of s)) (\<lambda>q. \<not> endsWork q) A (\<lambda>_ _. True) (storeQuery lc tab name sql prev s)"
  by (auto simp: storeQuery_def split: sum.split prod.split page_answer.split)

lemma saveQueryTab_safe:
  "G (data_of s) \<Longrightarrow> safe (\<lambda>s. G (data_of s)) (\<lambda>q. \<not> endsWork q) A (\<lambda>_ _. True) (saveQueryTab lc tab s)"
  by (auto simp: saveQueryTab_def Let_def storeQuery_safe split: page_answer.split option.split)

lemma offerSaves_safe:
  "G (data_of s) \<Longrightarrow> safe (\<lambda>s. G (data_of s)) (\<lambda>q. \<not> endsWork q) A (\<lambda>_ _. True) (offerSaves lc dirty tabs s)"
proof (induction tabs arbitrary: s)
  case (Cons tab tabs)
  have "safe (\<lambda>s. G (data_of s)) (\<lambda>q. \<not> endsWork q) A (\<lambda>_ _. True)
      (and_then (saveQueryTab lc tab s') (\<lambda>p saved. if saved then offerSaves lc dirty tabs p else Return p False))" if "G (data_of s')" for s'
    by (rule safe_and_then [OF saveQueryTab_safe [of G, OF that]]) (auto intro: Cons.IH)
  then show ?case using Cons by auto
qed simp

lemma protectedTabs_safe:
  assumes "G (data_of s)" "unfinished tabs s"
  shows "safe (\<lambda>s. G (data_of s)) (\<lambda>q. \<not> endsWork q) confirmedClose (\<lambda>_ protected. protected) (protectedTabs tabs s)"
  using assms by (auto simp: protectedTabs_def unfinished_def)

lemma closeQueryTabs_safe:
  assumes "\<And>s. G (data_of s) \<Longrightarrow> unfinished tabs s" "G (data_of p)"
  shows "safe (\<lambda>s. G (data_of s)) (\<lambda>q. \<not> endsWork q) confirmedClose (\<lambda>_ _. True) (closeQueryTabs lc tabs p)"
  unfolding closeQueryTabs_def
proof (rule safe_and_then [OF offerSaves_safe [of G, OF assms(2)]])
  show "safe (\<lambda>s. G (data_of s)) (\<lambda>q. \<not> endsWork q) confirmedClose (\<lambda>_ _. True)
      (if \<not> goOn then Return s () else and_then (protectedTabs tabs s) (\<lambda>p protected. if protected then Return p () else closeTabs tabs p))"
    if "G (data_of s)" for s goOn
    using that by (auto intro!: safe_and_then [OF protectedTabs_safe [of G, OF _ assms(1)]])
qed

text \<open>Claim C5: closing tabs never ends unfinished work behind the user's back. When one of the tabs has
  pending edits, a running query or an open transaction, then as long as the question has not
  been accepted no session is closed and no result released, whatever the other dialogs answer,
  and the edits and rows keep every property that the code running meanwhile keeps.\<close>

theorem closing_needs_confirmation:
  assumes "unfinished tabs p" "J (data_of p)" "env_keeps (\<lambda>s. unfinished tabs s \<and> J (data_of s)) env"
    and "run_task (closeQueryTabs lc tabs p) env = (tr, t)" "(ConfirmClose, Answered) \<notin> set tr"
  shows "(\<forall>q\<in>set (questions (tr, t)). \<not> endsWork q) \<and> J (data_of (state_of t))"
proof -
  let ?G = "\<lambda>d. (\<exists>s. data_of s = d \<and> unfinished tabs s) \<and> J d"
  have G: "?G (data_of s) \<longleftrightarrow> unfinished tabs s \<and> J (data_of s)" for s
    using unfinished_data by blast
  have "safe (\<lambda>s. ?G (data_of s)) (\<lambda>q. \<not> endsWork q) confirmedClose (\<lambda>_ _. True) (closeQueryTabs lc tabs p)"
    by (rule closeQueryTabs_safe) (use assms(1,2) G in blast)+
  from safe_run [OF this assms(4)] show ?thesis using assms(3,5) unfolding G by fastforce
qed

text \<open>A page of one connection, its workspace with the tabs of \<open>example_ws\<close>.\<close>

definition example_page :: page where
  "example_page = \<lparr>wp_conn = ''c'', wp_app = example_app, wp_drafts = \<lparr>dm_sql = [(''a'', ''select 1'')], dm_saved = []\<rparr>,
     wp_selections = [], wp_tableViews = [], wp_saved = [], wp_connections = emptyConnections,
     wp_views = [(''a'', \<lparr>ev_doc = ''drop table t'', ev_anchor = 2, ev_head = 2\<rparr>)], wp_dirtyTabs = [], wp_notice = NoNotice, wp_toast = None,
     wp_changingDatabase = False, wp_focusEditor = None, wp_focused = None, wp_effects = []\<rparr>"

definition example_tab :: query_tab where
  "example_tab = restoredTab ''a'' ''Query 1''"

theorem closing_needs_confirmation_witness:
  "let tab = example_tab\<lparr>qt_runningExecutionId := Some ''e''\<rparr>;
       (tr, t) = run_task (closeQueryTabs default [tab] example_page) [(Refused, \<lambda>p. p)]
   in tr = [(ConfirmClose, Refused)] \<and> data_of (state_of t) = data_of example_page"
proof -
  let ?tab = "example_tab\<lparr>qt_runningExecutionId := Some ''e''\<rparr>"
  obtain tr t where r: "run_task (closeQueryTabs default [?tab] example_page) [(Refused, \<lambda>p. p)] = (tr, t)" by fastforce
  have tr: "tr = [(ConfirmClose, Refused)]"
    using r by (auto simp: closeQueryTabs_def isDirtyQuery_def savedEntry_def protectedTabs_def example_page_def example_tab_def restoredTab_def
        preparing_def starts_with_def lockedResults_def resultIds_def busyTab_def editedResults_def)
  have "unfinished [?tab] example_page" by (simp add: unfinished_def busyTab_def)
  from closing_needs_confirmation [of _ _ "\<lambda>d. d = data_of example_page", OF this refl _ r]
  show ?thesis using r tr by (simp add: env_keeps_def)
qed

subsection \<open>Drafts survive failures\<close>

text \<open>What must not be lost before it is safe: the edits, the rows, the drafts and the workspaces.\<close>

abbreviation work_of :: "page \<Rightarrow> (edit_store \<times> result_store) \<times> draft_maps \<times> (string, workspace_state) js_map" where
  "work_of p \<equiv> (data_of p, wp_drafts p, wst_states (app_ws (wp_app p)))"

fun succeeded :: "page_answer \<Rightarrow> bool" where
  "succeeded (Rejected c m) = False"
| "succeeded a = True"

text \<open>After a call, a handler has one branch for the rejection and one for everything else.\<close>

lemma safe_rejected:
  "safe I Q A P (case a of Rejected c m \<Rightarrow> f c m | _ \<Rightarrow> y)
     \<longleftrightarrow> (\<forall>c m. a = Rejected c m \<longrightarrow> safe I Q A P (f c m)) \<and> (succeeded a \<longrightarrow> safe I Q A P y)"
  by (cases a) simp_all

text \<open>The calls that end the sessions of a connection, and the answer to one of them that says so.\<close>

fun endsSessions :: "page_question \<Rightarrow> bool" where
  "endsSessions CloseConnection = True"
| "endsSessions (SwitchDatabase x) = True"
| "endsSessions Reconnect = True"
| "endsSessions q = False"

fun sessionsEnded :: "page_question \<Rightarrow> page_answer \<Rightarrow> bool" where
  "sessionsEnded (SwitchDatabase x) a = (\<exists>name. a = Opened name)"
| "sessionsEnded q a = (endsSessions q \<and> succeeded a)"

text \<open>The handlers that replace or drop the workspace of a connection.\<close>

datatype leaving = Disconnect | ChangeDatabase string | RefreshConnection

fun leaveHandler :: "leaving \<Rightarrow> connection_profile \<Rightarrow> query_tab list \<Rightarrow> page \<Rightarrow> unit page_task" where
  "leaveHandler Disconnect profile tabs p = disconnect tabs p"
| "leaveHandler (ChangeDatabase database) profile tabs p = changeDatabase database profile tabs p"
| "leaveHandler RefreshConnection profile tabs p = refresh profile tabs p"

lemma keeps_work_steps:
  assumes "J (work_of p)"
  shows "safe (\<lambda>s. J (work_of s)) Q A (\<lambda>_ _. True) (switchFailed p m)"
    "safe (\<lambda>s. J (work_of s)) Q A (\<lambda>_ _. True) (idleAgain (showError p m))"
    "safe (\<lambda>s. J (work_of s)) Q A (\<lambda>_ _. True) (idleAgain (setNotice p n))"
    "safe (\<lambda>s. J (work_of s)) Q A (\<lambda>_ _. True) (idleAgain (p\<lparr>wp_toast := x\<rparr>))"
  using assms by (simp_all add: switchFailed_def idleAgain_def)

lemma doSwitch_keeps_work:
  "J (work_of p) \<Longrightarrow> safe (\<lambda>s. J (work_of s)) (\<lambda>_. True) sessionsEnded (\<lambda>_ _. True) (doSwitch database tabs profile p)"
  by (simp add: doSwitch_def keeps_work_steps [of J] split: page_answer.split)

lemma changeDatabase_keeps_work:
  "J (work_of p) \<Longrightarrow> safe (\<lambda>s. J (work_of s)) (\<lambda>_. True) sessionsEnded (\<lambda>_ _. True) (changeDatabase database profile tabs p)"
  by (simp add: changeDatabase_def doSwitch_keeps_work [of J])

lemma refreshFailed_keeps_work:
  "J (work_of p) \<Longrightarrow> safe (\<lambda>s. J (work_of s)) (\<lambda>_. True) sessionsEnded (\<lambda>_ _. True) (refreshFailed tabs profile p c m)"
  by (simp add: refreshFailed_def reconnect_def safe_rejected keeps_work_steps [of J])

lemma refresh_keeps_work:
  "J (work_of p) \<Longrightarrow> safe (\<lambda>s. J (work_of s)) (\<lambda>_. True) sessionsEnded (\<lambda>_ _. True) (refresh profile tabs p)"
  by (simp add: refresh_def refreshFailed_keeps_work [of J] keeps_work_steps [of J] safe_rejected)

lemma disconnect_keeps_work:
  "J (work_of p) \<Longrightarrow> safe (\<lambda>s. J (work_of s)) (\<lambda>_. True) sessionsEnded (\<lambda>_ _. True) (disconnect tabs p)"
  by (simp add: disconnect_def protectedTabs_def safe_rejected)

lemma leaveHandler_keeps_work:
  "J (work_of p) \<Longrightarrow> safe (\<lambda>s. J (work_of s)) (\<lambda>_. True) sessionsEnded (\<lambda>_ _. True) (leaveHandler l profile tabs p)"
  by (cases l) (simp_all add: changeDatabase_keeps_work [of J] refresh_keeps_work [of J] disconnect_keeps_work [of J])

lemma doSwitch_persists_first:
  "safe (\<lambda>_. True) (\<lambda>q. \<not> endsSessions q) (\<lambda>q a. q = PersistDrafts \<and> succeeded a) (\<lambda>_ _. True) (doSwitch database tabs profile p)"
  by (auto simp: doSwitch_def switchFailed_def safe_rejected)

lemma refreshFailed_persists_first:
  "safe (\<lambda>_. True) (\<lambda>q. \<not> endsSessions q) (\<lambda>q a. q = PersistDrafts \<and> succeeded a) (\<lambda>_ _. True) (refreshFailed tabs profile p c m)"
  by (auto simp: refreshFailed_def reconnect_def idleAgain_def safe_rejected)

lemma leaveHandler_persists_first:
  "safe (\<lambda>_. True) (\<lambda>q. \<not> endsSessions q) (\<lambda>q a. q = PersistDrafts \<and> succeeded a) (\<lambda>_ _. True) (leaveHandler l profile tabs p)"
  by (cases l) (auto simp: disconnect_def changeDatabase_def refresh_def idleAgain_def protectedTabs_def safe_rejected
      doSwitch_persists_first refreshFailed_persists_first)

text \<open>Claim C6: leaving a workspace never loses the user's work to a failure. Disconnecting, changing the
  database and refreshing end the sessions of the connection only after the drafts have been
  persisted, and until the backend reports that it ended them the edits, the rows, the drafts and
  the workspaces keep every property that the code running meanwhile keeps, whichever call fails
  and whatever the dialogs answer.\<close>

theorem drafts_survive_failure:
  assumes "run_task (leaveHandler l profile tabs p) env = (tr, t)"
    and "J (work_of p)" "env_keeps (\<lambda>s. J (work_of s)) env"
  shows "((\<forall>(q, a)\<in>set tr. \<not> sessionsEnded q a) \<longrightarrow> J (work_of (state_of t)))
    \<and> ((\<exists>q\<in>set (questions (tr, t)). endsSessions q) \<longrightarrow> (\<exists>a. (PersistDrafts, a) \<in> set tr \<and> succeeded a))"
proof (intro conjI impI)
  show "J (work_of (state_of t))" if "\<forall>(q, a)\<in>set tr. \<not> sessionsEnded q a"
    by (rule safe_run(1) [OF leaveHandler_keeps_work [of J, OF assms(2)] assms(1) that assms(3)])
  show "\<exists>a. (PersistDrafts, a) \<in> set tr \<and> succeeded a" if "\<exists>q\<in>set (questions (tr, t)). endsSessions q"
  proof (rule ccontr)
    assume "\<not> ?thesis"
    then have "\<forall>(q, a)\<in>set tr. \<not> (q = PersistDrafts \<and> succeeded a)" by blast
    then show False using safe_run(2) [OF leaveHandler_persists_first assms(1)] that by (auto simp: env_keeps_def)
  qed
qed

theorem drafts_survive_failure_witness:
  "let (tr, t) = run_task (leaveHandler Disconnect example_profile [example_tab] example_page) [(Answered, \<lambda>p. p), (Rejected None ''gone'', \<lambda>p. p)]
   in tr = [(PersistDrafts, Answered), (CloseConnection, Rejected None ''gone'')] \<and> work_of (state_of t) = work_of example_page"
proof -
  let ?run = "run_task (leaveHandler Disconnect example_profile [example_tab] example_page) [(Answered, \<lambda>p. p), (Rejected None ''gone'', \<lambda>p. p)]"
  obtain tr t where r: "?run = (tr, t)" by fastforce
  have tr: "tr = [(PersistDrafts, Answered), (CloseConnection, Rejected None ''gone'')]"
    using r by (auto simp: disconnect_def protectedTabs_def example_tab_def restoredTab_def
        preparing_def starts_with_def lockedResults_def resultIds_def busyTab_def editedResults_def)
  from drafts_survive_failure [OF r, of "\<lambda>w. w = work_of example_page"] show ?thesis using r tr by (simp add: env_keeps_def)
qed

subsection \<open>Running a statement\<close>

text \<open>The two handlers that send SQL: run, and the refresh of the active result.\<close>

datatype run_command = RunSql bool | RefreshSql bool

fun runCommand :: "run_command \<Rightarrow> query_tab option \<Rightarrow> string \<Rightarrow> string \<Rightarrow> string \<Rightarrow> page \<Rightarrow> unit page_task" where
  "runCommand (RunSql replace) target freshId startedAt historyId p = runHandler replace target freshId startedAt historyId p"
| "runCommand (RefreshSql editorOpen) target freshId startedAt historyId p = refreshResultTab editorOpen target startedAt historyId p"

text \<open>The statement a command is for: what the editor picks, at most one statement, or what filled the
  active result.\<close>

fun commandSql :: "run_command \<Rightarrow> query_tab \<Rightarrow> page \<Rightarrow> string \<Rightarrow> bool" where
  "commandSql (RunSql replace) tab p sql = (pickSql p (qt_id tab) = Some sql \<and> statementCount sql \<le> 1)"
| "commandSql (RefreshSql editorOpen) tab p sql = (\<exists>rid. qt_activeResultTabId tab = Some rid \<and> rs_executedSql (getResult (app_results (wp_app p)) rid) = Some sql)"

definition dangerous :: "string \<Rightarrow> bool" where
  "dangerous sql \<longleftrightarrow> firstKeyword sql \<in> {''DROP'', ''TRUNCATE''} \<or> firstKeyword sql \<in> {''DELETE'', ''UPDATE''} \<and> \<not> hasWhere sql"

fun confirmsRun :: "page_question \<Rightarrow> bool" where
  "confirmsRun (ConfirmStatement keyword) = True"
| "confirmsRun (ConfirmWithoutWhere keyword) = True"
| "confirmsRun q = False"

fun sends :: "(string \<Rightarrow> bool) \<Rightarrow> page_question \<Rightarrow> bool" where
  "sends P (AwaitQuery sql x) = P sql"
| "sends P q = True"

lemma awaitRun_sends: "P sql \<Longrightarrow> safe (\<lambda>_. True) (sends P) A (\<lambda>_ _. True) (awaitRun tab rid sql startedAt historyId p)"
  by (simp add: awaitRun_def split: sum.split)

lemma confirmSql_sends: "safe (\<lambda>_. True) (sends P) A (\<lambda>_ _. True) (confirmSql sql p)"
  by (auto simp: confirmSql_def Let_def)

lemma confirmSql_asks:
  "safe (\<lambda>_. True) (sends P) (\<lambda>q a. confirmsRun q \<and> a = Answered) (\<lambda>_ ok. ok \<longrightarrow> \<not> dangerous sql) (confirmSql sql p)"
  by (auto simp: confirmSql_def Let_def dangerous_def)

text \<open>Both handlers confirm their statement, may ask whether to discard edits, and send it.\<close>

lemma start_sends:
  assumes "P sql"
  shows "safe (\<lambda>_. True) (sends P) A (\<lambda>_ _. True) (startRun replace tab sql freshId startedAt historyId p)"
    and "safe (\<lambda>_. True) (sends P) A (\<lambda>_ _. True) (startRefresh editorOpen tab rid sql startedAt historyId p)"
  using assms by (auto simp: startRun_def startRefresh_def Let_def awaitRun_sends split: option.split)

lemma runCommand_safe:
  assumes "\<And>tab sql. target = Some tab \<Longrightarrow> tabIdle p tab \<Longrightarrow> commandSql c tab p sql \<Longrightarrow>
      safe (\<lambda>_. True) (sends P) A (\<lambda>_ ok. ok \<longrightarrow> P sql) (confirmSql sql p)"
  shows "safe (\<lambda>_. True) (sends P) A (\<lambda>_ _. True) (runCommand c target freshId startedAt historyId p)"
  by (cases c) (auto simp: runHandler_def refreshResultTab_def start_sends intro!: safe_and_then [OF assms] split: option.split)

lemma runCommand_sends:
  "safe (\<lambda>_. True) (sends (\<lambda>sql. \<exists>tab. target = Some tab \<and> tabIdle p tab \<and> commandSql c tab p sql)) (\<lambda>_ _. False) (\<lambda>_ _. True)
     (runCommand c target freshId startedAt historyId p)"
  by (rule runCommand_safe, rule safe_mono [OF confirmSql_sends]) auto

lemma runCommand_confirms:
  "safe (\<lambda>_. True) (sends (\<lambda>sql. \<not> dangerous sql)) (\<lambda>q a. confirmsRun q \<and> a = Answered) (\<lambda>_ _. True)
     (runCommand c target freshId startedAt historyId p)"
  by (rule runCommand_safe, rule confirmSql_asks)

text \<open>Claim C8: a command sends only the statement it is for, and a dangerous one only after a
  confirmation. Whatever happens meanwhile, the SQL that run and refresh send is the one picked from
  the editor, at most one statement, respectively the one that filled the active result, for an idle
  query tab outside a database change; a \<open>DROP\<close>, a \<open>TRUNCATE\<close>, or a \<open>DELETE\<close> or \<open>UPDATE\<close> without
  \<open>WHERE\<close> has been confirmed before.\<close>

theorem runs_one_confirmed_statement:
  assumes "run_task (runCommand c target freshId startedAt historyId p) env = (tr, t)"
    and "AwaitQuery sql x \<in> set (questions (tr, t))"
  shows "(\<exists>tab. target = Some tab \<and> tabIdle p tab \<and> commandSql c tab p sql)
    \<and> (dangerous sql \<longrightarrow> (\<exists>q. confirmsRun q \<and> (q, Answered) \<in> set tr))"
proof
  have keeps: "env_keeps (\<lambda>_. True) env" by (simp add: env_keeps_def)
  show "\<exists>tab. target = Some tab \<and> tabIdle p tab \<and> commandSql c tab p sql"
    using safe_run(2) [OF runCommand_sends assms(1) _ keeps] assms(2) by fastforce
  show "dangerous sql \<longrightarrow> (\<exists>q. confirmsRun q \<and> (q, Answered) \<in> set tr)"
  proof (rule impI, rule ccontr)
    assume "dangerous sql" "\<nexists>q. confirmsRun q \<and> (q, Answered) \<in> set tr"
    then show False using safe_run(2) [OF runCommand_confirms assms(1) _ keeps] assms(2) by fastforce
  qed
qed

lemma example_drop:
  "pickSql example_page ''a'' = Some ''drop table t''" "statementCount ''drop table t'' = 1" "firstKeyword ''drop table t'' = ''DROP''"
  by code_simp+

theorem runs_one_confirmed_statement_witness:
  "\<exists>x tr t. run_task (runCommand (RunSql True) (Some example_tab) ''r'' ''now'' ''h'' example_page) [(Answered, \<lambda>p. p)] = (tr, t)
     \<and> questions (tr, t) = [ConfirmStatement ''DROP'', AwaitQuery ''drop table t'' x]
     \<and> commandSql (RunSql True) example_tab example_page ''drop table t'' \<and> (\<exists>q. confirmsRun q \<and> (q, Answered) \<in> set tr)"
proof -
  let ?run = "run_task (runCommand (RunSql True) (Some example_tab) ''r'' ''now'' ''h'' example_page) [(Answered, \<lambda>p. p)]"
  let ?p = "dispatch (setNotice example_page NoNotice) (RESULT_ADDED ''a'' ''r'')"
  have idle: "tabIdle example_page example_tab" "qt_id example_tab = ''a''" "reusable (setNotice example_page NoNotice) True example_tab = None"
    by (simp_all add: tabIdle_def example_page_def example_tab_def restoredTab_def truthy_str_def reusable_def)
  have "isl (runQuery (wp_app ?p) ''c'' ''a'' ''r'' ''drop table t'' ''now'' ''h'') = False" by code_simp
  then obtain app x where x: "runQuery (wp_app ?p) (wp_conn ?p) ''a'' ''r'' ''drop table t'' ''now'' ''h'' = Inr (app, x)"
    by (cases "runQuery (wp_app ?p) ''c'' ''a'' ''r'' ''drop table t'' ''now'' ''h''") (auto simp: example_page_def setNotice_def)
  obtain tr t where r: "?run = (tr, t)" by fastforce
  have q: "questions (tr, t) = [ConfirmStatement ''DROP'', AwaitQuery ''drop table t'' x]"
    using r x by (auto simp: runHandler_def idle example_drop confirmSql_def startRun_def awaitRun_def Let_def questions_def)
  moreover have "dangerous ''drop table t''" by (simp add: dangerous_def example_drop)
  ultimately show ?thesis using runs_one_confirmed_statement [OF r, of "''drop table t''" x] r by auto
qed

subsection \<open>Unsaved edits and running\<close>

text \<open>The result \<open>rid\<close> holds the edits \<open>E\<close>, unsaved or being saved, over the snapshot \<open>R\<close>.\<close>

definition holdsEdits :: "string \<Rightarrow> edit_snapshot \<Rightarrow> result_snapshot option \<Rightarrow> page \<Rightarrow> bool" where
  "holdsEdits rid E R s \<longleftrightarrow> editsOf s rid = E \<and> map_of (rst_states (app_results (wp_app s))) rid = R
     \<and> (es_pendingCount E \<noteq> 0 \<or> es_locked E)"

lemma holdsEdits_frame [simp]:
  "holdsEdits rid E R (setNotice p n) = holdsEdits rid E R p" "holdsEdits rid E R (showError p m) = holdsEdits rid E R p"
  "holdsEdits rid E R (dispatch p a) = holdsEdits rid E R p"
  by (simp_all add: holdsEdits_def)

lemma runQuery_holdsEdits:
  assumes "runQuery (wp_app p) conn tab rid' sql startedAt historyId = Inr (app, x)" "holdsEdits rid E R p"
  shows "holdsEdits rid E R (p\<lparr>wp_app := app\<rparr>)"
  using assms by (auto simp: holdsEdits_def runQuery_def startExec_def create_def Let_def update_conv' split: if_splits)

lemma awaitRun_keeps_edits:
  "holdsEdits rid E R p \<Longrightarrow> safe (holdsEdits rid E R) (\<lambda>_. True) A (\<lambda>_ _. True) (awaitRun tab rid' sql startedAt historyId p)"
  by (auto simp: awaitRun_def dest: runQuery_holdsEdits split: sum.split page_answer.split)

abbreviation acceptedDiscard :: "page_question \<Rightarrow> page_answer \<Rightarrow> bool" where
  "acceptedDiscard q a \<equiv> q = ConfirmDiscardAndRun \<and> a = Answered"

lemma runCommand_keeps_edits:
  assumes "holdsEdits rid E R p"
  shows "safe (holdsEdits rid E R) (\<lambda>_. True) acceptedDiscard (\<lambda>_ _. True) (runCommand c target freshId startedAt historyId p)"
proof -
  note start = startRun_def startRefresh_def Let_def
  have confirm: "safe (holdsEdits rid E R) (\<lambda>_. True) A (\<lambda>_ _. True) (confirmSql sql p)" for A sql
    using assms by (simp add: confirmSql_def Let_def)
  show ?thesis using assms
    by (cases c) (auto simp: runHandler_def refreshResultTab_def start awaitRun_keeps_edits
        intro!: safe_and_then [OF confirm] split: option.split)
qed

text \<open>Claim C9: running never costs unsaved edits. A result with edits that are pending or being saved keeps
  them, and stays the same result, while statements run and results are refreshed, whatever is
  answered, unless the user accepts to discard them.\<close>

theorem running_keeps_unsaved_edits:
  assumes "run_task (runCommand c target freshId startedAt historyId p) env = (tr, t)" "(ConfirmDiscardAndRun, Answered) \<notin> set tr"
    and "holdsEdits rid E R p" "env_keeps (holdsEdits rid E R) env"
  shows "editsOf (state_of t) rid = E \<and> map_of (rst_states (app_results (wp_app (state_of t)))) rid = R"
  using safe_run(1) [OF runCommand_keeps_edits [OF assms(3)] assms(1) _ assms(4)] assms(2) by (fastforce simp: holdsEdits_def)

text \<open>A page whose result \<open>r\<close> has a pending edit.\<close>

definition edited_page :: page where
  "edited_page = example_page\<lparr>wp_app := example_app\<lparr>app_edits := nullish (addInsert emptyEditStore ''r'' ''i'' []) emptyEditStore\<rparr>\<rparr>"

theorem running_keeps_unsaved_edits_witness:
  "let (tr, t) = run_task (runCommand (RunSql True) (Some example_tab) ''s'' ''now'' ''h'' edited_page) [(Answered, \<lambda>p. p)]
   in editsOf (state_of t) ''r'' = editsOf edited_page ''r'' \<and> es_pendingCount (editsOf edited_page ''r'') = 1"
proof -
  obtain tr t where r: "run_task (runCommand (RunSql True) (Some example_tab) ''s'' ''now'' ''h'' edited_page) [(Answered, \<lambda>p. p)] = (tr, t)"
    by fastforce
  have one: "es_pendingCount (editsOf edited_page ''r'') = 1" by code_simp
  have "length tr \<le> 1 \<and> (ConfirmDiscardAndRun, Answered) \<notin> set tr"
    using r by (auto simp: runHandler_def confirmSql_def Let_def startRun_def awaitRun_def split: option.splits if_splits sum.splits)
  with running_keeps_unsaved_edits [OF r, of "''r''" "editsOf edited_page ''r''" "map_of (rst_states (app_results (wp_app edited_page))) ''r''"] one
  show ?thesis using r by (simp add: holdsEdits_def env_keeps_def)
qed

subsection \<open>Opening SQL in a tab\<close>

text \<open>What a page shows: its active tab with the text of its editor.\<close>

definition activeDraft :: "page \<Rightarrow> (query_tab \<times> string) option" where
  "activeDraft p = map_option (\<lambda>t. (t, draftOf p (qt_id t))) (currentActiveTab p)"

lemma focusActiveEditor_frame [simp]:
  "wp_app (focusActiveEditor p) = wp_app p" "wp_drafts (focusActiveEditor p) = wp_drafts p" "wp_conn (focusActiveEditor p) = wp_conn p"
  by (simp_all add: focusActiveEditor_def Let_def split: option.split)

lemma currentWorkspace_frame [simp]:
  "currentWorkspace (focusActiveEditor p) = currentWorkspace p" "draftOf (focusActiveEditor p) = draftOf p"
  "currentWorkspace (p\<lparr>wp_drafts := d\<rparr>) = currentWorkspace p" "draftOf (dispatch p a) = draftOf p"
  by (simp_all add: currentWorkspace_def draftOf_def fun_eq_iff)

lemma currentWorkspace_dispatch:
  "currentWorkspace p = Some w \<Longrightarrow> workspaceReducer w a = Some w' \<Longrightarrow> currentWorkspace (dispatch p a) = Some w'"
  by (auto simp: currentWorkspace_def dispatch_def dispatchApp_def dispatchWorkspace_def update_conv' nullish_def split: option.splits)

lemma tabAdded_new:
  "tabAdded w tabId a = Some w' \<Longrightarrow> ws_tabs w' = ws_tabs w @ [newTab w tabId a] \<and> ws_activeTabId w' = Some tabId"
  by (auto simp: tabAdded_def Let_def split: if_splits option.splits)

lemma find_id:
  "distinct (map f xs) \<Longrightarrow> x \<in> set xs \<Longrightarrow> find (\<lambda>t. Some (f t) = Some (f x)) xs = Some x"
  by (induction xs) auto

lemma activeDraft_activate:
  assumes "currentWorkspace p = Some w" "ws_inv w" "t \<in> set (ws_tabs w)"
  shows "activeDraft (dispatchAndFocusEditor p (TAB_ACTIVATED (qt_id t))) = Some (t, draftOf p (qt_id t))"
    and "openTabs (dispatchAndFocusEditor p (TAB_ACTIVATED (qt_id t))) = openTabs p"
proof -
  have w: "currentWorkspace (dispatchAndFocusEditor p (TAB_ACTIVATED (qt_id t))) = Some (activateTab w (qt_id t))"
    by (simp add: dispatchAndFocusEditor_def currentWorkspace_dispatch [OF assms(1)])
  moreover have "ws_activeTabId (activateTab w (qt_id t)) = Some (qt_id t)"
    using assms(3) by (simp add: activateTab_active tab_ids_def)
  moreover have "distinct (map qt_id (ws_tabs w))" using assms(2) by (simp add: ws_inv_def tab_ids_def)
  note find_id [OF this assms(3)]
  ultimately show "activeDraft (dispatchAndFocusEditor p (TAB_ACTIVATED (qt_id t))) = Some (t, draftOf p (qt_id t))"
    by (simp add: activeDraft_def currentActiveTab_def) (simp add: dispatchAndFocusEditor_def)
  show "openTabs (dispatchAndFocusEditor p (TAB_ACTIVATED (qt_id t))) = openTabs p" using w assms(1) by (simp add: openTabs_def)
qed

lemma activeDraft_added:
  assumes "currentWorkspace p = Some w" "ws_inv w" "action_ok w (TAB_ADDED tabId a)"
  shows "activeDraft (dispatchAndFocusEditor p (TAB_ADDED tabId a)) = Some (newTab w tabId a, draftOf p tabId)"
    and "openTabs (dispatchAndFocusEditor p (TAB_ADDED tabId a)) = openTabs p @ [newTab w tabId a]"
proof -
  obtain w' where w': "tabAdded w tabId a = Some w'" using tabAdded_inv [OF assms(2,3)] by blast
  have w: "currentWorkspace (dispatchAndFocusEditor p (TAB_ADDED tabId a)) = Some w'"
    by (simp add: dispatchAndFocusEditor_def currentWorkspace_dispatch [OF assms(1)] w')
  have "find (\<lambda>t. Some (qt_id t) = Some tabId) (ws_tabs w @ [newTab w tabId a]) = Some (newTab w tabId a)"
    using find_id [of qt_id "ws_tabs w @ [newTab w tabId a]" "newTab w tabId a"] assms(2,3) by (auto simp: ws_inv_def tab_ids_def)
  then show "activeDraft (dispatchAndFocusEditor p (TAB_ADDED tabId a)) = Some (newTab w tabId a, draftOf p tabId)"
    using w tabAdded_new [OF w'] by (simp add: activeDraft_def currentActiveTab_def) (simp add: dispatchAndFocusEditor_def)
  show "openTabs (dispatchAndFocusEditor p (TAB_ADDED tabId a)) = openTabs p @ [newTab w tabId a]"
    using w assms(1) tabAdded_new [OF w'] by (simp add: openTabs_def)
qed

text \<open>Opening SQL, from the history or the saved queries, ends in a query tab that shows it. Either
  an open query tab already has that SQL, up to surrounding blanks, or is bound to that saved query:
  then it is activated and no tab is added. Or one new tab is added and becomes active, with exactly
  that SQL and bound to the saved query it came from. The text of every other tab stays as it is.\<close>

theorem open_sql_shows_it:
  assumes "currentWorkspace p = Some w" "ws_inv w" "action_ok w (TAB_ADDED tabId (addTab\<lparr>ta_title := title\<rparr>))"
  shows "\<exists>t d. activeDraft (openSqlInNewTab p sql title saved tabId) = Some (t, d) \<and> qt_kind t = QueryKind
    \<and> (t \<in> set (openTabs p) \<and> openTabs (openSqlInNewTab p sql title saved tabId) = openTabs p
         \<and> (trim d = trim sql \<or> saved \<noteq> None \<and> map_of (dm_saved (wp_drafts p)) (qt_id t) = saved)
       \<or> qt_id t = tabId \<and> d = sql \<and> openTabs (openSqlInNewTab p sql title saved tabId) = openTabs p @ [t]
         \<and> (truthy_str saved \<longrightarrow> map_of (dm_saved (wp_drafts (openSqlInNewTab p sql title saved tabId))) tabId = saved)
         \<and> (trim sql \<noteq> [] \<longrightarrow> (\<forall>u\<in>set (openTabs p). qt_kind u = QueryKind \<longrightarrow> trim (draftOf p (qt_id u)) \<noteq> trim sql)))
    \<and> (\<forall>u. u \<noteq> tabId \<longrightarrow> draftOf (openSqlInNewTab p sql title saved tabId) u = draftOf p u)"
proof -
  let ?match = "\<lambda>tab. qt_kind tab = QueryKind \<and> (saved \<noteq> None \<and> map_of (dm_saved (wp_drafts p)) (qt_id tab) = saved
      \<or> trim (draftOf p (qt_id tab)) = trim sql)"
  let ?existing = "if trim sql = [] then None else find ?match (openTabs p)"
  show ?thesis
  proof (cases ?existing)
    case (Some t)
    then have t: "t \<in> set (ws_tabs w)" "t \<in> set (openTabs p)" "?match t"
      using assms(1) by (auto simp: openTabs_def find_Some_iff split: if_splits)
    have eq: "openSqlInNewTab p sql title saved tabId = dispatchAndFocusEditor p (TAB_ACTIVATED (qt_id t))"
      using Some by (simp add: openSqlInNewTab_def Let_def)
    show ?thesis unfolding eq
      by (intro exI [of _ t] exI [of _ "draftOf p (qt_id t)"])
        (use activeDraft_activate [OF assms(1,2) t(1)] t in \<open>auto simp: dispatchAndFocusEditor_def\<close>)
  next
    case None
    let ?p = "p\<lparr>wp_drafts := (wp_drafts p)\<lparr>dm_sql := AList.update tabId sql (dm_sql (wp_drafts p)),
        dm_saved := (if truthy_str saved then AList.update tabId (the saved) (dm_saved (wp_drafts p)) else dm_saved (wp_drafts p))\<rparr>\<rparr>"
    let ?a = "addTab\<lparr>ta_title := title\<rparr>"
    have eq: "openSqlInNewTab p sql title saved tabId = dispatchAndFocusEditor ?p (TAB_ADDED tabId ?a)"
      using None by (simp add: openSqlInNewTab_def Let_def)
    have w: "currentWorkspace ?p = Some w" using assms(1) by simp
    have d: "draftOf ?p u = (if u = tabId then sql else draftOf p u)" for u by (simp add: draftOf_def update_conv' nullish_def)
    have s: "truthy_str saved \<Longrightarrow> map_of (dm_saved (wp_drafts ?p)) tabId = saved" by (cases saved) (auto simp: truthy_str_def update_conv')
    have no: "trim sql \<noteq> [] \<Longrightarrow> \<forall>u\<in>set (openTabs p). qt_kind u = QueryKind \<longrightarrow> trim (draftOf p (qt_id u)) \<noteq> trim sql"
      using None by (auto simp: find_None_iff split: if_splits)
    have o: "openTabs ?p = openTabs p" by (simp add: openTabs_def)
    show ?thesis unfolding eq
      by (intro exI [of _ "newTab w tabId ?a"] exI [of _ sql])
        (use activeDraft_added [OF w assms(2,3)] d s no o in \<open>auto simp: dispatchAndFocusEditor_def newTab_def\<close>)
  qed
qed

theorem open_sql_shows_it_witness:
  "\<exists>t d. activeDraft (openSqlInNewTab example_page ''select 2'' None None ''n'') = Some (t, d) \<and> d = ''select 2'' \<and> qt_kind t = QueryKind"
proof -
  have w: "currentWorkspace example_page = Some example_ws" by (simp add: currentWorkspace_def example_page_def example_app_def)
  have ok: "action_ok example_ws (TAB_ADDED ''n'' (addTab\<lparr>ta_title := None\<rparr>))" by code_simp
  have none: "list_all (\<lambda>t. trim (draftOf example_page (qt_id t)) \<noteq> trim ''select 2'') (openTabs example_page)" by code_simp
  obtain t d where td: "activeDraft (openSqlInNewTab example_page ''select 2'' None None ''n'') = Some (t, d)" "qt_kind t = QueryKind"
    "t \<in> set (openTabs example_page) \<and> trim d = trim ''select 2'' \<or> qt_id t = ''n'' \<and> d = ''select 2''"
    and same: "\<forall>u. u \<noteq> ''n'' \<longrightarrow> draftOf (openSqlInNewTab example_page ''select 2'' None None ''n'') u = draftOf example_page u"
    using open_sql_shows_it [OF w example_ws_inv ok, of "''select 2''" None] by blast
  have d: "d = draftOf (openSqlInNewTab example_page ''select 2'' None None ''n'') (qt_id t)" using td(1) by (auto simp: activeDraft_def)
  have new: "list_all (\<lambda>t. qt_id t \<noteq> ''n'') (openTabs example_page)" by code_simp
  have "trim d \<noteq> trim ''select 2''" if "t \<in> set (openTabs example_page)"
    using that new none same d by (simp add: list_all_iff)
  then have "d = ''select 2''" using td(3) by blast
  then show ?thesis using td by blast
qed

subsection \<open>The keyboard\<close>

text \<open>The keyboard of the workspace acts only when it may. While a dialog is open, the database is
  being changed or an input method composes, a key changes nothing and starts nothing; a key that
  repeats starts no handler and opens no tab; a key that is not kept from the editor and the browser
  did nothing here; and the refresh and the save key never reach the browser, except while the
  database is being changed or an input method composes.\<close>

theorem keyboard_guarded:
  "(kc_dialogOpen ctx \<or> wp_changingDatabase p \<or> kc_isComposing ctx \<longrightarrow>
      ko_page (onKey mac shortcuts ctx freshId p e) = p \<and> ko_command (onKey mac shortcuts ctx freshId p e) = NoCommand)
   \<and> (kc_repeat ctx \<longrightarrow> ko_command (onKey mac shortcuts ctx freshId p e) = NoCommand
      \<and> (ko_page (onKey mac shortcuts ctx freshId p e) = p \<or> keyAction (\<lambda>i. shortcutMatches mac e (shortcutOf shortcuts i)) e \<noteq> None))
   \<and> (\<not> ko_prevented (onKey mac shortcuts ctx freshId p e) \<longrightarrow>
      ko_page (onKey mac shortcuts ctx freshId p e) = p \<and> ko_command (onKey mac shortcuts ctx freshId p e) = NoCommand)
   \<and> (shortcutMatches mac e (shortcutOf shortcuts ''refreshResult'') \<or> shortcutMatches mac e (shortcutOf shortcuts ''saveQuery'') \<longrightarrow>
      ko_prevented (onKey mac shortcuts ctx freshId p e) = (\<not> wp_changingDatabase p \<and> \<not> kc_isComposing ctx))"
  by (simp add: onKey_def Let_def split: option.split)

definition refresh_key :: key_event where
  "refresh_key = \<lparr>ke_key = ''r'', ke_code = ''KeyR'', ke_metaKey = False, ke_ctrlKey = True, ke_altKey = False, ke_shiftKey = False\<rparr>"

definition example_context :: key_context where
  "example_context = \<lparr>kc_isComposing = False, kc_repeat = False, kc_dialogOpen = True, kc_inResult = False, kc_saveButton = False,
     kc_refreshButton = False, kc_selected = []\<rparr>"

lemma refresh_key_refreshes: "shortcutMatches False refresh_key (shortcutOf [(''refreshResult'', ''Mod+KeyR'')] ''refreshResult'')"
  by code_simp

theorem keyboard_guarded_witness:
  "let out = onKey False [(''refreshResult'', ''Mod+KeyR'')] example_context ''n'' example_page refresh_key
   in ko_page out = example_page \<and> ko_command out = NoCommand \<and> ko_prevented out"
  using keyboard_guarded [of example_context example_page False "[(''refreshResult'', ''Mod+KeyR'')]" "''n''" refresh_key] refresh_key_refreshes
  by (simp add: Let_def) (simp add: example_context_def example_page_def)

text \<open>While the database is being changed the refresh key does reach the browser, whose default reloads
  the page.\<close>

theorem refresh_key_reaches_browser:
  "\<exists>p ctx. shortcutMatches False refresh_key (shortcutOf [(''refreshResult'', ''Mod+KeyR'')] ''refreshResult'')
     \<and> \<not> ko_prevented (onKey False [(''refreshResult'', ''Mod+KeyR'')] ctx ''n'' p refresh_key)"
  by (intro exI [of _ "example_page\<lparr>wp_changingDatabase := True\<rparr>"] exI [of _ example_context])
    (simp add: refresh_key_refreshes onKey_def)

end
