(* ===== verification/Object_Explorer.thy ===== *)
theory Object_Explorer
  imports Page_Protocols "HOL-Library.Multiset" "HOL-Library.Sublist"
begin

text \<open>
  The object explorer, \<open>src/features/object-explorer/\<close>: the tree of \<open>ObjectSidebar.tsx\<close> with its search, its
  keys and the deletion of an object, and the data view of a table, \<open>TableDataView.tsx\<close>. The links
  between the nodes of the tree are an explicit store, as the code pushes references to them; the
  tree is read off it with as much fuel as there are objects, which is enough for every tree.
\<close>

subsection \<open>The tree of a group\<close>

record database_object = object_summary +
  do_partitionParentOid :: "nat option"
  do_canSelect :: "bool option"

datatype object_node = ObjectNode (nd_object: database_object) (nd_children: "object_node list")

text \<open>The arrays the loop pushes to: the roots, and the children of each node.\<close>

record node_links =
  nl_roots :: "nat list"
  nl_children :: "(nat, nat list) js_map"

type_synonym object_map = "(nat, database_object) js_map"

definition objectNodes :: "database_object list \<Rightarrow> object_map" where
  "objectNodes objs = js_map_of (map (\<lambda>o'. (ci_oid o', o')) objs)"

definition parentIn :: "object_map \<Rightarrow> database_object \<Rightarrow> nat option" where
  "parentIn nodes o' = (case do_partitionParentOid o' of
     None \<Rightarrow> None | Some p \<Rightarrow> if map_of nodes p = None then None else Some p)"

definition childrenOf :: "node_links \<Rightarrow> nat \<Rightarrow> nat list" where
  "childrenOf l p = nullish (map_of (nl_children l) p) []"

definition pushNode :: "object_map \<Rightarrow> node_links \<Rightarrow> database_object \<Rightarrow> node_links" where
  "pushNode nodes l o' = (case parentIn nodes o' of
     None \<Rightarrow> l\<lparr>nl_roots := nl_roots l @ [ci_oid o']\<rparr>
   | Some p \<Rightarrow> l\<lparr>nl_children := AList.update p (childrenOf l p @ [ci_oid o']) (nl_children l)\<rparr>)"

definition linkNodes :: "object_map \<Rightarrow> node_links" where
  "linkNodes nodes = foldl (pushNode nodes) \<lparr>nl_roots = [], nl_children = []\<rparr> (map snd nodes)"

fun readNode :: "nat \<Rightarrow> object_map \<Rightarrow> node_links \<Rightarrow> nat \<Rightarrow> object_node list" where
  "readNode 0 nodes l oid = []"
| "readNode (Suc fuel) nodes l oid = (case map_of nodes oid of
     None \<Rightarrow> []
   | Some o' \<Rightarrow> [ObjectNode o' (concat (map (readNode fuel nodes l) (childrenOf l oid)))])"

definition objectRoots :: "database_object list \<Rightarrow> object_node list" where
  "objectRoots objs = (let nodes = objectNodes objs; l = linkNodes nodes
     in concat (map (readNode (length nodes) nodes l) (nl_roots l)))"

text \<open>The search keeps a node that matches, or has a descendant that does.\<close>

definition objectMatches :: "string \<Rightarrow> database_object \<Rightarrow> bool" where
  "objectMatches needle o' \<longleftrightarrow> find_sub needle (to_lower (ci_name o' @ ''('' @ nullish (os_functionArguments o') [] @ '')'')) \<noteq> None"

fun matchNode :: "string \<Rightarrow> object_node \<Rightarrow> object_node list" where
  "matchNode needle (ObjectNode o' cs) = (let children = concat (map (matchNode needle) cs) in
     if children \<noteq> [] \<or> objectMatches needle o' then [ObjectNode o' children] else [])"

definition visibleNodes :: "database_object list \<Rightarrow> string \<Rightarrow> object_node list" where
  "visibleNodes objs search = (let needle = to_lower search; roots = objectRoots objs
     in if needle = [] then roots else concat (map (matchNode needle) roots))"

text \<open>The objects of a tree in the order the rows are shown when everything is expanded.\<close>

fun rowsOfNode :: "object_node \<Rightarrow> database_object list" where
  "rowsOfNode (ObjectNode o' cs) = o' # concat (map rowsOfNode cs)"

definition treeRows :: "object_node list \<Rightarrow> database_object list" where
  "treeRows ts = concat (map rowsOfNode ts)"

subsection \<open>Every object has its place\<close>

lemma pushNode_links:
  "childrenOf (pushNode nodes l o') p = childrenOf l p @ (if parentIn nodes o' = Some p then [ci_oid o'] else [])"
  "nl_roots (pushNode nodes l o') = nl_roots l @ (if parentIn nodes o' = None then [ci_oid o'] else [])"
  by (auto simp: pushNode_def childrenOf_def update_conv' nullish_def split: option.split)

lemma linked:
  "childrenOf (foldl (pushNode nodes) l os) p = childrenOf l p @ map ci_oid (filter (\<lambda>o'. parentIn nodes o' = Some p) os)"
  "nl_roots (foldl (pushNode nodes) l os) = nl_roots l @ map ci_oid (filter (\<lambda>o'. parentIn nodes o' = None) os)"
  by (induction os arbitrary: l) (simp_all add: pushNode_links)

lemma linkNodes_links:
  "childrenOf (linkNodes nodes) p = map ci_oid (filter (\<lambda>o'. parentIn nodes o' = Some p) (map snd nodes))"
  "nl_roots (linkNodes nodes) = map ci_oid (filter (\<lambda>o'. parentIn nodes o' = None) (map snd nodes))"
proof -
  have "childrenOf \<lparr>nl_roots = [], nl_children = []\<rparr> p = []" by (simp add: childrenOf_def nullish_def)
  then show "childrenOf (linkNodes nodes) p = map ci_oid (filter (\<lambda>o'. parentIn nodes o' = Some p) (map snd nodes))"
    "nl_roots (linkNodes nodes) = map ci_oid (filter (\<lambda>o'. parentIn nodes o' = None) (map snd nodes))"
    by (simp_all add: linkNodes_def linked)
qed

text \<open>One level below a list of distinct nodes are the objects whose parent is one of them.\<close>

lemma next_level:
  assumes "distinct ps"
  shows "mset (concat (map (\<lambda>p. filter (\<lambda>o'. par o' = Some p) os) ps)) = mset (filter (\<lambda>o'. \<exists>p\<in>set ps. par o' = Some p) os)"
  using assms
proof (induction ps)
  case (Cons p ps)
  have "filter_mset (\<lambda>o'. \<exists>q\<in>set (p # ps). par o' = Some q) (mset os)
      = filter_mset (\<lambda>o'. par o' = Some p) (mset os) + filter_mset (\<lambda>o'. \<exists>q\<in>set ps. par o' = Some q) (mset os)"
    using Cons.prems by (induction os) auto
  then show ?case using Cons by simp
qed simp

lemma sum_levels:
  fixes n :: nat
  shows "\<forall>o'\<in>set os. dep o' < n \<Longrightarrow> (\<Sum>i<n. mset (filter (\<lambda>o'. dep o' = i) os)) = mset os"
proof (induction os)
  case (Cons x os)
  have "(\<Sum>i<n. mset (filter (\<lambda>o'. dep o' = i) (x # os)))
      = (\<Sum>i<n. (if i = dep x then {#x#} else {#}) + mset (filter (\<lambda>o'. dep o' = i) os))"
    by (rule sum.cong) auto
  also have "\<dots> = {#x#} + mset os"
    using Cons by (simp add: sum.distrib)
  finally show ?case by simp
qed simp

text \<open>The objects of one map of nodes, and their depth below the roots.\<close>

definition nodeMap :: "object_map \<Rightarrow> bool" where
  "nodeMap nodes \<longleftrightarrow> distinct (map fst nodes) \<and> (\<forall>(k, o')\<in>set nodes. ci_oid o' = k)"

definition isDepth :: "object_map \<Rightarrow> (nat \<Rightarrow> nat) \<Rightarrow> bool" where
  "isDepth nodes dep \<longleftrightarrow> (\<forall>o'\<in>set (map snd nodes). dep (ci_oid o') =
     (case parentIn nodes o' of None \<Rightarrow> 0 | Some p \<Rightarrow> Suc (dep p)))"

abbreviation atDepth :: "object_map \<Rightarrow> (nat \<Rightarrow> nat) \<Rightarrow> nat \<Rightarrow> database_object list" where
  "atDepth nodes dep i \<equiv> filter (\<lambda>o'. dep (ci_oid o') = i) (map snd nodes)"

abbreviation rowsFrom :: "nat \<Rightarrow> object_map \<Rightarrow> database_object list \<Rightarrow> database_object multiset" where
  "rowsFrom fuel nodes os \<equiv> mset (treeRows (concat (map (readNode fuel nodes (linkNodes nodes)) (map ci_oid os))))"

lemma nodeMap_get: "nodeMap nodes \<Longrightarrow> o' \<in> set (map snd nodes) \<Longrightarrow> map_of nodes (ci_oid o') = Some o'"
  by (auto simp: nodeMap_def)

lemma nodeMap_oids: "nodeMap nodes \<Longrightarrow> map fst nodes = map ci_oid (map snd nodes)"
  by (auto simp: nodeMap_def)

lemma parentIn_object:
  assumes "nodeMap nodes" "parentIn nodes c = Some p" shows "\<exists>o'\<in>set (map snd nodes). ci_oid o' = p"
proof -
  obtain o' where "map_of nodes p = Some o'" using assms(2) by (auto simp: parentIn_def split: option.splits if_splits)
  then have "(p, o') \<in> set nodes" by (rule map_of_SomeD)
  then show ?thesis using assms(1) by (force simp: nodeMap_def)
qed

lemma rowsFrom_sum: "rowsFrom fuel nodes os = (\<Sum>o'\<in>#mset os. mset (treeRows (readNode fuel nodes (linkNodes nodes) (ci_oid o'))))"
  by (induction os) (simp_all add: treeRows_def)

lemma rowsFrom_Suc:
  assumes "nodeMap nodes" "set os \<subseteq> set (map snd nodes)"
  shows "rowsFrom (Suc fuel) nodes os
    = mset os + rowsFrom fuel nodes (concat (map (\<lambda>o'. filter (\<lambda>c. parentIn nodes c = Some (ci_oid o')) (map snd nodes)) os))"
  using assms(2)
proof (induction os)
  case (Cons o' os)
  then show ?case using nodeMap_get [OF assms(1)] by (simp add: linkNodes_links treeRows_def)
qed (simp add: treeRows_def)

lemma rowsFrom_depth:
  assumes "nodeMap nodes" "isDepth nodes dep"
  shows "rowsFrom fuel nodes (atDepth nodes dep i) = (\<Sum>j<fuel. mset (atDepth nodes dep (i + j)))"
proof (induction fuel arbitrary: i)
  case (Suc fuel)
  let ?below = "concat (map (\<lambda>o'. filter (\<lambda>c. parentIn nodes c = Some (ci_oid o')) (map snd nodes)) (atDepth nodes dep i))"
  have d: "distinct (map ci_oid (atDepth nodes dep i))"
    using assms(1) nodeMap_oids [OF assms(1)] by (metis distinct_map_filter nodeMap_def)
  have "?below = concat (map (\<lambda>p. filter (\<lambda>c. parentIn nodes c = Some p) (map snd nodes)) (map ci_oid (atDepth nodes dep i)))"
    by (simp add: comp_def)
  then have "mset ?below = mset (filter (\<lambda>c. \<exists>p\<in>set (map ci_oid (atDepth nodes dep i)). parentIn nodes c = Some p) (map snd nodes))"
    using next_level [OF d] by metis
  also have "filter (\<lambda>c. \<exists>p\<in>set (map ci_oid (atDepth nodes dep i)). parentIn nodes c = Some p) (map snd nodes) = atDepth nodes dep (Suc i)"
  proof (rule filter_cong [OF refl])
    fix c assume c: "c \<in> set (map snd nodes)"
    note p = parentIn_object [OF assms(1), of c]
    show "(\<exists>p\<in>set (map ci_oid (atDepth nodes dep i)). parentIn nodes c = Some p) \<longleftrightarrow> dep (ci_oid c) = Suc i"
      using c assms(2) p unfolding isDepth_def by (fastforce split: option.splits)
  qed
  finally have "rowsFrom fuel nodes ?below = rowsFrom fuel nodes (atDepth nodes dep (Suc i))"
    unfolding rowsFrom_sum by simp
  then show ?case using rowsFrom_Suc [OF assms(1), of "atDepth nodes dep i" fuel] Suc [of "Suc i"]
    by (simp add: sum.lessThan_Suc_shift del: sum.lessThan_Suc readNode.simps)
qed (simp add: treeRows_def)

text \<open>A rank that grows from parent to child gives every object its depth, below the number of objects.\<close>

definition parentStep :: "object_map \<Rightarrow> nat option \<Rightarrow> nat option" where
  "parentStep nodes x = Option.bind x (\<lambda>oid. Option.bind (map_of nodes oid) (parentIn nodes))"

lemma parentStep_None [simp]: "(parentStep nodes ^^ n) None = None"
  by (induction n) (simp_all add: parentStep_def)

lemma depth_exists:
  fixes rank :: "nat \<Rightarrow> nat"
  assumes "nodeMap nodes" and rank: "\<And>o' p. o' \<in> set (map snd nodes) \<Longrightarrow> parentIn nodes o' = Some p \<Longrightarrow> rank p < rank (ci_oid o')"
  shows "\<exists>dep. isDepth nodes dep"
proof -
  let ?up = "\<lambda>n oid. (parentStep nodes ^^ n) (Some oid)"
  have ends: "\<exists>n. ?up (Suc n) oid = None" for oid
  proof (induction "rank oid" arbitrary: oid rule: less_induct)
    case less
    show ?case
    proof (cases "parentStep nodes (Some oid)")
      case None then show ?thesis by (intro exI [of _ 0]) simp
    next
      case (Some p)
      then obtain o' where o': "map_of nodes oid = Some o'" "parentIn nodes o' = Some p"
        by (auto simp: parentStep_def Option.bind_eq_Some_conv)
      have "(oid, o') \<in> set nodes" using o'(1) by (rule map_of_SomeD)
      then have "o' \<in> set (map snd nodes)" "ci_oid o' = oid" using assms(1) by (force simp: nodeMap_def)+
      then have "rank p < rank oid" using rank o'(2) by blast
      from less [OF this] obtain n where "?up (Suc n) p = None" by blast
      then show ?thesis by (intro exI [of _ "Suc n"]) (simp only: funpow_Suc_right comp_def Some)
    qed
  qed
  have "isDepth nodes (\<lambda>oid. LEAST n. ?up (Suc n) oid = None)"
    unfolding isDepth_def
  proof
    fix o' assume o': "o' \<in> set (map snd nodes)"
    have up: "parentStep nodes (Some (ci_oid o')) = parentIn nodes o'" using nodeMap_get [OF assms(1) o'] by (simp add: parentStep_def)
    show "(LEAST n. ?up (Suc n) (ci_oid o') = None) = (case parentIn nodes o' of None \<Rightarrow> 0 | Some p \<Rightarrow> Suc (LEAST n. ?up (Suc n) p = None))"
    proof (cases "parentIn nodes o'")
      case None then show ?thesis using up by (auto intro!: Least_equality)
    next
      case (Some p)
      obtain n where n: "?up (Suc n) (ci_oid o') = None" using ends by blast
      have "?up (Suc 0) (ci_oid o') \<noteq> None" using up Some by simp
      from Least_Suc [of "\<lambda>n. ?up (Suc n) (ci_oid o') = None", OF n this] show ?thesis
        using Some up by (simp only: funpow_Suc_right comp_def option.case)
    qed
  qed
  then show ?thesis by blast
qed

lemma depth_bound:
  assumes "nodeMap nodes" "isDepth nodes dep" "o' \<in> set (map snd nodes)"
  shows "dep (ci_oid o') < length nodes"
proof -
  have levels: "\<forall>j\<le>dep (ci_oid o'). \<exists>a\<in>set (map snd nodes). dep (ci_oid a) = j" if "o' \<in> set (map snd nodes)" for o'
    using that
  proof (induction "dep (ci_oid o')" arbitrary: o')
    case 0 then show ?case by auto
  next
    case (Suc d)
    then obtain p where p: "parentIn nodes o' = Some p" "dep p = d"
      using assms(2) by (fastforce simp: isDepth_def split: option.splits)
    obtain a where a: "a \<in> set (map snd nodes)" "ci_oid a = p" using parentIn_object [OF assms(1) p(1)] by blast
    have "\<forall>j\<le>d. \<exists>b\<in>set (map snd nodes). dep (ci_oid b) = j" using Suc(1) [of a] a p(2) by simp
    then show ?case using Suc(2,3) by (metis le_Suc_eq)
  qed
  have "{..dep (ci_oid o')} \<subseteq> (\<lambda>a. dep (ci_oid a)) ` set (map snd nodes)" using levels [OF assms(3)] by fastforce
  then have "card {..dep (ci_oid o')} \<le> card (set (map snd nodes))" using surj_card_le by blast
  also have "\<dots> \<le> length (map snd nodes)" by (rule card_length)
  finally show ?thesis by simp
qed

subsection \<open>What the tree shows\<close>

text \<open>All nodes of a tree, and the pairs of a node's object and the object of one of its children.\<close>

fun allNodes :: "object_node \<Rightarrow> object_node list" where
  "allNodes (ObjectNode o' cs) = ObjectNode o' cs # concat (map allNodes cs)"

definition nodesOf :: "object_node list \<Rightarrow> object_node list" where
  "nodesOf ts = concat (map allNodes ts)"

definition shownBelow :: "object_node list \<Rightarrow> (database_object \<times> database_object) set" where
  "shownBelow ts = {(nd_object t, nd_object c) |t c. t \<in> set (nodesOf ts) \<and> c \<in> set (nd_children t)}"

lemma readNode_object: "t \<in> set (readNode fuel nodes l oid) \<Longrightarrow> map_of nodes oid = Some (nd_object t)"
  by (cases fuel) (auto split: option.splits)

lemma readNode_below:
  assumes "nodeMap nodes" "t \<in> set (nodesOf (readNode fuel nodes (linkNodes nodes) oid))" "c \<in> set (nd_children t)"
  shows "parentIn nodes (nd_object c) = Some (ci_oid (nd_object t))"
  using assms(2)
proof (induction fuel arbitrary: oid)
  case (Suc fuel)
  obtain o' where o': "map_of nodes oid = Some o'" using Suc.prems by (cases "map_of nodes oid") (auto simp: nodesOf_def)
  have t: "t = ObjectNode o' (concat (map (readNode fuel nodes (linkNodes nodes)) (childrenOf (linkNodes nodes) oid)))
      \<or> (\<exists>q. t \<in> set (nodesOf (readNode fuel nodes (linkNodes nodes) q)))"
    using Suc.prems o' by (auto simp: nodesOf_def)
  from t show ?case
  proof
    assume t: "t = ObjectNode o' (concat (map (readNode fuel nodes (linkNodes nodes)) (childrenOf (linkNodes nodes) oid)))"
    then obtain k where k: "k \<in> set (childrenOf (linkNodes nodes) oid)" "map_of nodes k = Some (nd_object c)"
      using assms(3) readNode_object by fastforce
    from k(1) obtain o'' where "o'' \<in> set (map snd nodes)" "parentIn nodes o'' = Some oid" "k = ci_oid o''"
      by (auto simp: linkNodes_links)
    then have "parentIn nodes (nd_object c) = Some oid" using nodeMap_get [OF assms(1)] k(2) by fastforce
    moreover have "ci_oid o' = oid" using assms(1) map_of_SomeD [OF o'] by (fastforce simp: nodeMap_def)
    ultimately show ?thesis using t by simp
  qed (use Suc.IH in blast)
qed (simp add: nodesOf_def)

lemma nodeMap_objectNodes: "distinct (map ci_oid objs) \<Longrightarrow> nodeMap (objectNodes objs) \<and> map snd (objectNodes objs) = objs"
  by (auto simp: objectNodes_def js_map_of_distinct nodeMap_def comp_def)


lemma matchNode_hit: "matchNode needle t \<noteq> [] \<longleftrightarrow> (\<exists>h\<in>set (rowsOfNode t). objectMatches needle h)"
  by (induction t) (auto simp: Let_def)

lemma matchNode_rows:
  "set (concat (map rowsOfNode (matchNode needle t)))
     = {nd_object u |u. u \<in> set (allNodes t) \<and> (\<exists>h\<in>set (rowsOfNode u). objectMatches needle h)}
   \<and> subseq (concat (map rowsOfNode (matchNode needle t))) (rowsOfNode t)"
proof (induction t)
  case (ObjectNode o' cs)
  let ?ms = "concat (map (matchNode needle) cs)"
  have rows: "concat (map rowsOfNode ?ms) = concat (map (\<lambda>c. concat (map rowsOfNode (matchNode needle c))) cs)"
    by (induction cs) simp_all
  have sub: "subseq (concat (map rowsOfNode ?ms)) (concat (map rowsOfNode cs))"
    unfolding rows using ObjectNode by (induction cs) (auto intro: list_emb_append_mono)
  have set: "set (concat (map rowsOfNode ?ms)) = {nd_object u |u. \<exists>c\<in>set cs. u \<in> set (allNodes c) \<and> (\<exists>h\<in>set (rowsOfNode u). objectMatches needle h)}"
    unfolding rows using ObjectNode by auto
  have hit: "(\<exists>h\<in>set (rowsOfNode (ObjectNode o' cs)). objectMatches needle h) \<longleftrightarrow> ?ms \<noteq> [] \<or> objectMatches needle o'"
    using matchNode_hit by fastforce
  have split: "{nd_object u |u. u \<in> set (allNodes (ObjectNode o' cs)) \<and> (\<exists>h\<in>set (rowsOfNode u). objectMatches needle h)}
      = (if \<exists>h\<in>set (rowsOfNode (ObjectNode o' cs)). objectMatches needle h then {o'} else {}) \<union> set (concat (map rowsOfNode ?ms))"
    unfolding set by (auto simp del: rowsOfNode.simps intro: exI [of _ "ObjectNode o' cs"])
  show ?case unfolding split hit using sub by (auto simp: Let_def)
qed

text \<open>Claim C21: the search of the explorer shows a row exactly when its object, or one of the objects below it
  in the tree, has the searched text in its name or its arguments, letter case aside; what is shown
  keeps the order of the tree. So a matching partition is always reachable from its root.\<close>

theorem search_shows_matches:
  assumes "search \<noteq> []"
  shows "set (treeRows (visibleNodes objs search))
      = {nd_object t |t. t \<in> set (nodesOf (visibleNodes objs [])) \<and> (\<exists>h\<in>set (rowsOfNode t). objectMatches (to_lower search) h)}
    \<and> subseq (treeRows (visibleNodes objs search)) (treeRows (visibleNodes objs []))"
proof -
  let ?n = "to_lower search"
  have n: "?n \<noteq> []" "to_lower [] = []" using assms by (simp_all add: to_lower_def)
  have rows: "treeRows (concat (map (matchNode ?n) ts)) = concat (map (\<lambda>t. concat (map rowsOfNode (matchNode ?n t))) ts)" for ts
    by (induction ts) (simp_all add: treeRows_def)
  have "set (treeRows (concat (map (matchNode ?n) ts)))
        = {nd_object t |t. t \<in> set (nodesOf ts) \<and> (\<exists>h\<in>set (rowsOfNode t). objectMatches ?n h)}
      \<and> subseq (treeRows (concat (map (matchNode ?n) ts))) (treeRows ts)" for ts
    unfolding rows
  proof (induction ts)
    case (Cons t ts)
    then show ?case using matchNode_rows [of ?n t]
      by (auto simp: treeRows_def nodesOf_def intro!: list_emb_append_mono)
  qed (simp add: treeRows_def nodesOf_def)
  then show ?thesis using n by (simp add: visibleNodes_def Let_def)
qed

definition tableObject :: "nat \<Rightarrow> string \<Rightarrow> nat option \<Rightarrow> database_object" where
  "tableObject oid name parent = \<lparr>ci_schema = ''public'', ci_name = name, ci_oid = oid, ci_kind = ''table'', os_functionArguments = None,
     do_partitionParentOid = parent, do_canSelect = Some True\<rparr>"


theorem search_shows_matches_witness:
  "let objs = [tableObject 2 ''p'' (Some 1), tableObject 1 ''o'' None]
   in map ci_name (treeRows (visibleNodes objs ''p'')) = [''o'', ''p''] \<and> ''p'' \<in> ci_name ` set (treeRows (visibleNodes objs []))"
proof -
  let ?objs = "[tableObject 2 ''p'' (Some 1), tableObject 1 ''o'' None]"
  have lower: "to_lower ''p'' = ''p''" "to_lower [] = []" by code_simp+
  have "visibleNodes ?objs ''p'' = concat (map (matchNode ''p'') (visibleNodes ?objs []))"
    by (simp add: visibleNodes_def Let_def lower)
  moreover have "map ci_name (treeRows (concat (map (matchNode ''p'') (visibleNodes ?objs [])))) = [''o'', ''p'']" by code_simp
  ultimately have e: "map ci_name (treeRows (visibleNodes ?objs ''p'')) = [''o'', ''p'']" by simp
  have "subseq (treeRows (visibleNodes ?objs ''p'')) (treeRows (visibleNodes ?objs []))"
    using search_shows_matches [of "''p''" ?objs] by simp
  then have "subseq (map ci_name (treeRows (visibleNodes ?objs ''p''))) (map ci_name (treeRows (visibleNodes ?objs [])))" by (rule subseq_map)
  then have "''p'' \<in> set (map ci_name (treeRows (visibleNodes ?objs [])))" unfolding e by (rule list_emb_set [of _ _ _ "''p''"]) simp_all
  then show ?thesis using e by (simp add: Let_def)
qed

subsection \<open>Keys of the tree\<close>

text \<open>The row that gets the focus among \<open>len\<close> visible rows; \<open>current\<close> is \<open>-1\<close> when no row has it.\<close>

definition moveRowFocus :: "nat \<Rightarrow> int \<Rightarrow> string \<Rightarrow> int option" where
  "moveRowFocus len current pressed =
     (if len = 0 then None
      else let index = (if pressed = ''Home'' then 0 else if pressed = ''End'' then int len - 1 else if pressed = ''ArrowDown'' then current + 1
                        else if current < 0 then int len - 1 else current - 1)
           in Some (max 0 (min (int len - 1) index)))"

type_synonym expansion_state = "(string, bool) js_map"

definition isExpanded :: "expansion_state \<Rightarrow> string \<Rightarrow> bool \<Rightarrow> bool" where
  "isExpanded st pressed initial = nullish (map_of st pressed) initial"

definition setExpanded :: "expansion_state \<Rightarrow> string \<Rightarrow> bool \<Rightarrow> expansion_state" where
  "setExpanded st pressed value = AList.update pressed value st"

definition branchKey :: "nat \<Rightarrow> string \<Rightarrow> string" where
  "branchKey oid search = ''branch:'' @ show_nat oid @ '':'' @ (if search \<noteq> [] then ''search'' else [])"

definition groupKey :: "string \<Rightarrow> nat \<Rightarrow> string \<Rightarrow> string \<Rightarrow> string" where
  "groupKey conn schemaOid kind search =
     ''group:'' @ conn @ '':'' @ show_nat schemaOid @ '':'' @ kind @ (if search \<noteq> [] then '':search'' else [])"

definition schemaKey :: "string \<Rightarrow> nat \<Rightarrow> string" where
  "schemaKey conn schemaOid = ''schema:'' @ conn @ '':'' @ show_nat schemaOid"

text \<open>What an arrow does in a row; \<open>expandable\<close>: the row has a list of its own.\<close>

datatype tree_move = Ignored | SetOpen bool | FocusChild | FocusParent

definition treeKeys :: "bool \<Rightarrow> bool \<Rightarrow> string \<Rightarrow> tree_move" where
  "treeKeys expandable expanded pressed =
     (if pressed = ''ArrowRight'' then (if expandable \<and> \<not> expanded then SetOpen True else FocusChild)
      else if pressed = ''ArrowLeft'' then (if expandable \<and> expanded then SetOpen False else FocusParent)
      else Ignored)"

text \<open>The rows on screen: a node is followed by its children while it is expanded.\<close>

fun shownObjects :: "expansion_state \<Rightarrow> string \<Rightarrow> object_node \<Rightarrow> database_object list" where
  "shownObjects st search (ObjectNode o' cs) =
     o' # (if isExpanded st (branchKey (ci_oid o') search) (search \<noteq> []) then concat (map (shownObjects st search) cs) else [])"

definition objectLabel :: "string \<Rightarrow> database_object \<Rightarrow> string" where
  "objectLabel schema o' = (if ci_schema o' = schema then ci_name o' else ci_schema o' @ ''.'' @ ci_name o')"

text \<open>A double click or Enter on a row opens it unless the role may not read it.\<close>

definition opensRow :: "database_object \<Rightarrow> bool" where
  "opensRow o' \<longleftrightarrow> do_canSelect o' \<noteq> Some False"

subsection \<open>Deleting an object\<close>

record sidebar =
  sb_menu :: "(database_object \<times> int \<times> int) option"
  sb_deletingOid :: "nat option"
  sb_deleteError :: string

datatype sidebar_question = ConfirmDrop string | DropObject nat string | InvalidateObjects

definition showContextMenu :: "int \<Rightarrow> int \<Rightarrow> database_object \<Rightarrow> int \<Rightarrow> int \<Rightarrow> sidebar \<Rightarrow> sidebar" where
  "showContextMenu width height o' x y sb = sb\<lparr>sb_deleteError := [], sb_menu := Some (o', min x (width - 140), min y (height - 44))\<rparr>"

definition closeMenu :: "sidebar \<Rightarrow> sidebar" where
  "closeMenu sb = sb\<lparr>sb_menu := None\<rparr>"

definition dropLabel :: "database_object \<Rightarrow> string" where
  "dropLabel o' = ci_schema o' @ ''.'' @ ci_name o'
     @ (if ci_kind o' = ''function'' then ''('' @ nullish (os_functionArguments o') [] @ '')'' else [])"

definition dropEnded :: "sidebar \<Rightarrow> (sidebar_question, page_answer, sidebar, unit) task" where
  "dropEnded sb = Return (sb\<lparr>sb_deletingOid := None\<rparr>) ()"

definition dropObject :: "bool \<Rightarrow> sidebar \<Rightarrow> (sidebar_question, page_answer, sidebar, unit) task" where
  "dropObject readOnly sb =
     (case sb_menu sb of
        None \<Rightarrow> Return sb ()
      | Some (o', x, y) \<Rightarrow>
          if readOnly \<or> sb_deletingOid sb \<noteq> None then Return sb ()
          else Ask (ConfirmDrop (dropLabel o')) sb (\<lambda>a sb.
            if a \<noteq> Answered then Return sb ()
            else Ask (DropObject (ci_oid o') (ci_kind o')) ((closeMenu sb)\<lparr>sb_deletingOid := Some (ci_oid o')\<rparr>) (\<lambda>a sb. case a of
              Rejected c m \<Rightarrow> dropEnded (sb\<lparr>sb_deleteError := m\<rparr>)
            | _ \<Rightarrow> Ask InvalidateObjects sb (\<lambda>a sb. case a of
                Rejected c m \<Rightarrow> dropEnded (sb\<lparr>sb_deleteError := m\<rparr>)
              | _ \<Rightarrow> dropEnded sb))))"

fun dropsOnly :: "(nat \<Rightarrow> string \<Rightarrow> bool) \<Rightarrow> sidebar_question \<Rightarrow> bool" where
  "dropsOnly P (DropObject oid kind) = P oid kind"
| "dropsOnly P q = True"

lemma dropObject_drops:
  "safe (\<lambda>_. True) (dropsOnly (\<lambda>oid kind. \<not> readOnly \<and> sb_deletingOid sb = None \<and> (\<exists>o' x y. sb_menu sb = Some (o', x, y) \<and> ci_oid o' = oid \<and> ci_kind o' = kind)))
     (\<lambda>_ _. False) (\<lambda>_ _. True) (dropObject readOnly sb)"
  by (auto simp: dropObject_def dropEnded_def safe_rejected split: option.split)

lemma dropObject_confirmed:
  "safe (\<lambda>_. True) (dropsOnly (\<lambda>_ _. False)) (\<lambda>q a. (\<exists>o' x y. sb_menu sb = Some (o', x, y) \<and> q = ConfirmDrop (dropLabel o')) \<and> a = Answered)
     (\<lambda>_ _. True) (dropObject readOnly sb)"
  by (auto simp: dropObject_def split: option.split)

text \<open>The explorer drops an object only when the connection is writable, no other deletion is
  running, and the user has confirmed the deletion of this very object by its qualified name; and
  it drops the object the menu was opened for.\<close>

theorem drop_only_confirmed_object:
  assumes "run_task (dropObject readOnly sb) env = (tr, t)" "DropObject oid kind \<in> set (questions (tr, t))"
  shows "\<not> readOnly \<and> sb_deletingOid sb = None
    \<and> (\<exists>o' x y. sb_menu sb = Some (o', x, y) \<and> ci_oid o' = oid \<and> ci_kind o' = kind \<and> (ConfirmDrop (dropLabel o'), Answered) \<in> set tr)"
proof -
  have keeps: "env_keeps (\<lambda>_. True) env" by (simp add: env_keeps_def)
  have "\<not> readOnly \<and> sb_deletingOid sb = None \<and> (\<exists>o' x y. sb_menu sb = Some (o', x, y) \<and> ci_oid o' = oid \<and> ci_kind o' = kind)"
    using safe_run(2) [OF dropObject_drops assms(1) _ keeps] assms(2) by fastforce
  moreover have "\<exists>o' x y. sb_menu sb = Some (o', x, y) \<and> (ConfirmDrop (dropLabel o'), Answered) \<in> set tr"
    using safe_run(2) [OF dropObject_confirmed assms(1) _ keeps] assms(2) by fastforce
  ultimately show ?thesis by auto
qed

theorem drop_only_confirmed_object_witness:
  "\<exists>tr t. run_task (dropObject False \<lparr>sb_menu = Some (tableObject 7 ''t'' None, 0, 0), sb_deletingOid = None, sb_deleteError = []\<rparr>) [(Answered, \<lambda>s. s)] = (tr, t)
     \<and> questions (tr, t) = [ConfirmDrop ''public.t'', DropObject 7 ''table''] \<and> (ConfirmDrop ''public.t'', Answered) \<in> set tr"
proof -
  let ?sb = "\<lparr>sb_menu = Some (tableObject 7 ''t'' None, 0, 0), sb_deletingOid = None, sb_deleteError = []\<rparr>"
  obtain tr t where r: "run_task (dropObject False ?sb) [(Answered, \<lambda>s. s)] = (tr, t)" by fastforce
  have q: "questions (tr, t) = [ConfirmDrop ''public.t'', DropObject 7 ''table'']"
    using r by (auto simp: dropObject_def questions_def tableObject_def dropLabel_def)
  show ?thesis using drop_only_confirmed_object [OF r, of 7 "''table''"] r q by (auto simp: tableObject_def dropLabel_def)
qed

subsection \<open>The data of a table\<close>

text \<open>The state of the data view of one table tab: the page, and the order the rows are shown in.\<close>

type_synonym sort_view = "int option \<times> bool"

record table_view =
  tv_page :: page
  tv_sort :: sort_view

datatype table_question = ConfirmDiscardTable | AwaitTable execution

definition PAGE_SIZE :: int where
  "PAGE_SIZE = 200"

abbreviation dataTabId :: "string \<Rightarrow> string" where
  "dataTabId tabId \<equiv> tabId @ '':data''"

definition mountView :: "page \<Rightarrow> string \<Rightarrow> table_view" where
  "mountView p tabId = \<lparr>tv_page = p, tv_sort = nullish (map_of (wp_tableViews p) tabId) (None, False)\<rparr>"

text \<open>The second half of \<open>fetchPage\<close>: the edits go, the order is kept for the next mount, page one is asked for.\<close>

definition loadTable :: "string \<Rightarrow> sort_view \<Rightarrow> string \<Rightarrow> string \<Rightarrow> table_view \<Rightarrow> (table_question, page_answer, table_view, unit) task" where
  "loadTable tabId order startedAt historyId v =
     (let p = tv_page v;
          p1 = p\<lparr>wp_app := (wp_app p)\<lparr>app_edits := clearEdits (app_edits (wp_app p)) (dataTabId tabId)\<rparr>,
                 wp_tableViews := AList.update tabId order (wp_tableViews p)\<rparr>;
          v1 = v\<lparr>tv_page := p1, tv_sort := order\<rparr>
      in case runTableData (wp_app p1) (wp_conn p1) tabId (dataTabId tabId) PAGE_SIZE startedAt historyId of
           Inl e \<Rightarrow> Return v1 ()
         | Inr (app, x) \<Rightarrow> Ask (AwaitTable x) (v1\<lparr>tv_page := p1\<lparr>wp_app := app\<rparr>\<rparr>) (\<lambda>a v. Return v ()))"

definition fetchPage :: "table_data_target option \<Rightarrow> string \<Rightarrow> bool \<Rightarrow> sort_view \<Rightarrow> string \<Rightarrow> string \<Rightarrow> table_view
    \<Rightarrow> (table_question, page_answer, table_view, unit) task" where
  "fetchPage target tabId editorOpen order startedAt historyId v =
     (let rid = dataTabId tabId; p = tv_page v in
      if target = None \<or> rs_status (getResult (app_results (wp_app p)) rid) = StRunning \<or> es_locked (editsOf p rid) then Return v ()
      else if es_pendingCount (editsOf p rid) > 0 \<or> editorOpen
      then Ask ConfirmDiscardTable v (\<lambda>a v. if a \<noteq> Answered then Return v () else loadTable tabId order startedAt historyId v)
      else loadTable tabId order startedAt historyId v)"

text \<open>The first load, and a click on a column header: ascending first, then descending.\<close>

definition firstOpen :: "table_data_target option \<Rightarrow> string \<Rightarrow> bool \<Rightarrow> string \<Rightarrow> string \<Rightarrow> table_view
    \<Rightarrow> (table_question, page_answer, table_view, unit) task" where
  "firstOpen target tabId editorOpen startedAt historyId v =
     (if rs_status (getResult (app_results (wp_app (tv_page v))) (dataTabId tabId)) = StIdle
      then fetchPage target tabId editorOpen (tv_sort v) startedAt historyId v else Return v ())"

definition nextSort :: "sort_view \<Rightarrow> int \<Rightarrow> sort_view" where
  "nextSort order attr = (if fst order = Some attr \<and> \<not> snd order then (fst order, True) else (Some attr, False))"

definition onHeaderClick :: "table_metadata option \<Rightarrow> string \<Rightarrow> table_data_target option \<Rightarrow> string \<Rightarrow> bool \<Rightarrow> string \<Rightarrow> string \<Rightarrow> table_view
    \<Rightarrow> (table_question, page_answer, table_view, unit) task" where
  "onHeaderClick meta columnName target tabId editorOpen startedAt historyId v =
     (if rs_status (getResult (app_results (wp_app (tv_page v))) (dataTabId tabId)) = StRunning then Return v ()
      else case Option.bind meta (\<lambda>m. find (\<lambda>c. tc_name c = columnName) (tm_columns m)) of
        None \<Rightarrow> Return v ()
      | Some col \<Rightarrow> fetchPage target tabId editorOpen (nextSort (tv_sort v) (tc_attributeNumber col)) startedAt historyId v)"

text \<open>What makes the view load its rows: its first render, the refresh button, a click on a header.\<close>

datatype table_trigger = FirstRender | RefreshButton | HeaderClick "table_metadata option" string

fun reloadTable :: "table_trigger \<Rightarrow> table_data_target option \<Rightarrow> string \<Rightarrow> bool \<Rightarrow> string \<Rightarrow> string \<Rightarrow> table_view
    \<Rightarrow> (table_question, page_answer, table_view, unit) task" where
  "reloadTable FirstRender target tabId editorOpen startedAt historyId v = firstOpen target tabId editorOpen startedAt historyId v"
| "reloadTable RefreshButton target tabId editorOpen startedAt historyId v = fetchPage target tabId editorOpen (tv_sort v) startedAt historyId v"
| "reloadTable (HeaderClick meta columnName) target tabId editorOpen startedAt historyId v
     = onHeaderClick meta columnName target tabId editorOpen startedAt historyId v"

lemma runTableData_holdsEdits:
  assumes "runTableData (wp_app p) conn tab rid' limit startedAt historyId = Inr (app, x)" "holdsEdits rid E R p"
  shows "holdsEdits rid E R (p\<lparr>wp_app := app\<rparr>)"
  using assms by (auto simp: holdsEdits_def runTableData_def startExec_def create_def Let_def update_conv' split: if_splits)

lemma loadTable_keeps:
  assumes "holdsEdits rid E R (tv_page v)" "rid \<noteq> dataTabId tabId"
  shows "safe (\<lambda>v. holdsEdits rid E R (tv_page v)) (\<lambda>_. True) A (\<lambda>_ _. True) (loadTable tabId order startedAt historyId v)"
proof -
  let ?p = "tv_page v"
  let ?p1 = "?p\<lparr>wp_app := (wp_app ?p)\<lparr>app_edits := clearEdits (app_edits (wp_app ?p)) (dataTabId tabId)\<rparr>,
      wp_tableViews := AList.update tabId order (wp_tableViews ?p)\<rparr>"
  have "holdsEdits rid E R ?p1" using assms by (simp add: holdsEdits_def)
  then show ?thesis using runTableData_holdsEdits [of ?p1]
    by (auto simp: loadTable_def Let_def holdsEdits_def split: sum.split)
qed

lemma fetchPage_keeps:
  assumes "holdsEdits rid E R (tv_page v)"
  shows "safe (\<lambda>v. holdsEdits rid E R (tv_page v)) (\<lambda>_. True) (\<lambda>q a. rid = dataTabId tabId \<and> q = ConfirmDiscardTable \<and> a = Answered) (\<lambda>_ _. True)
    (fetchPage target tabId editorOpen order startedAt historyId v)"
proof (cases "rid = dataTabId tabId")
  case True
  then show ?thesis using assms by (auto simp: fetchPage_def Let_def holdsEdits_def)
next
  case False
  then show ?thesis using assms loadTable_keeps [OF _ False] by (auto simp: fetchPage_def Let_def)
qed

text \<open>Reloading the data of a table, by the button or by sorting a column, never costs unsaved
  edits. Whatever result has edits that are pending or being saved keeps them and its rows, unless it
  is the table's own result and the user accepts to discard them.\<close>

theorem table_reload_keeps_edits:
  assumes "run_task (reloadTable trigger target tabId editorOpen startedAt historyId v) env = (tr, t)"
    and "holdsEdits rid E R (tv_page v)" "env_keeps (\<lambda>v. holdsEdits rid E R (tv_page v)) env"
    and "rid = dataTabId tabId \<longrightarrow> (ConfirmDiscardTable, Answered) \<notin> set tr"
  shows "editsOf (tv_page (state_of t)) rid = E \<and> map_of (rst_states (app_results (wp_app (tv_page (state_of t))))) rid = R"
proof -
  have "safe (\<lambda>v. holdsEdits rid E R (tv_page v)) (\<lambda>_. True) (\<lambda>q a. rid = dataTabId tabId \<and> q = ConfirmDiscardTable \<and> a = Answered) (\<lambda>_ _. True)
      (reloadTable trigger target tabId editorOpen startedAt historyId v)"
    using assms(2) fetchPage_keeps [OF assms(2)] by (cases trigger) (simp_all add: firstOpen_def onHeaderClick_def split: option.split)
  from safe_run(1) [OF this assms(1) _ assms(3)] show ?thesis using assms(4) by (fastforce simp: holdsEdits_def)
qed

definition edited_table :: table_view where
  "edited_table = mountView (example_page\<lparr>wp_app := example_app\<lparr>app_edits := nullish (addInsert emptyEditStore ''t:data'' ''i'' []) emptyEditStore\<rparr>\<rparr>) ''t''"

theorem table_reload_keeps_edits_witness:
  "let (tr, t) = run_task (reloadTable RefreshButton (Some \<lparr>td_relationOid = 7, td_schema = ''public'', td_name = ''t''\<rparr>) ''t'' False ''now'' ''h'' edited_table) [(Refused, \<lambda>v. v)]
   in tr = [(ConfirmDiscardTable, Refused)] \<and> es_pendingCount (editsOf (tv_page (state_of t)) ''t:data'') = 1"
proof -
  let ?run = "run_task (reloadTable RefreshButton (Some \<lparr>td_relationOid = 7, td_schema = ''public'', td_name = ''t''\<rparr>) ''t'' False ''now'' ''h'' edited_table) [(Refused, \<lambda>v. v)]"
  obtain tr t where r: "?run = (tr, t)" by fastforce
  have one: "es_pendingCount (editsOf (tv_page edited_table) ''t:data'') = 1" "\<not> es_locked (editsOf (tv_page edited_table) ''t:data'')"
    "rs_status (getResult (app_results (wp_app (tv_page edited_table))) ''t:data'') = StIdle" by code_simp+
  have tr: "tr = [(ConfirmDiscardTable, Refused)]" using r one by (auto simp: fetchPage_def Let_def)
  from table_reload_keeps_edits [OF r, of "''t:data''" "editsOf (tv_page edited_table) ''t:data''"
      "map_of (rst_states (app_results (wp_app (tv_page edited_table)))) ''t:data''"] one tr r
  show ?thesis by (simp add: holdsEdits_def env_keeps_def)
qed

end
