(* ===== verification/Ai_Chat.thy ===== *)
theory Ai_Chat
  imports Session_Stores App_Settings Js_Regex
begin

text \<open>
  The AI panel, \<open>src/features/ai/AIChatPanel.tsx\<close>: a conversation with a command line agent. A question
  starts a turn, the answer streams in over the channel of that turn, and a turn whose session the
  agent has forgotten is retried once without it. The record \<open>chat\<close> is the panel's state with the
  store of transcripts and the calls it made; each turn's channel has its own buffer, kept under the
  number of the turn, so that events of an old channel are covered. The words shown to the user that
  are not Latin-1 are the argument \<open>words\<close>.
\<close>

record chat_words =
  cw_starting :: string
  cw_cancelling :: string
  cw_expired :: string
  cw_error :: string

record approval =
  ap_id :: nat
  ap_message :: string
  ap_detail :: "string option"

datatype ai_chat_event =
    ChunkEvent string | ProgressEvent string | SessionEvent string
  | ApprovalEvent nat string "string option" | CompletedEvent | FailedEvent string

datatype chat_call =
    AiChat ai_provider string string string string "string option"
  | AiChatApprove string nat bool
  | AiChatCancel string

text \<open>The request that \<open>send\<close> has captured, and whether it has been retried.\<close>

record chat_request =
  cr_provider :: ai_provider
  cr_model :: string
  cr_thinking :: string
  cr_text :: string
  cr_retried :: bool

record chat =
  ch_provider :: ai_provider
  ch_model :: string
  ch_thinking :: string
  ch_prompt :: string
  ch_messages :: "ai_message list"
  ch_busy :: bool
  ch_progress :: string
  ch_approvals :: "approval list"
  ch_requestId :: "string option"
  ch_showHistory :: bool
  ch_conversationId :: string
  ch_sessionId :: "string option"
  ch_responses :: "string list"
  ch_request :: "chat_request option"
  ch_sessions :: "ai_session list"
  ch_calls :: "chat_call list"

definition userMessage :: "string \<Rightarrow> int \<Rightarrow> ai_message" where
  "userMessage t at = \<lparr>am_role = ''user'', am_text = t, am_at = at\<rparr>"

definition assistantMessage :: "string \<Rightarrow> int \<Rightarrow> ai_message" where
  "assistantMessage t at = \<lparr>am_role = ''assistant'', am_text = t, am_at = at\<rparr>"

definition addMessage :: "ai_message \<Rightarrow> chat \<Rightarrow> chat" where
  "addMessage m c = c\<lparr>ch_messages := ch_messages c @ [m]\<rparr>"

definition sessionExpired :: "string \<Rightarrow> bool" where
  "sessionExpired message = list_ex (\<lambda>w. re_test (word_i w) message)
     [''no conversation found'', ''conversation not found'', ''session not found'', ''thread not found'']"

text \<open>The effect that keeps the transcript when nothing is running.\<close>

definition keepTranscript :: "string \<Rightarrow> chat \<Rightarrow> chat" where
  "keepTranscript now c =
     (if ch_busy c \<or> ch_messages c = [] then c
      else c\<lparr>ch_sessions := upsertSession (ch_sessions c)
        \<lparr>as_id = ch_conversationId c, as_title = None, as_provider = providerText (ch_provider c), as_model = ch_model c,
         as_cliSessionId = ch_sessionId c, as_updatedAt = now, as_messages = ch_messages c\<rparr> now\<rparr>)"

definition newConversation :: "string \<Rightarrow> chat \<Rightarrow> chat" where
  "newConversation freshId c =
     (if ch_busy c then c
      else c\<lparr>ch_conversationId := freshId, ch_sessionId := None, ch_messages := [], ch_showHistory := False\<rparr>)"

definition restore :: "ai_session \<Rightarrow> chat \<Rightarrow> chat" where
  "restore s c =
     (if ch_busy c then c
      else c\<lparr>ch_conversationId := as_id s, ch_sessionId := as_cliSessionId s,
             ch_provider := (if as_provider s = ''codex'' then Codex else Claude), ch_model := as_model s,
             ch_messages := map (\<lambda>m. \<lparr>am_role = (if am_role m = ''user'' then ''user'' else ''assistant''), am_text = am_text m, am_at = am_at m\<rparr>) (as_messages s),
             ch_showHistory := False\<rparr>)"

definition chooseProvider :: "ai_provider \<Rightarrow> chat \<Rightarrow> chat" where
  "chooseProvider new c = c\<lparr>ch_sessionId := (if new \<noteq> ch_provider c then None else ch_sessionId c), ch_provider := new, ch_model := hd (aiModels new)\<rparr>"

subsection \<open>A turn\<close>

definition startTurn :: "chat_request \<Rightarrow> string \<Rightarrow> chat \<Rightarrow> chat" where
  "startTurn r freshId c = c\<lparr>ch_request := Some r, ch_requestId := Some freshId, ch_responses := ch_responses c @ [[]],
     ch_calls := ch_calls c @ [AiChat (cr_provider r) (cr_model r) (cr_thinking r) (cr_text r) freshId (ch_sessionId c)]\<rparr>"

definition send :: "chat_words \<Rightarrow> string \<Rightarrow> int \<Rightarrow> chat \<Rightarrow> chat" where
  "send words freshId now c =
     (let sent = trim (ch_prompt c) in
      if sent = [] \<or> ch_busy c then c
      else startTurn \<lparr>cr_provider = ch_provider c, cr_model = ch_model c, cr_thinking = ch_thinking c, cr_text = sent, cr_retried = False\<rparr> freshId
             (addMessage (userMessage sent now) (c\<lparr>ch_prompt := [], ch_busy := True, ch_progress := cw_starting words, ch_approvals := []\<rparr>)))"

text \<open>The first chunk of an answer opens a message of the assistant, the next ones replace its text.\<close>

definition showResponse :: "string \<Rightarrow> int \<Rightarrow> chat \<Rightarrow> chat" where
  "showResponse response now c =
     (if ch_messages c \<noteq> [] \<and> am_role (last (ch_messages c)) = ''assistant''
      then c\<lparr>ch_messages := butlast (ch_messages c) @ [(last (ch_messages c))\<lparr>am_text := response\<rparr>]\<rparr>
      else addMessage (assistantMessage response now) c)"

fun chatEvent :: "chat_words \<Rightarrow> nat \<Rightarrow> int \<Rightarrow> chat \<Rightarrow> ai_chat_event \<Rightarrow> chat" where
  "chatEvent words turn now c (SessionEvent i) = (if i \<noteq> [] then c\<lparr>ch_sessionId := Some i\<rparr> else c)"
| "chatEvent words turn now c (ApprovalEvent i m d) = c\<lparr>ch_approvals := ch_approvals c @ [\<lparr>ap_id = i, ap_message = m, ap_detail = d\<rparr>]\<rparr>"
| "chatEvent words turn now c (ProgressEvent t) = (if t \<noteq> [] then c\<lparr>ch_progress := t\<rparr> else c)"
| "chatEvent words turn now c (ChunkEvent t) =
     (if t = [] then c
      else let response = ch_responses c ! turn @ t
           in showResponse response now (c\<lparr>ch_responses := (ch_responses c)[turn := response], ch_progress := []\<rparr>))"
| "chatEvent words turn now c (FailedEvent m) = (if m \<noteq> [] then addMessage (assistantMessage (cw_error words @ m) now) c else c)"
| "chatEvent words turn now c CompletedEvent = c"

definition endTurn :: "chat \<Rightarrow> chat" where
  "endTurn c = c\<lparr>ch_busy := False, ch_progress := [], ch_requestId := None, ch_approvals := [], ch_request := None\<rparr>"

text \<open>\<open>ipc.aiChat\<close> rejects: a first attempt in a session the agent has forgotten is repeated without it.\<close>

definition turnRejected :: "chat_words \<Rightarrow> string \<Rightarrow> string \<Rightarrow> int \<Rightarrow> chat \<Rightarrow> chat" where
  "turnRejected words message freshId now c =
     (case ch_request c of
        None \<Rightarrow> c
      | Some r \<Rightarrow>
          if \<not> cr_retried r \<and> truthy_str (ch_sessionId c) \<and> sessionExpired message
          then startTurn (r\<lparr>cr_retried := True\<rparr>) freshId (addMessage (assistantMessage (cw_expired words) now) (c\<lparr>ch_sessionId := None\<rparr>))
          else endTurn (addMessage (assistantMessage (cw_error words @ message) now) c))"

definition turnResolved :: "chat \<Rightarrow> chat" where
  "turnResolved c = (if ch_request c = None then c else endTurn c)"

definition answerApproval :: "approval \<Rightarrow> bool \<Rightarrow> chat \<Rightarrow> chat" where
  "answerApproval a approved c =
     (let c1 = c\<lparr>ch_approvals := filter (\<lambda>x. ap_id x \<noteq> ap_id a) (ch_approvals c)\<rparr> in
      case ch_requestId c of
        None \<Rightarrow> c1
      | Some i \<Rightarrow> if i = [] then c1 else c1\<lparr>ch_calls := ch_calls c1 @ [AiChatApprove i (ap_id a) approved]\<rparr>)"

definition cancelTurn :: "chat_words \<Rightarrow> chat \<Rightarrow> chat" where
  "cancelTurn words c = (case ch_requestId c of
     None \<Rightarrow> c
   | Some i \<Rightarrow> if i = [] then c else c\<lparr>ch_progress := cw_cancelling words, ch_calls := ch_calls c @ [AiChatCancel i]\<rparr>)"

subsection \<open>Answers\<close>

text \<open>The answer that the chunks of a turn make up.\<close>

fun chunkText :: "ai_chat_event \<Rightarrow> string" where
  "chunkText (ChunkEvent t) = t"
| "chunkText e = []"

fun isFailed :: "ai_chat_event \<Rightarrow> bool" where
  "isFailed (FailedEvent m) = True"
| "isFailed e = False"

definition transcript :: "chat \<Rightarrow> (string \<times> string) list" where
  "transcript c = map (\<lambda>m. (am_role m, am_text m)) (ch_messages c)"

definition chatEvents :: "chat_words \<Rightarrow> nat \<Rightarrow> chat \<Rightarrow> (ai_chat_event \<times> int) list \<Rightarrow> chat" where
  "chatEvents words turn c evs = foldl (\<lambda>c (e, now). chatEvent words turn now c e) c evs"

text \<open>During the turn the transcript is the one before it, the question, and the answer so far, if any.\<close>

definition answering :: "chat \<Rightarrow> string \<Rightarrow> nat \<Rightarrow> string \<Rightarrow> chat \<Rightarrow> bool" where
  "answering c0 sent turn response c \<longleftrightarrow> turn < length (ch_responses c) \<and> ch_responses c ! turn = response
     \<and> transcript c = transcript c0 @ [(''user'', sent)] @ (if response = [] then [] else [(''assistant'', response)])"

lemma transcript_last:
  "transcript c = xs @ [(r, t)] \<Longrightarrow> ch_messages c \<noteq> [] \<and> am_role (last (ch_messages c)) = r \<and> map (\<lambda>m. (am_role m, am_text m)) (butlast (ch_messages c)) = xs"
  by (cases "ch_messages c" rule: rev_cases) (auto simp: transcript_def)

lemma answering_event:
  assumes "answering c0 sent turn response c" "\<not> isFailed e"
  shows "answering c0 sent turn (response @ chunkText e) (chatEvent words turn now c e)"
proof (cases e)
  case (ChunkEvent t)
  show ?thesis
  proof (cases "response = []")
    case True
    then have "transcript c = transcript c0 @ [(''user'', sent)]" using assms(1) by (simp add: answering_def)
    from transcript_last [OF this] show ?thesis
      using assms(1) True ChunkEvent by (auto simp: answering_def showResponse_def addMessage_def assistantMessage_def transcript_def Let_def)
  next
    case False
    then have t: "transcript c = (transcript c0 @ [(''user'', sent)]) @ [(''assistant'', response)]" using assms(1) by (simp add: answering_def)
    from transcript_last [OF t] show ?thesis
      using assms(1) False ChunkEvent by (auto simp: answering_def showResponse_def transcript_def Let_def)
  qed
qed (use assms in \<open>auto simp: answering_def transcript_def\<close>)

lemma answering_events:
  assumes "answering c0 sent turn response c" "list_all (\<lambda>(e, now). \<not> isFailed e) evs"
  shows "answering c0 sent turn (response @ concat (map (chunkText \<circ> fst) evs)) (chatEvents words turn c evs)"
  using assms
proof (induction evs arbitrary: c response)
  case (Cons e evs)
  have "answering c0 sent turn (response @ chunkText (fst e)) (chatEvent words turn (snd e) c (fst e))"
    using answering_event [OF Cons.prems(1)] Cons.prems(2) by (simp add: case_prod_unfold)
  from Cons.IH [OF this] Cons.prems(2) show ?case by (simp add: chatEvents_def case_prod_unfold)
qed (simp add: chatEvents_def)

lemma chatEvents_frame: "ch_calls (chatEvents words turn c evs) = ch_calls c" "ch_request (chatEvents words turn c evs) = ch_request c"
  "ch_busy (chatEvents words turn c evs) = ch_busy c" "ch_requestId (chatEvents words turn c evs) = ch_requestId c"
proof -
  have step: "ch_calls (chatEvent words turn now c e) = ch_calls c \<and> ch_request (chatEvent words turn now c e) = ch_request c
      \<and> ch_busy (chatEvent words turn now c e) = ch_busy c \<and> ch_requestId (chatEvent words turn now c e) = ch_requestId c" for now c e
    by (cases e) (simp_all add: showResponse_def addMessage_def Let_def)
  show "ch_calls (chatEvents words turn c evs) = ch_calls c" "ch_request (chatEvents words turn c evs) = ch_request c"
    "ch_busy (chatEvents words turn c evs) = ch_busy c" "ch_requestId (chatEvents words turn c evs) = ch_requestId c"
    unfolding chatEvents_def by (induction evs arbitrary: c) (auto simp: step)
qed

text \<open>Claim C23: a question gets exactly its answer. The question is added to the transcript and sent once,
  with the session of the conversation; when the turn ends without a failure, the transcript has
  grown by the question and, if any text came, one answer that is the concatenation of all chunks,
  whatever progress, session and approval events came between them; and the panel is free again.\<close>

theorem question_gets_its_answer:
  assumes "\<not> ch_busy c" "trim (ch_prompt c) \<noteq> []" "list_all (\<lambda>(e, now). \<not> isFailed e) evs"
  shows "transcript (turnResolved (chatEvents words (length (ch_responses c)) (send words freshId now c) evs))
      = transcript c @ [(''user'', trim (ch_prompt c))]
        @ (if concat (map (chunkText \<circ> fst) evs) = [] then [] else [(''assistant'', concat (map (chunkText \<circ> fst) evs))])
    \<and> ch_calls (turnResolved (chatEvents words (length (ch_responses c)) (send words freshId now c) evs))
      = ch_calls c @ [AiChat (ch_provider c) (ch_model c) (ch_thinking c) (trim (ch_prompt c)) freshId (ch_sessionId c)]
    \<and> \<not> ch_busy (turnResolved (chatEvents words (length (ch_responses c)) (send words freshId now c) evs))"
proof -
  let ?c1 = "send words freshId now c" and ?turn = "length (ch_responses c)"
  have start: "answering c (trim (ch_prompt c)) ?turn [] ?c1" "ch_request ?c1 \<noteq> None"
    "ch_calls ?c1 = ch_calls c @ [AiChat (ch_provider c) (ch_model c) (ch_thinking c) (trim (ch_prompt c)) freshId (ch_sessionId c)]"
    using assms(1,2) by (auto simp: send_def Let_def startTurn_def addMessage_def userMessage_def answering_def transcript_def)
  from answering_events [OF start(1) assms(3), of words] chatEvents_frame [of words ?turn ?c1 evs] start(2,3)
  show ?thesis by (auto simp: turnResolved_def endTurn_def answering_def transcript_def)
qed

text \<open>The notice that the earlier context is gone does not stay: the first chunk of the retried turn
  finds a message of the assistant at the end and takes its place.\<close>

theorem expired_notice_overwritten:
  assumes "ch_request c = Some r" "\<not> cr_retried r" "truthy_str (ch_sessionId c)" "sessionExpired message" "t \<noteq> []"
  shows "transcript (chatEvent words (length (ch_responses c)) later (turnRejected words message freshId now c) (ChunkEvent t))
    = transcript c @ [(''assistant'', t)]"
  using assms by (simp add: turnRejected_def startTurn_def addMessage_def assistantMessage_def showResponse_def transcript_def Let_def)

subsection \<open>Every sequence of steps\<close>

datatype chat_step =
    Type string | Send string int | Event nat int ai_chat_event | Resolved | TurnRejected string string int
  | Answer approval bool | Cancel | NewConversation string | Restore ai_session | ChooseProvider ai_provider
  | ChooseModel string | ChooseThinking string | ToggleHistory | Keep string | Forget string

fun chatStep :: "chat_words \<Rightarrow> chat \<Rightarrow> chat_step \<Rightarrow> chat" where
  "chatStep words c (Type t) = c\<lparr>ch_prompt := t\<rparr>"
| "chatStep words c (Send i now) = send words i now c"
| "chatStep words c (Event turn now e) = chatEvent words turn now c e"
| "chatStep words c Resolved = turnResolved c"
| "chatStep words c (TurnRejected m i now) = turnRejected words m i now c"
| "chatStep words c (Answer a ok) = answerApproval a ok c"
| "chatStep words c Cancel = cancelTurn words c"
| "chatStep words c (NewConversation i) = newConversation i c"
| "chatStep words c (Restore s) = restore s c"
| "chatStep words c (ChooseProvider p) = chooseProvider p c"
| "chatStep words c (ChooseModel m) = c\<lparr>ch_model := m\<rparr>"
| "chatStep words c (ChooseThinking t) = c\<lparr>ch_thinking := t\<rparr>"
| "chatStep words c ToggleHistory = c\<lparr>ch_showHistory := \<not> ch_showHistory c\<rparr>"
| "chatStep words c (Keep now) = keepTranscript now c"
| "chatStep words c (Forget i) = c\<lparr>ch_sessions := removeSession (ch_sessions c) i\<rparr>"

fun isAiChat :: "chat_call \<Rightarrow> bool" where
  "isAiChat (AiChat p m t x i s) = True"
| "isAiChat call = False"

fun isSend :: "chat_step \<Rightarrow> bool" where
  "isSend (Send i now) = True"
| "isSend st = False"

definition chatInv :: "nat \<Rightarrow> chat \<Rightarrow> bool" where
  "chatInv sends c \<longleftrightarrow> (ch_busy c \<longleftrightarrow> ch_request c \<noteq> None) \<and> (ch_busy c \<longleftrightarrow> ch_requestId c \<noteq> None)
     \<and> length (filter isAiChat (ch_calls c)) + (case ch_request c of Some r \<Rightarrow> if cr_retried r then 0 else 1 | None \<Rightarrow> 0) \<le> 2 * sends"

lemma chatEvent_inv: "chatInv n (chatEvent words turn now c e) = chatInv n c"
  by (cases e) (simp_all add: chatInv_def showResponse_def addMessage_def Let_def)

lemma chatStep_inv: "chatInv n c \<Longrightarrow> chatInv (n + (if isSend st then 1 else 0)) (chatStep words c st)"
proof (cases st)
  case (Event turn now e)
  then show "chatInv n c \<Longrightarrow> ?thesis" by (simp add: chatEvent_inv)
next
  case (TurnRejected m i now)
  then show "chatInv n c \<Longrightarrow> ?thesis"
    by (auto simp: chatInv_def turnRejected_def startTurn_def endTurn_def addMessage_def split: option.splits if_splits)
qed (auto simp: chatInv_def send_def startTurn_def addMessage_def turnResolved_def endTurn_def answerApproval_def cancelTurn_def
      newConversation_def restore_def chooseProvider_def keepTranscript_def Let_def split: option.splits if_splits)

text \<open>A question is never sent without end. In every sequence of steps, with rejections and
  events of any turn at any time, the panel is busy exactly while a request is under way, and the
  agent was called at most twice per question.\<close>

theorem at_most_one_retry:
  assumes "\<not> ch_busy c" "ch_request c = None" "ch_requestId c = None" "ch_calls c = []"
  shows "length (filter isAiChat (ch_calls (foldl (chatStep words) c steps))) \<le> 2 * length (filter isSend steps)
    \<and> (ch_busy (foldl (chatStep words) c steps) \<longleftrightarrow> ch_requestId (foldl (chatStep words) c steps) \<noteq> None)"
proof -
  have "chatInv n c \<Longrightarrow> chatInv (n + length (filter isSend steps)) (foldl (chatStep words) c steps)" for n c
  proof (induction steps arbitrary: n c)
    case (Cons st steps)
    from Cons.IH [OF chatStep_inv [OF Cons.prems, of st words]] show ?case by (cases "isSend st") (simp_all add: add.commute)
  qed simp
  moreover have "chatInv 0 c" using assms by (simp add: chatInv_def)
  ultimately have "chatInv (length (filter isSend steps)) (foldl (chatStep words) c steps)" by fastforce
  then show ?thesis unfolding chatInv_def by linarith
qed

text \<open>The panel as it is first shown.\<close>

definition start_chat :: chat where
  "start_chat = \<lparr>ch_provider = Claude, ch_model = ''sonnet'', ch_thinking = ''auto'', ch_prompt = '' hi '', ch_messages = [], ch_busy = False,
     ch_progress = [], ch_approvals = [], ch_requestId = None, ch_showHistory = False, ch_conversationId = ''k'', ch_sessionId = None,
     ch_responses = [], ch_request = None, ch_sessions = [], ch_calls = []\<rparr>"

definition plain_words :: chat_words where
  "plain_words = \<lparr>cw_starting = ''starting'', cw_cancelling = ''stopping'', cw_expired = ''expired'', cw_error = ''error: ''\<rparr>"

theorem question_gets_its_answer_witness:
  "transcript (turnResolved (chatEvents plain_words 0 (send plain_words ''q'' 1 start_chat) [(ChunkEvent ''he'', 2), (ProgressEvent ''p'', 3), (ChunkEvent ''y'', 4)]))
     = [(''user'', ''hi''), (''assistant'', ''hey'')]"
proof -
  have h: "\<not> ch_busy start_chat" "trim (ch_prompt start_chat) = ''hi''" "transcript start_chat = []" "ch_responses start_chat = []" by code_simp+
  then show ?thesis
    using question_gets_its_answer [of start_chat "[(ChunkEvent ''he'', 2), (ProgressEvent ''p'', 3), (ChunkEvent ''y'', 4)]" plain_words "''q''" 1] by simp
qed

theorem at_most_one_retry_witness:
  "length (filter isAiChat (ch_calls (foldl (chatStep plain_words) start_chat [Send ''q'' 1, Event 0 2 (SessionEvent ''s''),
     TurnRejected ''session not found'' ''q2'' 3, TurnRejected ''session not found'' ''q3'' 4]))) \<le> 2"
  using at_most_one_retry [of start_chat plain_words "[Send ''q'' 1, Event 0 2 (SessionEvent ''s''),
     TurnRejected ''session not found'' ''q2'' 3, TurnRejected ''session not found'' ''q3'' 4]"]
  by (simp add: start_chat_def)

end
