(* ===== verification/Connections_Page.thy ===== *)
theory Connections_Page
  imports Async_Task Session_Stores
begin

text \<open>
  The home page, \<open>src/features/connections/ConnectionsPage.tsx\<close>: the list of saved connections with its
  order, the form of a profile, and opening a connection with or without a stored password. The
  record \<open>home\<close> is the page's state with the cached list and the open connections. \<open>number\<close> stands for
  \<open>Number(text)\<close> where the result is an integer, and is \<open>None\<close> otherwise.
\<close>

subsection \<open>State\<close>

record form_values =
  fv_name :: string
  fv_environment :: environment
  fv_host :: string
  fv_port :: string
  fv_database :: string
  fv_username :: string
  fv_password :: string
  fv_tlsMode :: tls_mode
  fv_readOnly :: bool

definition formDefaults :: form_values where
  "formDefaults = \<lparr>fv_name = [], fv_environment = Local, fv_host = ''localhost'', fv_port = ''5432'', fv_database = [],
     fv_username = [], fv_password = [], fv_tlsMode = VerifyFull, fv_readOnly = False\<rparr>"

record profile_draft =
  pd_id :: "string option"
  pd_name :: string
  pd_environment :: environment
  pd_color :: "string option"
  pd_host :: string
  pd_port :: int
  pd_database :: string
  pd_username :: string
  pd_tlsMode :: tls_mode
  pd_readOnly :: bool
  pd_queryTimeoutMs :: int
  pd_maxRows :: int

datatype secret_input = KeepExisting | Replace string | PromptEachTime

datatype home_message =
    NoMessage | SavedWithPassword | SavedWithoutPassword | SaveFailed string | BadPort
  | TestFailed string | ConnectFailed string | DeleteFailed string | OrderSaved | OrderFailed string

record home =
  hp_profiles :: "connection_profile list option"
  hp_form :: form_values
  hp_tested :: bool
  hp_message :: home_message
  hp_editing :: "connection_profile option"
  hp_saving :: bool
  hp_connecting :: bool
  hp_removing :: bool
  hp_reordering :: bool
  hp_draggingId :: "string option"
  hp_dropTargetId :: "string option"
  hp_passwordProfile :: "connection_profile option"
  hp_passwordInput :: string
  hp_lockedEditId :: "string option"
  hp_connections :: open_connections
  hp_route :: "string option"

datatype home_question =
    SaveProfile profile_draft secret_input
  | TestConnection profile_draft "string option"
  | PreloadSnapshot
  | OpenConnection string "string option"
  | ConfirmDelete string | DeleteProfile string
  | CancelProfiles | ReorderProfiles "string list"

datatype home_answer = HomeDone | HomeRefused | HomeOpened string string string | HomeFailed string

type_synonym home_task = "(home_question, home_answer, home, unit) task"

subsection \<open>The form\<close>

definition toDraft :: "(string \<Rightarrow> int option) \<Rightarrow> form_values \<Rightarrow> connection_profile option \<Rightarrow> profile_draft option" where
  "toDraft number v existing = (case number (fv_port v) of
     None \<Rightarrow> None
   | Some port \<Rightarrow>
       if port < 1 \<or> port > 65535 then None
       else Some \<lparr>pd_id = map_option cp_id existing, pd_name = trim (fv_name v), pd_environment = fv_environment v,
         pd_color = Option.bind existing cp_color, pd_host = trim (fv_host v), pd_port = port, pd_database = trim (fv_database v),
         pd_username = trim (fv_username v), pd_tlsMode = fv_tlsMode v, pd_readOnly = fv_readOnly v,
         pd_queryTimeoutMs = nullish (map_option cp_queryTimeoutMs existing) 60000, pd_maxRows = nullish (map_option cp_maxRows existing) 500\<rparr>)"

definition secretOf :: "string \<Rightarrow> connection_profile option \<Rightarrow> secret_input" where
  "secretOf password editing = (if password \<noteq> [] then Replace password else if editing \<noteq> None then KeepExisting else PromptEachTime)"

definition saveEnded :: "home_message \<Rightarrow> home \<Rightarrow> home_task" where
  "saveEnded m h = Return (h\<lparr>hp_message := m, hp_saving := False\<rparr>) ()"

definition submitForm :: "(string \<Rightarrow> int option) \<Rightarrow> home \<Rightarrow> home_task" where
  "submitForm number h =
     (let editing = hp_editing h; v = hp_form h in
      case toDraft number v editing of
        None \<Rightarrow> saveEnded BadPort h
      | Some draft \<Rightarrow> Ask (SaveProfile draft (secretOf (fv_password v) editing)) (h\<lparr>hp_saving := True, hp_form := v\<lparr>fv_password := []\<rparr>\<rparr>) (\<lambda>a h. case a of
          HomeFailed m \<Rightarrow> saveEnded (SaveFailed m) h
        | _ \<Rightarrow> saveEnded (if fv_password v \<noteq> [] \<or> (case editing of None \<Rightarrow> False | Some p \<Rightarrow> cp_hasStoredCredential p)
                 then SavedWithPassword else SavedWithoutPassword) (h\<lparr>hp_form := formDefaults, hp_editing := None\<rparr>)))"

definition testConnection :: "(string \<Rightarrow> int option) \<Rightarrow> home \<Rightarrow> home_task" where
  "testConnection number h =
     (let v = hp_form h in
      case toDraft number v (hp_editing h) of
        None \<Rightarrow> Return (h\<lparr>hp_tested := False, hp_message := BadPort\<rparr>) ()
      | Some draft \<Rightarrow> Ask (TestConnection draft (if fv_password v = [] then None else Some (fv_password v))) h (\<lambda>a h. case a of
          HomeFailed m \<Rightarrow> Return (h\<lparr>hp_tested := False, hp_message := TestFailed m\<rparr>) ()
        | _ \<Rightarrow> Return (h\<lparr>hp_tested := True, hp_message := NoMessage\<rparr>) ()))"

definition isLive :: "home \<Rightarrow> connection_profile \<Rightarrow> bool" where
  "isLive h p = list_ex (\<lambda>(i, opened). cp_id opened = cp_id p) (oc_snapshot (hp_connections h))"

definition editClick :: "connection_profile \<Rightarrow> home \<Rightarrow> home" where
  "editClick p h =
     (if isLive h p then h\<lparr>hp_lockedEditId := Some (cp_id p)\<rparr>
      else h\<lparr>hp_lockedEditId := None, hp_editing := Some p, hp_tested := False, hp_message := NoMessage,
             hp_form := \<lparr>fv_name = cp_name p, fv_environment = cp_environment p, fv_host = cp_host p, fv_port = show_int (cp_port p),
               fv_database = cp_database p, fv_username = cp_username p, fv_password = [], fv_tlsMode = cp_tlsMode p, fv_readOnly = cp_readOnly p\<rparr>\<rparr>)"

definition cancelEdit :: "home \<Rightarrow> home" where
  "cancelEdit h = h\<lparr>hp_form := formDefaults, hp_editing := None, hp_tested := False, hp_message := NoMessage\<rparr>"

subsection \<open>Opening a connection\<close>

definition connectProfile :: "string \<Rightarrow> string option \<Rightarrow> home \<Rightarrow> home_task" where
  "connectProfile profileId password h =
     (let profiles = hp_profiles h; failed = (\<lambda>m h. Return (h\<lparr>hp_message := ConnectFailed m, hp_connecting := False\<rparr>) ()) in
      Ask PreloadSnapshot (h\<lparr>hp_connecting := True, hp_message := NoMessage\<rparr>) (\<lambda>a h. case a of
        HomeFailed m \<Rightarrow> failed m h
      | _ \<Rightarrow> Ask (OpenConnection profileId password) h (\<lambda>a h. case a of
          HomeOpened conn pid database \<Rightarrow>
            (let h1 = (case Option.bind profiles (find (\<lambda>p. cp_id p = pid)) of
                 None \<Rightarrow> h
               | Some p \<Rightarrow> h\<lparr>hp_connections := setConnection (hp_connections h) conn (p\<lparr>cp_database := database\<rparr>)\<rparr>)
             in Return (h1\<lparr>hp_route := Some conn, hp_connecting := False\<rparr>) ())
        | HomeFailed m \<Rightarrow> failed m h
        | _ \<Rightarrow> failed [] h)))"

definition dismissPassword :: "home \<Rightarrow> home" where
  "dismissPassword h = h\<lparr>hp_passwordInput := [], hp_passwordProfile := None\<rparr>"

definition connectClick :: "connection_profile \<Rightarrow> home \<Rightarrow> home_task" where
  "connectClick p h =
     (if hp_connecting h then Return h ()
      else if cp_hasStoredCredential p then connectProfile (cp_id p) None h
      else Return (h\<lparr>hp_passwordProfile := Some p\<rparr>) ())"

definition submitPassword :: "home \<Rightarrow> home_task" where
  "submitPassword h = (case hp_passwordProfile h of
     None \<Rightarrow> Return h ()
   | Some p \<Rightarrow> if hp_connecting h then Return h () else connectProfile (cp_id p) (Some (hp_passwordInput h)) (dismissPassword h))"

subsection \<open>Order and deletion\<close>

definition orderBusy :: "home \<Rightarrow> bool" where
  "orderBusy h \<longleftrightarrow> hp_saving h \<or> hp_removing h \<or> hp_reordering h"

text \<open>The mutation \<open>reorder\<close>: the new order is shown at once, and taken back when saving it fails.\<close>

definition reorderProfiles :: "connection_profile list \<Rightarrow> home \<Rightarrow> home_task" where
  "reorderProfiles ordered h =
     Ask CancelProfiles (h\<lparr>hp_reordering := True\<rparr>) (\<lambda>a h. case a of
       HomeFailed m \<Rightarrow> Return (h\<lparr>hp_message := OrderFailed m, hp_reordering := False\<rparr>) ()
     | _ \<Rightarrow> let previous = hp_profiles h in
         Ask (ReorderProfiles (map cp_id ordered)) (h\<lparr>hp_profiles := Some ordered, hp_message := NoMessage\<rparr>) (\<lambda>a h. case a of
           HomeFailed m \<Rightarrow> Return (h\<lparr>hp_profiles := (if previous = None then hp_profiles h else previous),
                                     hp_message := OrderFailed m, hp_reordering := False\<rparr>) ()
         | _ \<Rightarrow> Return (h\<lparr>hp_message := OrderSaved, hp_reordering := False\<rparr>) ()))"

definition movedTo :: "connection_profile list \<Rightarrow> int \<Rightarrow> int \<Rightarrow> connection_profile list" where
  "movedTo ps from to = (let removed = js_splice from 1 [] ps in js_splice to 0 [ps ! nat from] removed)"

definition moveProfile :: "string \<Rightarrow> int \<Rightarrow> home \<Rightarrow> home_task" where
  "moveProfile i to h = (case hp_profiles h of
     None \<Rightarrow> Return h ()
   | Some ps \<Rightarrow>
       let from = find_index (\<lambda>p. cp_id p = i) ps in
       if orderBusy h \<or> from < 0 \<or> from = to \<or> to < 0 \<or> to \<ge> int (length ps) then Return h ()
       else reorderProfiles (movedTo ps from to) h)"

definition endDrag :: "home \<Rightarrow> home" where
  "endDrag h = h\<lparr>hp_draggingId := None, hp_dropTargetId := None\<rparr>"

definition dragStart :: "connection_profile \<Rightarrow> home \<Rightarrow> home" where
  "dragStart p h = (if orderBusy h \<or> length (nullish (hp_profiles h) []) < 2 then h else h\<lparr>hp_draggingId := Some (cp_id p)\<rparr>)"

definition dragOver :: "connection_profile \<Rightarrow> home \<Rightarrow> home" where
  "dragOver p h = (if hp_draggingId h = None \<or> orderBusy h then h
     else h\<lparr>hp_dropTargetId := (if hp_draggingId h = Some (cp_id p) then None else Some (cp_id p))\<rparr>)"

definition dropOn :: "int \<Rightarrow> home \<Rightarrow> home_task" where
  "dropOn index h = (case hp_draggingId h of None \<Rightarrow> Return h () | Some i \<Rightarrow> moveProfile i index (endDrag h))"

definition orderKey :: "string \<Rightarrow> int \<Rightarrow> string \<Rightarrow> home \<Rightarrow> home_task" where
  "orderKey i index pressed h = (if pressed \<noteq> ''ArrowUp'' \<and> pressed \<noteq> ''ArrowDown'' then Return h ()
     else moveProfile i (index + (if pressed = ''ArrowUp'' then - 1 else 1)) h)"

definition deleteClick :: "connection_profile \<Rightarrow> home \<Rightarrow> home_task" where
  "deleteClick p h =
     (if orderBusy h then Return h ()
      else Ask (ConfirmDelete (cp_name p)) h (\<lambda>a h.
        if a \<noteq> HomeDone then Return h ()
        else Ask (DeleteProfile (cp_id p)) (h\<lparr>hp_removing := True\<rparr>) (\<lambda>a h. case a of
          HomeFailed m \<Rightarrow> Return (h\<lparr>hp_message := DeleteFailed m, hp_removing := False\<rparr>) ()
        | _ \<Rightarrow> Return (h\<lparr>hp_removing := False\<rparr>) ())))"

text \<open>The effect that hands the order of the list to the rail.\<close>

definition orderEffect :: "home \<Rightarrow> home" where
  "orderEffect h = h\<lparr>hp_connections := setConnectionOrder (hp_connections h) (map cp_id (nullish (hp_profiles h) []))\<rparr>"

subsection \<open>What is saved\<close>

text \<open>The request that the form's values stand for, and the questions that may save.\<close>

definition savedAs :: "(string \<Rightarrow> int option) \<Rightarrow> home \<Rightarrow> profile_draft \<Rightarrow> secret_input \<Rightarrow> bool" where
  "savedAs number h d s \<longleftrightarrow> toDraft number (hp_form h) (hp_editing h) = Some d \<and> s = secretOf (fv_password (hp_form h)) (hp_editing h)"

fun savesOnly :: "(profile_draft \<Rightarrow> secret_input \<Rightarrow> bool) \<Rightarrow> home_question \<Rightarrow> bool" where
  "savesOnly P (SaveProfile d s) = P d s"
| "savesOnly P q = True"

lemma toDraft_port: "toDraft number v existing = Some d \<Longrightarrow> number (fv_port v) = Some (pd_port d) \<and> 1 \<le> pd_port d \<and> pd_port d \<le> 65535 \<and> pd_id d = map_option cp_id existing"
  by (auto simp: toDraft_def split: option.splits if_splits)

lemma submitForm_saves:
  "safe (\<lambda>_. True) (savesOnly (savedAs number h)) (\<lambda>_ _. False) (\<lambda>_ _. True) (submitForm number h)"
  by (auto simp: submitForm_def saveEnded_def Let_def savedAs_def split: option.split home_answer.split)

lemma submitForm_forgets:
  assumes "toDraft number (hp_form h) (hp_editing h) \<noteq> None"
  shows "safe (\<lambda>h. fv_password (hp_form h) = []) (\<lambda>_. True) (\<lambda>_ _. False) (\<lambda>_ _. True) (submitForm number h)"
  using assms by (auto simp: submitForm_def saveEnded_def Let_def formDefaults_def split: option.splits home_answer.split)


text \<open>Editing a profile and saving it without a change is a round trip: the request has the
  fields of the profile, its colour, its timeout and its row limit included, and keeps the stored
  password. The profile's texts have no surrounding blanks and its port is valid, as every profile
  that the form saved, and \<open>Number\<close> reads the decimal digits of a number back.\<close>

theorem edit_then_save_round_trip:
  assumes "\<not> isLive h p" "number (show_int (cp_port p)) = Some (cp_port p)" "1 \<le> cp_port p" "cp_port p \<le> 65535"
    and "trim (cp_name p) = cp_name p" "trim (cp_host p) = cp_host p" "trim (cp_database p) = cp_database p" "trim (cp_username p) = cp_username p"
  shows "savedAs number (editClick p h)
    \<lparr>pd_id = Some (cp_id p), pd_name = cp_name p, pd_environment = cp_environment p, pd_color = cp_color p, pd_host = cp_host p, pd_port = cp_port p,
     pd_database = cp_database p, pd_username = cp_username p, pd_tlsMode = cp_tlsMode p, pd_readOnly = cp_readOnly p,
     pd_queryTimeoutMs = cp_queryTimeoutMs p, pd_maxRows = cp_maxRows p\<rparr> KeepExisting"
  using assms by (simp add: savedAs_def editClick_def toDraft_def secretOf_def)

subsection \<open>Order\<close>

lemma movedTo_split:
  "to \<le> length (a @ b) \<Longrightarrow> movedTo (a @ x # b) (int (length a)) (int to) = take to (a @ b) @ x # drop to (a @ b)"
  by (simp add: movedTo_def js_splice_def Let_def min_def)

lemma movedTo_facts:
  assumes "from < length ps" "to < length ps"
  shows "mset (movedTo ps (int from) (int to)) = mset ps" "movedTo ps (int from) (int to) ! to = ps ! from"
    "filter (\<lambda>p. cp_id p \<noteq> cp_id (ps ! from)) (movedTo ps (int from) (int to)) = filter (\<lambda>p. cp_id p \<noteq> cp_id (ps ! from)) ps"
proof -
  obtain a x b where ps: "ps = a @ x # b" "length a = from" "ps ! from = x"
    using id_take_nth_drop [OF assms(1)] assms(1) by (metis length_take min.absorb4)
  have m: "movedTo ps (int from) (int to) = take to (a @ b) @ x # drop to (a @ b)"
    using movedTo_split [of to a b x] assms(2) ps by simp
  have "mset (take to (a @ b)) + mset (drop to (a @ b)) = mset (a @ b)" by (metis append_take_drop_id mset_append)
  then show "mset (movedTo ps (int from) (int to)) = mset ps" unfolding m by (simp add: ps ac_simps)
  show "movedTo ps (int from) (int to) ! to = ps ! from" unfolding m using assms(2) ps by (simp add: nth_append)
  have "filter P (take to (a @ b)) @ filter P (drop to (a @ b)) = filter P (a @ b)" for P by (metis append_take_drop_id filter_append)
  then show "filter (\<lambda>p. cp_id p \<noteq> cp_id (ps ! from)) (movedTo ps (int from) (int to)) = filter (\<lambda>p. cp_id p \<noteq> cp_id (ps ! from)) ps"
    unfolding m ps(3) by (simp add: ps(1))
qed

fun ordersOnly :: "(string list \<Rightarrow> bool) \<Rightarrow> home_question \<Rightarrow> bool" where
  "ordersOnly P (ReorderProfiles ids) = P ids"
| "ordersOnly P q = True"

lemma moveProfile_orders:
  assumes "hp_profiles h = Some ps"
  shows "safe (\<lambda>_. True) (ordersOnly (\<lambda>ids. \<exists>from. find_index (\<lambda>p. cp_id p = i) ps = from \<and> 0 \<le> from \<and> 0 \<le> to \<and> to < int (length ps)
      \<and> ids = map cp_id (movedTo ps from to))) (\<lambda>_ _. False) (\<lambda>_ _. True) (moveProfile i to h)"
  using assms by (auto simp: moveProfile_def reorderProfiles_def Let_def split: home_answer.split)

text \<open>The list is what it was when the request fails, as long as nothing else changes the cached list.\<close>

lemma moveProfile_takes_back:
  assumes "hp_profiles h = Some ps" "run_task (moveProfile i to h) env = (tr, t)" "(ReorderProfiles ids, HomeFailed m) \<in> set tr"
    and "\<forall>(a, f)\<in>set env. \<forall>h. hp_profiles (f h) = hp_profiles h"
  shows "hp_profiles (state_of t) = Some ps"
proof -
  obtain ordered where t: "moveProfile i to h = reorderProfiles ordered h"
    using assms(1-3) by (cases "moveProfile i to h = Return h ()") (auto simp: moveProfile_def Let_def split: if_splits)
  obtain a1 f1 a2 f2 env' where env: "env = (a1, f1) # (a2, f2) # env'"
    using assms(2,3) unfolding t reorderProfiles_def by (cases env; cases "tl env") (auto simp: Let_def split: home_answer.splits)
  show ?thesis using assms unfolding t reorderProfiles_def env by (cases a1; cases a2) (auto simp: Let_def)
qed

text \<open>Moving a connection changes its place and nothing else. The order that is saved is a
  permutation of the list, with the connection at the place it was dropped on and the others in
  their order; and when saving the order fails, the list is shown as it was.\<close>

theorem reorder_is_a_move:
  assumes "hp_profiles h = Some ps" "run_task (moveProfile i to h) env = (tr, t)" "ReorderProfiles ids \<in> set (questions (tr, t))"
    and "\<forall>(a, f)\<in>set env. \<forall>h. hp_profiles (f h) = hp_profiles h"
  shows "mset ids = mset (map cp_id ps) \<and> 0 \<le> to \<and> nat to < length ids \<and> ids ! nat to = i
    \<and> filter (\<lambda>x. x \<noteq> i) ids = filter (\<lambda>x. x \<noteq> i) (map cp_id ps)
    \<and> (\<forall>m. (ReorderProfiles ids, HomeFailed m) \<in> set tr \<longrightarrow> hp_profiles (state_of t) = Some ps)"
proof -
  let ?from = "find_index (\<lambda>p. cp_id p = i) ps"
  have f: "0 \<le> ?from" "0 \<le> to" "to < int (length ps)" "ids = map cp_id (movedTo ps ?from to)"
    using safe_run(2) [OF moveProfile_orders [OF assms(1)] assms(2)] assms(3) by (fastforce simp: env_keeps_def)+
  obtain n k where n: "?from = int n" and k: "to = int k" using f(1,2) by (metis nonneg_int_cases)
  have lt: "n < length ps" using find_index_lt [of "\<lambda>p. cp_id p = i" ps] n by linarith
  have i: "cp_id (ps ! n) = i" using find_index_sat [of "\<lambda>p. cp_id p = i" ps] f(1) n by simp
  note moved = movedTo_facts [OF lt, of k]
  have k': "k < length ps" using f(3) k by simp
  have "length (movedTo ps (int n) (int k)) = length ps" using moved(1) [OF k'] by (metis size_mset)
  moreover have "mset ids = mset (map cp_id ps)" using moved(1) [OF k'] f(4) n k by simp
  moreover have "filter (\<lambda>x. x \<noteq> i) ids = filter (\<lambda>x. x \<noteq> i) (map cp_id ps)"
    using moved(3) [OF k'] f(4) n k i by (simp add: filter_map comp_def)
  ultimately show ?thesis using moved(2) [OF k'] f n k k' i moveProfile_takes_back [OF assms(1,2) _ assms(4)] by auto
qed

definition example_home :: home where
  "example_home = \<lparr>hp_profiles = None, hp_form = formDefaults\<lparr>fv_password := ''pw''\<rparr>, hp_tested = False, hp_message = NoMessage, hp_editing = None,
     hp_saving = False, hp_connecting = False, hp_removing = False, hp_reordering = False, hp_draggingId = None, hp_dropTargetId = None,
     hp_passwordProfile = None, hp_passwordInput = [], hp_lockedEditId = None, hp_connections = emptyConnections, hp_route = None\<rparr>"

definition localProfile :: "string \<Rightarrow> connection_profile" where
  "localProfile i = \<lparr>cp_id = i, cp_name = ''db'', cp_environment = Local, cp_color = Some ''red'', cp_host = ''h'', cp_port = 5,
     cp_database = ''d'', cp_username = ''u'', cp_tlsMode = Insecure, cp_readOnly = True, cp_queryTimeoutMs = 5, cp_maxRows = 7, cp_hasStoredCredential = True\<rparr>"

abbreviation onlyPort :: "string \<Rightarrow> int option" where
  "onlyPort s \<equiv> (if s = ''5432'' then Some 5432 else if s = ''5'' then Some 5 else None)"


theorem edit_then_save_round_trip_witness:
  "\<exists>d. savedAs onlyPort (editClick (localProfile ''p'') example_home) d KeepExisting \<and> pd_color d = Some ''red'' \<and> pd_maxRows d = 7"
proof -
  have "\<not> isLive example_home (localProfile ''p'')" by (simp add: isLive_def example_home_def emptyConnections_def)
  moreover have "show_int 5 = ''5''" "trim ''db'' = ''db''" "trim ''h'' = ''h''" "trim ''d'' = ''d''" "trim ''u'' = ''u''" by code_simp+
  ultimately show ?thesis using edit_then_save_round_trip [of example_home "localProfile ''p''" onlyPort]
    by (fastforce simp: localProfile_def)
qed

theorem reorder_is_a_move_witness:
  "let h = example_home\<lparr>hp_profiles := Some [localProfile ''a'', localProfile ''b'', localProfile ''c'']\<rparr>;
       (tr, t) = run_task (moveProfile ''a'' 2 h) [(HomeDone, \<lambda>h. h), (HomeFailed ''x'', \<lambda>h. h)]
   in questions (tr, t) = [CancelProfiles, ReorderProfiles [''b'', ''c'', ''a'']]
      \<and> hp_profiles (state_of t) = Some [localProfile ''a'', localProfile ''b'', localProfile ''c'']"
proof -
  let ?ps = "[localProfile ''a'', localProfile ''b'', localProfile ''c'']"
  let ?h = "example_home\<lparr>hp_profiles := Some ?ps\<rparr>" and ?env = "[(HomeDone, \<lambda>h. h), (HomeFailed ''x'', \<lambda>h. h)]"
  obtain tr t where r: "run_task (moveProfile ''a'' 2 ?h) ?env = (tr, t)" by fastforce
  have tr: "tr = [(CancelProfiles, HomeDone), (ReorderProfiles [''b'', ''c'', ''a''], HomeFailed ''x'')] \<and> pending_question t = None"
    using r by (auto simp: moveProfile_def reorderProfiles_def Let_def orderBusy_def example_home_def localProfile_def movedTo_def js_splice_def)
  then have q: "questions (tr, t) = [CancelProfiles, ReorderProfiles [''b'', ''c'', ''a'']]" by (simp add: questions_def)
  then show ?thesis using reorder_is_a_move [of ?h ?ps "''a''" 2 ?env tr t "[''b'', ''c'', ''a'']", OF _ r] r tr by auto
qed

end
