(* ===== verification/App_Shell.thy ===== *)
theory App_Shell
  imports Page_Protocols
begin

text \<open>
  The frame of the application, \<open>src/app/shell/AppShell.tsx\<close>: closing the window, and the keys that
  work on every page. Closing is a task over the state of the whole
  application, of which the page record holds the stores. The workspaces whose connections are closed
  are those open when the loop over them starts; nothing is opened while the window closes.
\<close>

subsection \<open>Closing the window\<close>

record shell =
  sh_page :: page
  sh_closing :: bool
  sh_closeError :: "string option"

datatype shell_question = ConfirmQuit | PersistWorkspaces | CloseOpen string | DestroyWindow

text \<open>The fixed message that asks to wait is the empty text.\<close>

abbreviation waitMessage :: string where
  "waitMessage \<equiv> []"

type_synonym shell_task = "(shell_question, page_answer, shell, unit) task"

definition allTabs :: "page \<Rightarrow> query_tab list" where
  "allTabs p = concat (map (ws_tabs \<circ> snd) (wst_states (app_ws (wp_app p))))"

definition closeEnded :: "string option \<Rightarrow> shell \<Rightarrow> shell_task" where
  "closeEnded failure s = Return (s\<lparr>sh_closing := False, sh_closeError := (if failure = None then sh_closeError s else failure)\<rparr>) ()"

fun closeConnections :: "string list \<Rightarrow> shell \<Rightarrow> shell_task" where
  "closeConnections [] s = Ask DestroyWindow s (\<lambda>a s. case a of Rejected c m \<Rightarrow> closeEnded (Some m) s | _ \<Rightarrow> closeEnded None s)"
| "closeConnections (conn # conns) s = Ask (CloseOpen conn) s (\<lambda>a s. case a of
     Rejected c m \<Rightarrow> closeEnded (Some m) s
   | _ \<Rightarrow> closeConnections conns s)"

definition saveAndClose :: "shell \<Rightarrow> shell_task" where
  "saveAndClose s = Ask PersistWorkspaces s (\<lambda>a s. case a of
     Rejected c m \<Rightarrow> closeEnded (Some m) s
   | _ \<Rightarrow> closeConnections (map fst (wst_states (app_ws (wp_app (sh_page s))))) s)"

definition closeRequested :: "bool \<Rightarrow> shell \<Rightarrow> shell_task" where
  "closeRequested editorOpen s =
     (let p = sh_page s; tabs = allTabs p in
      if sh_closing s then Return s ()
      else if list_ex (\<lambda>t. preparing t \<or> lockedResults p t) tabs then closeEnded (Some waitMessage) s
      else if list_ex (\<lambda>t. busyTab t \<or> editedResults p t) tabs \<or> editorOpen
      then Ask ConfirmQuit (s\<lparr>sh_closing := True\<rparr>) (\<lambda>a s. if a = Answered then saveAndClose s else closeEnded None s)
      else saveAndClose (s\<lparr>sh_closing := True\<rparr>))"

fun endsApp :: "shell_question \<Rightarrow> bool" where
  "endsApp (CloseOpen x) = True"
| "endsApp DestroyWindow = True"
| "endsApp q = False"

subsection \<open>Keys\<close>

record shell_keys =
  sk_isComposing :: bool
  sk_repeat :: bool
  sk_dialogOpen :: bool
  sk_recording :: bool

datatype shell_action = Nothing | GoHome | GoTo string | OpenSettings | ToggleAi | Swallow

text \<open>The connection the rail moves to: from outside of it, it is entered at the end the key points at.\<close>

definition stepConnection :: "string list \<Rightarrow> string option \<Rightarrow> int \<Rightarrow> string" where
  "stepConnection conns current step =
     (let i = find_index (\<lambda>c. Some c = current) conns; n = int (length conns);
          from = (if i \<ge> 0 then i else if step > 0 then - 1 else 0)
      in conns ! nat ((from + step + n) mod n))"

definition shellKey :: "bool \<Rightarrow> shortcut_settings \<Rightarrow> shell_keys \<Rightarrow> string list \<Rightarrow> string option \<Rightarrow> string \<Rightarrow> string option \<Rightarrow> key_event \<Rightarrow> shell_action" where
  "shellKey mac shortcuts k conns current pathname previous e =
     (let matches = (\<lambda>i. shortcutMatches mac e (shortcutOf shortcuts i));
          workspaceOpen = (case current of None \<Rightarrow> False | Some c \<Rightarrow> c \<noteq> [] \<and> c \<in> set conns);
          step = (if matches ''previousConnection'' then - 1 else if matches ''nextConnection'' then 1 else 0)
      in if sk_isComposing k \<or> sk_repeat k \<or> sk_dialogOpen k \<or> sk_recording k then Nothing
         else if workspaceOpen \<and> matches ''openConnections'' then GoHome
         else if pathname = ''/'' \<and> matches ''closeTab''
         then (case previous of None \<Rightarrow> Swallow | Some c \<Rightarrow> if c \<noteq> [] \<and> c \<in> set conns then GoTo c else Swallow)
         else if matches ''openSettings'' then OpenSettings
         else if step \<noteq> 0 \<and> conns \<noteq> [] then GoTo (stepConnection conns current step)
         else if workspaceOpen \<and> matches ''toggleAi'' then ToggleAi else Nothing)"

text \<open>The effect that remembers the workspace that was open last.\<close>

definition rememberConnection :: "string list \<Rightarrow> string option \<Rightarrow> string option \<Rightarrow> string option" where
  "rememberConnection conns current previous =
     (case current of None \<Rightarrow> previous | Some c \<Rightarrow> if c \<noteq> [] \<and> c \<in> set conns then Some c else previous)"

subsection \<open>Nothing is lost on closing\<close>

lemma closeRequested_persists_first:
  "safe (\<lambda>_. True) (\<lambda>q. \<not> endsApp q) (\<lambda>q a. q = PersistWorkspaces \<and> succeeded a) (\<lambda>_ _. True) (closeRequested editorOpen s)"
  by (auto simp: closeRequested_def saveAndClose_def closeEnded_def Let_def safe_rejected)

definition unfinishedWork :: "bool \<Rightarrow> shell \<Rightarrow> bool" where
  "unfinishedWork editorOpen s \<longleftrightarrow> unfinished (allTabs (sh_page s)) (sh_page s) \<or> editorOpen"

lemma closeRequested_confirms:
  assumes "unfinishedWork editorOpen s"
  shows "safe (\<lambda>_. True) (\<lambda>q. q = ConfirmQuit) (\<lambda>q a. q = ConfirmQuit \<and> a = Answered) (\<lambda>_ _. True) (closeRequested editorOpen s)"
proof -
  have "list_ex (\<lambda>t. busyTab t \<or> editedResults (sh_page s) t) (allTabs (sh_page s)) \<or> editorOpen"
    using assms by (auto simp: unfinishedWork_def unfinished_def list_ex_iff)
  then show ?thesis by (auto simp: closeRequested_def closeEnded_def Let_def)
qed



subsection \<open>The rail\<close>

text \<open>The keys for the next and the previous connection undo each other, and every key that goes to a
  connection goes to an open one.\<close>

lemma stepConnection_nth:
  assumes "distinct conns" "i < length conns" "step = 1 \<or> step = - 1"
  shows "stepConnection conns (Some (conns ! i)) step = conns ! nat ((int i + step) mod int (length conns))"
proof -
  have "find_index (\<lambda>c. Some c = Some (conns ! i)) conns = int i"
  proof -
    let ?P = "\<lambda>c. Some c = Some (conns ! i)"
    have ge: "0 \<le> find_index ?P conns" using assms(2) find_index_nonneg [of ?P conns] by auto
    have "conns ! nat (find_index ?P conns) = conns ! i" using find_index_sat [OF ge] by simp
    moreover have "nat (find_index ?P conns) < length conns" using find_index_lt [of ?P conns] ge by linarith
    ultimately have "nat (find_index ?P conns) = i" using assms(1,2) nth_eq_iff_index_eq by blast
    then show ?thesis using ge by linarith
  qed
  then show ?thesis by (simp add: stepConnection_def Let_def)
qed

theorem rail_steps_invert:
  assumes "distinct conns" "c \<in> set conns"
  shows "stepConnection conns (Some (stepConnection conns (Some c) 1)) (- 1) = c
    \<and> stepConnection conns (Some (stepConnection conns (Some c) (- 1))) 1 = c"
proof -
  obtain i where i: "i < length conns" "c = conns ! i" using assms(2) by (auto simp: in_set_conv_nth)
  let ?n = "int (length conns)"
  have n: "0 < ?n" using i(1) by linarith
  have undone: "nat ((int (nat ((int i + s) mod ?n)) + - s) mod ?n) = i" for s
    using i(1) n by (simp add: mod_diff_left_eq)
  have lt: "nat ((int i + s) mod ?n) < length conns" for s using n by (simp add: nat_less_iff)
  have "stepConnection conns (Some (stepConnection conns (Some c) st)) (- st) = c" if "st = 1 \<or> st = - 1" for st
  proof -
    have "- st = 1 \<or> - st = - 1" using that by linarith
    then show ?thesis
      unfolding i(2) stepConnection_nth [OF assms(1) i(1) that] stepConnection_nth [OF assms(1) lt \<open>- st = 1 \<or> - st = - 1\<close>] undone by simp
  qed
  from this [of 1] this [of "- 1"] show ?thesis by simp
qed

lemma keys_reach_open_connections: "shellKey mac shortcuts k conns current pathname previous e = GoTo c \<Longrightarrow> c \<in> set conns"
  by (auto simp: shellKey_def stepConnection_def Let_def nat_less_iff split: if_splits option.splits)

end
