(* ===== verification/Panels.thy ===== *)
theory Panels
  imports Page_Protocols Editability
begin

text \<open>
  The panels around the editor: the history (\<open>src/features/query-history/HistoryPanel.tsx\<close>), the saved
  queries (\<open>src/features/saved-queries/SavedQueriesPanel.tsx\<close>), the pane of a tab
  (\<open>src/app/shell/WorkspacePane.tsx\<close>) and the pane of a result with the detection of whether it can be
  edited (\<open>src/features/result-grid/QueryResultPane.tsx\<close>).
\<close>

subsection \<open>History and saved queries\<close>

definition historyShown :: "page \<Rightarrow> string \<Rightarrow> history_entry list" where
  "historyShown p search = filter (\<lambda>e. h_connectionId e = wp_conn p
     \<and> (search = [] \<or> find_sub (to_lower search) (to_lower (h_sql e)) \<noteq> None)) (hs_entries (app_history (wp_app p)))"

definition savedShown :: "page \<Rightarrow> string \<Rightarrow> saved_query list" where
  "savedShown p search = (let needle = to_lower (trim search) in
     if needle = [] then wp_saved p
     else filter (\<lambda>e. find_sub needle (to_lower (sq_name e)) \<noteq> None \<or> find_sub needle (to_lower (sq_sql e)) \<noteq> None) (wp_saved p))"

record side_panel =
  sp_page :: page
  sp_error :: "saved_error option"

datatype panel_question = ConfirmClearHistory | PromptRename string | ConfirmDeleteSaved string | PersistSaved

type_synonym panel_task = "(panel_question, page_answer, side_panel, unit) task"

definition onHistory :: "(history_store \<Rightarrow> history_store) \<Rightarrow> side_panel \<Rightarrow> side_panel" where
  "onHistory f s = (let p = sp_page s in s\<lparr>sp_page := p\<lparr>wp_app := (wp_app p)\<lparr>app_history := f (app_history (wp_app p))\<rparr>\<rparr>\<rparr>)"

definition removeEntry :: "string \<Rightarrow> side_panel \<Rightarrow> side_panel" where
  "removeEntry i s = onHistory (\<lambda>h. removeHistory h i) s"

definition clearAll :: "side_panel \<Rightarrow> panel_task" where
  "clearAll s = Ask ConfirmClearHistory s (\<lambda>a s.
     if a = Answered then Return (onHistory (\<lambda>h. clearHistory h (Some (wp_conn (sp_page s)))) s) () else Return s ())"

text \<open>\<open>attempt\<close>: the change of the saved queries takes effect when the store's promise settles.\<close>

definition attemptSaved :: "(saved_store \<Rightarrow> bool \<Rightarrow> (saved_error + unit) \<times> saved_store) \<Rightarrow> side_panel \<Rightarrow> panel_task" where
  "attemptSaved change s = Ask PersistSaved (s\<lparr>sp_error := None\<rparr>) (\<lambda>a s.
     case change (wp_saved (sp_page s)) (a = Answered) of (outcome, st) \<Rightarrow>
       Return (s\<lparr>sp_page := (sp_page s)\<lparr>wp_saved := st\<rparr>,
                 sp_error := (case outcome of Inl e \<Rightarrow> Some e | Inr u \<Rightarrow> sp_error s)\<rparr>) ())"

definition renameEntry :: "string comparator \<Rightarrow> saved_query \<Rightarrow> side_panel \<Rightarrow> panel_task" where
  "renameEntry localeCompare e s = Ask (PromptRename (sq_name e)) s (\<lambda>a s. case a of
     Typed input \<Rightarrow> let name = trim input in
       if name \<noteq> [] \<and> name \<noteq> sq_name e then attemptSaved (\<lambda>st ok. renameSaved localeCompare st (sq_id e) name ok) s else Return s ()
   | _ \<Rightarrow> Return s ())"

definition deleteEntry :: "string comparator \<Rightarrow> saved_query \<Rightarrow> side_panel \<Rightarrow> panel_task" where
  "deleteEntry localeCompare e s = Ask (ConfirmDeleteSaved (sq_name e)) s (\<lambda>a s.
     if a = Answered then attemptSaved (\<lambda>st ok. removeSaved localeCompare st (sq_id e) ok) s else Return s ())"

subsection \<open>The pane of a query tab\<close>

definition docChanged :: "string \<Rightarrow> string \<Rightarrow> page \<Rightarrow> page" where
  "docChanged tabId doc p =
     (let p1 = p\<lparr>wp_drafts := (wp_drafts p)\<lparr>dm_sql := AList.update tabId doc (dm_sql (wp_drafts p))\<rparr>\<rparr>
      in effect SaveSoon (noteSqlChanged p1 tabId doc))"

definition activateResult :: "string \<Rightarrow> string \<Rightarrow> page \<Rightarrow> page" where
  "activateResult tabId rid p = dispatch p (RESULT_ACTIVATED tabId rid)"

definition togglePin :: "string \<Rightarrow> string \<Rightarrow> page \<Rightarrow> page" where
  "togglePin tabId rid p = dispatch p (RESULT_PIN_TOGGLED tabId rid)"

definition setTableMode :: "string \<Rightarrow> table_data_mode \<Rightarrow> page \<Rightarrow> page" where
  "setTableMode tabId mode p = dispatch p (TABLE_DATA_MODE_SET tabId mode)"

text \<open>The share of the editor in per cent, moved by the keys.\<close>

definition editorShareKey :: "int \<Rightarrow> string \<Rightarrow> int" where
  "editorShareKey share pressed =
     (if pressed = ''Home'' then 20 else if pressed = ''End'' then 80
      else if pressed = ''ArrowUp'' then max 20 (min 80 (share - 5)) else if pressed = ''ArrowDown'' then max 20 (min 80 (share + 5)) else share)"

text \<open>Typing keeps the mark of a tab with unsaved changes exact: it is set when the text differs from the
  saved query the tab is bound to, and the text is the tab's draft.\<close>

lemma docChanged_facts:
  "draftOf (docChanged tabId doc p) tabId = doc \<and> (u \<noteq> tabId \<longrightarrow> draftOf (docChanged tabId doc p) u = draftOf p u)
   \<and> (tabId \<in> set (wp_dirtyTabs (docChanged tabId doc p)) \<longleftrightarrow> (\<exists>saved. savedEntry p tabId = Some saved \<and> sq_sql saved \<noteq> doc))"
  by (auto simp: docChanged_def noteSqlChanged_def effect_def draftOf_def savedEntry_def update_conv' nullish_def Let_def split: option.splits)

subsection \<open>The pane of a result\<close>

text \<open>What the effect depends on, and what the render it runs in captures besides.\<close>

record pane_input =
  pi_connectionId :: string
  pi_resultTabId :: string
  pi_readOnly :: bool
  pi_status :: result_status
  pi_executionId :: "string option"
  pi_sql :: "string option"
  pi_columns :: "column_meta list"

definition sameDeps :: "pane_input \<Rightarrow> pane_input \<Rightarrow> bool" where
  "sameDeps a b \<longleftrightarrow> pi_connectionId a = pi_connectionId b \<and> pi_resultTabId a = pi_resultTabId b \<and> pi_readOnly a = pi_readOnly b
     \<and> pi_status a = pi_status b \<and> pi_executionId a = pi_executionId b"

text \<open>\<open>rp_current\<close> is the effect that is not stale, if any; \<open>rp_started\<close> has the input of every effect that
  started a detection.\<close>

record result_pane =
  rp_next :: nat
  rp_current :: "(nat \<times> pane_input) option"
  rp_started :: "(nat, pane_input) js_map"
  rp_editability :: "editability option"

datatype pane_step = Render pane_input | Unmount | Detected nat editability

definition startsDetection :: "pane_input \<Rightarrow> bool" where
  "startsDetection i \<longleftrightarrow> pi_status i = StCompleted \<and> pi_columns i \<noteq> []"

definition runEffect :: "pane_input \<Rightarrow> result_pane \<Rightarrow> result_pane" where
  "runEffect i r = r\<lparr>rp_next := Suc (rp_next r), rp_current := Some (rp_next r, i), rp_editability := None,
     rp_started := (if startsDetection i then AList.update (rp_next r) i (rp_started r) else rp_started r)\<rparr>"

fun paneStep :: "result_pane \<Rightarrow> pane_step \<Rightarrow> result_pane option" where
  "paneStep r (Render i) = Some (case rp_current r of
     Some (n, j) \<Rightarrow> if sameDeps i j then r else runEffect i r
   | None \<Rightarrow> runEffect i r)"
| "paneStep r Unmount = Some (r\<lparr>rp_current := None\<rparr>)"
| "paneStep r (Detected n e) = Some (case rp_current r of
     Some (m, j) \<Rightarrow> if m = n then r\<lparr>rp_editability := Some e\<rparr> else r
   | None \<Rightarrow> r)"

text \<open>An answer is that of a detection that was started, for some state of the catalog.\<close>

fun paneGuard :: "result_pane \<Rightarrow> pane_step \<Rightarrow> bool" where
  "paneGuard r (Detected n e) = (\<exists>i getTable. map_of (rp_started r) n = Some i \<and> e = queryEditability getTable (pi_sql i) (pi_columns i) (pi_readOnly i))"
| "paneGuard r st = True"

definition shownFor :: "pane_input \<Rightarrow> editability \<Rightarrow> bool" where
  "shownFor i e \<longleftrightarrow> startsDetection i \<and> (\<exists>getTable. e = queryEditability getTable (pi_sql i) (pi_columns i) (pi_readOnly i))"

definition paneInv :: "result_pane \<Rightarrow> bool" where
  "paneInv r \<longleftrightarrow> (\<forall>(n, i)\<in>set (rp_started r). n < rp_next r \<and> startsDetection i)
     \<and> (case rp_current r of None \<Rightarrow> True
        | Some (n, i) \<Rightarrow> n < rp_next r \<and> (\<forall>j. map_of (rp_started r) n = Some j \<longrightarrow> j = i) \<and> (\<forall>e. rp_editability r = Some e \<longrightarrow> shownFor i e))"

lemma paneStep_inv:
  assumes "paneInv r" "paneGuard r st" shows "\<exists>r'. paneStep r st = Some r' \<and> paneInv r'"
proof (cases st)
  case (Render i)
  have "paneInv (runEffect i r)"
    using assms(1) set_update_subset [of "rp_next r" i "rp_started r"]
    by (fastforce simp: paneInv_def runEffect_def update_conv' dest: map_of_SomeD split: option.splits)
  then show ?thesis using Render assms(1) by (auto split: option.split)
next
  case Unmount
  then show ?thesis using assms(1) by (auto simp: paneInv_def)
next
  case (Detected n e)
  then obtain i getTable where i: "map_of (rp_started r) n = Some i" "e = queryEditability getTable (pi_sql i) (pi_columns i) (pi_readOnly i)"
    using assms(2) by auto
  have "startsDetection i" using assms(1) map_of_SomeD [OF i(1)] by (auto simp: paneInv_def)
  then show ?thesis using Detected assms(1) i by (auto simp: paneInv_def shownFor_def split: option.splits)
qed

interpretation panem: guarded_machine paneStep paneGuard paneInv
  by unfold_locales (rule paneStep_inv)

text \<open>Claim C33: the pane of a result never lets an old answer decide whether the result on screen can be
  edited. In every sequence of renders, unmounts and answers, in which the answers of the detections
  come late, never or in any order, an editability that is shown is that of the statement, the columns
  and the mode of the execution the pane shows, and that execution has completed.\<close>

theorem shown_editability_current:
  assumes "run_ok paneStep paneGuard \<lparr>rp_next = 0, rp_current = None, rp_started = [], rp_editability = None\<rparr> steps"
  shows "\<exists>r. run_actions paneStep \<lparr>rp_next = 0, rp_current = None, rp_started = [], rp_editability = None\<rparr> steps = Some r
    \<and> (\<forall>n i e. rp_current r = Some (n, i) \<longrightarrow> rp_editability r = Some e \<longrightarrow> shownFor i e)"
proof -
  have "paneInv \<lparr>rp_next = 0, rp_current = None, rp_started = [], rp_editability = None\<rparr>" by (simp add: paneInv_def)
  from panem.run_inv [OF this assms] show ?thesis by (fastforce simp: paneInv_def)
qed

definition example_input :: pane_input where
  "example_input = \<lparr>pi_connectionId = ''c'', pi_resultTabId = ''r'', pi_readOnly = True, pi_status = StCompleted, pi_executionId = Some ''e'',
     pi_sql = Some ''select 1'', pi_columns = [\<lparr>cm_index = 0, cm_name = ''a'', cm_pgTypeOid = 23, cm_pgTypeName = ''int4'', cm_category = UnknownC,
       cm_source = None, cm_nullable = None, cm_editable = False\<rparr>]\<rparr>"

theorem shown_editability_current_witness:
  "\<exists>r. run_actions paneStep \<lparr>rp_next = 0, rp_current = None, rp_started = [], rp_editability = None\<rparr>
       [Render example_input, Detected 0 (NotEditable ReadOnlyConnection)] = Some r
     \<and> rp_editability r = Some (NotEditable ReadOnlyConnection) \<and> shownFor example_input (NotEditable ReadOnlyConnection)"
proof -
  let ?r = "\<lparr>rp_next = 0, rp_current = None, rp_started = [], rp_editability = None\<rparr>"
  let ?steps = "[Render example_input, Detected 0 (NotEditable ReadOnlyConnection)]"
  have start: "startsDetection example_input" by (simp add: startsDetection_def example_input_def)
  have "run_ok paneStep paneGuard ?r ?steps"
    using start by (simp add: runEffect_def queryEditability_def example_input_def)
  from shown_editability_current [OF this] obtain r where r: "run_actions paneStep ?r ?steps = Some r"
    "\<forall>n i e. rp_current r = Some (n, i) \<longrightarrow> rp_editability r = Some e \<longrightarrow> shownFor i e" by blast
  moreover have "rp_current r = Some (0, example_input) \<and> rp_editability r = Some (NotEditable ReadOnlyConnection)"
    using r(1) by (auto simp: runEffect_def)
  ultimately show ?thesis by blast
qed

subsection \<open>Clearing the history\<close>

text \<open>Clearing the history of a connection leaves the entries of the others alone, and its own too unless
  it was confirmed.\<close>

definition othersHistory :: "side_panel \<Rightarrow> history_entry list" where
  "othersHistory s = filter (\<lambda>e. h_connectionId e \<noteq> wp_conn (sp_page s)) (hs_entries (app_history (wp_app (sp_page s))))"

lemma clearAll_confined:
  assumes "wp_conn (sp_page s) \<noteq> []"
  shows "othersHistory (state_of (snd (run_task (clearAll s) [(a, \<lambda>s. s)]))) = othersHistory s
    \<and> (a \<noteq> Answered \<longrightarrow> state_of (snd (run_task (clearAll s) [(a, \<lambda>s. s)])) = s)
    \<and> (a = Answered \<longrightarrow> historyShown (sp_page (state_of (snd (run_task (clearAll s) [(a, \<lambda>s. s)])))) search = [])"
  using assms by (simp add: clearAll_def othersHistory_def historyShown_def onHistory_def clearHistory_def truthy_str_def Let_def filter_empty_conv)

end
