(* ===== verification/Sql_Editor.thy ===== *)
theory Sql_Editor
  imports Shortcuts Statement_Splitter
begin

text \<open>
  The SQL editor, \<open>src/features/query-editor/SqlEditor.tsx\<close>: the origin of a multiple selection
  and the two commands that use it, the list of completions reopened after a deletion, the key
  bindings, and the routine bodies highlighted inside a dollar quote.

  CodeMirror is a parameter. A \<open>transaction\<close> is what the library hands to the state field, with
  the mapping of positions through its changes; a command of the library is a function to the
  transactions it dispatches and its answer; \<open>plain\<close> builds the transaction of a specification
  that changes no text. Key names are compared after the normaliser \<open>norm\<close> of the library.
\<close>

subsection \<open>The origin of a selection\<close>

record selection_range =
  sr_anchor :: nat
  sr_head :: nat

record editor_selection =
  es_ranges :: "selection_range list"
  es_mainIndex :: nat

definition mainRange :: "editor_selection \<Rightarrow> selection_range" where
  "mainRange s = es_ranges s ! es_mainIndex s"

text \<open>\<open>EditorSelection.create([r])\<close>.\<close>

definition singleRange :: "selection_range \<Rightarrow> editor_selection" where
  "singleRange r = \<lparr>es_ranges = [r], es_mainIndex = 0\<rparr>"

datatype state_effect = SetSelectionOrigin "selection_range option" | OtherEffect

record transaction =
  tr_effects :: "state_effect list"
  tr_isUserEvent :: "string \<Rightarrow> bool"
  tr_newSelection :: editor_selection
  tr_newDoc :: "string option"
  tr_map :: "selection_range \<Rightarrow> selection_range"

abbreviation tr_docChanged :: "transaction \<Rightarrow> bool" where
  "tr_docChanged tr \<equiv> tr_newDoc tr \<noteq> None"

fun originEffect :: "state_effect list \<Rightarrow> selection_range option option" where
  "originEffect [] = None"
| "originEffect (SetSelectionOrigin v # es) = Some v"
| "originEffect (OtherEffect # es) = originEffect es"

text \<open>The \<open>update\<close> of the field \<open>selectionOrigin\<close>.\<close>

definition originUpdate :: "selection_range option \<Rightarrow> transaction \<Rightarrow> selection_range option" where
  "originUpdate origin tr = (case originEffect (tr_effects tr) of
     Some v \<Rightarrow> v
   | None \<Rightarrow>
       (case origin of
          None \<Rightarrow> None
        | Some r \<Rightarrow>
            if tr_isUserEvent tr ''select'' \<and> length (es_ranges (tr_newSelection tr)) = 1 then None
            else Some (if tr_docChanged tr then tr_map tr r else r)))"

record editor =
  ed_doc :: string
  ed_selection :: editor_selection
  ed_origin :: "selection_range option"

definition dispatchTr :: "editor \<Rightarrow> transaction \<Rightarrow> editor" where
  "dispatchTr ed tr = \<lparr>ed_doc = nullish (tr_newDoc tr) (ed_doc ed), ed_selection = tr_newSelection tr,
     ed_origin = originUpdate (ed_origin ed) tr\<rparr>"

type_synonym command = "editor \<Rightarrow> transaction list \<times> bool"
type_synonym plain_spec = "editor_selection option \<times> state_effect list"
type_synonym library = "editor \<Rightarrow> plain_spec \<Rightarrow> transaction"

definition fromOrigin :: "library \<Rightarrow> command \<Rightarrow> editor \<Rightarrow> editor \<times> bool" where
  "fromOrigin plain command ed =
     (let origin = nullish (ed_origin ed) (mainRange (ed_selection ed)); (trs, ok) = command ed;
          ed1 = foldl dispatchTr ed trs
      in if \<not> ok then (ed1, False)
         else (dispatchTr ed1 (plain ed1 (None, [SetSelectionOrigin (Some origin)])), True))"

definition returnToOrigin :: "library \<Rightarrow> editor \<Rightarrow> editor \<times> bool" where
  "returnToOrigin plain ed = (case ed_origin ed of
     None \<Rightarrow> (ed, False)
   | Some origin \<Rightarrow> (dispatchTr ed (plain ed (Some (singleRange origin), [SetSelectionOrigin None])), True))"

subsection \<open>Completions after a deletion\<close>

text \<open>
  \<open>completeAfterDelete\<close>: whether the list is opened. \<open>status\<close> tells whether a list is active or
  pending, and the transactions are those of the update.
\<close>

definition completeAfterDelete :: "editor \<Rightarrow> bool \<Rightarrow> transaction list \<Rightarrow> bool" where
  "completeAfterDelete ed status trs =
     (let r = mainRange (ed_selection ed);
          before = slice (ed_doc ed) (sr_head r - 1) (sr_head r)
      in list_ex tr_docChanged trs \<and> \<not> status
         \<and> list_ex (\<lambda>tr. tr_isUserEvent tr ''delete.backward'' \<or> tr_isUserEvent tr ''delete.forward'') trs
         \<and> sr_anchor r = sr_head r
         \<and> before \<noteq> [] \<and> (let c = last before in is_word c \<or> c = CHR ''$'' \<or> c = CHR ''.''))"

subsection \<open>Key bindings\<close>

datatype editor_action = RunQueryNew | RunQuery | FormatSql | StartCompletion | ReturnToOrigin | CancelQuery
  | OpenSearchPanel | FindNext | FindPrevious | GotoLine | SelectMatches | AddNextMatch
  | Inert | AcceptCompletion | IndentWithTab

type_synonym key_binding = "string \<times> editor_action"

definition bind_key :: "string \<Rightarrow> editor_action \<Rightarrow> key_binding list" where
  "bind_key shortcut run = (let k = shortcutToCodeMirror shortcut in if k = '''' then [] else [(k, run)])"

definition searchBindings :: "shortcut_settings \<Rightarrow> (string \<times> editor_action \<times> string) list" where
  "searchBindings m = [
     (shortcutOf m ''findInEditor'', OpenSearchPanel, ''Mod-f''),
     (shortcutOf m ''findNext'', FindNext, ''Mod-g''),
     (shortcutOf m ''findPrevious'', FindPrevious, ''Mod-Shift-g''),
     (shortcutOf m ''gotoLine'', GotoLine, ''Mod-Alt-g''),
     (shortcutOf m ''selectMatches'', SelectMatches, ''Mod-Shift-l''),
     (shortcutOf m ''addNextMatch'', AddNextMatch, ''Mod-d'')]"

definition searchBinding :: "string \<times> editor_action \<times> string \<Rightarrow> key_binding list" where
  "searchBinding = (\<lambda>(shortcut, command, builtIn).
     let k = shortcutToCodeMirror shortcut in
     if k = '''' then [(builtIn, Inert)]
     else if k = builtIn then [(k, command)] else [(k, command), (builtIn, Inert)])"

definition editorKeymap :: "shortcut_settings \<Rightarrow> bool \<Rightarrow> key_binding list" where
  "editorKeymap m readOnly =
     bind_key (shortcutOf m ''runQueryNew'') RunQueryNew
     @ bind_key (shortcutOf m ''runQuery'') RunQuery
     @ bind_key (shortcutOf m ''formatSql'') FormatSql
     @ (if readOnly then [] else bind_key (shortcutOf m ''triggerCompletion'') StartCompletion)
     @ [(''Escape'', ReturnToOrigin)]
     @ bind_key (shortcutOf m ''cancelQueryAlternate'') CancelQuery
     @ bind_key (shortcutOf m ''cancelQuery'') CancelQuery
     @ concat (map searchBinding (searchBindings m))
     @ (if readOnly then [] else [(''Tab'', AcceptCompletion), (''Tab'', IndentWithTab)])"

text \<open>
  Whether the handler of a binding answers true. The commands of the library answer \<open>lib\<close>, and
  \<open>format\<close> is its formatter.
\<close>

definition handles :: "(editor_action \<Rightarrow> editor \<Rightarrow> bool) \<Rightarrow> (string \<Rightarrow> string option) \<Rightarrow> bool \<Rightarrow> editor \<Rightarrow> editor_action \<Rightarrow> bool" where
  "handles lib format readOnly ed a = (case a of
     RunQueryNew \<Rightarrow> True
   | RunQuery \<Rightarrow> True
   | CancelQuery \<Rightarrow> True
   | Inert \<Rightarrow> True
   | FormatSql \<Rightarrow> readOnly \<or> (let r = mainRange (ed_selection ed) in
       formatSqlInEditor format (ed_doc ed) (min (sr_anchor r) (sr_head r)) (max (sr_anchor r) (sr_head r)) \<noteq> None)
   | ReturnToOrigin \<Rightarrow> ed_origin ed \<noteq> None
   | _ \<Rightarrow> lib a ed)"

text \<open>
  A key runs the handlers bound to it in order, until one answers true. \<open>None\<close>: none did, and
  the key goes on to the bindings of \<open>basicSetup\<close>.
\<close>

definition editorKey :: "(string \<Rightarrow> string) \<Rightarrow> (editor_action \<Rightarrow> bool) \<Rightarrow> key_binding list \<Rightarrow> string \<Rightarrow> editor_action option" where
  "editorKey norm answers bs k = map_option snd (find (\<lambda>(b, a). norm b = norm k \<and> answers a) bs)"

text \<open>The callback of the page that a handler calls.\<close>

datatype page_call = CallRun | CallRunNew | CallCancel

definition callbackOf :: "bool \<Rightarrow> editor_action \<Rightarrow> page_call option" where
  "callbackOf readOnly a = (case a of
     RunQueryNew \<Rightarrow> if readOnly then None else Some CallRunNew
   | RunQuery \<Rightarrow> if readOnly then None else Some CallRun
   | CancelQuery \<Rightarrow> Some CallCancel
   | _ \<Rightarrow> None)"

subsection \<open>Routine bodies\<close>

record syntax_node =
  sn_name :: string
  sn_from :: nat
  sn_to :: nat

text \<open>\<open>/^\$[^$]*\$/\<close> and \<open>replace(/^["']|["']$/g, "")\<close>.\<close>

abbreviation dollar :: char where "dollar \<equiv> CHR ''$''"

definition dollarDelimiter :: "string \<Rightarrow> string option" where
  "dollarDelimiter s = (case s of
     [] \<Rightarrow> None
   | c # r \<Rightarrow>
       if c \<noteq> dollar then None
       else let w = takeWhile (\<lambda>x. x \<noteq> dollar) r in
         if length w < length r then Some (dollar # w @ [dollar]) else None)"

definition isQuoteChar :: "char \<Rightarrow> bool" where
  "isQuoteChar c \<longleftrightarrow> c = CHR 0x22 \<or> c = CHR 0x27"

definition unquoteWord :: "string \<Rightarrow> string" where
  "unquoteWord w =
     (let u = (if w \<noteq> [] \<and> isQuoteChar (hd w) then tl w else w)
      in if u \<noteq> [] \<and> isQuoteChar (last u) then butlast u else u)"

definition ends_with :: "string \<Rightarrow> string \<Rightarrow> bool" where
  "ends_with s p \<longleftrightarrow> length p \<le> length s \<and> drop (length s - length p) s = p"

text \<open>
  The wrapper of \<open>postgresWithRoutineBodies\<close>, on the document, a node and its parent with the
  children: the range parsed as SQL.
\<close>

definition routineTokens :: "syntax_node list \<Rightarrow> syntax_node list" where
  "routineTokens children = filter (\<lambda>n. \<not> ends_with (sn_name n) ''Comment'') children"

definition routineLanguage :: "string \<Rightarrow> syntax_node list \<Rightarrow> syntax_node \<Rightarrow> string option" where
  "routineLanguage input tokens node =
     (let ws = map (\<lambda>t. to_lower (slice input (sn_from t) (sn_to t))) tokens;
          index = find_index (\<lambda>t. sn_from t = sn_from node) tokens;
          isDo = (js_at ws 0 = Some ''do'');
          isRoutine = (js_at ws 0 = Some ''create''
            \<and> list_ex (\<lambda>(t, w). sn_name t = ''Keyword'' \<and> w \<in> {''function'', ''procedure''}) (zip tokens ws));
          languageIndex = find_index (\<lambda>(t, w). sn_name t = ''Keyword'' \<and> w = ''language'') (zip tokens ws)
      in if \<not> isDo \<and> \<not> (isRoutine \<and> js_at ws (index - 1) = Some ''as'') then None
         else if languageIndex < 0 then Some (if isDo then ''plpgsql'' else '''')
         else map_option unquoteWord (js_at ws (languageIndex + 1)))"

definition routineBody :: "string \<Rightarrow> syntax_node \<Rightarrow> (string \<times> syntax_node list) option \<Rightarrow> (nat \<times> nat) option" where
  "routineBody input node parent =
     (if sn_name node \<noteq> ''String'' \<or> slice input (sn_from node) (sn_from node + 1) \<noteq> [dollar] then None
      else case parent of
        None \<Rightarrow> None
      | Some (name, children) \<Rightarrow>
          if name \<noteq> ''Statement'' then None
          else case routineLanguage input (routineTokens children) node of
            None \<Rightarrow> None
          | Some lang \<Rightarrow>
              if lang \<noteq> ''sql'' \<and> lang \<noteq> ''plpgsql'' then None
              else let source = slice input (sn_from node) (sn_to node) in
              (case dollarDelimiter source of
                 None \<Rightarrow> None
               | Some delimiter \<Rightarrow>
                   let from = sn_from node + length delimiter;
                       to = sn_to node - (if length source \<ge> length delimiter * 2 \<and> ends_with source delimiter then length delimiter else 0)
                   in if from < to then Some (from, to) else None))"

subsection \<open>Escape goes back to where the selection began\<close>

text \<open>
  What the library promises of a specification without changes, and of the commands that add
  occurrences: no text changes, and a command that does not apply dispatches nothing.
\<close>

definition plain_library :: "library \<Rightarrow> bool" where
  "plain_library plain \<longleftrightarrow> (\<forall>ed sel effs. tr_effects (plain ed (sel, effs)) = effs \<and> tr_newDoc (plain ed (sel, effs)) = None
     \<and> tr_newSelection (plain ed (sel, effs)) = nullish sel (ed_selection ed))"

definition selects_only :: "command \<Rightarrow> bool" where
  "selects_only c \<longleftrightarrow> (\<forall>ed. (\<not> snd (c ed) \<longrightarrow> fst (c ed) = [])
     \<and> (\<forall>tr\<in>set (fst (c ed)). tr_newDoc tr = None \<and> originEffect (tr_effects tr) = None))"

text \<open>What happens between the first press and Escape: more presses, and edits that keep the session.\<close>

datatype session_step = Press command | Change transaction

definition keeps_session :: "transaction \<Rightarrow> bool" where
  "keeps_session tr \<longleftrightarrow> originEffect (tr_effects tr) = None
     \<and> \<not> (tr_isUserEvent tr ''select'' \<and> length (es_ranges (tr_newSelection tr)) = 1)"

fun in_session :: "session_step \<Rightarrow> bool" where
  "in_session (Press c) = selects_only c"
| "in_session (Change tr) = keeps_session tr"

fun sessionStep :: "library \<Rightarrow> editor \<Rightarrow> session_step \<Rightarrow> editor" where
  "sessionStep plain ed (Press c) = fst (fromOrigin plain c ed)"
| "sessionStep plain ed (Change tr) = dispatchTr ed tr"

text \<open>The origin, moved along with the text by the edits.\<close>

fun followed :: "selection_range \<Rightarrow> session_step \<Rightarrow> selection_range" where
  "followed r (Press c) = r"
| "followed r (Change tr) = (if tr_docChanged tr then tr_map tr r else r)"

lemma fromOrigin_origin:
  assumes "plain_library plain" "snd (c ed)"
  shows "ed_origin (fst (fromOrigin plain c ed)) = Some (nullish (ed_origin ed) (mainRange (ed_selection ed)))"
  using assms by (auto simp: fromOrigin_def Let_def dispatchTr_def originUpdate_def plain_library_def split: prod.splits)

lemma fromOrigin_refused:
  assumes "selects_only c" "\<not> snd (c ed)"
  shows "fst (fromOrigin plain c ed) = ed"
proof -
  have "fst (c ed) = []" using assms unfolding selects_only_def by blast
  with assms(2) show ?thesis by (auto simp: fromOrigin_def Let_def split: prod.splits)
qed

lemma session_step_origin:
  assumes "plain_library plain" "in_session st" "ed_origin ed = Some r"
  shows "ed_origin (sessionStep plain ed st) = Some (followed r st)"
proof (cases st)
  case (Press c)
  show ?thesis
  proof (cases "snd (c ed)")
    case True
    with Press assms(1,3) show ?thesis by (simp add: fromOrigin_origin nullish_def)
  next
    case False
    with Press assms(2,3) show ?thesis by (simp add: fromOrigin_refused)
  qed
next
  case (Change tr)
  with assms(2,3) show ?thesis by (auto simp: dispatchTr_def originUpdate_def keeps_session_def)
qed

lemma session_origin:
  assumes "plain_library plain" "list_all in_session steps" "ed_origin ed = Some r"
  shows "ed_origin (foldl (sessionStep plain) ed steps) = Some (foldl followed r steps)"
  using assms(2,3)
proof (induction steps arbitrary: ed r)
  case (Cons st steps)
  then show ?case using session_step_origin [OF assms(1), of st ed r] by simp
qed simp

lemma returnToOrigin_there:
  assumes "plain_library plain" "ed_origin ed = Some r"
  shows "returnToOrigin plain ed = (\<lparr>ed_doc = ed_doc ed, ed_selection = singleRange r, ed_origin = None\<rparr>, True)"
  using assms by (simp add: returnToOrigin_def dispatchTr_def originUpdate_def plain_library_def nullish_def)

text \<open>Claim C25: Escape ends an occurrence selection where it began: after the first press of a command that
  adds occurrences, any further presses and any edits, it leaves one range, the main selection
  from before the first press moved along with the edited text, changes no text, and a second
  Escape is not handled any more.
\<close>

theorem escape_returns_to_start:
  assumes "plain_library plain" "snd (c ed)" "list_all in_session steps" "ed_origin ed = None"
  shows "(let ed1 = foldl (sessionStep plain) (fst (fromOrigin plain c ed)) steps; (ed2, ok) = returnToOrigin plain ed1
     in ok \<and> ed_selection ed2 = singleRange (foldl followed (mainRange (ed_selection ed)) steps)
        \<and> ed_doc ed2 = ed_doc ed1 \<and> \<not> snd (returnToOrigin plain ed2))"
proof -
  let ?r = "mainRange (ed_selection ed)"
  have "ed_origin (fst (fromOrigin plain c ed)) = Some ?r"
    using fromOrigin_origin [of plain c ed, OF assms(1,2)] assms(4) by (simp add: nullish_def)
  from session_origin [OF assms(1,3) this]
  show ?thesis by (simp add: returnToOrigin_there [OF assms(1)] Let_def) (simp add: returnToOrigin_def)
qed

definition plainTr :: library where
  "plainTr ed spec = \<lparr>tr_effects = snd spec, tr_isUserEvent = (\<lambda>_. False),
     tr_newSelection = nullish (fst spec) (ed_selection ed), tr_newDoc = None, tr_map = id\<rparr>"

lemma plainTr_plain: "plain_library plainTr"
  by (simp add: plain_library_def plainTr_def)

text \<open>A second cursor is added, and \<open>ab\<close> is typed before the first: the origin moves by two.\<close>

definition exampleEditor :: editor where
  "exampleEditor = \<lparr>ed_doc = ''x x'', ed_selection = singleRange \<lparr>sr_anchor = 0, sr_head = 1\<rparr>, ed_origin = None\<rparr>"

definition addSecond :: command where
  "addSecond ed = ([\<lparr>tr_effects = [], tr_isUserEvent = (\<lambda>e. e = ''select''),
     tr_newSelection = \<lparr>es_ranges = [\<lparr>sr_anchor = 0, sr_head = 1\<rparr>, \<lparr>sr_anchor = 2, sr_head = 3\<rparr>], es_mainIndex = 1\<rparr>,
     tr_newDoc = None, tr_map = id\<rparr>], True)"

definition typeTwo :: transaction where
  "typeTwo = \<lparr>tr_effects = [], tr_isUserEvent = (\<lambda>e. e = ''input''), tr_newSelection = singleRange \<lparr>sr_anchor = 2, sr_head = 2\<rparr>,
     tr_newDoc = Some ''abx x'', tr_map = (\<lambda>r. \<lparr>sr_anchor = sr_anchor r + 2, sr_head = sr_head r + 2\<rparr>)\<rparr>"

theorem escape_returns_to_start_witness:
  "(let ed1 = foldl (sessionStep plainTr) (fst (fromOrigin plainTr addSecond exampleEditor)) [Press addSecond, Change typeTwo];
        (ed2, ok) = returnToOrigin plainTr ed1
    in ok \<and> ed_selection ed2 = singleRange \<lparr>sr_anchor = 2, sr_head = 3\<rparr> \<and> ed_doc ed2 = ed_doc ed1 \<and> \<not> snd (returnToOrigin plainTr ed2))"
proof -
  have s: "list_all in_session [Press addSecond, Change typeTwo]"
    by (simp add: selects_only_def addSecond_def keeps_session_def typeTwo_def)
  have f: "foldl followed (mainRange (ed_selection exampleEditor)) [Press addSecond, Change typeTwo] = \<lparr>sr_anchor = 2, sr_head = 3\<rparr>"
    by (simp add: exampleEditor_def mainRange_def singleRange_def typeTwo_def)
  show ?thesis
    using escape_returns_to_start [of plainTr addSecond exampleEditor "[Press addSecond, Change typeTwo]"] s
    unfolding f by (simp add: plainTr_plain addSecond_def exampleEditor_def)
qed

text \<open>A click or an arrow key that leaves one cursor ends the session.\<close>

lemma single_cursor_ends_session:
  assumes "originEffect (tr_effects tr) = None" "tr_isUserEvent tr ''select''" "length (es_ranges (tr_newSelection tr)) = 1"
  shows "returnToOrigin plain (dispatchTr ed tr) = (dispatchTr ed tr, False)"
  using assms by (auto simp: returnToOrigin_def dispatchTr_def originUpdate_def split: option.splits)

subsection \<open>The keys of the search commands\<close>

lemma editorKey_some:
  assumes "(b, a) \<in> set bs" "norm b = norm k" "answers a"
  shows "\<exists>a'. editorKey norm answers bs k = Some a'"
proof -
  have "find (\<lambda>(b, a). norm b = norm k \<and> answers a) bs \<noteq> None"
    using assms by (auto simp: find_None_iff)
  then show ?thesis by (auto simp: editorKey_def)
qed

lemma editorKey_member:
  assumes "editorKey norm answers bs k = Some a"
  shows "\<exists>b. (b, a) \<in> set bs \<and> norm b = norm k \<and> answers a"
  using assms by (auto simp: editorKey_def find_Some_iff) (metis nth_mem)

lemma searchBinding_inert:
  assumes "shortcutToCodeMirror s \<noteq> b"
  shows "(b, Inert) \<in> set (searchBinding (s, c, b))"
  using assms by (simp add: searchBinding_def Let_def)

lemma keymap_searchBinding:
  assumes "row \<in> set (searchBindings m)" "x \<in> set (searchBinding row)"
  shows "x \<in> set (editorKeymap m ro)"
  using assms by (auto simp: editorKeymap_def)

text \<open>Each search command stands in one row only, so that its key is the one of its own shortcut.\<close>

definition searchCommands :: "editor_action set" where
  "searchCommands = {OpenSearchPanel, FindNext, FindPrevious, GotoLine, SelectMatches, AddNextMatch}"

lemma search_row_command: "(s, c, b) \<in> set (searchBindings m) \<Longrightarrow> c \<in> searchCommands"
  by (auto simp: searchBindings_def searchCommands_def)

lemma search_row_unique:
  "(s, c, b) \<in> set (searchBindings m) \<Longrightarrow> (s', c, b') \<in> set (searchBindings m) \<Longrightarrow> s' = s"
  by (auto simp: searchBindings_def)

lemma searchBinding_command:
  assumes "(k, c) \<in> set (searchBinding (s, c', b))" "c \<noteq> Inert"
  shows "c = c' \<and> k = shortcutToCodeMirror s"
  using assms by (auto simp: searchBinding_def Let_def split: if_splits)

lemma keymap_search_command:
  assumes "(k, c) \<in> set (editorKeymap m ro)" "c \<in> searchCommands"
  shows "\<exists>row\<in>set (searchBindings m). (k, c) \<in> set (searchBinding row)"
proof -
  have "(k, c) \<notin> set (bind_key s a)" if "a \<notin> searchCommands" for s a
    using that assms(2) by (auto simp: bind_key_def Let_def)
  then show ?thesis using assms by (auto simp: editorKeymap_def searchCommands_def split: if_splits)
qed

lemma search_command_keys:
  assumes "(s, c, b) \<in> set (searchBindings m)" "(k, c) \<in> set (editorKeymap m ro)"
  shows "k = shortcutToCodeMirror s"
proof -
  have c: "c \<in> searchCommands" using assms(1) by (rule search_row_command)
  obtain s' c' b' where row: "(s', c', b') \<in> set (searchBindings m)" "(k, c) \<in> set (searchBinding (s', c', b'))"
    using keymap_search_command [OF assms(2) c] by auto
  have "c = c'" "k = shortcutToCodeMirror s'"
    using searchBinding_command [OF row(2)] c by (auto simp: searchCommands_def)
  with search_row_unique [OF assms(1)] row(1) show ?thesis by blast
qed

text \<open>The settings tell the truth about the editor's search keys: when a search command has been
  moved off its built-in key, that key neither runs the command nor falls through to the
  editor's built-in binding for it.
\<close>

theorem moved_search_key_silent:
  assumes "(s, c, b) \<in> set (searchBindings m)" "norm (shortcutToCodeMirror s) \<noteq> norm b"
  shows "\<exists>a. editorKey norm (handles lib format ro ed) (editorKeymap m ro) b = Some a \<and> a \<noteq> c"
proof -
  have ne: "shortcutToCodeMirror s \<noteq> b" using assms(2) by blast
  have "(b, Inert) \<in> set (editorKeymap m ro)"
    by (rule keymap_searchBinding [OF assms(1) searchBinding_inert [OF ne]])
  then obtain a where a: "editorKey norm (handles lib format ro ed) (editorKeymap m ro) b = Some a"
    using editorKey_some [of b Inert "editorKeymap m ro" norm b "handles lib format ro ed"] by (auto simp: handles_def)
  from editorKey_member [OF this] obtain k where k: "(k, a) \<in> set (editorKeymap m ro)" "norm k = norm b" by blast
  have "a \<noteq> c" using search_command_keys [OF assms(1)] k assms(2) by blast
  with a show ?thesis by blast
qed

theorem moved_search_key_silent_witness:
  "\<exists>a. editorKey id (handles (\<lambda>_ _. True) Some False exampleEditor) (editorKeymap defaultShortcuts False) ''Mod-d'' = Some a
     \<and> a \<noteq> AddNextMatch"
proof (rule moved_search_key_silent [of "''Mod+KeyL''"])
  show "(''Mod+KeyL'', AddNextMatch, ''Mod-d'') \<in> set (searchBindings defaultShortcuts)" by code_simp
  show "id (shortcutToCodeMirror ''Mod+KeyL'') \<noteq> id ''Mod-d''" by code_simp
qed

text \<open>
  The inert binding of an earlier row takes the key from a later row. With the keys of find and
  find-next swapped, which is a valid choice without a conflict, the key chosen for find-next does
  nothing.
\<close>

definition swappedSearch :: shortcut_settings where
  "swappedSearch = AList.update ''findNext'' ''Mod+KeyF'' (AList.update ''findInEditor'' ''Mod+KeyG'' defaultShortcuts)"

theorem swapped_search_key_dead:
  "list_all (\<lambda>(i, v). isValidShortcut v \<and> (i = ''findNext'' \<or> \<not> shortcutsConflict True v ''Mod+KeyF'')) swappedSearch
   \<and> shortcutOf swappedSearch ''findNext'' = ''Mod+KeyF''
   \<and> editorKey id (\<lambda>_. True) (editorKeymap swappedSearch False) (shortcutToCodeMirror ''Mod+KeyF'') = Some Inert"
proof (intro conjI)
  show "list_all (\<lambda>(i, v). isValidShortcut v \<and> (i = ''findNext'' \<or> \<not> shortcutsConflict True v ''Mod+KeyF'')) swappedSearch"
    by code_simp
  show "shortcutOf swappedSearch ''findNext'' = ''Mod+KeyF''" by code_simp
  show "editorKey id (\<lambda>_. True) (editorKeymap swappedSearch False) (shortcutToCodeMirror ''Mod+KeyF'') = Some Inert"
    by code_simp
qed

text \<open>A read-only editor calls back for nothing but a cancellation.\<close>

lemma read_only_never_runs: "callbackOf True a \<in> {None, Some CallCancel}"
  by (cases a) (auto simp: callbackOf_def)

subsection \<open>The range of a routine body\<close>

lemma dollarDelimiter_shape:
  assumes "dollarDelimiter s = Some d"
  shows "\<exists>w. d = dollar # w @ [dollar] \<and> dollar \<notin> set w \<and> take (length d) s = d"
proof -
  obtain r where s: "s = dollar # r" and lt: "length (takeWhile (\<lambda>x. x \<noteq> dollar) r) < length r"
    and d: "d = dollar # takeWhile (\<lambda>x. x \<noteq> dollar) r @ [dollar]"
    using assms by (auto simp: dollarDelimiter_def Let_def split: list.splits if_splits)
  let ?w = "takeWhile (\<lambda>x. x \<noteq> dollar) r"
  have "take (length ?w) r = ?w" by (metis takeWhile_eq_take)
  moreover have "r ! length ?w = dollar" using nth_length_takeWhile [OF lt] by simp
  ultimately have "take (Suc (length ?w)) r = ?w @ [dollar]"
    using lt by (simp add: take_Suc_conv_app_nth)
  moreover have "dollar \<notin> set ?w" by (auto dest: set_takeWhileD)
  ultimately show ?thesis using s d by simp
qed

lemma slice_parts:
  assumes "a + n \<le> b"
  shows "take n (slice s a b) = slice s a (a + n)" "drop n (slice s a b) = slice s (a + n) b"
  using assms by (simp_all add: slice_def drop_take take_take add.commute)

text \<open>The range highlighted as SQL is exactly the body of a dollar quote: it starts right after
  the opening delimiter, is not empty, and ends right before the closing one, or at the end of
  the node when the quote is not closed.
\<close>

theorem routine_body_exact:
  assumes "routineBody input node parent = Some (first, bound)" "sn_to node \<le> length input"
  shows "\<exists>w. (let d = dollar # w @ [dollar] in dollar \<notin> set w \<and> slice input (sn_from node) first = d \<and> first < bound
     \<and> (slice input bound (sn_to node) = d
        \<or> (bound = sn_to node \<and> \<not> (\<exists>body. slice input (sn_from node) (sn_to node) = d @ body @ d))))"
proof -
  let ?source = "slice input (sn_from node) (sn_to node)"
  obtain d where d: "dollarDelimiter ?source = Some d" and first: "first = sn_from node + length d"
    and bound: "bound = sn_to node - (if length ?source \<ge> length d * 2 \<and> ends_with ?source d then length d else 0)"
    and lt: "first < bound"
    using assms(1) by (auto simp: routineBody_def Let_def split: if_splits option.splits prod.splits)
  obtain w where w: "d = dollar # w @ [dollar]" "dollar \<notin> set w" "take (length d) ?source = d"
    using dollarDelimiter_shape [OF d] by blast
  have le: "first \<le> sn_to node" using lt bound by (auto split: if_splits)
  have open_eq: "slice input (sn_from node) first = d"
    using slice_parts(1) [of "sn_from node" "length d" "sn_to node" input] le w(3) by (simp add: first)
  have len: "length ?source = sn_to node - sn_from node" using assms(2) by (simp add: slice_def)
  have "slice input bound (sn_to node) = d \<or> (bound = sn_to node \<and> \<not> (\<exists>body. ?source = d @ body @ d))"
  proof (cases "length ?source \<ge> length d * 2 \<and> ends_with ?source d")
    case True
    then have "drop (length ?source - length d) ?source = d" by (simp add: ends_with_def)
    moreover have "sn_from node + (length ?source - length d) = bound"
    proof -
      have "bound = sn_to node - length d" "length d * 2 \<le> sn_to node - sn_from node" "0 < length d"
        using True bound len w(1) by auto
      then show ?thesis unfolding len by linarith
    qed
    moreover have "drop (length ?source - length d) ?source = slice input (sn_from node + (length ?source - length d)) (sn_to node)"
      by (rule slice_parts(2)) (use True len le first in auto)
    ultimately show ?thesis by simp
  next
    case False
    have "\<not> (\<exists>body. ?source = d @ body @ d)" using False by (auto simp: ends_with_def)
    moreover have "bound = sn_to node" using bound by (simp only: False if_False)
    ultimately show ?thesis by blast
  qed
  with w open_eq lt show ?thesis by (auto simp: Let_def)
qed

definition exampleInput :: string where
  "exampleInput = ''do $a$ b $a$''"

theorem routine_body_exact_witness:
  "\<exists>w. (let d = dollar # w @ [dollar] in dollar \<notin> set w \<and> slice exampleInput 3 6 = d \<and> (6::nat) < 9
     \<and> (slice exampleInput 9 12 = d \<or> ((9::nat) = 12 \<and> \<not> (\<exists>body. slice exampleInput 3 12 = d @ body @ d))))"
proof -
  let ?node = "\<lparr>sn_name = ''String'', sn_from = 3, sn_to = 12\<rparr>"
  have r: "routineBody exampleInput ?node (Some (''Statement'', [\<lparr>sn_name = ''Keyword'', sn_from = 0, sn_to = 2\<rparr>, ?node])) = Some (6, 9)"
    by code_simp
  have "sn_to ?node \<le> length exampleInput" by (simp add: exampleInput_def)
  from routine_body_exact [OF r this] show ?thesis by simp
qed

end
