(* ===== verification/Json_Export.thy ===== *)
theory Json_Export
  imports Value_Text
begin

text \<open>
  The JSON export, \<open>jsonValue\<close> and \<open>toJson\<close> of \<open>src/features/result-grid/exporters.ts\<close>, up to the
  value handed to \<open>JSON.stringify\<close>. \<open>JNumber s\<close> is the number \<open>Number(s)\<close>, and \<open>num s\<close> tells that it
  is finite and not \<open>-0\<close>. The fields of an object are in the order of insertion; JavaScript prints
  names that are array indices first, which changes no field.
\<close>

subsection \<open>Values\<close>

datatype json = JNull | JBool bool | JString string | JNumber string | JArray "json list" | JObject "(string \<times> json) list"

datatype json_error = ExportFailed export_error | CustomBounds | DuplicateColumns

definition jsonScalar :: "(string \<Rightarrow> bool) \<Rightarrow> db_value \<Rightarrow> json_error + json" where
  "jsonScalar num v = (case v of
     VNull \<Rightarrow> Inr JNull
   | VBoolean b \<Rightarrow> Inr (JBool b)
   | VFloat s \<Rightarrow> Inr (if num s then JNumber s else JString s)
   | _ \<Rightarrow> (case exportText (Some v) of Inl e \<Rightarrow> Inl (ExportFailed e) | Inr t \<Rightarrow> Inr (JString t)))"

text \<open>\<open>render\<close>; the leaves of an array are no arrays.\<close>

fun renderJson :: "(string \<Rightarrow> bool) \<Rightarrow> array_tree \<Rightarrow> json_error + json" where
  "renderJson num (Nested items) = (case map_throw (renderJson num) items of Inl e \<Rightarrow> Inl e | Inr js \<Rightarrow> Inr (JArray js))"
| "renderJson num (Leaf item) = jsonScalar num item"

definition jsonArray :: "(string \<Rightarrow> bool) \<Rightarrow> array_dimension list \<Rightarrow> db_value list \<Rightarrow> json_error + json" where
  "jsonArray num dims vs =
     (if vs \<noteq> [] \<and> list_ex (\<lambda>d. ad_lowerBound d \<noteq> 1) dims then Inl CustomBounds
      else case arrayTree dims vs of
        Inl e \<Rightarrow> Inl (ExportFailed e)
      | Inr trees \<Rightarrow> renderJson num (Nested trees))"

definition jsonValue :: "(string \<Rightarrow> bool) \<Rightarrow> db_value option \<Rightarrow> json_error + json" where
  "jsonValue num v = (case v of
     None \<Rightarrow> Inl (ExportFailed NoValue)
   | Some (VArray dims vs t) \<Rightarrow> jsonArray num dims vs
   | Some w \<Rightarrow> jsonScalar num w)"

definition jsonField :: "(string \<Rightarrow> bool) \<Rightarrow> db_value list \<Rightarrow> column_meta \<Rightarrow> json_error + string \<times> json" where
  "jsonField num row c = (case jsonValue num (js_at row (cm_index c)) of Inl e \<Rightarrow> Inl e | Inr j \<Rightarrow> Inr (cm_name c, j))"

definition jsonRow :: "(string \<Rightarrow> bool) \<Rightarrow> column_meta list \<Rightarrow> db_value list \<Rightarrow> json_error + json" where
  "jsonRow num columns row = (case map_throw (jsonField num row) columns of Inl e \<Rightarrow> Inl e | Inr fs \<Rightarrow> Inr (JObject fs))"

definition toJson :: "(string \<Rightarrow> bool) \<Rightarrow> column_meta list \<Rightarrow> db_value list list \<Rightarrow> json_error + json" where
  "toJson num columns rows =
     (if \<not> distinct (map cm_name columns) then Inl DuplicateColumns
      else case map_throw (jsonRow num columns) rows of Inl e \<Rightarrow> Inl e | Inr js \<Rightarrow> Inr (JArray js))"

subsection \<open>What a JSON value says\<close>

text \<open>
  Reading an exported value back: the text of a scalar, and the scalars of an array in their order.
\<close>

fun jsonLeaves :: "json \<Rightarrow> json list" where
  "jsonLeaves (JArray js) = concat (map jsonLeaves js)"
| "jsonLeaves j = [j]"

fun jsonShaped :: "nat list \<Rightarrow> json \<Rightarrow> bool" where
  "jsonShaped [] j = True"
| "jsonShaped (n # ns) (JArray js) = (length js = n \<and> (\<forall>j\<in>set js. jsonShaped ns j))"
| "jsonShaped (n # ns) j = False"

definition sameText :: "db_value \<Rightarrow> json \<Rightarrow> bool" where
  "sameText v j \<longleftrightarrow> (case j of
     JNull \<Rightarrow> v = VNull
   | JBool b \<Rightarrow> v = VBoolean b
   | JNumber s \<Rightarrow> v = VFloat s
   | JString s \<Rightarrow> v \<noteq> VNull \<and> exportText (Some v) = Inr s
   | _ \<Rightarrow> False)"

text \<open>A cell of the result and the JSON value exported for it.\<close>

fun faithful_json :: "db_value \<Rightarrow> json \<Rightarrow> bool" where
  "faithful_json (VArray dims vs t) j \<longleftrightarrow> list_all2 sameText vs (jsonLeaves j) \<and> (vs \<noteq> [] \<longrightarrow> jsonShaped (map (nat \<circ> ad_length) dims) j)"
| "faithful_json v j \<longleftrightarrow> sameText v j"

lemma jsonScalar_same:
  assumes "jsonScalar num v = Inr j"
  shows "sameText v j" "jsonLeaves j = [j]"
  using assms by (auto simp: jsonScalar_def sameText_def exportText_def split: db_value.splits sum.splits if_splits)

lemma renderJson_same:
  assumes "renderJson num t = Inr j"
  shows "list_all2 sameText (leaves t) (jsonLeaves j) \<and> (\<forall>ns. shaped ns t \<longrightarrow> jsonShaped ns j)"
  using assms
proof (induction t arbitrary: j)
  case (Leaf v)
  then show ?case using jsonScalar_same [of num v j] by (auto elim: shaped.elims)
next
  case (Nested items)
  then obtain js where j: "j = JArray js" and js: "list_all2 (\<lambda>t j. renderJson num t = Inr j) items js"
    by (auto simp: map_throw_Inr split: sum.splits)
  have both: "list_all2 (\<lambda>t j. list_all2 sameText (leaves t) (jsonLeaves j) \<and> (\<forall>ns. shaped ns t \<longrightarrow> jsonShaped ns j)) items js"
    by (rule list.rel_mono_strong [OF js]) (use Nested.IH in blast)
  have "list_all2 sameText (concat (map leaves items)) (concat (map jsonLeaves js))"
    using both by (induction items js rule: list_all2_induct) (auto intro: list_all2_appendI)
  moreover have "\<forall>ns. (\<forall>t\<in>set items. shaped ns t) \<longrightarrow> (\<forall>j\<in>set js. jsonShaped ns j)"
    using both by (induction items js rule: list_all2_induct) auto
  moreover have "length js = length items" using js by (simp add: list_all2_lengthD)
  ultimately show ?case using j by (auto elim: shaped.elims)
qed

lemma jsonArray_same:
  assumes "jsonArray num dims vs = Inr j"
  shows "list_all2 sameText vs (jsonLeaves j) \<and> (vs \<noteq> [] \<longrightarrow> jsonShaped (map (nat \<circ> ad_length) dims) j)"
proof -
  obtain trees where t: "arrayTree dims vs = Inr trees" and j: "renderJson num (Nested trees) = Inr j"
    using assms by (auto simp: jsonArray_def split: if_splits sum.splits)
  have "leaves (Nested trees) = vs" "vs \<noteq> [] \<Longrightarrow> shaped (map (nat \<circ> ad_length) dims) (Nested trees)"
    using arrayTree_row_major [of dims vs] t by auto
  with renderJson_same [OF j] show ?thesis by auto
qed

lemma jsonValue_faithful:
  assumes "jsonValue num (Some v) = Inr j"
  shows "faithful_json v j"
proof (cases "is_array v")
  case True
  then obtain dims vs t where v: "v = VArray dims vs t" by (cases v) auto
  then show ?thesis using assms jsonArray_same by (simp add: jsonValue_def)
next
  case False
  then have "jsonScalar num v = Inr j" "faithful_json v j = sameText v j"
    using assms by (cases v; simp add: jsonValue_def)+
  then show ?thesis using jsonScalar_same by blast
qed

lemma jsonRow_fields:
  assumes "jsonRow num columns row = Inr j" "distinct (map cm_name columns)" "c \<in> set columns"
  shows "\<exists>fs v w. j = JObject fs \<and> map fst fs = map cm_name columns \<and> js_at row (cm_index c) = Some v
     \<and> map_of fs (cm_name c) = Some w \<and> faithful_json v w"
proof -
  obtain fs where j: "j = JObject fs" and fs: "list_all2 (\<lambda>c f. jsonField num row c = Inr f) columns fs"
    using assms(1) by (auto simp: jsonRow_def map_throw_Inr split: sum.splits)
  have names: "map fst fs = map cm_name columns"
    using fs by (induction columns fs rule: list_all2_induct) (auto simp: jsonField_def split: sum.splits)
  obtain i where i: "i < length columns" "columns ! i = c" using assms(3) by (auto simp: in_set_conv_nth)
  have "jsonField num row c = Inr (fs ! i)" and len: "i < length fs"
    using list_all2_nthD [OF fs i(1)] list_all2_lengthD [OF fs] i by auto
  then obtain w where f: "fs ! i = (cm_name c, w)" and w: "jsonValue num (js_at row (cm_index c)) = Inr w"
    by (auto simp: jsonField_def eq_commute [of _ "fs ! i"] split: sum.splits)
  obtain v where v: "js_at row (cm_index c) = Some v" using w by (cases "js_at row (cm_index c)") (auto simp: jsonValue_def)
  have "map_of fs (cm_name c) = Some w"
    using assms(2) names f len by (metis map_of_is_SomeI nth_mem)
  moreover have "faithful_json v w" using jsonValue_faithful w v by simp
  ultimately show ?thesis using j names v by blast
qed

text \<open>Claim C40: a JSON export says what the result says: when it succeeds, it is one object for each row,
  in order, with one field for each column; the field's value is null exactly for NULL, a boolean
  or a number only for a boolean or a floating-point value, and otherwise the lossless text, and
  the elements of an array are all there in row-major order under the extents of its dimensions.
\<close>

theorem json_export_faithful:
  assumes "toJson num columns rows = Inr j"
  shows "\<exists>js. j = JArray js \<and> length js = length rows \<and> (\<forall>i<length rows. \<forall>c\<in>set columns. \<exists>fs v w.
     js ! i = JObject fs \<and> map fst fs = map cm_name columns \<and> js_at (rows ! i) (cm_index c) = Some v
     \<and> map_of fs (cm_name c) = Some w \<and> faithful_json v w)"
proof -
  have d: "distinct (map cm_name columns)" using assms by (auto simp: toJson_def split: if_splits)
  obtain js where j: "j = JArray js" and js: "list_all2 (\<lambda>row j. jsonRow num columns row = Inr j) rows js"
    using assms by (auto simp: toJson_def map_throw_Inr split: if_splits sum.splits)
  show ?thesis using j list_all2_lengthD [OF js] list_all2_nthD [OF js] jsonRow_fields [OF _ d] by metis
qed

definition json_columns :: "column_meta list" where
  "json_columns = [\<lparr>cm_index = 0, cm_name = ''a'', cm_pgTypeOid = 700, cm_pgTypeName = ''float4'', cm_category = FloatC,
     cm_source = None, cm_nullable = None, cm_editable = False\<rparr>,
     \<lparr>cm_index = 1, cm_name = ''b'', cm_pgTypeOid = 1009, cm_pgTypeName = ''text[]'', cm_category = ArrayC,
     cm_source = None, cm_nullable = None, cm_editable = False\<rparr>]"

definition json_rows :: "db_value list list" where
  "json_rows = [[VFloat ''1.5'', VArray [\<lparr>ad_lowerBound = 1, ad_length = 2\<rparr>] [VText ''x'', VNull] 25]]"

theorem json_export_faithful_witness:
  "\<exists>fs v w. JObject [(''a'', JNumber ''1.5''), (''b'', JArray [JString ''x'', JNull])] = JObject fs
     \<and> map fst fs = map cm_name json_columns \<and> js_at (json_rows ! 0) 1 = Some v \<and> map_of fs ''b'' = Some w \<and> faithful_json v w"
proof -
  have j: "toJson (\<lambda>s. s = ''1.5'') json_columns json_rows
      = Inr (JArray [JObject [(''a'', JNumber ''1.5''), (''b'', JArray [JString ''x'', JNull])]])"
    by code_simp
  have c: "json_columns ! 1 \<in> set json_columns" "cm_index (json_columns ! 1) = 1" "cm_name (json_columns ! 1) = ''b''"
    "length json_rows = 1" by (simp_all add: json_columns_def json_rows_def)
  show ?thesis using json_export_faithful [OF j] c by fastforce
qed

end
