(* ===== verification/Property_View.thy ===== *)
theory Property_View
  imports Db_Types
begin

text \<open>
  The properties of a relation, \<open>src/features/object-explorer/TablePropertiesView.tsx\<close>: which sections
  a relation has and which is shown, the rows of the table of columns, and the rows of the table of
  indexes with the ones that are expanded. Markup is left out; an index name is marked when the
  index is not valid.
\<close>

subsection \<open>Sections\<close>

datatype property_section = ColumnsSection | IndexesSection | DdlSection

definition sectionsFor :: "string option \<Rightarrow> property_section list" where
  "sectionsFor kind =
     [ColumnsSection]
     @ (if truthy_str kind \<and> kind \<noteq> Some ''view'' then [IndexesSection] else [])
     @ (if truthy_str kind then [DdlSection] else [])"

definition shownSection :: "table_metadata option \<Rightarrow> property_section \<Rightarrow> property_section" where
  "shownSection meta section =
     (if section \<in> set (sectionsFor (map_option tm_kind meta)) then section else ColumnsSection)"

datatype ddl_source = ViewDefinition | TableDdl

definition ddlSource :: "table_metadata option \<Rightarrow> ddl_source" where
  "ddlSource meta = (if map_option tm_kind meta \<in> {Some ''view'', Some ''materialized-view''} then ViewDefinition else TableDdl)"

lemma shown_section_offered: "shownSection meta section \<in> set (sectionsFor (map_option tm_kind meta))"
  by (auto simp: shownSection_def sectionsFor_def)

text \<open>DDL is read only once the kind is known, and from the source of that kind.\<close>

lemma ddl_waits_for_kind: "shownSection meta section = DdlSection \<Longrightarrow> \<exists>m. meta = Some m \<and> tm_kind m \<noteq> ''''"
  by (cases meta) (auto simp: shownSection_def sectionsFor_def truthy_str_def split: if_splits)

subsection \<open>Columns\<close>

text \<open>The cells under the headings \<open>#\<close>, \<open>column name\<close>, \<open>data type\<close>, \<open>not null\<close>, \<open>default\<close>, \<open>comment\<close>.\<close>

definition columnRow :: "table_column_metadata \<Rightarrow> string list" where
  "columnRow c = [show_int (tc_attributeNumber c), tc_name c, tc_pgTypeName c,
     if tc_nullable c then ''YES'' else ''NO'', nullish (tc_defaultExpr c) ''-'', nullish (tc_comment c) ''-'']"

definition columnHeadings :: "string list" where
  "columnHeadings = [''#'', ''column name'', ''data type'', ''not null'', ''default'', ''comment'']"

text \<open>
  The column headed \<open>not null\<close> says YES exactly for the columns that do accept NULL.
\<close>

theorem not_null_column_inverted:
  "columnHeadings ! 3 = ''not null'' \<and> (columnRow c ! 3 = ''YES'' \<longleftrightarrow> tc_nullable c)"
  by (simp add: columnRow_def columnHeadings_def)

subsection \<open>Indexes\<close>

record index_column =
  ic_name :: string
  ic_isExpression :: bool
  ic_isKey :: bool
  ic_descending :: "bool option"
  ic_nullsFirst :: "bool option"
  ic_nullable :: "bool option"

record table_index =
  ix_name :: string
  ix_method :: string
  ix_isPrimary :: bool
  ix_isUnique :: bool
  ix_isValid :: bool
  ix_predicate :: "string option"
  ix_columns :: "index_column list"

definition yesNo :: "bool option \<Rightarrow> string" where
  "yesNo v = (case v of None \<Rightarrow> ''-'' | Some b \<Rightarrow> if b then ''YES'' else ''NO'')"

definition orderLabel :: "index_column \<Rightarrow> string" where
  "orderLabel c = (case ic_descending c of
     None \<Rightarrow> ''-''
   | Some d \<Rightarrow>
       let direction = (if d then ''DESC'' else ''ASC'') in
       if ic_nullsFirst c = Some d then direction
       else direction @ '' NULLS '' @ (if ic_nullsFirst c = Some True then ''FIRST'' else ''LAST''))"

record index_summary =
  su_columns :: string
  su_order :: string
  su_nullable :: string

definition indexKeys :: "table_index \<Rightarrow> index_column list" where
  "indexKeys i = filter ic_isKey (ix_columns i)"

definition index_summary_of :: "table_index \<Rightarrow> index_summary" where
  "index_summary_of i =
     (let keys = indexKeys i; included = filter (\<lambda>c. \<not> ic_isKey c) (ix_columns i);
          orders = map orderLabel keys; nullables = map ic_nullable keys
      in \<lparr>su_columns = join '', '' (map ic_name keys)
            @ (if included \<noteq> [] then '' INCLUDE ('' @ join '', '' (map ic_name included) @ '')'' else ''''),
          su_order = (if list_all (\<lambda>lab. Some lab = js_at orders 0) orders then nullish (js_at orders 0) ''-'' else join '', '' orders),
          su_nullable = (if Some True \<in> set nullables then ''YES'' else if None \<in> set nullables then ''-'' else ''NO'')\<rparr>)"

definition toggleIndex :: "string js_set \<Rightarrow> string \<Rightarrow> string js_set" where
  "toggleIndex expanded name = (if name \<in> set expanded then js_set_delete name expanded else js_set_add name expanded)"

definition indexRow :: "table_index \<Rightarrow> string list" where
  "indexRow i = (let s = index_summary_of i in
     [su_columns s, ix_name i @ (if ix_isValid i then '''' else ''INVALID''), yesNo (Some (ix_isPrimary i)), yesNo (Some (ix_isUnique i)),
      su_nullable s, su_order s, ix_method i, nullish (ix_predicate i) ''-''])"

definition indexColumnRow :: "index_column \<Rightarrow> string list" where
  "indexColumnRow c = [ic_name c @ (if ic_isKey c then '''' else ''INCLUDE''), '''', '''', '''', yesNo (ic_nullable c), orderLabel c, '''', '''']"

definition indexTable :: "string js_set \<Rightarrow> table_index list \<Rightarrow> string list list" where
  "indexTable expanded ixs = concat (map (\<lambda>i. indexRow i # (if ix_name i \<in> set expanded then map indexColumnRow (ix_columns i) else [])) ixs)"

text \<open>The label tells the direction and the place of the NULLs apart, whatever is left unsaid.\<close>

lemma orderLabel_injective:
  assumes "ic_descending c = Some d" "ic_nullsFirst c = Some n" "ic_descending c' = Some d'" "ic_nullsFirst c' = Some n'"
    and "orderLabel c = orderLabel c'"
  shows "d = d' \<and> n = n'"
  using assms by (cases d; cases d'; cases n; cases n'; simp add: orderLabel_def)

lemma orderLabel_unordered: "ic_descending c = None \<longleftrightarrow> orderLabel c = ''-''"
  by (cases "ic_descending c") (auto simp: orderLabel_def Let_def)

text \<open>One label stands for all keys only when it is the label of each of them.\<close>

lemma summary_order_common:
  assumes "list_all (\<lambda>c. orderLabel c = lab) (indexKeys i)" "indexKeys i \<noteq> []"
  shows "su_order (index_summary_of i) = lab"
proof -
  obtain c cs where k: "indexKeys i = c # cs" using assms(2) by (cases "indexKeys i") auto
  have a: "list_all (\<lambda>l. l = lab) (map orderLabel (indexKeys i))" using assms(1) by (simp add: list_all_iff)
  have "js_at (map orderLabel (indexKeys i)) 0 = Some lab" using assms(1) by (simp add: k js_at_def)
  with a show ?thesis by (simp add: index_summary_of_def Let_def nullish_def list_all_iff)
qed

text \<open>The summary of an index is right about NULLs: it says NO only when every key column is known
  to be NOT NULL, so that the uniqueness it shows binds every row; YES exactly when some key column
  accepts NULL; and a dash when it cannot be known.
\<close>

theorem index_nullability_sound:
  "(su_nullable (index_summary_of i) = ''NO'' \<longleftrightarrow> (\<forall>c\<in>set (ix_columns i). ic_isKey c \<longrightarrow> ic_nullable c = Some False))
   \<and> (su_nullable (index_summary_of i) = ''YES'' \<longleftrightarrow> (\<exists>c\<in>set (ix_columns i). ic_isKey c \<and> ic_nullable c = Some True))
   \<and> (su_nullable (index_summary_of i) \<in> {''YES'', ''NO'', ''-''})"
proof -
  have "x = Some False \<or> x = Some True \<or> x = None" for x :: "bool option" by (cases x) auto
  then show ?thesis by (auto simp: index_summary_of_def indexKeys_def Let_def image_iff) metis+
qed

lemma toggle_toggle: "set (toggleIndex (toggleIndex expanded name) name) = set expanded"
  by (auto simp: toggleIndex_def js_set_delete_def js_set_add_def)

text \<open>Every index has its row, and the rows of its columns follow it exactly when it is expanded.\<close>

lemma indexTable_length:
  "length (indexTable expanded ixs) = sum_list (map (\<lambda>i. 1 + (if ix_name i \<in> set expanded then length (ix_columns i) else 0)) ixs)"
  by (induction ixs) (simp_all add: indexTable_def)

end
