(* ===== verification/Dialogs.thy ===== *)
theory Dialogs
  imports Js_Prelude
begin

text \<open>
  The two dialogs of \<open>src/shared/ui/prompt.ts\<close>, on the events a user causes while one is shown. A
  submit of the form, a press of a button or Escape closes the dialog, and the handler of \<open>close\<close>
  resolves the promise; the answers are the values it is resolved with. Enter in the text field
  presses the submit button; Enter on a focused button presses that button.
\<close>

datatype dialog_button = OkButton | CancelButton

datatype dialog_event = TypeText string | Click dialog_button | Focus dialog_button | EnterKey | EscapeKey

subsection \<open>Asking for a text\<close>

record prompt =
  pr_input :: string
  pr_value :: "string option"
  pr_open :: bool
  pr_answers :: "string option list"

definition openPrompt :: "string \<Rightarrow> prompt" where
  "openPrompt defaultValue = \<lparr>pr_input = defaultValue, pr_value = None, pr_open = True, pr_answers = []\<rparr>"

definition closePrompt :: "prompt \<Rightarrow> prompt" where
  "closePrompt p = p\<lparr>pr_open := False, pr_answers := pr_answers p @ [pr_value p]\<rparr>"

definition promptOk :: "prompt \<Rightarrow> prompt" where
  "promptOk p = closePrompt (p\<lparr>pr_value := Some (pr_input p)\<rparr>)"

definition promptEvent :: "prompt \<Rightarrow> dialog_event \<Rightarrow> prompt" where
  "promptEvent p e =
     (if \<not> pr_open p then p
      else case e of
        TypeText s \<Rightarrow> p\<lparr>pr_input := s\<rparr>
      | Click OkButton \<Rightarrow> promptOk p
      | Click CancelButton \<Rightarrow> closePrompt p
      | Focus b \<Rightarrow> p
      | EnterKey \<Rightarrow> promptOk p
      | EscapeKey \<Rightarrow> closePrompt p)"

subsection \<open>Asking for a confirmation\<close>

record confirmation =
  cf_accepted :: bool
  cf_focus :: dialog_button
  cf_open :: bool
  cf_answers :: "bool list"

definition openConfirm :: confirmation where
  "openConfirm = \<lparr>cf_accepted = False, cf_focus = CancelButton, cf_open = True, cf_answers = []\<rparr>"

definition closeConfirm :: "confirmation \<Rightarrow> confirmation" where
  "closeConfirm c = c\<lparr>cf_open := False, cf_answers := cf_answers c @ [cf_accepted c]\<rparr>"

definition pressButton :: "confirmation \<Rightarrow> dialog_button \<Rightarrow> confirmation" where
  "pressButton c b = (case b of OkButton \<Rightarrow> closeConfirm (c\<lparr>cf_accepted := True\<rparr>) | CancelButton \<Rightarrow> closeConfirm c)"

definition confirmEvent :: "confirmation \<Rightarrow> dialog_event \<Rightarrow> confirmation" where
  "confirmEvent c e =
     (if \<not> cf_open c then c
      else case e of
        Click b \<Rightarrow> pressButton c b
      | EnterKey \<Rightarrow> pressButton c (cf_focus c)
      | Focus b \<Rightarrow> c\<lparr>cf_focus := b\<rparr>
      | EscapeKey \<Rightarrow> closeConfirm c
      | TypeText s \<Rightarrow> c)"

subsection \<open>One answer each\<close>

definition prompt_ok :: "prompt \<Rightarrow> bool" where
  "prompt_ok p \<longleftrightarrow> (if pr_open p then pr_answers p = [] \<and> pr_value p = None else pr_answers p \<in> {[None], [Some (pr_input p)]})"

lemma prompt_ok_step: "prompt_ok p \<Longrightarrow> prompt_ok (promptEvent p e)"
  by (auto simp: prompt_ok_def promptEvent_def promptOk_def closePrompt_def split: dialog_event.splits dialog_button.splits)

lemma prompt_ok_run: "prompt_ok p \<Longrightarrow> prompt_ok (foldl promptEvent p es)"
  by (induction es arbitrary: p) (auto simp: prompt_ok_step)

text \<open>The answer of a confirmation, and what moved the focus to the other button.\<close>

definition confirm_ok :: "confirmation \<Rightarrow> bool" where
  "confirm_ok c \<longleftrightarrow> (if cf_open c then cf_answers c = [] \<and> \<not> cf_accepted c else cf_answers c = [cf_accepted c])"

lemma confirm_ok_step: "confirm_ok c \<Longrightarrow> confirm_ok (confirmEvent c e)"
  by (auto simp: confirm_ok_def confirmEvent_def pressButton_def closeConfirm_def split: dialog_event.splits dialog_button.splits)

lemma confirm_ok_run: "confirm_ok c \<Longrightarrow> confirm_ok (foldl confirmEvent c es)"
  by (induction es arbitrary: c) (auto simp: confirm_ok_step)

text \<open>Accepting takes a press of the button itself, or Enter after the focus was moved there.\<close>

lemma accepted_needs_button:
  assumes "cf_accepted (foldl confirmEvent c es)" "\<not> cf_accepted c" "cf_focus c = CancelButton"
  shows "Click OkButton \<in> set es \<or> Focus OkButton \<in> set es"
  using assms
proof (induction es arbitrary: c)
  case (Cons e es)
  show ?case
  proof (cases "e = Click OkButton \<or> e = Focus OkButton")
    case False
    have "b = CancelButton" if "b \<noteq> OkButton" for b using that by (cases b) auto
    with False have "\<not> cf_accepted (confirmEvent c e)" "cf_focus (confirmEvent c e) = CancelButton"
      using Cons.prems(2,3)
      by (auto simp: confirmEvent_def pressButton_def closeConfirm_def split: dialog_event.splits dialog_button.splits)
    with Cons show ?thesis by auto
  qed auto
qed simp

text \<open>A confirmation is answered at most once, exactly when it is closed, and never with yes unless
  the user pressed that button or moved the focus to it: a stray Enter, typed text and Escape all
  keep the data.
\<close>

theorem confirmation_is_deliberate:
  "(let c = foldl confirmEvent openConfirm es in
     length (cf_answers c) = (if cf_open c then 0 else 1)
     \<and> (cf_answers c = [True] \<longrightarrow> Click OkButton \<in> set es \<or> Focus OkButton \<in> set es))"
proof -
  let ?c = "foldl confirmEvent openConfirm es"
  have ok: "confirm_ok ?c" by (rule confirm_ok_run) (simp add: confirm_ok_def openConfirm_def)
  have "cf_accepted ?c \<Longrightarrow> Click OkButton \<in> set es \<or> Focus OkButton \<in> set es"
    using accepted_needs_button [of openConfirm es] by (simp add: openConfirm_def)
  with ok show ?thesis by (auto simp: confirm_ok_def Let_def split: if_splits)
qed

theorem confirmation_is_deliberate_witness:
  "foldl confirmEvent openConfirm [TypeText ''y'', EnterKey] = openConfirm\<lparr>cf_open := False, cf_answers := [False]\<rparr>
   \<and> length (cf_answers (foldl confirmEvent openConfirm [TypeText ''y'', EnterKey])) = 1"
proof -
  have "foldl confirmEvent openConfirm [TypeText ''y'', EnterKey] = openConfirm\<lparr>cf_open := False, cf_answers := [False]\<rparr>"
    by (simp add: confirmEvent_def openConfirm_def pressButton_def closeConfirm_def)
  then show ?thesis using confirmation_is_deliberate [of "[TypeText ''y'', EnterKey]"] by (simp add: Let_def)
qed

text \<open>A prompt answers at most once, with the text in its field or with nothing.\<close>

lemma prompt_answers_once:
  "(let p = foldl promptEvent (openPrompt d) es in
     if pr_open p then pr_answers p = [] else pr_answers p = [None] \<or> pr_answers p = [Some (pr_input p)])"
proof -
  have "prompt_ok (foldl promptEvent (openPrompt d) es)"
    by (rule prompt_ok_run) (simp add: prompt_ok_def openPrompt_def)
  then show ?thesis by (auto simp: prompt_ok_def Let_def split: if_splits)
qed

end
