(* ===== verification/Simulation.thy ===== *)
theory Simulation
  imports Contracts
begin

text \<open>
  Refinement of a machine by another one. A concrete machine with its guard and invariant is read
  through an abstraction function; every guarded step is the abstract step on what is read. The client
  lemma: a run is the abstract run. The edit buffer and the subscriptions of the stores
  are interpretations.
\<close>

locale simulation =
  fixes step :: "'s \<Rightarrow> 'a \<Rightarrow> 's option"
    and ok :: "'s \<Rightarrow> 'a \<Rightarrow> bool"
    and inv :: "'s \<Rightarrow> bool"
    and abs :: "'s \<Rightarrow> 't"
    and astep :: "'t \<Rightarrow> 'a \<Rightarrow> 't"
  assumes step_simulates: "inv s \<Longrightarrow> ok s a \<Longrightarrow> \<exists>s'. step s a = Some s' \<and> inv s' \<and> abs s' = astep (abs s) a"

sublocale simulation \<subseteq> machine: guarded_machine step ok inv
  using step_simulates by unfold_locales blast

context simulation
begin

lemma run_refines:
  "inv s \<Longrightarrow> run_ok step ok s as \<Longrightarrow> \<exists>s'. run_actions step s as = Some s' \<and> inv s' \<and> abs s' = foldl astep (abs s) as"
proof (induction as arbitrary: s)
  case (Cons a as)
  then obtain s' where "step s a = Some s'" "inv s'" "abs s' = astep (abs s) a"
    using step_simulates by force
  with Cons show ?case by force
qed simp

end

end
