(* ===== verification/Edit_Overlay.thy ===== *)
theory Edit_Overlay
  imports Save_Changes Simulation
begin

text \<open>
  The edit buffer as the overlay it stands for. The maps in insertion order of
  \<open>src/entities/result/editStore.ts\<close> are read as a function from cells to drafts, a set of deleted rows
  and the rows to insert, without the order and the empty rows that the representation could hold;
  every operation of the store is the operation on the overlay. Conflict resolution moves the
  drafts with their rows.
\<close>

subsection \<open>The specification\<close>

record overlay =
  ov_draft :: "int \<Rightarrow> string \<Rightarrow> cell_draft option"
  ov_deleted :: "int set"
  ov_inserts :: "(string \<times> (string \<Rightarrow> insert_cell option)) list"
  ov_locked :: bool

definition noEdits :: overlay where
  "noEdits = \<lparr>ov_draft = (\<lambda>_ _. None), ov_deleted = {}, ov_inserts = [], ov_locked = False\<rparr>"

text \<open>The rows that are kept move to their new places; nothing else is edited afterwards.\<close>

definition movedDraft :: "int set \<Rightarrow> (int \<Rightarrow> int) \<Rightarrow> (int \<Rightarrow> string \<Rightarrow> cell_draft option) \<Rightarrow> int \<Rightarrow> string \<Rightarrow> cell_draft option" where
  "movedDraft resolved place f i = (if i \<in> place ` (- resolved) then f (inv_into (- resolved) place i) else (\<lambda>_. None))"

fun overlayOp :: "edit_op \<Rightarrow> overlay \<Rightarrow> overlay" where
  "overlayOp (SetCell i c d) o' = o'\<lparr>ov_draft := (ov_draft o')(i := (ov_draft o' i)(c := d))\<rparr>"
| "overlayOp (ToggleDelete i) o' = o'\<lparr>ov_deleted := (if i \<in> ov_deleted o' then ov_deleted o' - {i} else insert i (ov_deleted o'))\<rparr>"
| "overlayOp (AddInsert u cells) o' = o'\<lparr>ov_inserts := ov_inserts o' @ [(u, map_of cells)]\<rparr>"
| "overlayOp (SetInsertCell u c x) o' = o'\<lparr>ov_inserts := map (\<lambda>(v, m). (v, if v = u then m(c \<mapsto> x) else m)) (ov_inserts o')\<rparr>"
| "overlayOp (RemoveInsert u) o' = o'\<lparr>ov_inserts := filter (\<lambda>(v, m). v \<noteq> u) (ov_inserts o')\<rparr>"
| "overlayOp ClearEdits o' = noEdits"
| "overlayOp (SetLocked b) o' = o'\<lparr>ov_locked := b\<rparr>"
| "overlayOp (ResolveRows resolved removed) o' =
     o'\<lparr>ov_draft := movedDraft (set resolved) (rebase removed) (ov_draft o'),
       ov_deleted := rebase removed ` (ov_deleted o' - set resolved)\<rparr>"

text \<open>A locked overlay takes no edits; clearing, locking and resolving are not edits.\<close>

fun isEdit :: "edit_op \<Rightarrow> bool" where
  "isEdit ClearEdits = False"
| "isEdit (SetLocked b) = False"
| "isEdit (ResolveRows resolved removed) = False"
| "isEdit q = True"

definition overlayStep :: "(string \<Rightarrow> overlay) \<Rightarrow> edit_op \<times> string \<Rightarrow> string \<Rightarrow> overlay" where
  "overlayStep v p = (case p of (q, tab) \<Rightarrow>
     if isEdit q \<and> ov_locked (v tab) then v else v(tab := overlayOp q (v tab)))"

subsection \<open>The refinement\<close>

definition overlayOf :: "edit_snapshot \<Rightarrow> overlay" where
  "overlayOf s = \<lparr>ov_draft = draft_at s, ov_deleted = set (es_deletes s),
     ov_inserts = map (\<lambda>d. (id_draftId d, map_of (id_cells d))) (es_inserts s), ov_locked = es_locked s\<rparr>"

definition overlays :: "edit_store \<Rightarrow> string \<Rightarrow> overlay" where
  "overlays st tab = overlayOf (getEdits st tab)"

lemma overlayOf_EMPTY [simp]: "overlayOf EMPTY_EDITS = noEdits"
  by (simp add: overlayOf_def EMPTY_EDITS_def noEdits_def draft_at_def fun_eq_iff)

lemma overlayOf_count [simp]: "overlayOf (s\<lparr>es_pendingCount := n\<rparr>) = overlayOf s"
  by (simp add: overlayOf_def)

lemma overlays_commit [simp]: "overlays (commitEdits st tab s) = (overlays st)(tab := overlayOf s)"
  by (auto simp: overlays_def fun_eq_iff)

lemma overlayOf_locked [simp]: "ov_locked (overlayOf s) = es_locked s"
  by (simp add: overlayOf_def)

lemma draft_at_frame [simp]:
  "draft_at (s\<lparr>es_deletes := ds\<rparr>) = draft_at s" "draft_at (s\<lparr>es_inserts := is\<rparr>) = draft_at s"
  "draft_at (s\<lparr>es_locked := b\<rparr>) = draft_at s"
  by (simp_all add: draft_at_def fun_eq_iff)

lemma setCellIn_frame [simp]:
  "es_deletes (setCellIn i c d s) = es_deletes s" "es_inserts (setCellIn i c d s) = es_inserts s"
  "es_locked (setCellIn i c d s) = es_locked s"
  by (simp_all add: setCellIn_def Let_def)

lemma overlayOf_setCell: "overlayOf (setCellIn i c d s) = overlayOp (SetCell i c d) (overlayOf s)"
  by (auto simp: overlayOf_def draft_at_setCellIn fun_eq_iff)

lemma overlayOf_resolve:
  assumes "buffer_ok (getEdits st tab)" "distinct removed" "set removed \<subseteq> set resolved"
  shows "overlayOf (getEdits (resolveRows st tab resolved removed) tab)
     = overlayOp (ResolveRows resolved removed) (overlayOf (getEdits st tab))"
proof -
  let ?s = "getEdits st tab" and ?s' = "getEdits (resolveRows st tab resolved removed) tab" and ?p = "rebase removed"
  note r = resolveRows_drafts [OF assms]
  have inj: "inj_on ?p (- set resolved)" using rebase_inj [OF assms(2)] assms(3) by (blast intro: inj_on_subset)
  have "draft_at ?s' i c = movedDraft (set resolved) ?p (draft_at ?s) i c" for i c
  proof (cases "i \<in> ?p ` (- set resolved)")
    case True
    then obtain j where j: "i = ?p j" "j \<notin> set resolved" by auto
    then have "inv_into (- set resolved) ?p i = j" using inj by simp
    with True j r(1) show ?thesis by (simp add: movedDraft_def)
  next
    case False
    with r(3) have "i \<notin> fst ` set (es_updates ?s')" by blast
    then have "map_of (es_updates ?s') i = None" by (simp add: map_of_eq_None_iff)
    with False show ?thesis by (simp add: movedDraft_def draft_at_def)
  qed
  moreover have "set (es_deletes ?s') = ?p ` (set (es_deletes ?s) - set resolved)"
    using buffer_ok_resolve [OF assms] by (auto simp: resolveRows_def Let_def keptDeletes_def)
  moreover have "es_locked ?s' = es_locked ?s" by (simp add: resolveRows_def Let_def)
  ultimately show ?thesis using r(4) by (simp add: overlayOf_def fun_eq_iff)
qed

lemma overlays_resolve:
  "overlays (resolveRows st tab resolved removed)
     = (overlays st)(tab := overlayOf (getEdits (resolveRows st tab resolved removed) tab))"
  by (simp add: resolveRows_def Let_def)

lemma edit_step_overlay:
  assumes inv: "edits_inv st" and ok: "edit_ok st p" and step: "edit_step st p = Some st'"
  shows "overlays st' = overlayStep (overlays st) p"
proof -
  obtain q tab where p: "p = (q, tab)" by (cases p)
  have locked: "ov_locked (overlays st tab) = es_locked (getEdits st tab)" by (simp add: overlays_def)
  show ?thesis
  proof (cases q)
    case (SetCell i c d)
    then show ?thesis using step p
      by (auto simp: setCell_def overlayStep_def locked overlayOf_setCell simp del: overlayOp.simps) (simp add: overlays_def)
  next
    case (ResolveRows resolved removed)
    then show ?thesis using step ok p overlayOf_resolve [OF buffer_ok_getEdits [OF inv, of tab], of removed resolved]
      by (auto simp: overlays_resolve overlayStep_def simp del: overlayOp.simps) (simp add: overlays_def)
  next
    case ClearEdits
    then show ?thesis using step p by (auto simp: overlayStep_def overlays_def fun_eq_iff)
  qed (use step p locked in \<open>auto simp: toggleDelete_def addInsert_def setInsertCell_def removeInsert_def setLocked_def
      overlayStep_def Let_def js_set_delete_def js_set_add_def overlays_def overlayOf_def fun_eq_iff comp_def filter_map case_prod_unfold
      split: if_splits\<close>)
qed

interpretation buffer: simulation edit_step edit_ok edits_inv overlays overlayStep
proof
  fix st p
  assume "edits_inv st" "edit_ok st p"
  then show "\<exists>st'. edit_step st p = Some st' \<and> edits_inv st' \<and> overlays st' = overlayStep (overlays st) p"
    using edit_step_inv [of st p] edit_step_overlay [of st p] by blast
qed

text \<open>Claim C15: the edit buffer is the overlay it stands for. Whatever sequence of edits, deletions,
  inserts, locks and conflict resolutions its callers make over all result tabs, no operation
  throws, and what the buffers hold in the end is what the same operations make of plain functions
  from cells to drafts and of sets of rows, where a locked overlay takes no edit and a conflict
  resolution moves each kept draft with its row.\<close>

theorem edit_buffer_is_overlay:
  assumes "run_ok edit_step edit_ok emptyEditStore ops"
  shows "\<exists>st. run_actions edit_step emptyEditStore ops = Some st \<and> overlays st = foldl overlayStep (\<lambda>_. noEdits) ops"
proof -
  have "edits_inv emptyEditStore" by (simp add: edits_inv_def emptyEditStore_def)
  moreover have "overlays emptyEditStore = (\<lambda>_. noEdits)"
    by (simp add: overlays_def getEdits_def emptyEditStore_def fun_eq_iff)
  ultimately show ?thesis using buffer.run_refines [OF _ assms] by auto
qed

definition overlay_ops :: "(edit_op \<times> string) list" where
  "overlay_ops = [(SetCell 2 ''a'' (Some None), ''r''), (ToggleDelete 1, ''r''), (ResolveRows [0] [0], ''r''), (SetLocked True, ''r''),
     (SetCell 5 ''a'' (Some None), ''r'')]"

theorem edit_buffer_is_overlay_witness:
  "run_ok edit_step edit_ok emptyEditStore overlay_ops
   \<and> (\<exists>st. run_actions edit_step emptyEditStore overlay_ops = Some st \<and> overlays st = foldl overlayStep (\<lambda>_. noEdits) overlay_ops
        \<and> draft_at (getEdits st ''r'') 1 ''a'' = Some None \<and> es_deletes (getEdits st ''r'') = [0])"
proof -
  have ok: "run_ok edit_step edit_ok emptyEditStore overlay_ops" by code_simp
  obtain st where st: "run_actions edit_step emptyEditStore overlay_ops = Some st" "overlays st = foldl overlayStep (\<lambda>_. noEdits) overlay_ops"
    using edit_buffer_is_overlay [OF ok] by blast
  have "map_option (\<lambda>st. (draft_at (getEdits st ''r'') 1 ''a'', es_deletes (getEdits st ''r''))) (run_actions edit_step emptyEditStore overlay_ops)
      = Some (Some None, [0])" by code_simp
  with st ok show ?thesis by auto
qed

end
