(* ===== verification/Subscriptions.thy ===== *)
theory Subscriptions
  imports Simulation
begin

text \<open>
  The listeners of the stores: \<open>subscribe\<close> and \<open>emit\<close> of \<open>src/entities/result/editStore.ts\<close> and
  \<open>resultStore.ts\<close>, and \<open>subscribeWorkspace\<close> of \<open>src/entities/workspace/workspaceStore.ts\<close>. A key has a \<open>Set\<close> of
  listeners, which is created with the first of them and dropped with the last. The function that
  \<open>subscribe\<close> returns holds on to the set object it was made with, so the sets are in a heap; the
  functions returned and not called yet are kept by their key and listener.
\<close>

subsection \<open>State and operations\<close>

record subscriptions =
  sb_sets :: "(nat, string js_set) js_map"
  sb_listeners :: "(string, nat) js_map"
  sb_next :: nat
  sb_closures :: "(string \<times> string, nat) js_map"

definition noSubscriptions :: subscriptions where
  "noSubscriptions = \<lparr>sb_sets = [], sb_listeners = [], sb_next = 0, sb_closures = []\<rparr>"

definition setAt :: "subscriptions \<Rightarrow> nat \<Rightarrow> string js_set" where
  "setAt s r = nullish (map_of (sb_sets s) r) []"

text \<open>\<open>set.add(fn)\<close> and the closure over \<open>set\<close>.\<close>

definition addListener :: "subscriptions \<Rightarrow> string \<Rightarrow> string \<Rightarrow> nat \<Rightarrow> subscriptions" where
  "addListener s k fn r = s\<lparr>sb_sets := AList.update r (js_set_add fn (setAt s r)) (sb_sets s),
     sb_closures := AList.update (k, fn) r (sb_closures s)\<rparr>"

definition newSet :: "subscriptions \<Rightarrow> string \<Rightarrow> subscriptions" where
  "newSet s k = s\<lparr>sb_sets := AList.update (sb_next s) [] (sb_sets s), sb_listeners := AList.update k (sb_next s) (sb_listeners s),
     sb_next := Suc (sb_next s)\<rparr>"

definition subscribe :: "subscriptions \<Rightarrow> string \<Rightarrow> string \<Rightarrow> subscriptions" where
  "subscribe s k fn = (case map_of (sb_listeners s) k of
     Some r \<Rightarrow> addListener s k fn r
   | None \<Rightarrow> addListener (newSet s k) k fn (sb_next s))"

text \<open>\<open>ResultStore.subscribe\<close> is the same code. \<open>subscribeWorkspace\<close> stores the set again when there is one.\<close>

definition subscribeResult :: "subscriptions \<Rightarrow> string \<Rightarrow> string \<Rightarrow> subscriptions" where
  "subscribeResult = subscribe"

definition subscribeWorkspace :: "subscriptions \<Rightarrow> string \<Rightarrow> string \<Rightarrow> subscriptions" where
  "subscribeWorkspace s k fn = (case map_of (sb_listeners s) k of
     Some r \<Rightarrow> addListener (s\<lparr>sb_listeners := AList.update k r (sb_listeners s)\<rparr>) k fn r
   | None \<Rightarrow> addListener (newSet s k) k fn (sb_next s))"

text \<open>The function that \<open>subscribe\<close> returned, called for the first time. \<open>None\<close>: there is no such function.\<close>

definition unsubscribe :: "subscriptions \<Rightarrow> string \<Rightarrow> string \<Rightarrow> subscriptions option" where
  "unsubscribe s k fn = map_option (\<lambda>r.
     let left = js_set_delete fn (setAt s r) in
     s\<lparr>sb_sets := AList.update r left (sb_sets s),
       sb_listeners := (if left = [] then AList.delete k (sb_listeners s) else sb_listeners s),
       sb_closures := AList.delete (k, fn) (sb_closures s)\<rparr>) (map_of (sb_closures s) (k, fn))"

text \<open>The listeners that \<open>emit\<close> calls, in order.\<close>

definition emitTo :: "subscriptions \<Rightarrow> string \<Rightarrow> string list" where
  "emitTo s k = (case map_of (sb_listeners s) k of None \<Rightarrow> [] | Some r \<Rightarrow> setAt s r)"

lemma subscribeWorkspace_same: "subscribeWorkspace = subscribe"
proof -
  have "map_of m k = Some r \<Longrightarrow> AList.update k r m = m" for m :: "(string, nat) js_map" and k r
    by (induction m) auto
  then show ?thesis by (auto simp: subscribeWorkspace_def subscribe_def fun_eq_iff split: option.splits)
qed

datatype subscription_step = Subscribe string string | Unsubscribe string string

fun subscriptionStep :: "subscriptions \<Rightarrow> subscription_step \<Rightarrow> subscriptions option" where
  "subscriptionStep s (Subscribe k fn) = Some (subscribe s k fn)"
| "subscriptionStep s (Unsubscribe k fn) = unsubscribe s k fn"

text \<open>React subscribes a listener once at a time and calls the returned function once.\<close>

fun subscriptionGuard :: "subscriptions \<Rightarrow> subscription_step \<Rightarrow> bool" where
  "subscriptionGuard s (Subscribe k fn) \<longleftrightarrow> map_of (sb_closures s) (k, fn) = None"
| "subscriptionGuard s (Unsubscribe k fn) \<longleftrightarrow> map_of (sb_closures s) (k, fn) \<noteq> None"

subsection \<open>The specification\<close>

text \<open>Who listens to a key, in the order of subscription.\<close>

fun listenerStep :: "(string \<Rightarrow> string list) \<Rightarrow> subscription_step \<Rightarrow> string \<Rightarrow> string list" where
  "listenerStep v (Subscribe k fn) = v(k := v k @ [fn])"
| "listenerStep v (Unsubscribe k fn) = v(k := filter (\<lambda>g. g \<noteq> fn) (v k))"

text \<open>
  A set in the map belongs to one key, is not empty and holds exactly the listeners whose functions
  are still to be called; and those functions hold the set that is in the map.
\<close>

definition subscriptions_inv :: "subscriptions \<Rightarrow> bool" where
  "subscriptions_inv s \<longleftrightarrow>
     (\<forall>k r. map_of (sb_listeners s) k = Some r \<longrightarrow> r < sb_next s \<and> setAt s r \<noteq> [] \<and> distinct (setAt s r)
        \<and> (\<forall>fn. fn \<in> set (setAt s r) \<longleftrightarrow> map_of (sb_closures s) (k, fn) \<noteq> None))
     \<and> (\<forall>k k' r. map_of (sb_listeners s) k = Some r \<and> map_of (sb_listeners s) k' = Some r \<longrightarrow> k = k')
     \<and> (\<forall>k fn r. map_of (sb_closures s) (k, fn) = Some r \<longrightarrow> map_of (sb_listeners s) k = Some r)"

lemma setAt_update [simp]: "setAt (s\<lparr>sb_sets := AList.update r xs (sb_sets s)\<rparr>) r' = (if r' = r then xs else setAt s r')"
  by (simp add: setAt_def)

lemma setAt_frame [simp]: "setAt (s\<lparr>sb_closures := c\<rparr>) = setAt s" "setAt (s\<lparr>sb_listeners := l\<rparr>) = setAt s"
  "setAt (s\<lparr>sb_next := n\<rparr>) = setAt s"
  by (simp_all add: setAt_def fun_eq_iff)

lemma addListener_fields [simp]:
  "setAt (addListener s k fn r) r' = (if r' = r then js_set_add fn (setAt s r) else setAt s r')"
  "sb_listeners (addListener s k fn r) = sb_listeners s" "sb_next (addListener s k fn r) = sb_next s"
  "map_of (sb_closures (addListener s k fn r)) = (map_of (sb_closures s))((k, fn) \<mapsto> r)"
  by (simp_all add: addListener_def setAt_def update_conv')

lemma newSet_fields [simp]:
  "setAt (newSet s k) r' = (if r' = sb_next s then [] else setAt s r')"
  "map_of (sb_listeners (newSet s k)) = (map_of (sb_listeners s))(k \<mapsto> sb_next s)" "sb_next (newSet s k) = Suc (sb_next s)"
  "sb_closures (newSet s k) = sb_closures s"
  by (simp_all add: newSet_def setAt_def update_conv')

text \<open>Subscribing under a key that has listeners, and under one that has none.\<close>

lemma addListener_step:
  assumes inv: "subscriptions_inv s" and fresh: "map_of (sb_closures s) (k, fn) = None" and r: "map_of (sb_listeners s) k = Some r"
  shows "subscriptions_inv (addListener s k fn r)" "emitTo (addListener s k fn r) = (emitTo s)(k := emitTo s k @ [fn])"
proof -
  have new: "fn \<notin> set (setAt s r)" using inv r fresh unfolding subscriptions_inv_def by blast
  have other: "k' = k" if "map_of (sb_listeners s) k' = Some r" for k'
    using inv r that unfolding subscriptions_inv_def by blast
  show "subscriptions_inv (addListener s k fn r)"
    unfolding subscriptions_inv_def
  proof (intro conjI allI impI)
    fix k' r' assume m: "map_of (sb_listeners (addListener s k fn r)) k' = Some r'"
    then have m': "map_of (sb_listeners s) k' = Some r'" by simp
    show "r' < sb_next (addListener s k fn r)" "setAt (addListener s k fn r) r' \<noteq> []" "distinct (setAt (addListener s k fn r) r')"
      using m' inv unfolding subscriptions_inv_def by (auto simp: js_set_add_def)
    fix g show "(g \<in> set (setAt (addListener s k fn r) r')) = (map_of (sb_closures (addListener s k fn r)) (k', g) \<noteq> None)"
    proof (cases "k' = k")
      case True
      then have "r' = r" using m' r by simp
      with True r inv show ?thesis unfolding subscriptions_inv_def by (auto simp: js_set_add_def)
    next
      case False
      then have "r' \<noteq> r" using other m' by blast
      with False m' inv show ?thesis unfolding subscriptions_inv_def by simp
    qed
  next
    fix k1 k2 r' assume "map_of (sb_listeners (addListener s k fn r)) k1 = Some r' \<and> map_of (sb_listeners (addListener s k fn r)) k2 = Some r'"
    then show "k1 = k2" using inv unfolding subscriptions_inv_def by simp
  next
    fix k' g r' assume "map_of (sb_closures (addListener s k fn r)) (k', g) = Some r'"
    then show "map_of (sb_listeners (addListener s k fn r)) k' = Some r'"
      using inv r unfolding subscriptions_inv_def by (auto split: if_splits)
  qed
  show "emitTo (addListener s k fn r) = (emitTo s)(k := emitTo s k @ [fn])"
  proof
    fix k'
    show "emitTo (addListener s k fn r) k' = ((emitTo s)(k := emitTo s k @ [fn])) k'"
    proof (cases "k' = k")
      case False
      then have "map_of (sb_listeners s) k' \<noteq> Some r" using other by blast
      with False show ?thesis by (auto simp: emitTo_def split: option.splits)
    qed (simp add: emitTo_def r new js_set_add_def)
  qed
qed

lemma newSet_subscribe:
  assumes inv: "subscriptions_inv s" and r: "map_of (sb_listeners s) k = None"
  shows "subscriptions_inv (addListener (newSet s k) k fn (sb_next s))"
    "emitTo (addListener (newSet s k) k fn (sb_next s)) = (emitTo s)(k := emitTo s k @ [fn])"
proof -
  have below: "r' < sb_next s" if "map_of (sb_listeners s) k' = Some r'" for k' r'
    using inv that unfolding subscriptions_inv_def by blast
  then have old: "map_of (sb_listeners s) k' \<noteq> Some (sb_next s)" for k' by blast
  have none: "map_of (sb_closures s) (k, g) = None" for g
  proof (cases "map_of (sb_closures s) (k, g)")
    case (Some r')
    then have "map_of (sb_listeners s) k = Some r'" using inv unfolding subscriptions_inv_def by blast
    with r show ?thesis by simp
  qed
  let ?s' = "addListener (newSet s k) k fn (sb_next s)"
  have sets: "setAt ?s' (sb_next s) = [fn]" "r' \<noteq> sb_next s \<Longrightarrow> setAt ?s' r' = setAt s r'" for r'
    by (simp_all add: js_set_add_def)
  show "subscriptions_inv ?s'"
    unfolding subscriptions_inv_def
  proof (intro conjI allI impI)
    fix k' r' assume m: "map_of (sb_listeners ?s') k' = Some r'"
    show "r' < sb_next ?s'" using m below by (auto split: if_splits intro: less_SucI)
    show "setAt ?s' r' \<noteq> []" using m sets inv old unfolding subscriptions_inv_def by (cases "k' = k") auto
    show "distinct (setAt ?s' r')"
    proof (cases "k' = k")
      case False
      then have "map_of (sb_listeners s) k' = Some r'" "r' \<noteq> sb_next s" using m old by (auto split: if_splits)
      with sets(2) inv show ?thesis unfolding subscriptions_inv_def by simp
    qed (use m sets(1) in simp)
    fix g show "(g \<in> set (setAt ?s' r')) = (map_of (sb_closures ?s') (k', g) \<noteq> None)"
      using m sets inv old none unfolding subscriptions_inv_def by (cases "k' = k") auto
  next
    fix k1 k2 r' assume "map_of (sb_listeners ?s') k1 = Some r' \<and> map_of (sb_listeners ?s') k2 = Some r'"
    then show "k1 = k2" using old inv unfolding subscriptions_inv_def by (auto split: if_splits)
  next
    fix k' g r' assume "map_of (sb_closures ?s') (k', g) = Some r'"
    then show "map_of (sb_listeners ?s') k' = Some r'"
      using inv none unfolding subscriptions_inv_def by (cases "k' = k") (auto split: if_splits)
  qed
  show "emitTo ?s' = (emitTo s)(k := emitTo s k @ [fn])"
    using r old by (auto simp: emitTo_def fun_eq_iff js_set_add_def split: option.splits)
qed

lemma unsubscribe_step:
  assumes inv: "subscriptions_inv s" and live: "map_of (sb_closures s) (k, fn) = Some r"
  shows "\<exists>s'. unsubscribe s k fn = Some s' \<and> subscriptions_inv s' \<and> emitTo s' = (emitTo s)(k := filter (\<lambda>g. g \<noteq> fn) (emitTo s k))"
proof -
  define left where "left = js_set_delete fn (setAt s r)"
  define s' where "s' = s\<lparr>sb_sets := AList.update r left (sb_sets s),
     sb_listeners := (if left = [] then AList.delete k (sb_listeners s) else sb_listeners s),
     sb_closures := AList.delete (k, fn) (sb_closures s)\<rparr>"
  have u: "unsubscribe s k fn = Some s'" using live by (simp add: unsubscribe_def s'_def left_def Let_def)
  have r: "map_of (sb_listeners s) k = Some r" using inv live unfolding subscriptions_inv_def by blast
  have other: "k' = k" if "map_of (sb_listeners s) k' = Some r" for k'
    using inv r that unfolding subscriptions_inv_def by blast
  have fields: "setAt s' r' = (if r' = r then left else setAt s r')" "sb_next s' = sb_next s"
    "map_of (sb_listeners s') = (if left = [] then (map_of (sb_listeners s))(k := None) else map_of (sb_listeners s))"
    "map_of (sb_closures s') = (map_of (sb_closures s))((k, fn) := None)" for r'
    by (simp_all add: s'_def setAt_def delete_conv')
  have left: "set left = set (setAt s r) - {fn}" by (auto simp: left_def js_set_delete_def)
  have "subscriptions_inv s'"
    unfolding subscriptions_inv_def
  proof (intro conjI allI impI)
    fix k' r' assume m: "map_of (sb_listeners s') k' = Some r'"
    then have m': "map_of (sb_listeners s) k' = Some r'" by (auto simp: fields split: if_splits)
    show "r' < sb_next s'" using m' inv unfolding subscriptions_inv_def by (simp add: fields)
    show "distinct (setAt s' r')" using m' r inv unfolding subscriptions_inv_def by (simp add: fields left_def js_set_delete_def)
    show "setAt s' r' \<noteq> []"
    proof (cases "r' = r")
      case True
      then have "k' = k" using other m' by simp
      with m True show ?thesis by (auto simp: fields)
    qed (use m' inv in \<open>simp add: fields subscriptions_inv_def\<close>)
    fix g show "(g \<in> set (setAt s' r')) = (map_of (sb_closures s') (k', g) \<noteq> None)"
    proof (cases "r' = r")
      case True
      then have "k' = k" using other m' by simp
      with True r inv show ?thesis by (simp add: fields left subscriptions_inv_def)
    next
      case False
      then have "k' \<noteq> k" using m' r by auto
      with False m' inv show ?thesis by (simp add: fields subscriptions_inv_def)
    qed
  next
    fix k1 k2 r' assume "map_of (sb_listeners s') k1 = Some r' \<and> map_of (sb_listeners s') k2 = Some r'"
    then show "k1 = k2" using inv unfolding subscriptions_inv_def by (auto simp: fields split: if_splits)
  next
    fix k' g r' assume c: "map_of (sb_closures s') (k', g) = Some r'"
    then have c': "map_of (sb_closures s) (k', g) = Some r'" "(k', g) \<noteq> (k, fn)" by (auto simp: fields split: if_splits)
    then have m: "map_of (sb_listeners s) k' = Some r'" using inv unfolding subscriptions_inv_def by blast
    have "left \<noteq> []" if "k' = k"
    proof -
      have "g \<in> set (setAt s r)" using inv m r c' that unfolding subscriptions_inv_def by (metis option.distinct(1) option.inject)
      with c' that left show ?thesis by force
    qed
    with m show "map_of (sb_listeners s') k' = Some r'" by (auto simp: fields)
  qed
  moreover have "emitTo s' = (emitTo s)(k := filter (\<lambda>g. g \<noteq> fn) (emitTo s k))"
  proof
    fix k'
    have l: "left = filter (\<lambda>g. g \<noteq> fn) (setAt s r)" by (simp add: left_def js_set_delete_def)
    show "emitTo s' k' = ((emitTo s)(k := filter (\<lambda>g. g \<noteq> fn) (emitTo s k))) k'"
    proof (cases "k' = k")
      case True
      then show ?thesis by (simp add: emitTo_def fields r l [symmetric])
    next
      case False
      then have "map_of (sb_listeners s) k' \<noteq> Some r" using other by blast
      with False show ?thesis by (auto simp: emitTo_def fields split: option.splits)
    qed
  qed
  ultimately show ?thesis using u by blast
qed

interpretation listeners: simulation subscriptionStep subscriptionGuard subscriptions_inv emitTo listenerStep
proof
  fix s a assume inv: "subscriptions_inv s" and ok: "subscriptionGuard s a"
  show "\<exists>s'. subscriptionStep s a = Some s' \<and> subscriptions_inv s' \<and> emitTo s' = listenerStep (emitTo s) a"
  proof (cases a)
    case (Subscribe k fn)
    show ?thesis
    proof (cases "map_of (sb_listeners s) k")
      case None
      with Subscribe show ?thesis using newSet_subscribe [OF inv None] by (simp add: subscribe_def)
    next
      case (Some r)
      with Subscribe ok show ?thesis using addListener_step [OF inv _ Some, of fn] by (simp add: subscribe_def)
    qed
  next
    case (Unsubscribe k fn)
    with ok unsubscribe_step [OF inv] show ?thesis by auto
  qed
qed

text \<open>Claim C12: a change reaches exactly who listens. After any subscriptions and unsubscriptions over
  all keys, a notification for a key calls the listeners that subscribed to it and did not
  unsubscribe, each once and in the order of their subscription, although a key's set of listeners is dropped and
  made anew in between.\<close>

theorem listeners_notified_exactly:
  assumes "run_ok subscriptionStep subscriptionGuard noSubscriptions steps"
  shows "\<exists>s. run_actions subscriptionStep noSubscriptions steps = Some s
     \<and> (\<forall>k. emitTo s k = foldl listenerStep (\<lambda>_. []) steps k \<and> distinct (emitTo s k))"
proof -
  have "subscriptions_inv noSubscriptions" by (simp add: subscriptions_inv_def noSubscriptions_def)
  moreover have "emitTo noSubscriptions = (\<lambda>_. [])" by (simp add: emitTo_def noSubscriptions_def fun_eq_iff)
  ultimately obtain s where inv: "subscriptions_inv s" and "run_actions subscriptionStep noSubscriptions steps = Some s"
    "emitTo s = foldl listenerStep (\<lambda>_. []) steps" using listeners.run_refines [OF _ assms] by auto
  moreover have "distinct (emitTo s k)" for k
    using inv unfolding subscriptions_inv_def by (auto simp: emitTo_def split: option.splits)
  ultimately show ?thesis by auto
qed

definition subscription_example :: "subscription_step list" where
  "subscription_example = [Subscribe ''k'' ''f'', Unsubscribe ''k'' ''f'', Subscribe ''k'' ''g'', Subscribe ''j'' ''f'', Subscribe ''k'' ''f'']"

theorem listeners_notified_exactly_witness:
  "run_ok subscriptionStep subscriptionGuard noSubscriptions subscription_example
   \<and> (\<exists>s. run_actions subscriptionStep noSubscriptions subscription_example = Some s \<and> emitTo s ''k'' = [''g'', ''f''])"
proof -
  have ok: "run_ok subscriptionStep subscriptionGuard noSubscriptions subscription_example" by code_simp
  obtain s where s: "run_actions subscriptionStep noSubscriptions subscription_example = Some s"
    and e: "\<forall>k. emitTo s k = foldl listenerStep (\<lambda>_. []) subscription_example k \<and> distinct (emitTo s k)"
    using listeners_notified_exactly [OF ok] by blast
  have "foldl listenerStep (\<lambda>_. []) subscription_example ''k'' = [''g'', ''f'']" by code_simp
  with s e ok show ?thesis by auto
qed

text \<open>
  Calling the returned function a second time, which React does not do, could drop the set that
  other listeners of the key are in by then.
\<close>

lemma second_call_drops_others:
  "\<exists>s s'. run_actions subscriptionStep noSubscriptions [Subscribe ''k'' ''f'', Unsubscribe ''k'' ''f'', Subscribe ''k'' ''g''] = Some s
     \<and> unsubscribe (s\<lparr>sb_closures := AList.update (''k'', ''f'') 0 (sb_closures s)\<rparr>) ''k'' ''f'' = Some s'
     \<and> emitTo s ''k'' = [''g''] \<and> emitTo s' ''k'' = []"
  by (simp add: noSubscriptions_def subscribe_def unsubscribe_def addListener_def newSet_def setAt_def emitTo_def nullish_def
      js_set_add_def js_set_delete_def Let_def)

end
