(* ===== verification/Completion_Cache.thy ===== *)
theory Completion_Cache
  imports Completion Db_Types
begin

text \<open>
  The caches behind completion, \<open>catalog\<close>, \<open>tableColumns\<close>, the cache of \<open>sqlWords\<close> and
  \<open>clearCompletionCache\<close> of \<open>src/features/query-editor/sqlCompletion.ts\<close>. A cache maps a key to a promise, which
  is stored as soon as its request is sent and stays there whatever becomes of it. Promises are
  numbered in the order in which they are made. The answers of the backend are steps; the trace of
  requests is kept.
\<close>

subsection \<open>Caches of promises\<close>

datatype 'v cached_promise = Waiting | Loaded 'v | LoadFailed string

record 'v cache =
  ca_map :: "(string, nat) js_map"
  ca_promises :: "(nat, 'v cached_promise) js_map"
  ca_next :: nat

definition emptyCache :: "'v cache" where
  "emptyCache = \<lparr>ca_map = [], ca_promises = [], ca_next = 0\<rparr>"

text \<open>The promise of a key, and whether it was made for this lookup.\<close>

definition cacheLookup :: "'v cache \<Rightarrow> string \<Rightarrow> 'v cache \<times> nat \<times> bool" where
  "cacheLookup c k = (case map_of (ca_map c) k of
     Some p \<Rightarrow> (c, p, False)
   | None \<Rightarrow> (c\<lparr>ca_map := AList.update k (ca_next c) (ca_map c), ca_promises := AList.update (ca_next c) Waiting (ca_promises c),
                ca_next := Suc (ca_next c)\<rparr>, ca_next c, True))"

text \<open>A promise is settled once.\<close>

definition settleLoad :: "'v cache \<Rightarrow> nat \<Rightarrow> string + 'v \<Rightarrow> 'v cache" where
  "settleLoad c p answer = (if map_of (ca_promises c) p = Some Waiting
     then c\<lparr>ca_promises := AList.update p (case answer of Inl e \<Rightarrow> LoadFailed e | Inr v \<Rightarrow> Loaded v) (ca_promises c)\<rparr> else c)"

definition clearEntries :: "string \<Rightarrow> 'v cache \<Rightarrow> 'v cache" where
  "clearEntries connectionId c = c\<lparr>ca_map := clearCache connectionId (ca_map c)\<rparr>"

subsection \<open>The module\<close>

datatype metadata_request = ListSchemas string | ListObjects string "nat list" | GetTable string nat | ListSqlWords string

record completion_caches =
  cc_catalog :: "catalog_item list cache"
  cc_columns :: "string list cache"
  cc_words :: "(option_item list \<times> option_item list) cache"
  cc_requests :: "(nat \<times> metadata_request) list"

definition catalogKey :: "string \<Rightarrow> string \<Rightarrow> string" where
  "catalogKey connectionId database = connectionId @ '':'' @ database"

definition columnsKey :: "string \<Rightarrow> string \<Rightarrow> nat \<Rightarrow> string" where
  "columnsKey connectionId database oid = connectionId @ '':'' @ database @ '':'' @ show_nat oid"

definition catalog :: "completion_caches \<Rightarrow> string \<Rightarrow> string \<Rightarrow> completion_caches \<times> nat" where
  "catalog cs connectionId database =
     (let (c, p, made) = cacheLookup (cc_catalog cs) (catalogKey connectionId database)
      in (cs\<lparr>cc_catalog := c, cc_requests := cc_requests cs @ (if made then [(p, ListSchemas connectionId)] else [])\<rparr>, p))"

text \<open>The continuation on the schemas asks for their objects; the one on the objects is the catalog.\<close>

definition catalogSchemas :: "completion_caches \<Rightarrow> nat \<Rightarrow> string \<Rightarrow> string + nat list \<Rightarrow> completion_caches" where
  "catalogSchemas cs p connectionId answer = (case answer of
     Inl e \<Rightarrow> cs\<lparr>cc_catalog := settleLoad (cc_catalog cs) p (Inl e)\<rparr>
   | Inr oids \<Rightarrow> cs\<lparr>cc_requests := cc_requests cs @ [(p, ListObjects connectionId oids)]\<rparr>)"

definition catalogObjects :: "completion_caches \<Rightarrow> nat \<Rightarrow> string + catalog_item list \<Rightarrow> completion_caches" where
  "catalogObjects cs p answer = cs\<lparr>cc_catalog := settleLoad (cc_catalog cs) p answer\<rparr>"

definition tableColumns :: "completion_caches \<Rightarrow> string \<Rightarrow> string \<Rightarrow> nat \<Rightarrow> completion_caches \<times> nat" where
  "tableColumns cs connectionId database oid =
     (let (c, p, made) = cacheLookup (cc_columns cs) (columnsKey connectionId database oid)
      in (cs\<lparr>cc_columns := c, cc_requests := cc_requests cs @ (if made then [(p, GetTable connectionId oid)] else [])\<rparr>, p))"

definition columnsAnswer :: "completion_caches \<Rightarrow> nat \<Rightarrow> string + table_metadata \<Rightarrow> completion_caches" where
  "columnsAnswer cs p answer = cs\<lparr>cc_columns := settleLoad (cc_columns cs) p (map_sum id (\<lambda>meta. map tc_name (tm_columns meta)) answer)\<rparr>"

definition cachedWords :: "completion_caches \<Rightarrow> string \<Rightarrow> string \<Rightarrow> completion_caches \<times> nat" where
  "cachedWords cs connectionId database =
     (let (c, p, made) = cacheLookup (cc_words cs) (catalogKey connectionId database)
      in (cs\<lparr>cc_words := c, cc_requests := cc_requests cs @ (if made then [(p, ListSqlWords connectionId)] else [])\<rparr>, p))"

definition wordsAnswer :: "completion_caches \<Rightarrow> nat \<Rightarrow> string + (string \<times> string) list \<times> string list \<times> string list \<Rightarrow> completion_caches" where
  "wordsAnswer cs p answer = cs\<lparr>cc_words := settleLoad (cc_words cs) p (map_sum id (\<lambda>(keywords, functions, types). sqlWords keywords functions types) answer)\<rparr>"

definition clearCompletionCache :: "completion_caches \<Rightarrow> string \<Rightarrow> completion_caches" where
  "clearCompletionCache cs connectionId = cs\<lparr>cc_catalog := clearEntries connectionId (cc_catalog cs),
     cc_columns := clearEntries connectionId (cc_columns cs), cc_words := clearEntries connectionId (cc_words cs)\<rparr>"

datatype cache_step =
    AskCatalog string string | AskColumns string string nat | AskWords string string
  | SchemasAnswer nat string "string + nat list" | ObjectsAnswer nat "string + catalog_item list"
  | ColumnsAnswer nat "string + table_metadata" | WordsAnswer nat "string + (string \<times> string) list \<times> string list \<times> string list"
  | Refresh string

fun cacheStep :: "completion_caches \<Rightarrow> cache_step \<Rightarrow> completion_caches" where
  "cacheStep cs (AskCatalog conn db) = fst (catalog cs conn db)"
| "cacheStep cs (AskColumns conn db oid) = fst (tableColumns cs conn db oid)"
| "cacheStep cs (AskWords conn db) = fst (cachedWords cs conn db)"
| "cacheStep cs (SchemasAnswer p conn a) = catalogSchemas cs p conn a"
| "cacheStep cs (ObjectsAnswer p a) = catalogObjects cs p a"
| "cacheStep cs (ColumnsAnswer p a) = columnsAnswer cs p a"
| "cacheStep cs (WordsAnswer p a) = wordsAnswer cs p a"
| "cacheStep cs (Refresh conn) = clearCompletionCache cs conn"

subsection \<open>Steps of one cache\<close>

text \<open>
  What a step of the module does to one of its caches: nothing, a lookup, an answer or a
  refresh. A key keeps its promise under all of them but a refresh of its connection, a settled
  promise keeps its value, and new promises have new numbers.
\<close>

inductive cache_moves :: "'v cache \<Rightarrow> string option \<Rightarrow> 'v cache \<Rightarrow> bool" where
  stays: "cache_moves c None c"
| asked: "cache_moves c None (fst (cacheLookup c k))"
| answered: "cache_moves c None (settleLoad c p a)"
| refreshed: "cache_moves c (Some conn) (clearEntries conn c)"

fun refreshOf :: "cache_step \<Rightarrow> string option" where
  "refreshOf (Refresh conn) = Some conn"
| "refreshOf st = None"

lemma asked_by: "cacheLookup c k = (c', p, made) \<Longrightarrow> cache_moves c None c'"
  using asked [of c k] by simp

lemma step_moves:
  "cache_moves (cc_catalog cs) (refreshOf st) (cc_catalog (cacheStep cs st))"
  "cache_moves (cc_columns cs) (refreshOf st) (cc_columns (cacheStep cs st))"
  "cache_moves (cc_words cs) (refreshOf st) (cc_words (cacheStep cs st))"
  by (cases st; auto simp: catalog_def tableColumns_def cachedWords_def catalogSchemas_def catalogObjects_def columnsAnswer_def
      wordsAnswer_def clearCompletionCache_def split: prod.splits sum.splits intro: stays answered refreshed asked_by)+

lemma map_of_clearCache: "map_of (clearCache conn m) k = (if starts_with k (conn @ '':'') then None else map_of m k)"
  by (induction m) (auto simp: clearCache_def)

lemma move_key:
  assumes "cache_moves c r c'" "map_of (ca_map c) k = Some p" "\<forall>conn. r = Some conn \<longrightarrow> \<not> starts_with k (conn @ '':'')"
  shows "map_of (ca_map c') k = Some p"
  using assms
  by (cases rule: cache_moves.cases) (auto simp: cacheLookup_def settleLoad_def clearEntries_def map_of_clearCache split: option.splits)

lemma move_new:
  assumes "cache_moves c r c'"
  shows "ca_next c \<le> ca_next c'" "map_of (ca_map c') k = Some p \<Longrightarrow> map_of (ca_map c) k = Some p \<or> ca_next c \<le> p"
  using assms
  by (cases rule: cache_moves.cases; auto simp: cacheLookup_def settleLoad_def clearEntries_def map_of_clearCache split: option.splits if_splits)+

definition cache_ok :: "'v cache \<Rightarrow> bool" where
  "cache_ok c \<longleftrightarrow> (\<forall>k p. map_of (ca_map c) k = Some p \<longrightarrow> map_of (ca_promises c) p \<noteq> None)
     \<and> (\<forall>p. map_of (ca_promises c) p \<noteq> None \<longrightarrow> p < ca_next c)"

lemma move_ok:
  assumes "cache_moves c r c'" "cache_ok c"
  shows "cache_ok c'"
  using assms
  by (cases rule: cache_moves.cases)
    (auto simp: cache_ok_def cacheLookup_def settleLoad_def clearEntries_def map_of_clearCache less_Suc_eq split: option.splits if_splits)

lemma move_settled:
  assumes "cache_moves c r c'" "cache_ok c" "map_of (ca_promises c) p = Some v" "v \<noteq> Waiting"
  shows "map_of (ca_promises c') p = Some v"
  using assms
  by (cases rule: cache_moves.cases)
    (auto simp: cache_ok_def cacheLookup_def settleLoad_def clearEntries_def split: option.splits if_splits)

text \<open>The same over a sequence of steps, for the cache that \<open>sel\<close> reads.\<close>

definition selects :: "(completion_caches \<Rightarrow> 'v cache) \<Rightarrow> bool" where
  "selects sel \<longleftrightarrow> (\<forall>cs st. cache_moves (sel cs) (refreshOf st) (sel (cacheStep cs st)))"

lemma selects_caches: "selects cc_catalog" "selects cc_columns" "selects cc_words"
  by (simp_all add: selects_def step_moves)

lemma run_key:
  assumes "selects sel" "map_of (ca_map (sel cs)) k = Some p" "\<forall>conn. Refresh conn \<in> set steps \<longrightarrow> \<not> starts_with k (conn @ '':'')"
  shows "map_of (ca_map (sel (foldl cacheStep cs steps))) k = Some p"
  using assms(2,3)
proof (induction steps arbitrary: cs)
  case (Cons st steps)
  have m: "cache_moves (sel cs) (refreshOf st) (sel (cacheStep cs st))" using assms(1) by (simp add: selects_def)
  have "st = Refresh conn" if "refreshOf st = Some conn" for conn using that by (cases st) auto
  then have "map_of (ca_map (sel (cacheStep cs st))) k = Some p"
    using move_key [OF m Cons.prems(1)] Cons.prems(2) by auto
  with Cons show ?case by simp
qed simp

lemma run_new:
  assumes "selects sel"
  shows "ca_next (sel cs) \<le> ca_next (sel (foldl cacheStep cs steps))"
    "map_of (ca_map (sel (foldl cacheStep cs steps))) k = Some p \<Longrightarrow> map_of (ca_map (sel cs)) k = Some p \<or> ca_next (sel cs) \<le> p"
proof -
  have m: "cache_moves (sel cs) (refreshOf st) (sel (cacheStep cs st))" for cs st using assms by (simp add: selects_def)
  show "ca_next (sel cs) \<le> ca_next (sel (foldl cacheStep cs steps))"
    by (induction steps arbitrary: cs) (auto intro: order.trans move_new(1) [OF m])
  show "map_of (ca_map (sel (foldl cacheStep cs steps))) k = Some p \<Longrightarrow> map_of (ca_map (sel cs)) k = Some p \<or> ca_next (sel cs) \<le> p"
  proof (induction steps arbitrary: cs)
    case (Cons st steps)
    then show ?case using move_new [OF m, of cs st] by (auto dest: order.trans)
  qed simp
qed

lemma run_settled:
  assumes "selects sel" "cache_ok (sel cs)" "map_of (ca_promises (sel cs)) p = Some v" "v \<noteq> Waiting"
  shows "map_of (ca_promises (sel (foldl cacheStep cs steps))) p = Some v"
  using assms(2,3)
proof (induction steps arbitrary: cs)
  case (Cons st steps)
  have m: "cache_moves (sel cs) (refreshOf st) (sel (cacheStep cs st))" using assms(1) by (simp add: selects_def)
  show ?case using Cons.IH [OF move_ok [OF m Cons.prems(1)] move_settled [OF m Cons.prems assms(4)]] by simp
qed simp

subsection \<open>A refresh takes effect, and nothing is loaded twice\<close>

lemma catalogKey_own: "starts_with (catalogKey conn db) (conn @ '':'')"
  by (simp add: starts_with_def catalogKey_def)

lemma catalog_present:
  assumes "map_of (ca_map (cc_catalog cs)) (catalogKey conn db) = Some p"
  shows "catalog cs conn db = (cs, p)"
  using assms by (simp add: catalog_def cacheLookup_def)

lemma catalog_stored: "catalog cs conn db = (cs', p) \<Longrightarrow> map_of (ca_map (cc_catalog cs')) (catalogKey conn db) = Some p"
  by (auto simp: catalog_def cacheLookup_def split: option.splits)

text \<open>Completion shows the schema as of the last refresh and loads it once. Whatever happens
  after a refresh of a connection, a catalog asked for then was requested after the refresh; and
  until the next one, every further lookup gets that same catalog without another request.\<close>

theorem catalog_fresh_and_loaded_once:
  assumes "catalog (foldl cacheStep (clearCompletionCache cs conn) steps) conn db = (cs', p)"
    and "\<forall>c. Refresh c \<in> set later \<longrightarrow> \<not> starts_with (catalogKey conn db) (c @ '':'')"
  shows "ca_next (cc_catalog cs) \<le> p \<and> catalog (foldl cacheStep cs' later) conn db = (foldl cacheStep cs' later, p)"
proof -
  let ?k = "catalogKey conn db" and ?c1 = "clearCompletionCache cs conn"
  let ?c2 = "foldl cacheStep ?c1 steps"
  have none: "map_of (ca_map (cc_catalog ?c1)) ?k = None" and n1: "ca_next (cc_catalog ?c1) = ca_next (cc_catalog cs)"
    by (simp_all add: clearCompletionCache_def clearEntries_def map_of_clearCache catalogKey_own)
  have stored: "map_of (ca_map (cc_catalog cs')) ?k = Some p" using assms(1) by (rule catalog_stored)
  have "cs' = cacheStep ?c2 (AskCatalog conn db)" using assms(1) by simp
  then have cs': "cs' = foldl cacheStep ?c1 (steps @ [AskCatalog conn db])" by simp
  have "ca_next (cc_catalog cs) \<le> p"
    using run_new(2) [OF selects_caches(1) stored [unfolded cs']] none n1 by simp
  moreover have "map_of (ca_map (cc_catalog (foldl cacheStep cs' later))) ?k = Some p"
    using run_key [OF selects_caches(1) stored assms(2)] .
  ultimately show ?thesis by (simp add: catalog_present)
qed

definition noCaches :: completion_caches where
  "noCaches = \<lparr>cc_catalog = emptyCache, cc_columns = emptyCache, cc_words = emptyCache, cc_requests = []\<rparr>"

definition exampleCaches :: completion_caches where
  "exampleCaches = fst (catalog noCaches ''c'' ''d'')"

theorem catalog_fresh_and_loaded_once_witness:
  "let q = catalog (foldl cacheStep (clearCompletionCache exampleCaches ''c'') [AskWords ''c'' ''d'']) ''c'' ''d'';
       later = [AskCatalog ''c'' ''d'', Refresh ''e'']
   in ca_next (cc_catalog exampleCaches) = 1 \<and> 1 \<le> snd q \<and> catalog (foldl cacheStep (fst q) later) ''c'' ''d'' = (foldl cacheStep (fst q) later, snd q)"
proof -
  let ?q = "catalog (foldl cacheStep (clearCompletionCache exampleCaches ''c'') [AskWords ''c'' ''d'']) ''c'' ''d''"
  let ?later = "[AskCatalog ''c'' ''d'', Refresh ''e'']"
  have n: "ca_next (cc_catalog exampleCaches) = 1" by code_simp
  have l: "\<forall>c. Refresh c \<in> set ?later \<longrightarrow> \<not> starts_with (catalogKey ''c'' ''d'') (c @ '':'')"
    by (simp add: starts_with_def catalogKey_def)
  have "ca_next (cc_catalog exampleCaches) \<le> snd ?q \<and> catalog (foldl cacheStep (fst ?q) ?later) ''c'' ''d'' = (foldl cacheStep (fst ?q) ?later, snd ?q)"
    by (rule catalog_fresh_and_loaded_once [OF _ l]) (rule surjective_pairing)
  with n show ?thesis unfolding Let_def by metis
qed

text \<open>A load that failed is kept as well: until a refresh every lookup gets the failure, and nothing asks again.\<close>

theorem failed_catalog_sticks:
  assumes "cache_ok (cc_catalog cs)" "map_of (ca_map (cc_catalog cs)) (catalogKey conn db) = Some p"
    and "map_of (ca_promises (cc_catalog cs)) p = Some (LoadFailed e)"
    and "\<forall>c. Refresh c \<in> set later \<longrightarrow> \<not> starts_with (catalogKey conn db) (c @ '':'')"
  shows "catalog (foldl cacheStep cs later) conn db = (foldl cacheStep cs later, p)
    \<and> map_of (ca_promises (cc_catalog (foldl cacheStep cs later))) p = Some (LoadFailed e)"
  using run_key [OF selects_caches(1) assms(2,4)] run_settled [OF selects_caches(1) assms(1,3)] by (simp add: catalog_present)

end
