(* ===== verification/Cell_Editor.thy ===== *)
theory Cell_Editor
  imports Result_Grid
begin

text \<open>
  The inline editor of a cell and what the grid shows, \<open>CellEditor\<close>, \<open>renderDataCell\<close>, the cells of the
  inserts, the status line and the error panel of \<open>src/features/result-grid/ResultGrid.tsx\<close>. An editor is
  opened with a text, keeps the text typed, and calls back into the grid.
\<close>

subsection \<open>What is shown\<close>

definition cellDraft :: "grid \<Rightarrow> int \<Rightarrow> column_meta \<Rightarrow> cell_draft option" where
  "cellDraft g r c = (if gr_edit g = None then None else draft_at (gridEdits g) r (cm_name c))"

definition shownData :: "grid \<Rightarrow> int \<Rightarrow> column_meta \<Rightarrow> export_error + string" where
  "shownData g r c = (case cellDraft g r c of
     Some d \<Rightarrow> Inr (nullish d ''NULL'')
   | None \<Rightarrow> cellText (cellAt g r c))"

definition shownInsert :: "insert_draft \<Rightarrow> column_meta \<Rightarrow> string" where
  "shownInsert d c = (case map_of (id_cells d) (cm_name c) of
     Some (CellValue s) \<Rightarrow> s
   | Some CellNull \<Rightarrow> ''NULL''
   | _ \<Rightarrow> ''DEFAULT'')"

text \<open>The text an editor is opened with.\<close>

definition initialData :: "grid \<Rightarrow> int \<Rightarrow> column_meta \<Rightarrow> export_error + string" where
  "initialData g r c = (case cellDraft g r c of
     Some d \<Rightarrow> Inr (nullish d '''')
   | None \<Rightarrow> if cellAt g r c = Some VNull then Inr '''' else cellText (cellAt g r c))"

definition initialInsert :: "insert_draft \<Rightarrow> column_meta \<Rightarrow> string" where
  "initialInsert d c = (case map_of (id_cells d) (cm_name c) of Some (CellValue s) \<Rightarrow> s | _ \<Rightarrow> '''')"

datatype status_line =
    NoResult
  | Receiving nat
  | CommandDone string int "int option"
  | RowsShown nat "int option option" "bool option" "int option"
  | ErrorLine "string option" "string option"
  | CancelledLine int "int option"

text \<open>
  \<open>statusLine\<close>. For rows: how many, whether more can be loaded and out of how many (which a table does
  not say), and which limit was reached if any, the first for a result that is loaded in pages.
\<close>

definition statusLine :: "result_snapshot \<Rightarrow> nat \<Rightarrow> status_line" where
  "statusLine s rows = (case rs_status s of
     StIdle \<Rightarrow> NoResult
   | StRunning \<Rightarrow> Receiving rows
   | StCompleted \<Rightarrow>
       if truthy_str (rs_commandTag s) then CommandDone (the (rs_commandTag s)) (nullish (rs_affectedRows s) 0) (rs_durationMs s)
       else RowsShown rows (if rs_hasMoreRows s then Some (if rs_tablePage s = None then rs_rowCount s else None) else None)
              (if rs_truncated s = Some True then Some (rs_pageable s) else None) (rs_durationMs s)
   | StFailed \<Rightarrow> ErrorLine (map_option ae_message (rs_error s)) (Option.bind (rs_error s) (\<lambda>e. if truthy_str (ae_sqlState e) then ae_sqlState e else None))
   | StCancelled \<Rightarrow> CancelledLine (nullish (rs_rowCount s) 0) (rs_durationMs s))"

datatype error_label = SqlStateLabel | CodeLabel | DetailLabel | HintLabel | PositionLabel

definition errorDetails :: "app_error option \<Rightarrow> (error_label \<times> string) list" where
  "errorDetails e = List.map_filter (\<lambda>(l, v). map_option (Pair l) v)
     [(SqlStateLabel, Option.bind e ae_sqlState), (CodeLabel, map_option ae_code e), (DetailLabel, Option.bind e ae_detail),
      (HintLabel, Option.bind e ae_hint), (PositionLabel, map_option show_int (Option.bind e ae_position))]"

subsection \<open>The editor\<close>

record cell_editor =
  ce_value :: string
  ce_finished :: bool
  ce_allowDefault :: bool

datatype editor_event = TypeValue string | EnterPressed | EscapePressed | FocusLeaves | NullButton | DefaultButton

datatype editor_call = OnCommit paste_marker | OnCancel

definition openEditor :: "string \<Rightarrow> bool \<Rightarrow> cell_editor" where
  "openEditor initial allowDefault = \<lparr>ce_value = initial, ce_finished = False, ce_allowDefault = allowDefault\<rparr>"

definition editorCommits :: "cell_editor \<Rightarrow> paste_marker \<Rightarrow> cell_editor \<times> editor_call option" where
  "editorCommits e v = (if ce_finished e then (e, None) else (e\<lparr>ce_finished := True\<rparr>, Some (OnCommit v)))"

definition editorEvent :: "cell_editor \<Rightarrow> editor_event \<Rightarrow> cell_editor \<times> editor_call option" where
  "editorEvent e ev = (case ev of
     TypeValue s \<Rightarrow> (e\<lparr>ce_value := s\<rparr>, None)
   | EnterPressed \<Rightarrow> editorCommits e (MarkValue (ce_value e))
   | EscapePressed \<Rightarrow> (e\<lparr>ce_finished := True\<rparr>, Some OnCancel)
   | FocusLeaves \<Rightarrow> editorCommits e (MarkValue (ce_value e))
   | NullButton \<Rightarrow> editorCommits e MarkNull
   | DefaultButton \<Rightarrow> if ce_allowDefault e then editorCommits e MarkDefault else (e, None))"

text \<open>The grid with the editor that is open in it. The callbacks are \<open>commitCell\<close>, \<open>setInsertCell\<close> and \<open>stopEditing\<close>.\<close>

definition sessionEvent :: "grid \<times> cell_editor \<Rightarrow> editor_event \<Rightarrow> grid \<times> cell_editor" where
  "sessionEvent w ev = (case w of (g, e) \<Rightarrow> (case editorEvent e ev of
     (e', None) \<Rightarrow> (g, e')
   | (e', Some (OnCommit v)) \<Rightarrow> (editorCommit g v, e')
   | (e', Some OnCancel) \<Rightarrow> (stopEditing g, e')))"

subsection \<open>One callback\<close>

fun isTyping :: "editor_event \<Rightarrow> bool" where
  "isTyping (TypeValue s) = True"
| "isTyping ev = False"

definition typedText :: "string \<Rightarrow> editor_event list \<Rightarrow> string" where
  "typedText initial es = foldl (\<lambda>t ev. case ev of TypeValue s \<Rightarrow> s | _ \<Rightarrow> t) initial es"

lemma typing_session:
  "list_all isTyping es \<Longrightarrow> foldl sessionEvent (g, e) es = (g, e\<lparr>ce_value := typedText (ce_value e) es\<rparr>)"
proof (induction es arbitrary: e)
  case (Cons ev es)
  then obtain s where "ev = TypeValue s" by (cases ev) auto
  with Cons show ?case by (simp add: sessionEvent_def editorEvent_def typedText_def)
qed (simp add: typedText_def)

text \<open>Once finished, an editor does not reach the edits any more: a late blur or a second key commits nothing.\<close>

lemma finished_session:
  "ce_finished e \<Longrightarrow> gr_editing g = None \<Longrightarrow> fst (foldl sessionEvent (g, e) es) = g"
proof (induction es arbitrary: e g)
  case (Cons ev es)
  have "stopEditing g = g" using Cons.prems(2) by (simp add: stopEditing_def)
  then obtain e' where "sessionEvent (g, e) ev = (g, e')" "ce_finished e'"
    using Cons.prems(1) by (cases ev) (auto simp: sessionEvent_def editorEvent_def editorCommits_def)
  with Cons show ?case by simp
qed simp

text \<open>The draft of a data cell that an event leaves when it finishes the editor.\<close>

definition finalDraft :: "db_value \<Rightarrow> string \<Rightarrow> cell_draft option \<Rightarrow> string \<Rightarrow> editor_event \<Rightarrow> cell_draft option" where
  "finalDraft v original old s ev = (case ev of
     EscapePressed \<Rightarrow> old
   | NullButton \<Rightarrow> if v = VNull then None else Some None
   | _ \<Rightarrow> if v \<noteq> VNull \<and> s = original then None else Some (Some s))"

text \<open>An open data cell: the column of the editor, a value with a text, and an unlocked buffer.\<close>

definition editingData :: "grid \<Rightarrow> int \<Rightarrow> column_meta \<Rightarrow> db_value \<Rightarrow> string \<Rightarrow> bool" where
  "editingData g r c v original \<longleftrightarrow> gr_editing g = Some (EditingCell r (cm_name c)) \<and> find (\<lambda>d. cm_name d = cm_name c) (gridColumns g) = Some c
     \<and> cellAt g r c = Some v \<and> cellTextOf v = Inr original \<and> \<not> es_locked (gridEdits g)"

lemma commit_draft:
  assumes "editingData g r c v original" "m \<noteq> MarkDefault"
  shows "gr_editing (editorCommit g m) = None
    \<and> draft_at (gridEdits (editorCommit g m)) i n = (if i = r \<and> n = cm_name c
        then (case m of MarkValue s \<Rightarrow> if v \<noteq> VNull \<and> s = original then None else Some (Some s) | _ \<Rightarrow> if v = VNull then None else Some None)
        else draft_at (gridEdits g) i n)
    \<and> es_deletes (gridEdits (editorCommit g m)) = es_deletes (gridEdits g) \<and> es_inserts (gridEdits (editorCommit g m)) = es_inserts (gridEdits g)"
proof -
  have fr: "es_deletes (setCellIn i c d s) = es_deletes s" "es_inserts (setCellIn i c d s) = es_inserts s" for i c d s
    by (simp_all add: setCellIn_def Let_def)
  show ?thesis
    using assms by (cases m) (auto simp: editingData_def editorCommit_def commitCell_def stopEditing_def setCell_def cellText_def
        draft_at_setCellIn fr)
qed

text \<open>Claim C19: the inline editor does exactly what was typed. However an editor of a data cell is
  left, with Enter, by losing the focus, with its NULL button or with Escape, the cell then has
  the typed text as its draft, no draft when that is the text the cell already had, NULL, or what it
  had before; every other draft, the deletions and the inserts are as they were, and nothing that
  happens to the closed editor changes that.\<close>

theorem inline_edit_exact:
  assumes "editingData g r c v original" "list_all isTyping es" "\<not> isTyping ev" "ev \<noteq> DefaultButton"
  shows "(let g' = fst (foldl sessionEvent (g, openEditor initial False) (es @ ev # rest)) in
     gr_editing g' = None
     \<and> (\<forall>i n. draft_at (gridEdits g') i n = (if i = r \<and> n = cm_name c
           then finalDraft v original (draft_at (gridEdits g) r (cm_name c)) (typedText initial es) ev else draft_at (gridEdits g) i n))
     \<and> es_deletes (gridEdits g') = es_deletes (gridEdits g) \<and> es_inserts (gridEdits g') = es_inserts (gridEdits g))"
proof -
  let ?e = "(openEditor initial False)\<lparr>ce_value := typedText initial es\<rparr>"
  have "foldl sessionEvent (g, openEditor initial False) es = (g, ?e)"
    using typing_session [OF assms(2)] by (simp add: openEditor_def)
  then have run: "fst (foldl sessionEvent (g, openEditor initial False) (es @ ev # rest)) = fst (foldl sessionEvent (sessionEvent (g, ?e) ev) rest)"
    by simp
  show ?thesis
  proof (cases "ev = EscapePressed")
    case True
    then have "sessionEvent (g, ?e) ev = (stopEditing g, ?e\<lparr>ce_finished := True\<rparr>)" by (simp add: sessionEvent_def editorEvent_def)
    then have "fst (foldl sessionEvent (g, openEditor initial False) (es @ ev # rest)) = stopEditing g"
      unfolding run by (simp add: finished_session stopEditing_def)
    with True show ?thesis by (simp add: stopEditing_def finalDraft_def Let_def)
  next
    case False
    define m where "m = (if ev = NullButton then MarkNull else MarkValue (typedText initial es))"
    have "sessionEvent (g, ?e) ev = (editorCommit g m, ?e\<lparr>ce_finished := True\<rparr>)"
      using False assms(3,4) by (cases ev) (auto simp: sessionEvent_def editorEvent_def editorCommits_def openEditor_def m_def)
    moreover have c: "m \<noteq> MarkDefault" by (simp add: m_def)
    ultimately have "fst (foldl sessionEvent (g, openEditor initial False) (es @ ev # rest)) = editorCommit g m"
      unfolding run using commit_draft [OF assms(1) c] by (simp add: finished_session)
    then show ?thesis using commit_draft [OF assms(1) c] False assms(3,4)
      by (cases ev) (auto simp: finalDraft_def m_def Let_def)
  qed
qed


lemma inline_edit_exact_witness:
  "draft_at (gridEdits (fst (foldl sessionEvent (example_grid\<lparr>gr_editing := Some (EditingCell 0 ''x'')\<rparr>, openEditor ''a'' False)
     ([TypeValue ''ab''] @ EnterPressed # [FocusLeaves])))) 0 ''x'' = Some (Some ''ab'')"
proof -
  let ?g = "example_grid\<lparr>gr_editing := Some (EditingCell 0 ''x'')\<rparr>"
  let ?c = "grid_column 0 ''x''"
  have "editingData ?g 0 ?c (VText ''a'') ''a''" unfolding editingData_def by code_simp
  moreover have "list_all isTyping [TypeValue ''ab'']" "\<not> isTyping EnterPressed" "EnterPressed \<noteq> DefaultButton" by simp_all
  moreover have "cm_name ?c = ''x''" by (simp add: grid_column_def)
  ultimately show ?thesis
    using inline_edit_exact [of ?g 0 ?c "VText ''a''" "''a''" "[TypeValue ''ab'']" EnterPressed "''a''" "[FocusLeaves]"]
    by (simp add: Let_def finalDraft_def typedText_def)
qed

subsection \<open>Leaving an editor untouched\<close>

text \<open>
  An editor is opened with the text that is shown. Leaving it without typing keeps every draft as it was
  when the cell has a value, or a draft that is a text different from it.
\<close>

lemma untouched_editor_keeps:
  assumes "editingData g r c v original" "v \<noteq> VNull" "initialData g r c = Inr initial" "gr_edit g \<noteq> None"
    and "draft_at (gridEdits g) r (cm_name c) = None \<or> (\<exists>s. draft_at (gridEdits g) r (cm_name c) = Some (Some s) \<and> s \<noteq> original)"
  shows "draft_at (gridEdits (fst (sessionEvent (g, openEditor initial False) FocusLeaves))) i n = draft_at (gridEdits g) i n"
proof -
  have "finalDraft v original (draft_at (gridEdits g) r (cm_name c)) initial FocusLeaves = draft_at (gridEdits g) r (cm_name c)"
    using assms by (auto simp: initialData_def cellDraft_def editingData_def finalDraft_def cellText_def)
  moreover have "sessionEvent (g, openEditor initial False) FocusLeaves
      = (editorCommit g (MarkValue initial), (openEditor initial False)\<lparr>ce_finished := True\<rparr>)"
    by (simp add: sessionEvent_def editorEvent_def editorCommits_def openEditor_def)
  ultimately show ?thesis
    using commit_draft [OF assms(1), of "MarkValue initial"] by (auto simp: finalDraft_def)
qed

text \<open>
  A cell that is NULL is opened with the empty text, and leaving the editor commits that text as a
  value: looking into a NULL cell drafts the empty string for it.
\<close>

theorem null_cell_left_becomes_empty:
  assumes "editingData g r c VNull original" "draft_at (gridEdits g) r (cm_name c) = None"
  shows "initialData g r c = Inr ''''
    \<and> draft_at (gridEdits (fst (sessionEvent (g, openEditor '''' False) FocusLeaves))) r (cm_name c) = Some (Some '''')"
proof -
  have "sessionEvent (g, openEditor '''' False) FocusLeaves
      = (editorCommit g (MarkValue ''''), (openEditor '''' False)\<lparr>ce_finished := True\<rparr>)"
    by (simp add: sessionEvent_def editorEvent_def editorCommits_def openEditor_def)
  then show ?thesis using assms commit_draft [OF assms(1), of "MarkValue ''''"]
    by (auto simp: initialData_def cellDraft_def editingData_def)
qed

end
