(* ===== verification/Settings_Page.thy ===== *)
theory Settings_Page
  imports App_Settings Contracts
begin

text \<open>
  The settings page, \<open>src/features/settings/SettingsPage.tsx\<close>: the choices of the appearance and of the
  AI, restoring the defaults, recording and unbinding shortcuts, and closing. It writes the application
  settings and nothing else. What the router does on closing is the page's answer.
\<close>

subsection \<open>The page\<close>

datatype page_exit = HistoryBack | NavigateHome

record settings_page =
  sp_state :: settings_state
  sp_dark :: bool
  sp_recording :: "string option"
  sp_error :: "string option"
  sp_exit :: "page_exit option"

definition openSettingsPage :: "bool \<Rightarrow> settings_state \<Rightarrow> settings_page" where
  "openSettingsPage dark st = \<lparr>sp_state = st, sp_dark = dark, sp_recording = None, sp_error = None, sp_exit = None\<rparr>"

definition noPatch :: settings_patch where
  "noPatch = \<lparr>pa_theme = None, pa_font = None, pa_fontSize = None, pa_shortcuts = None, pa_aiProvider = None, pa_aiModel = None\<rparr>"

definition changeSettings :: "settings_page \<Rightarrow> settings_patch \<Rightarrow> settings_page" where
  "changeSettings p patch = p\<lparr>sp_state := setAppSettings (sp_dark p) (sp_state p) patch\<rparr>"

definition closePage :: "bool \<Rightarrow> settings_page \<Rightarrow> settings_page" where
  "closePage canGoBack p = p\<lparr>sp_exit := Some (if canGoBack then HistoryBack else NavigateHome)\<rparr>"

definition pickProvider :: "settings_page \<Rightarrow> ai_provider \<Rightarrow> settings_page" where
  "pickProvider p provider = changeSettings p (noPatch\<lparr>pa_aiProvider := Some provider, pa_aiModel := Some (hd (aiModels provider))\<rparr>)"

abbreviation pageShortcuts :: "settings_page \<Rightarrow> shortcut_settings" where
  "pageShortcuts p \<equiv> as_shortcuts (set_settings (sp_state p))"

definition startRecording :: "settings_page \<Rightarrow> string \<Rightarrow> settings_page" where
  "startRecording p i = p\<lparr>sp_recording := Some i, sp_error := None\<rparr>"

definition unbindShortcut :: "settings_page \<Rightarrow> string \<Rightarrow> settings_page" where
  "unbindShortcut p i =
     (changeSettings p (noPatch\<lparr>pa_shortcuts := Some (AList.update i UNBOUND (pageShortcuts p))\<rparr>))\<lparr>sp_recording := None, sp_error := None\<rparr>"

text \<open>
  The listener of the recorder, which is there while a shortcut is being recorded: the settings are
  changed when a shortcut was bound or cleared, which ends the recording.
\<close>

definition recorderKey :: "bool \<Rightarrow> settings_page \<Rightarrow> key_event \<Rightarrow> settings_page" where
  "recorderKey mac p ev =
     (let r = handleKeyDown mac \<lparr>rec_recording = sp_recording p, rec_shortcuts = pageShortcuts p, rec_error = sp_error p\<rparr> ev;
          p' = (if rec_recording r = None then changeSettings p (noPatch\<lparr>pa_shortcuts := Some (rec_shortcuts r)\<rparr>) else p)
      in p'\<lparr>sp_recording := rec_recording r, sp_error := rec_error r\<rparr>)"

text \<open>A key on the page: the listener of the close key stands back while a shortcut is being recorded.\<close>

definition pageKey :: "bool \<Rightarrow> bool \<Rightarrow> settings_page \<Rightarrow> key_event \<Rightarrow> settings_page" where
  "pageKey mac canGoBack p ev =
     (if sp_recording p \<noteq> None then recorderKey mac p ev
      else if shortcutMatches mac ev (shortcutOf (pageShortcuts p) ''closeTab'') then closePage canGoBack p else p)"

datatype page_event =
    PickTheme app_theme
  | PickFont app_font
  | PickFontSize int
  | PickProvider ai_provider
  | PickModel string
  | RestoreDefaults
  | RecordShortcut string
  | UnbindShortcut string
  | PressKey key_event
  | CloseButton
  | SystemScheme bool

fun pageStep :: "bool \<Rightarrow> bool \<Rightarrow> settings_page \<Rightarrow> page_event \<Rightarrow> settings_page option" where
  "pageStep mac back p (PickTheme t) = Some (changeSettings p (noPatch\<lparr>pa_theme := Some t\<rparr>))"
| "pageStep mac back p (PickFont f) = Some (changeSettings p (noPatch\<lparr>pa_font := Some f\<rparr>))"
| "pageStep mac back p (PickFontSize n) = Some (changeSettings p (noPatch\<lparr>pa_fontSize := Some n\<rparr>))"
| "pageStep mac back p (PickProvider provider) = Some (pickProvider p provider)"
| "pageStep mac back p (PickModel m) = Some (changeSettings p (noPatch\<lparr>pa_aiModel := Some m\<rparr>))"
| "pageStep mac back p RestoreDefaults = Some (p\<lparr>sp_state := resetAppSettings (sp_dark p) (sp_state p)\<rparr>)"
| "pageStep mac back p (RecordShortcut i) = Some (startRecording p i)"
| "pageStep mac back p (UnbindShortcut i) = Some (unbindShortcut p i)"
| "pageStep mac back p (PressKey ev) = Some (pageKey mac back p ev)"
| "pageStep mac back p CloseButton = Some (closePage back p)"
| "pageStep mac back p (SystemScheme dark) = Some (p\<lparr>sp_dark := dark, sp_state := mediaChanged dark (sp_state p)\<rparr>)"

text \<open>What the page offers: the sizes and models of its lists, the buttons of the known shortcuts.\<close>

fun offered :: "settings_page \<Rightarrow> page_event \<Rightarrow> bool" where
  "offered p (PickFontSize n) = (n \<in> set appFontSizes)"
| "offered p (PickModel m) = (m \<in> set (aiModels (as_aiProvider (set_settings (sp_state p)))))"
| "offered p (RecordShortcut i) = (i \<in> set shortcutIds)"
| "offered p (UnbindShortcut i) = (i \<in> set shortcutIds \<and> shortcutOf (pageShortcuts p) i \<noteq> UNBOUND)"
| "offered p _ = True"

subsection \<open>Settings in force, stored and shown\<close>

text \<open>
  The invariant: the settings are well-typed, the storage holds what loads to them, and the document
  shows them. \<open>free\<close> says whether no two shortcuts of a scope share a key.
\<close>

definition settled :: "bool \<Rightarrow> settings_state \<Rightarrow> bool" where
  "settled dark st \<longleftrightarrow> settings_ok (set_settings st) \<and> load (set_storage st) = set_settings st
     \<and> set_document st = applyStyle dark (set_settings st)"

definition pageInv :: "bool \<Rightarrow> bool \<Rightarrow> settings_page \<Rightarrow> bool" where
  "pageInv mac free p \<longleftrightarrow> settled (sp_dark p) (sp_state p) \<and> (free \<longrightarrow> shortcuts_ok mac (pageShortcuts p))
     \<and> (\<forall>i. sp_recording p = Some i \<longrightarrow> i \<in> set shortcutIds)"

lemma settled_start: "settled dark (startSettings dark stored)"
  by (simp add: settled_def startSettings_def settings_ok_load)

lemma settled_set: "settings_ok (patchSettings (set_settings st) p) \<Longrightarrow> settled dark (setAppSettings dark st p)"
  by (simp add: settled_def setAppSettings_def Let_def load_def load_stored)

lemma settled_reset: "settled dark (resetAppSettings dark st)"
  by (simp add: settled_def resetAppSettings_def load_def settings_ok_default)

lemma settled_media: "settled dark st \<Longrightarrow> settled dark' (mediaChanged dark' st)"
  by (auto simp: settled_def mediaChanged_def applyStyle_def)

lemma settings_ok_bind:
  assumes "settings_ok s" "i \<in> set shortcutIds" "isValidShortcut v"
  shows "settings_ok (s\<lparr>as_shortcuts := AList.update i v (as_shortcuts s)\<rparr>)"
proof -
  have "set (AList.update i v m) \<subseteq> insert (i, v) (set m)" for m by (induction m) auto
  then have "isValidShortcut w" if "(j, w) \<in> set (AList.update i v (as_shortcuts s))" for j w
    using that assms unfolding settings_ok_def by fastforce
  moreover have "map fst (AList.update i v (as_shortcuts s)) = shortcutIds"
    using assms by (simp add: settings_ok_def update_keys)
  ultimately show ?thesis using assms(1) by (auto simp: settings_ok_def)
qed

text \<open>What a key does while a shortcut is recorded: it binds a valid shortcut that is free, or nothing changes.\<close>

lemma handleKeyDown_cases:
  assumes "rec_recording r = Some i"
  obtains (binds) v where "handleKeyDown mac r ev = bindShortcut r i v" "isValidShortcut v"
  | (waits) e where "handleKeyDown mac r ev = r\<lparr>rec_error := e\<rparr>"
proof (cases "ke_key ev \<in> {''Backspace'', ''Delete''}")
  case True
  then show ?thesis using binds [of UNBOUND] assms by (simp add: handleKeyDown_def isValidShortcut_def)
next
  case False
  show ?thesis
  proof (cases "shortcutFromEvent mac ev (i = ''tabByNumber'')")
    case None
    then show ?thesis using waits [of "rec_error r"] False assms by (simp add: handleKeyDown_def)
  next
    case (Some v)
    then show ?thesis
      using binds [of v] waits False assms fromEvent_valid [OF Some]
      by (cases "recorderConflict mac (rec_shortcuts r) i v") (simp_all add: handleKeyDown_def)
  qed
qed

lemma changed_page:
  assumes "pageInv mac free p" "settings_ok (patchSettings (set_settings (sp_state p)) patch)"
    and "free \<Longrightarrow> shortcuts_ok mac (nullish (pa_shortcuts patch) (pageShortcuts p))"
  shows "pageInv mac free (changeSettings p patch)"
  using assms settled_set [OF assms(2)] by (simp add: pageInv_def changeSettings_def setAppSettings_def patchSettings_def Let_def)

lemma patch_shortcuts: "patchSettings s (noPatch\<lparr>pa_shortcuts := Some m\<rparr>) = s\<lparr>as_shortcuts := m\<rparr>"
  by (simp add: patchSettings_def noPatch_def nullish_def)

lemma recorderKey_inv:
  assumes "pageInv mac free p" "sp_recording p = Some i"
  shows "pageInv mac free (recorderKey mac p ev)"
proof -
  let ?r = "\<lparr>rec_recording = sp_recording p, rec_shortcuts = pageShortcuts p, rec_error = sp_error p\<rparr>"
  have i: "i \<in> set shortcutIds" using assms by (simp add: pageInv_def)
  have "rec_recording ?r = Some i" using assms(2) by simp
  then show ?thesis
  proof (rule handleKeyDown_cases [where mac = mac and ev = ev], goal_cases binds waits)
    case (binds v)
    let ?m = "AList.update i v (pageShortcuts p)"
    have "free \<Longrightarrow> shortcuts_ok mac ?m"
      using recorder_ok_step [of mac ?r "KeyDown ev"] assms binds by (auto simp: pageInv_def recorder_ok_def bindShortcut_def)
    then have "pageInv mac free (changeSettings p (noPatch\<lparr>pa_shortcuts := Some ?m\<rparr>))"
      using assms(1) i binds(2) by (intro changed_page) (auto simp: patch_shortcuts nullish_def pageInv_def settled_def intro: settings_ok_bind)
    then show ?thesis using binds by (simp add: recorderKey_def Let_def bindShortcut_def pageInv_def)
  next
    case (waits e)
    then show ?thesis using assms by (simp add: recorderKey_def Let_def pageInv_def)
  qed
qed

lemma unbind_inv:
  assumes "pageInv mac free p" "i \<in> set shortcutIds"
  shows "pageInv mac free (unbindShortcut p i)"
proof -
  let ?m = "AList.update i UNBOUND (pageShortcuts p)"
  have "free \<Longrightarrow> shortcuts_ok mac ?m"
    using recorder_ok_unbind [of mac "\<lparr>rec_recording = None, rec_shortcuts = pageShortcuts p, rec_error = None\<rparr>" i] assms
    by (simp add: pageInv_def recorder_ok_def bindShortcut_def)
  moreover have "isValidShortcut UNBOUND" by (simp add: isValidShortcut_def)
  ultimately have "pageInv mac free (changeSettings p (noPatch\<lparr>pa_shortcuts := Some ?m\<rparr>))"
    using assms by (intro changed_page) (auto simp: patch_shortcuts nullish_def pageInv_def settled_def intro: settings_ok_bind)
  then show ?thesis by (simp add: unbindShortcut_def pageInv_def)
qed

lemma chosen_page:
  assumes "pageInv mac free p" "pa_shortcuts patch = None"
    and "settings_ok (set_settings (sp_state p)) \<Longrightarrow> settings_ok (patchSettings (set_settings (sp_state p)) patch)"
  shows "pageInv mac free (changeSettings p patch)"
  using assms by (intro changed_page) (auto simp: pageInv_def settled_def nullish_def)

lemmas patch_eval = patchSettings_def noPatch_def nullish_def settings_ok_def

lemma pageStep_inv:
  assumes "pageInv mac free p" "offered p e"
  shows "\<exists>p'. pageStep mac back p e = Some p' \<and> pageInv mac free p'"
proof (cases e)
  case (PickProvider provider)
  have "pageInv mac free (pickProvider p provider)"
    unfolding pickProvider_def using assms hd_aiModels by (intro chosen_page) (auto simp: patch_eval)
  then show ?thesis using PickProvider by simp
next
  case RestoreDefaults
  have "pageInv mac free (p\<lparr>sp_state := resetAppSettings (sp_dark p) (sp_state p)\<rparr>)"
    using assms settled_reset default_shortcuts_ok by (simp add: pageInv_def resetAppSettings_def defaultAppSettings_def)
  then show ?thesis using RestoreDefaults by simp
next
  case (PressKey ev)
  have "pageInv mac free (pageKey mac back p ev)"
    using assms recorderKey_inv [OF assms(1)] by (cases "sp_recording p") (auto simp: pageKey_def closePage_def pageInv_def)
  then show ?thesis using PressKey by simp
next
  case (SystemScheme dark)
  have "pageInv mac free (p\<lparr>sp_dark := dark, sp_state := mediaChanged dark (sp_state p)\<rparr>)"
    using assms settled_media [of "sp_dark p" "sp_state p" dark] by (simp add: pageInv_def) (simp add: mediaChanged_def)
  then show ?thesis using SystemScheme by simp
next
  case (UnbindShortcut i)
  then show ?thesis using assms unbind_inv by simp
next
  case CloseButton
  then show ?thesis using assms by (simp add: closePage_def pageInv_def)
next
  case (RecordShortcut i)
  then show ?thesis using assms by (simp add: startRecording_def pageInv_def)
qed (use assms in \<open>auto intro!: chosen_page simp: patch_eval\<close>)

interpretation spage: guarded_machine "pageStep mac back" offered "pageInv mac free"
  by unfold_locales (rule pageStep_inv)

text \<open>Claim C36: the settings in force are always well-typed, stored and shown. Whatever the storage held
  at the start and whatever the user does on the settings page afterwards, the font size is one of the
  list, the model belongs to the provider and every known shortcut is there once and valid; starting
  again would load exactly the settings in force; the document shows them, in the system's colours
  when they say so; and shortcuts that did not share a key still do not.\<close>

theorem settings_page_sound:
  assumes "run_ok (pageStep mac back) offered (openSettingsPage dark (startSettings dark stored)) events"
  shows "\<exists>p. run_actions (pageStep mac back) (openSettingsPage dark (startSettings dark stored)) events = Some p
    \<and> settings_ok (set_settings (sp_state p))
    \<and> set_settings (startSettings dark' (set_storage (sp_state p))) = set_settings (sp_state p)
    \<and> set_document (sp_state p) = applyStyle (sp_dark p) (set_settings (sp_state p))
    \<and> (shortcuts_ok mac (as_shortcuts (load stored)) \<longrightarrow> shortcuts_ok mac (as_shortcuts (set_settings (sp_state p))))"
proof -
  let ?free = "shortcuts_ok mac (as_shortcuts (load stored))"
  have "pageInv mac ?free (openSettingsPage dark (startSettings dark stored))"
    using settled_start by (simp add: pageInv_def openSettingsPage_def) (simp add: startSettings_def)
  from spage.run_inv [OF this assms] show ?thesis by (auto simp: pageInv_def settled_def startSettings_def)
qed

definition example_page_events :: "page_event list" where
  "example_page_events = [PickTheme ThemeDark, PickFontSize 18, PickProvider Codex, RecordShortcut ''closeTab'', PressKey example_key]"

lemma settings_page_sound_witness:
  "\<exists>p. run_actions (pageStep True False) (openSettingsPage False (startSettings False None)) example_page_events = Some p
     \<and> settings_ok (set_settings (sp_state p)) \<and> set_settings (startSettings True (set_storage (sp_state p))) = set_settings (sp_state p)"
proof -
  have "run_ok (pageStep True False) offered (openSettingsPage False (startSettings False None)) example_page_events"
    by (simp add: example_page_events_def appFontSizes_def shortcutIds_def shortcutDefinitions_def)
  from settings_page_sound [OF this, of True] show ?thesis by blast
qed

end
