(* ===== verification/Splitters.thy ===== *)
theory Splitters
  imports Js_Prelude Complex_Main
begin

text \<open>
  The separators that are dragged: the width of the object explorer (\<open>WorkspacePage.tsx\<close>), the share of
  the editor (\<open>WorkspacePane.tsx\<close>) and the width of the AI panel (\<open>AppShell.tsx\<close>). Positions are
  rational numbers of pixels; whether the element still holds the pointer is a field of the event. The
  three implement one contract, \<open>separator\<close>.
\<close>

subsection \<open>Pointers and separators\<close>

record pointer =
  pv_pointer :: int
  pv_button :: int
  pv_isPrimary :: bool
  pv_at :: rat
  pv_captured :: bool

record drag =
  dg_pointer :: int
  dg_at :: rat
  dg_size :: rat
  dg_extent :: rat

record splitter =
  sl_size :: rat
  sl_drag :: "drag option"

text \<open>\<open>Down\<close> carries the height of the layout, if it is mounted, and of the separator itself.\<close>

datatype split_event = Down pointer "rat option" rat | Move pointer | Stop | DoubleClick | SplitKey string

definition initialSidebar :: splitter where
  "initialSidebar = \<lparr>sl_size = 224, sl_drag = None\<rparr>"

definition initialAi :: splitter where
  "initialAi = \<lparr>sl_size = 384, sl_drag = None\<rparr>"

definition initialShare :: splitter where
  "initialShare = \<lparr>sl_size = 40, sl_drag = None\<rparr>"

definition accepts :: "pointer \<Rightarrow> bool" where
  "accepts e \<longleftrightarrow> \<not> (pv_button e \<noteq> 0 \<or> \<not> pv_isPrimary e)"

definition startDrag :: "splitter \<Rightarrow> pointer \<Rightarrow> rat \<Rightarrow> splitter" where
  "startDrag s e extent = s\<lparr>sl_drag := Some \<lparr>dg_pointer = pv_pointer e, dg_at = pv_at e, dg_size = sl_size s, dg_extent = extent\<rparr>\<rparr>"

definition dragged :: "splitter \<Rightarrow> pointer \<Rightarrow> drag option" where
  "dragged s e = (case sl_drag s of
     None \<Rightarrow> None
   | Some d \<Rightarrow> if dg_pointer d \<noteq> pv_pointer e \<or> \<not> pv_captured e then None else Some d)"

subsection \<open>The three separators\<close>

fun sidebarStep :: "splitter \<Rightarrow> split_event \<Rightarrow> splitter" where
  "sidebarStep s (Down e layout own) = (if \<not> accepts e then s else startDrag s e 1)"
| "sidebarStep s (Move e) = (case dragged s e of
     None \<Rightarrow> s
   | Some d \<Rightarrow> s\<lparr>sl_size := max 180 (min 480 (dg_size d + pv_at e - dg_at d))\<rparr>)"
| "sidebarStep s Stop = s\<lparr>sl_drag := None\<rparr>"
| "sidebarStep s DoubleClick = s"
| "sidebarStep s (SplitKey k) =
     (if k \<notin> {''ArrowLeft'', ''ArrowRight'', ''Home'', ''End''} then s
      else s\<lparr>sl_size := if k = ''Home'' then 180 else if k = ''End'' then 480
        else max 180 (min 480 (sl_size s + (if k = ''ArrowLeft'' then - 16 else 16)))\<rparr>)"

fun aiStep :: "splitter \<Rightarrow> split_event \<Rightarrow> splitter" where
  "aiStep s (Down e layout own) = (if \<not> accepts e then s else startDrag s e 1)"
| "aiStep s (Move e) = (case dragged s e of
     None \<Rightarrow> s
   | Some d \<Rightarrow> s\<lparr>sl_size := max 280 (min 640 (dg_size d - pv_at e + dg_at d))\<rparr>)"
| "aiStep s Stop = s\<lparr>sl_drag := None\<rparr>"
| "aiStep s DoubleClick = s"
| "aiStep s (SplitKey k) =
     (if k \<notin> {''ArrowLeft'', ''ArrowRight'', ''Home'', ''End''} then s
      else s\<lparr>sl_size := if k = ''Home'' then 280 else if k = ''End'' then 640
        else max 280 (min 640 (sl_size s + (if k = ''ArrowLeft'' then 16 else - 16)))\<rparr>)"

text \<open>The share is a percentage of the height that the editor and the results have together.\<close>

fun shareStep :: "splitter \<Rightarrow> split_event \<Rightarrow> splitter" where
  "shareStep s (Down e layout own) =
     (if \<not> accepts e then s
      else let height = nullish layout 0 - own in if height \<le> 0 then s else startDrag s e height)"
| "shareStep s (Move e) = (case dragged s e of
     None \<Rightarrow> s
   | Some d \<Rightarrow> s\<lparr>sl_size := max 20 (min 80 (dg_size d + (pv_at e - dg_at d) / dg_extent d * 100))\<rparr>)"
| "shareStep s Stop = s\<lparr>sl_drag := None\<rparr>"
| "shareStep s DoubleClick = s\<lparr>sl_size := 40\<rparr>"
| "shareStep s (SplitKey k) =
     (if k \<notin> {''ArrowUp'', ''ArrowDown'', ''Home'', ''End''} then s
      else s\<lparr>sl_size := if k = ''Home'' then 20 else if k = ''End'' then 80
        else max 20 (min 80 (sl_size s + (if k = ''ArrowUp'' then - 5 else 5)))\<rparr>)"

subsection \<open>The contract of a separator\<close>

text \<open>Where the pointer of a drag was last, while the separator held it.\<close>

fun lastAt :: "int \<Rightarrow> pointer list \<Rightarrow> rat option" where
  "lastAt i [] = None"
| "lastAt i (e # es) = (case lastAt i es of
     Some x \<Rightarrow> Some x
   | None \<Rightarrow> if pv_pointer e = i \<and> pv_captured e then Some (pv_at e) else None)"

locale separator =
  fixes step :: "splitter \<Rightarrow> split_event \<Rightarrow> splitter"
    and lo hi :: rat
    and target :: "drag \<Rightarrow> rat \<Rightarrow> rat"
  assumes bounds: "lo \<le> sl_size s \<Longrightarrow> sl_size s \<le> hi \<Longrightarrow> lo \<le> sl_size (step s ev) \<and> sl_size (step s ev) \<le> hi"
    and move: "step s (Move e) = (case dragged s e of
      None \<Rightarrow> s | Some d \<Rightarrow> s\<lparr>sl_size := max lo (min hi (target d (pv_at e)))\<rparr>)"
begin

lemma run_bounds: "lo \<le> sl_size s \<Longrightarrow> sl_size s \<le> hi \<Longrightarrow> lo \<le> sl_size (foldl step s es) \<and> sl_size (foldl step s es) \<le> hi"
proof (induction es arbitrary: s)
  case (Cons e es)
  then show ?case using bounds [of s e] by simp
qed simp

text \<open>A drag does not accumulate: the size is that of the last position, whatever came between.\<close>

lemma drag_size:
  "sl_drag s = Some d \<Longrightarrow> sl_size (foldl step s (map Move es)) = (case lastAt (dg_pointer d) es of
     None \<Rightarrow> sl_size s | Some x \<Rightarrow> max lo (min hi (target d x)))"
proof (induction es arbitrary: s)
  case (Cons e es)
  have "sl_drag (step s (Move e)) = Some d" using Cons.prems by (simp add: move dragged_def)
  from Cons.IH [OF this] Cons.prems show ?case by (auto simp: move dragged_def split: option.split)
qed simp

end

interpretation sidebar_sep: separator sidebarStep 180 480 "\<lambda>d x. dg_size d + x - dg_at d"
proof unfold_locales
  fix s :: splitter and ev assume "180 \<le> sl_size s" "sl_size s \<le> 480"
  then show "180 \<le> sl_size (sidebarStep s ev) \<and> sl_size (sidebarStep s ev) \<le> 480"
    by (cases ev) (auto simp: startDrag_def max_def split: option.split)
qed simp

interpretation ai_sep: separator aiStep 280 640 "\<lambda>d x. dg_size d - x + dg_at d"
proof unfold_locales
  fix s :: splitter and ev assume "280 \<le> sl_size s" "sl_size s \<le> 640"
  then show "280 \<le> sl_size (aiStep s ev) \<and> sl_size (aiStep s ev) \<le> 640"
    by (cases ev) (auto simp: startDrag_def max_def split: option.split)
qed simp

interpretation share_sep: separator shareStep 20 80 "\<lambda>d x. dg_size d + (x - dg_at d) / dg_extent d * 100"
proof unfold_locales
  fix s :: splitter and ev assume "20 \<le> sl_size s" "sl_size s \<le> 80"
  then show "20 \<le> sl_size (shareStep s ev) \<and> sl_size (shareStep s ev) \<le> 80"
    by (cases ev) (auto simp: startDrag_def max_def Let_def split: option.split)
qed simp

subsection \<open>Bounds and drags\<close>

text \<open>The separators keep every pane usable. Whatever is pressed, dragged or clicked, by however
  many pointers, the object explorer stays between 180 and 480 pixels wide, the AI panel between 280 and
  640, and the editor keeps between 20 and 80 percent of the height.\<close>

theorem panes_stay_usable:
  "sl_size (foldl sidebarStep initialSidebar es) \<in> {180..480}
   \<and> sl_size (foldl aiStep initialAi es) \<in> {280..640}
   \<and> sl_size (foldl shareStep initialShare es) \<in> {20..80}"
  using sidebar_sep.run_bounds [of initialSidebar es] ai_sep.run_bounds [of initialAi es] share_sep.run_bounds [of initialShare es]
  by (simp add: initialSidebar_def initialAi_def initialShare_def)

text \<open>A drag follows its pointer: after any moves the size is the one at the start, moved by as
  much as the pointer is away from where it went down, and kept in its bounds; other pointers do nothing.\<close>

theorem drag_follows_pointer:
  assumes "accepts e" "lastAt (pv_pointer e) ms = Some x"
  shows "sl_size (foldl sidebarStep s (Down e layout own # map Move ms)) = max 180 (min 480 (sl_size s + (x - pv_at e)))
    \<and> sl_size (foldl aiStep s (Down e layout own # map Move ms)) = max 280 (min 640 (sl_size s - (x - pv_at e)))
    \<and> (own < nullish layout 0 \<longrightarrow> sl_size (foldl shareStep s (Down e layout own # map Move ms))
         = max 20 (min 80 (sl_size s + (x - pv_at e) / (nullish layout 0 - own) * 100)))"
proof -
  let ?d = "\<lambda>h. \<lparr>dg_pointer = pv_pointer e, dg_at = pv_at e, dg_size = sl_size s, dg_extent = h\<rparr>"
  have d: "sl_drag (startDrag s e h) = Some (?d h)" for h by (simp add: startDrag_def)
  show ?thesis using assms sidebar_sep.drag_size [OF d [of 1], of ms] ai_sep.drag_size [OF d [of 1], of ms]
      share_sep.drag_size [OF d [of "nullish layout 0 - own"], of ms]
    by (simp add: algebra_simps)
qed

end
