(* ===== verification/Editor_Views.thy ===== *)
theory Editor_Views
  imports Page_Protocols
begin

text \<open>
  The editors of a workspace page and their carets: \<open>onViewReady\<close> of \<open>src/app/shell/WorkspacePage.tsx\<close>, with
  \<open>focusActiveEditor\<close> and \<open>disposeTab\<close> of \<open>Workspace_Page\<close>. An editor exists while its tab is shown; its
  selection outlives it. One element of the page has the focus, here the editor of a tab or something else.
\<close>

subsection \<open>Views\<close>

text \<open>The document of a restored draft may be shorter than it was.\<close>

definition restoreSelection :: "(nat \<times> nat) option \<Rightarrow> editor_view \<Rightarrow> editor_view" where
  "restoreSelection saved view = (case saved of
     None \<Rightarrow> view
   | Some (anchor, head) \<Rightarrow> let ending = length (ev_doc view) in view\<lparr>ev_anchor := min anchor ending, ev_head := min head ending\<rparr>)"

definition viewReady :: "string \<Rightarrow> editor_view \<Rightarrow> page \<Rightarrow> page" where
  "viewReady tabId view p =
     (let p1 = p\<lparr>wp_views := AList.update tabId (restoreSelection (map_of (wp_selections p) tabId) view) (wp_views p)\<rparr>
      in if wp_focusEditor p = Some tabId then p1\<lparr>wp_focusEditor := None, wp_focused := Some tabId\<rparr> else p1)"

text \<open>The view is destroyed after the call, and the focus with it.\<close>

definition viewGone :: "string \<Rightarrow> page \<Rightarrow> page" where
  "viewGone tabId p =
     (let p1 = (case map_of (wp_views p) tabId of
        None \<Rightarrow> p
      | Some previous \<Rightarrow>
          let p' = p\<lparr>wp_selections := AList.update tabId (ev_anchor previous, ev_head previous) (wp_selections p)\<rparr>
          in if wp_focused p = Some tabId \<and> Option.bind (currentWorkspace p) ws_activeTabId = Some tabId
             then p'\<lparr>wp_focusEditor := Some tabId\<rparr> else p')
      in p1\<lparr>wp_views := AList.delete tabId (wp_views p1), wp_focused := if wp_focused p1 = Some tabId then None else wp_focused p1\<rparr>)"

text \<open>What the user does in an editor: the caret moves or the text changes.\<close>

definition editView :: "string \<Rightarrow> editor_view \<Rightarrow> page \<Rightarrow> page" where
  "editView tabId view p = (if map_of (wp_views p) tabId = None then p else p\<lparr>wp_views := AList.update tabId view (wp_views p)\<rparr>)"

subsection \<open>The store of the carets\<close>

datatype view_op = Mount editor_view | Unmount | EditDoc editor_view | Forget

text \<open>\<open>Forget\<close> is what \<open>disposeTab\<close> does to the selections.\<close>

fun viewOp :: "view_op \<Rightarrow> string \<Rightarrow> page \<Rightarrow> page" where
  "viewOp (Mount v) tabId p = viewReady tabId v p"
| "viewOp Unmount tabId p = viewGone tabId p"
| "viewOp (EditDoc v) tabId p = editView tabId v p"
| "viewOp Forget tabId p = p\<lparr>wp_selections := AList.delete tabId (wp_selections p)\<rparr>"

lemma disposeTab_forgets: "wp_selections (disposeTab t p) = wp_selections (viewOp Forget (qt_id t) p)"
  by (simp add: disposeTab_def undirty_def Let_def split: prod.split)

definition caretOf :: "page \<Rightarrow> string \<Rightarrow> editor_view option \<times> (nat \<times> nat) option" where
  "caretOf p tabId = (map_of (wp_views p) tabId, map_of (wp_selections p) tabId)"

lemmas view_eval = caretOf_def viewReady_def viewGone_def editView_def Let_def

interpretation carets: keyed_store caretOf viewOp
proof
  fix k k' :: string and a p assume "k' \<noteq> k"
  then show "caretOf (viewOp a k p) k' = caretOf p k'"
    by (cases a) (auto simp: view_eval split: option.split)
next
  fix p p' k a assume "caretOf p k = caretOf p' k"
  then show "caretOf (viewOp a k p) k = caretOf (viewOp a k p') k"
    by (cases a) (auto simp: view_eval split: option.split)
qed

text \<open>The caret survives a change of tabs. The editor of a tab disappears with its selection; whatever
  the editors of other tabs do in the meantime, the next editor of the tab starts with that selection,
  cut to the document it shows.\<close>

theorem caret_survives_tab_change:
  assumes "map_of (wp_views p) tabId = Some old" "\<forall>q\<in>set ops. snd q \<noteq> tabId"
  shows "map_of (wp_views (run_ops viewOp ((Unmount, tabId) # ops @ [(Mount new, tabId)]) p)) tabId
    = Some (new\<lparr>ev_anchor := min (ev_anchor old) (length (ev_doc new)), ev_head := min (ev_head old) (length (ev_doc new))\<rparr>)"
proof -
  let ?gone = "viewGone tabId p"
  have "caretOf ?gone tabId = (None, Some (ev_anchor old, ev_head old))" using assms(1) by (simp add: view_eval)
  moreover have "caretOf (run_ops viewOp ops ?gone) tabId = caretOf ?gone tabId" using assms(2) by (intro carets.untouched) auto
  ultimately have "map_of (wp_selections (run_ops viewOp ops ?gone)) tabId = Some (ev_anchor old, ev_head old)" by (simp add: caretOf_def)
  then show ?thesis by (simp add: run_ops_def viewReady_def restoreSelection_def Let_def)
qed

lemma caret_survives_tab_change_witness:
  "map_of (wp_views (run_ops viewOp ((Unmount, ''a'') # [(Mount \<lparr>ev_doc = ''x'', ev_anchor = 0, ev_head = 0\<rparr>, ''b'')]
     @ [(Mount \<lparr>ev_doc = ''s'', ev_anchor = 0, ev_head = 0\<rparr>, ''a'')]) example_page)) ''a'' = Some \<lparr>ev_doc = ''s'', ev_anchor = 1, ev_head = 1\<rparr>"
proof -
  have "map_of (wp_views example_page) ''a'' = Some \<lparr>ev_doc = ''drop table t'', ev_anchor = 2, ev_head = 2\<rparr>"
    by (simp add: example_page_def)
  from caret_survives_tab_change [OF this, of "[(Mount \<lparr>ev_doc = ''x'', ev_anchor = 0, ev_head = 0\<rparr>, ''b'')]" "\<lparr>ev_doc = ''s'', ev_anchor = 0, ev_head = 0\<rparr>"]
  show ?thesis by simp
qed

subsection \<open>The focus\<close>

text \<open>
  A request to focus the active editor is answered at once when the editor is there, or else by its next
  appearance; an editor that is recreated while it has the focus gets it back.
\<close>

lemma focus_request_answered:
  assumes "Option.bind (currentWorkspace p) ws_activeTabId = Some tabId"
  shows "wp_focused (if map_of (wp_views p) tabId = None then viewReady tabId v (focusActiveEditor p) else focusActiveEditor p) = Some tabId"
  using assms by (auto simp: focusActiveEditor_def viewReady_def nullish_def nullish_opt_def Option.bind_eq_Some_conv Let_def split: option.split)

lemma recreated_editor_focused:
  assumes "map_of (wp_views p) tabId = Some old" "wp_focused p = Some tabId" "Option.bind (currentWorkspace p) ws_activeTabId = Some tabId"
  shows "wp_focused (viewReady tabId v (viewGone tabId p)) = Some tabId"
  using assms by (simp add: viewReady_def viewGone_def Let_def)

end
