(* ===== verification/Autosave.thy ===== *)
theory Autosave
  imports Persistence
begin

text \<open>
  When the workspaces are written: \<open>preloadSnapshot\<close>, \<open>saveWorkspaceSoon\<close> and \<open>saveWorkspaceNow\<close> of
  \<open>src/entities/workspace/persistence.ts\<close>, around the chain of writes of \<open>Persistence\<close>. A step is a
  change of the work that was announced by \<open>saveWorkspaceSoon\<close>, a call that saves the work as it is then,
  time that passes, the timer, a continuation after \<open>await\<close>, or an answer of the backend. The database that \<open>restoreWorkspace\<close> claims
  in the cache is not a step here, nor are the entries that a rejected commit of the saved queries puts
  back; these are the subject of \<open>Saved_Commits\<close>.
\<close>

subsection \<open>The machine\<close>

text \<open>What \<open>buildSnapshot\<close> reads of the application.\<close>

record work =
  wk_states :: "(string, workspace_state) js_map"
  wk_drafts :: draft_maps
  wk_open :: "(string \<times> connection_profile) list"
  wk_savedQueries :: "saved_query list"
  wk_aiSessions :: "ai_session list"

definition snapshotOf :: "work \<Rightarrow> workspace_snapshot option \<Rightarrow> workspace_snapshot" where
  "snapshotOf w cached = buildSnapshot cached (wk_states w) (wk_drafts w) (wk_open w) (wk_savedQueries w) (wk_aiSessions w)"

definition hydrateWork :: "string comparator \<Rightarrow> workspace_snapshot option \<Rightarrow> work \<Rightarrow> work" where
  "hydrateWork localeCompare snap w =
     w\<lparr>wk_savedQueries := hydrateSaved localeCompare (case snap of None \<Rightarrow> [] | Some s \<Rightarrow> sn_savedQueries s),
       wk_aiSessions := hydrateSessions localeCompare (case snap of None \<Rightarrow> [] | Some s \<Rightarrow> sn_aiSessions s)\<rparr>"

record autosave =
  au_work :: work
  au_now :: nat
  au_timer :: "nat option"
  au_waiting :: nat
  au_loadStarted :: bool
  au_store :: persistence

definition startAutosave :: "work \<Rightarrow> autosave" where
  "startAutosave w = \<lparr>au_work = w, au_now = 0, au_timer = None, au_waiting = 0, au_loadStarted = False, au_store = startPersistence\<rparr>"

definition preloadSnapshot :: "autosave \<Rightarrow> autosave" where
  "preloadSnapshot s = s\<lparr>au_loadStarted := True\<rparr>"

definition saveWorkspaceSoon :: "autosave \<Rightarrow> autosave" where
  "saveWorkspaceSoon s = s\<lparr>au_timer := Some (au_now s + 1500)\<rparr>"

text \<open>Up to the \<open>await\<close>; the continuation is a step of its own.\<close>

definition saveWorkspaceNow :: "autosave \<Rightarrow> autosave" where
  "saveWorkspaceNow s = preloadSnapshot (s\<lparr>au_timer := None, au_waiting := au_waiting s + 1\<rparr>)"

datatype autosave_step =
    Change work
  | SaveCalled work
  | PreloadCalled
  | Elapse nat
  | TimerFires
  | LoadSettles "string + workspace_snapshot option"
  | SaveResumes
  | WriteSettles "string option"

definition storeStep :: "autosave \<Rightarrow> persistence_step \<Rightarrow> autosave option" where
  "storeStep s a = map_option (\<lambda>p. s\<lparr>au_store := p\<rparr>) (persistenceStep (au_store s) a)"

fun autosaveStep :: "string comparator \<Rightarrow> autosave \<Rightarrow> autosave_step \<Rightarrow> autosave option" where
  "autosaveStep lc s (Change w) = Some (saveWorkspaceSoon (s\<lparr>au_work := w\<rparr>))"
| "autosaveStep lc s (SaveCalled w) = Some (saveWorkspaceNow (s\<lparr>au_work := w\<rparr>))"
| "autosaveStep lc s PreloadCalled = Some (preloadSnapshot s)"
| "autosaveStep lc s (Elapse ms) = Some (s\<lparr>au_now := au_now s + ms\<rparr>)"
| "autosaveStep lc s TimerFires = (case au_timer s of
     None \<Rightarrow> None | Some at \<Rightarrow> if at \<le> au_now s then Some (saveWorkspaceNow s) else None)"
| "autosaveStep lc s (LoadSettles r) =
     (if \<not> au_loadStarted s then None
      else map_option (\<lambda>s'. case r of Inl e \<Rightarrow> s' | Inr snap \<Rightarrow> s'\<lparr>au_work := hydrateWork lc snap (au_work s')\<rparr>) (storeStep s (LoadEnds r)))"
| "autosaveStep lc s SaveResumes =
     (if au_waiting s = 0 then None
      else map_option (\<lambda>s'. s'\<lparr>au_waiting := au_waiting s' - 1\<rparr>) (storeStep s (SaveNow (snapshotOf (au_work s)))))"
| "autosaveStep lc s (WriteSettles failure) = storeStep s (WriteEnds failure)"

subsection \<open>No change is lost unnoticed\<close>

text \<open>A snapshot of the work as it is; of the cache only what other connections have is in it.\<close>

definition current :: "autosave \<Rightarrow> workspace_snapshot \<Rightarrow> bool" where
  "current s snap \<longleftrightarrow> (\<exists>cached. snap = snapshotOf (au_work s) cached)"

definition onItsWay :: "autosave \<Rightarrow> bool" where
  "onItsWay s \<longleftrightarrow> au_timer s \<noteq> None \<or> au_waiting s > 0 \<or> (ps_chain (au_store s) \<noteq> [] \<and> current s (last (ps_chain (au_store s))))"

definition storedNow :: "autosave \<Rightarrow> bool" where
  "storedNow s \<longleftrightarrow> ps_written (au_store s) \<noteq> [] \<and> current s (last (ps_written (au_store s)))"

definition workCovered :: "autosave \<Rightarrow> bool" where
  "workCovered s \<longleftrightarrow> onItsWay s \<or> (ps_chain (au_store s) = [] \<and> (storedNow s \<or> ps_error (au_store s) \<noteq> None))"

definition autosave_ok :: "autosave \<Rightarrow> bool" where
  "autosave_ok s \<longleftrightarrow> persistence_ok (au_store s) \<and> (ps_loaded (au_store s) = None \<longrightarrow> ps_error (au_store s) = None)
     \<and> (ps_loaded (au_store s) = Some False \<longrightarrow> ps_error (au_store s) \<noteq> None)"

lemma autosave_ok_start: "autosave_ok (startAutosave w)"
  by (simp add: autosave_ok_def startAutosave_def startPersistence_def persistence_ok_def)

lemmas autosave_eval = saveWorkspaceSoon_def saveWorkspaceNow_def preloadSnapshot_def storeStep_def
  autosave_ok_def persistence_ok_def workCovered_def onItsWay_def storedNow_def current_def

lemma autosave_ok_step: "autosave_ok s \<Longrightarrow> autosaveStep lc s a = Some s' \<Longrightarrow> autosave_ok s'"
  by (cases a) (auto simp: autosave_eval split: option.splits sum.splits if_splits list.splits)

fun changes :: "autosave_step \<Rightarrow> bool" where
  "changes (Change w) = True"
| "changes (SaveCalled w) = True"
| "changes _ = False"

lemma covered_change: "changes a \<Longrightarrow> autosaveStep lc s a = Some s' \<Longrightarrow> workCovered s'"
  by (cases a) (auto simp: autosave_eval)

lemma covered_mono:
  assumes "workCovered s" "au_store s' = au_store s" "au_work s' = au_work s"
    and "au_timer s \<noteq> None \<or> au_waiting s > 0 \<Longrightarrow> au_timer s' \<noteq> None \<or> au_waiting s' > 0"
  shows "workCovered s'"
  using assms unfolding workCovered_def onItsWay_def storedNow_def current_def by metis

lemma covered_step:
  assumes "autosave_ok s" "workCovered s" "autosaveStep lc s a = Some s'"
  shows "workCovered s'"
proof (cases a)
  case (LoadSettles r)
  then have "onItsWay s" "ps_chain (au_store s) = []" using assms by (auto simp: autosave_eval split: option.splits if_splits)
  then show ?thesis using assms(3) LoadSettles by (auto simp: autosave_eval split: option.splits sum.splits if_splits)
next
  case SaveResumes
  show ?thesis
  proof (cases "ps_loaded (au_store s) = Some True")
    case True
    then have "ps_chain (au_store s') = ps_chain (au_store s) @ [snapshotOf (au_work s') (ps_cache (au_store s))]"
      using assms(3) SaveResumes by (auto simp: storeStep_def split: if_splits)
    then show ?thesis by (auto simp: workCovered_def onItsWay_def current_def)
  next
    case False
    then show ?thesis using assms SaveResumes by (auto simp: autosave_eval split: option.splits if_splits)
  qed
next
  case (WriteSettles failure)
  then obtain snap rest where chain: "ps_chain (au_store s) = snap # rest" using assms(3) by (auto simp: storeStep_def split: list.splits)
  have same: "au_work s' = au_work s" "au_timer s' = au_timer s" "au_waiting s' = au_waiting s"
    using assms(3) WriteSettles by (auto simp: storeStep_def)
  have store: "ps_chain (au_store s') = rest" "failure = None \<Longrightarrow> ps_written (au_store s') = ps_written (au_store s) @ [snap]"
    "failure \<noteq> None \<Longrightarrow> ps_error (au_store s') \<noteq> None"
    using assms(3) WriteSettles chain by (auto simp: storeStep_def split: option.splits)
  have "onItsWay s" using assms(2) chain by (simp add: workCovered_def)
  then show ?thesis using chain same store
    by (cases "rest = []"; cases failure) (auto simp: workCovered_def onItsWay_def storedNow_def current_def)
next
  case TimerFires
  then show ?thesis using assms(3) by (auto simp: autosave_eval split: option.splits if_splits)
next
  case (Elapse ms)
  then show ?thesis using assms(3) by (intro covered_mono [OF assms(2)]) auto
next
  case PreloadCalled
  then show ?thesis using assms(3) by (intro covered_mono [OF assms(2)]) (auto simp: preloadSnapshot_def)
qed (use assms(3) in \<open>auto simp: autosave_eval\<close>)

lemma covered_run:
  assumes "run_actions (autosaveStep lc) s steps = Some s'" "autosave_ok s" "workCovered s \<or> list_ex changes steps"
  shows "workCovered s' \<and> autosave_ok s'"
  using assms
proof (induction steps arbitrary: s)
  case (Cons a steps)
  then obtain s1 where s1: "autosaveStep lc s a = Some s1" "run_actions (autosaveStep lc) s1 steps = Some s'" by (auto split: bind_splits)
  have "workCovered s1 \<or> list_ex changes steps"
    using Cons.prems(3) covered_step [OF Cons.prems(2) _ s1(1)] covered_change [OF _ s1(1)] by auto
  then show ?case using Cons.IH [OF s1(2) autosave_ok_step [OF Cons.prems(2) s1(1)]] by blast
qed simp


definition example_work :: work where
  "example_work = \<lparr>wk_states = [], wk_drafts = \<lparr>dm_sql = [], dm_saved = []\<rparr>, wk_open = [], wk_savedQueries = [], wk_aiSessions = []\<rparr>"

definition example_saving :: "autosave_step list" where
  "example_saving = [PreloadCalled, LoadSettles (Inr None), Change example_work, Elapse 1500, TimerFires, SaveResumes, WriteSettles None]"


text \<open>The work reaches the backend by itself: some step is always open while it is on its way.\<close>

lemma saving_never_stuck:
  assumes "onItsWay s" "au_waiting s > 0 \<longrightarrow> au_loadStarted s"
  shows "\<exists>a s'. autosaveStep lc s a = Some s' \<and> \<not> changes a \<and> (\<forall>ms. a = Elapse ms \<longrightarrow> au_timer s \<noteq> None \<and> au_now s < the (au_timer s))"
proof -
  consider at where "au_timer s = Some at" | "au_waiting s > 0" "au_timer s = None" | "ps_chain (au_store s) \<noteq> []"
    using assms(1) by (auto simp: onItsWay_def)
  then show ?thesis
  proof cases
    case (1 at)
    then show ?thesis by (cases "at \<le> au_now s") (force intro: exI [of _ TimerFires], force intro!: exI [of _ "Elapse 1"])
  next
    case 2
    then show ?thesis using assms(2)
      by (cases "ps_loaded (au_store s)") (force intro!: exI [of _ "LoadSettles (Inl [])"] simp: storeStep_def, force intro!: exI [of _ SaveResumes] simp: storeStep_def)
  next
    case 3
    then show ?thesis by (force intro!: exI [of _ "WriteSettles None"] simp: storeStep_def neq_Nil_conv)
  qed
qed

end
