(* ===== verification/Saved_Commits.thy ===== *)
theory Saved_Commits
  imports Autosave
begin

text \<open>
  \<open>SavedQueryStore.commit\<close> of \<open>src/entities/query/savedQueryStore.ts\<close> while it waits: the entries are replaced, a
  save is requested, and the entries from before are put back when that save is rejected.
  \<open>Entity_Stores\<close> treats a commit as one step; here it runs on the machine of \<open>Autosave\<close> among other saves.
  The callers of \<open>saveWorkspaceNow\<close> get their answers in the order of their calls, as the saves form
  one chain; a caller is the list to put back, or nothing for a save that no commit waits for.
\<close>

subsection \<open>Commits under way\<close>

record saved_commits =
  sm_auto :: autosave
  sm_callers :: "saved_query list option list"

datatype commit_step = CommitSaved "saved_query list" | Other autosave_step

abbreviation savedEntries :: "saved_commits \<Rightarrow> saved_query list" where
  "savedEntries m \<equiv> wk_savedQueries (au_work (sm_auto m))"

abbreviation storedSnapshots :: "saved_commits \<Rightarrow> workspace_snapshot list" where
  "storedSnapshots m \<equiv> ps_written (au_store (sm_auto m))"

definition setEntries :: "saved_query list \<Rightarrow> autosave \<Rightarrow> autosave" where
  "setEntries entries s = s\<lparr>au_work := (au_work s)\<lparr>wk_savedQueries := entries\<rparr>\<rparr>"

text \<open>The answer to the first caller: a rejected commit puts its entries back.\<close>

definition answerCaller :: "bool \<Rightarrow> saved_commits \<Rightarrow> saved_commits" where
  "answerCaller rejected m = (case sm_callers m of
     [] \<Rightarrow> m
   | c # rest \<Rightarrow> (case c of
        Some previous \<Rightarrow> (if rejected then m\<lparr>sm_auto := setEntries previous (sm_auto m), sm_callers := rest\<rparr> else m\<lparr>sm_callers := rest\<rparr>)
      | None \<Rightarrow> m\<lparr>sm_callers := rest\<rparr>))"

definition stepAuto :: "string comparator \<Rightarrow> saved_commits \<Rightarrow> autosave_step \<Rightarrow> saved_commits option" where
  "stepAuto lc m a = map_option (\<lambda>s. m\<lparr>sm_auto := s\<rparr>) (autosaveStep lc (sm_auto m) a)"

fun savedStep :: "string comparator \<Rightarrow> saved_commits \<Rightarrow> commit_step \<Rightarrow> saved_commits option" where
  "savedStep lc m (CommitSaved entries) =
     map_option (\<lambda>m'. m'\<lparr>sm_callers := sm_callers m @ [Some (savedEntries m)]\<rparr>)
       (stepAuto lc m (SaveCalled ((au_work (sm_auto m))\<lparr>wk_savedQueries := sortByName lc entries\<rparr>)))"
| "savedStep lc m (Other a) = (case stepAuto lc m a of
     None \<Rightarrow> None
   | Some m' \<Rightarrow> Some (case a of
        SaveCalled w \<Rightarrow> m'\<lparr>sm_callers := sm_callers m @ [None]\<rparr>
      | TimerFires \<Rightarrow> m'\<lparr>sm_callers := sm_callers m @ [None]\<rparr>
      | SaveResumes \<Rightarrow> if ps_loaded (au_store (sm_auto m)) = Some False then answerCaller True m' else m'
      | WriteSettles failure \<Rightarrow> answerCaller (failure \<noteq> None) m'
      | _ \<Rightarrow> m'))"

text \<open>Nothing is being saved, and saving is possible.\<close>

definition idle :: "saved_commits \<Rightarrow> bool" where
  "idle m \<longleftrightarrow> sm_callers m = [] \<and> au_waiting (sm_auto m) = 0 \<and> ps_chain (au_store (sm_auto m)) = [] \<and> ps_loaded (au_store (sm_auto m)) = Some True"

lemmas commit_eval = stepAuto_def storeStep_def saveWorkspaceNow_def preloadSnapshot_def answerCaller_def setEntries_def
  snapshotOf_def buildSnapshot_def

subsection \<open>A commit alone is one step\<close>

text \<open>
  A commit that no other save interferes with is the atomic \<open>commitSaved\<close>: the entries are the new ones and
  stored, or those from before and nothing was stored.
\<close>

theorem commit_alone_atomic:
  assumes "idle m"
  shows "\<exists>m'. run_actions (savedStep lc) m [CommitSaved entries, Other SaveResumes, Other (WriteSettles failure)] = Some m'
    \<and> savedEntries m' = snd (commitSaved lc (savedEntries m) entries (failure = None)) \<and> idle m'
    \<and> map sn_savedQueries (storedSnapshots m') = map sn_savedQueries (storedSnapshots m) @ (if failure = None then [savedEntries m'] else [])"
  using assms by (cases failure) (simp_all add: idle_def commit_eval commitSaved_def)

subsection \<open>Commits that overlap\<close>

text \<open>
  Two commits that overlap lose a query that was reported as saved. The second one starts
  from the entries of the first. When the write of the first is rejected, the entries from before the
  first are put back, and those of the second are gone from the list; its own write succeeds. The
  next save of the workspace then writes the list without them over it.
\<close>

theorem overlapping_commit_lost:
  assumes "idle m"
  shows "\<exists>m'. run_actions (savedStep lc) m [CommitSaved first, Other SaveResumes, CommitSaved second, Other SaveResumes,
        Other (WriteSettles (Some e)), Other (WriteSettles None)] = Some m'
    \<and> sn_savedQueries (last (storedSnapshots m')) = sortByName lc second
    \<and> savedEntries m' = savedEntries m \<and> sm_callers m' = []
    \<and> (\<exists>m''. run_actions (savedStep lc) m' [Other (SaveCalled (au_work (sm_auto m'))), Other SaveResumes, Other (WriteSettles None)] = Some m''
        \<and> sn_savedQueries (last (storedSnapshots m'')) = savedEntries m)"
  using assms by (simp add: idle_def commit_eval)

end
