(* ===== verification/Explorer_Tree.thy ===== *)
theory Explorer_Tree
  imports Object_Explorer
begin

text \<open>
  What \<open>ObjectSidebar.tsx\<close> renders, and how its keys find their way in it. The elements of the tree are a
  model of the document: an element has a tag, the row it is (\<open>data-tree-row\<close>) if it is one, and its
  children; an element is identified by its path. Elements inside of a button, text and attributes are
  left out. The state of a catalog query (react-query) is an argument. The lookups of the code,
  \<open>childRow\<close> and \<open>parentRow\<close>, go through siblings and ancestors; the theorem says that they are the
  first child and the parent of the tree that is shown.
\<close>

subsection \<open>The document\<close>

datatype html_tag = DIV | UL | LI | BUTTON | SPAN | PARA

datatype 'r dom = El (el_tag: html_tag) (el_row: "'r option") (el_children: "'r dom list")

fun dom_at :: "'r dom \<Rightarrow> nat list \<Rightarrow> 'r dom option" where
  "dom_at e [] = Some e"
| "dom_at e (i # p) = (if i < length (el_children e) then dom_at (el_children e ! i) p else None)"

text \<open>The paths of the rows in document order.\<close>

definition numbered :: "nat list list list \<Rightarrow> nat list list" where
  "numbered pss = concat (map (\<lambda>(i, ps). map (Cons i) ps) (enumerate 0 pss))"

fun rowPaths :: "'r dom \<Rightarrow> nat list list" where
  "rowPaths (El t r cs) = (if r = None then [] else [[]]) @ numbered (map rowPaths cs)"

definition querySelectorAll :: "'r dom \<Rightarrow> nat list \<Rightarrow> nat list list" where
  "querySelectorAll root p = (case dom_at root p of None \<Rightarrow> [] | Some e \<Rightarrow> map ((@) p) (numbered (map rowPaths (el_children e))))"

definition querySelector :: "'r dom \<Rightarrow> nat list \<Rightarrow> nat list option" where
  "querySelector root p = (case querySelectorAll root p of [] \<Rightarrow> None | q # _ \<Rightarrow> Some q)"

definition nextElementSibling :: "'r dom \<Rightarrow> nat list \<Rightarrow> nat list option" where
  "nextElementSibling root p = (if p = [] then None
     else let q = butlast p @ [Suc (last p)] in if dom_at root q = None then None else Some q)"

definition parentElement :: "nat list \<Rightarrow> nat list option" where
  "parentElement p = (if p = [] then None else Some (butlast p))"

definition isList :: "'r dom \<Rightarrow> nat list \<Rightarrow> bool" where
  "isList root p \<longleftrightarrow> map_option el_tag (dom_at root p) = Some UL"

definition closestList :: "'r dom \<Rightarrow> nat list \<Rightarrow> nat list option" where
  "closestList root p = find (isList root) (map (\<lambda>n. take n p) (rev [0..<Suc (length p)]))"

definition childRow :: "'r dom \<Rightarrow> nat list \<Rightarrow> nat list option" where
  "childRow root row =
     Option.bind (find (isList root) (List.map_filter id
        [nextElementSibling root row, Option.bind (parentElement row) (nextElementSibling root)]))
       (querySelector root)"

definition parentRow :: "'r dom \<Rightarrow> nat list \<Rightarrow> nat list option" where
  "parentRow root row = Option.bind (Option.bind (closestList root row) parentElement) (querySelector root)"

definition rowAt :: "'r dom \<Rightarrow> nat list \<Rightarrow> 'r option" where
  "rowAt root p = Option.bind (dom_at root p) el_row"

subsection \<open>What is rendered\<close>

datatype explorer_row = SchemaRow nat | GroupRow nat string | ObjectRow nat

record group_query =
  gq_isLoading :: bool
  gq_isError :: bool
  gq_data :: "database_object list option"

record schema_info =
  sc_oid :: nat
  sc_name :: string
  sc_isSystem :: bool

record schemas_query =
  sq_isLoading :: bool
  sq_isError :: bool
  sq_data :: "schema_info list option"

fun branchDom :: "expansion_state \<Rightarrow> string \<Rightarrow> object_node \<Rightarrow> explorer_row dom" where
  "branchDom st search (ObjectNode o' cs) =
     (if ci_kind o' = ''function'' then El LI None [El BUTTON (Some (ObjectRow (ci_oid o'))) []]
      else El LI None (El DIV None [if cs \<noteq> [] then El BUTTON None [] else El SPAN None [], El BUTTON (Some (ObjectRow (ci_oid o'))) []]
        # (if isExpanded st (branchKey (ci_oid o') search) (search \<noteq> []) \<and> cs \<noteq> []
           then [El UL None (map (branchDom st search) cs)] else [])))"

definition groupDom :: "expansion_state \<Rightarrow> string \<Rightarrow> string \<Rightarrow> nat \<Rightarrow> (nat \<Rightarrow> string \<Rightarrow> group_query) \<Rightarrow> string \<Rightarrow> explorer_row dom" where
  "groupDom st conn search schemaOid objects kind =
     (let q = objects schemaOid kind; visible = visibleNodes (nullish (gq_data q) []) search in
      El LI None (El BUTTON (Some (GroupRow schemaOid kind)) []
        # (if isExpanded st (groupKey conn schemaOid kind search) (search \<noteq> [])
           then [El UL None ((if gq_isLoading q then [El LI None []] else [])
                   @ (if gq_isError q then [El LI None [El BUTTON None []]] else [])
                   @ (if gq_data q \<noteq> None \<and> visible = [] then [El LI None []] else [])
                   @ map (branchDom st search) visible)]
           else [])))"

definition GROUPS :: "string list" where
  "GROUPS = [''table'', ''view'', ''function'']"

definition schemaDom :: "expansion_state \<Rightarrow> string \<Rightarrow> string \<Rightarrow> (nat \<Rightarrow> string \<Rightarrow> group_query) \<Rightarrow> schema_info \<Rightarrow> explorer_row dom" where
  "schemaDom st conn search objects s =
     El DIV None (El BUTTON (Some (SchemaRow (sc_oid s))) []
       # (if isExpanded st (schemaKey conn (sc_oid s)) (sc_name s = ''public'')
          then [El UL None (map (groupDom st conn search (sc_oid s) objects) GROUPS)] else []))"

definition explorerDom :: "expansion_state \<Rightarrow> string \<Rightarrow> string \<Rightarrow> schemas_query \<Rightarrow> (nat \<Rightarrow> string \<Rightarrow> group_query) \<Rightarrow> explorer_row dom" where
  "explorerDom st conn search schemas objects =
     El DIV None ((if sq_isLoading schemas then [El PARA None []] else [])
       @ (if sq_isError schemas then [El PARA None []] else [])
       @ map (schemaDom st conn search objects) (nullish (sq_data schemas) []))"

text \<open>The arrows, \<open>Home\<close> and \<open>End\<close> on the tree: a row is focused, if one is found.\<close>

definition focusByKey :: "'r dom \<Rightarrow> nat list \<Rightarrow> string \<Rightarrow> nat list option" where
  "focusByKey root focus pressed = (let rows = querySelectorAll root [] in
     map_option (\<lambda>i. rows ! nat i) (moveRowFocus (length rows) (find_index (\<lambda>p. p = focus) rows) pressed))"

subsection \<open>The tree that is meant\<close>

datatype 'r row_tree = RowNode 'r "'r row_tree list"

fun branchTree :: "expansion_state \<Rightarrow> string \<Rightarrow> object_node \<Rightarrow> explorer_row row_tree" where
  "branchTree st search (ObjectNode o' cs) = RowNode (ObjectRow (ci_oid o'))
     (if ci_kind o' \<noteq> ''function'' \<and> isExpanded st (branchKey (ci_oid o') search) (search \<noteq> []) then map (branchTree st search) cs else [])"

definition groupTree :: "expansion_state \<Rightarrow> string \<Rightarrow> string \<Rightarrow> nat \<Rightarrow> (nat \<Rightarrow> string \<Rightarrow> group_query) \<Rightarrow> string \<Rightarrow> explorer_row row_tree" where
  "groupTree st conn search schemaOid objects kind = RowNode (GroupRow schemaOid kind)
     (if isExpanded st (groupKey conn schemaOid kind search) (search \<noteq> [])
      then map (branchTree st search) (visibleNodes (nullish (gq_data (objects schemaOid kind)) []) search) else [])"

definition schemaTree :: "expansion_state \<Rightarrow> string \<Rightarrow> string \<Rightarrow> (nat \<Rightarrow> string \<Rightarrow> group_query) \<Rightarrow> schema_info \<Rightarrow> explorer_row row_tree" where
  "schemaTree st conn search objects s = RowNode (SchemaRow (sc_oid s))
     (if isExpanded st (schemaKey conn (sc_oid s)) (sc_name s = ''public'')
      then map (groupTree st conn search (sc_oid s) objects) [''table'', ''view'', ''function''] else [])"

definition explorerTree :: "expansion_state \<Rightarrow> string \<Rightarrow> string \<Rightarrow> schemas_query \<Rightarrow> (nat \<Rightarrow> string \<Rightarrow> group_query) \<Rightarrow> explorer_row row_tree list" where
  "explorerTree st conn search schemas objects = map (schemaTree st conn search objects) (nullish (sq_data schemas) [])"

text \<open>The rows of a tree from top to bottom, each with its parent and its first child.\<close>

fun rootOf :: "'r row_tree \<Rightarrow> 'r" where
  "rootOf (RowNode r cs) = r"

definition firstRoot :: "'r row_tree list \<Rightarrow> 'r option" where
  "firstRoot ts = (case ts of [] \<Rightarrow> None | t # _ \<Rightarrow> Some (rootOf t))"

fun rowFamily :: "'r option \<Rightarrow> 'r row_tree \<Rightarrow> ('r option \<times> 'r option \<times> 'r option) list" where
  "rowFamily parent (RowNode r cs) = (Some r, parent, firstRoot cs) # concat (map (rowFamily (Some r)) cs)"

text \<open>The same as the document has it: the row of an element, and of those that Left and Right go to.\<close>

definition domFamily :: "'r dom \<Rightarrow> nat list \<Rightarrow> 'r option \<times> 'r option \<times> 'r option" where
  "domFamily root p = (rowAt root p, Option.bind (parentRow root p) (rowAt root), Option.bind (childRow root p) (rowAt root))"


subsection \<open>Lookups in the document\<close>

lemma dom_at_append: "dom_at e (p @ q) = Option.bind (dom_at e p) (\<lambda>e'. dom_at e' q)"
  by (induction p arbitrary: e) auto

lemma numbered_nth: "numbered pss = concat (map (\<lambda>i. map (Cons i) (pss ! i)) [0..<length pss])"
  unfolding numbered_def by (rule arg_cong [of _ _ concat]) (auto simp: nth_enumerate_eq intro: nth_equalityI)

lemma map_numbered: "map f (numbered (map g cs)) = concat (map (\<lambda>i. map (\<lambda>p. f (i # p)) (g (cs ! i))) [0..<length cs])"
proof -
  have "map (\<lambda>i. map (Cons i) (map g cs ! i)) [0..<length cs] = map (\<lambda>i. map (Cons i) (g (cs ! i))) [0..<length cs]"
    by (rule map_cong) simp_all
  then have "numbered (map g cs) = concat (map (\<lambda>i. map (Cons i) (g (cs ! i))) [0..<length cs])" by (simp only: numbered_nth length_map)
  then show ?thesis by (simp add: map_concat comp_def)
qed

lemma numbered_few [simp]:
  "numbered [] = []" "numbered [a] = map (Cons 0) a" "numbered [a, b] = map (Cons 0) a @ map (Cons 1) b"
  by (simp_all add: numbered_nth)

lemma closestList_snoc: "closestList root (p @ [x]) = (if isList root (p @ [x]) then Some (p @ [x]) else closestList root p)"
proof -
  have "map (\<lambda>n. take n (p @ [x])) (rev [0..<Suc (length p)]) = map (\<lambda>n. take n p) (rev [0..<Suc (length p)])"
    by (rule map_cong) auto
  moreover have "map (\<lambda>n. take n (p @ [x])) (rev [0..<Suc (length (p @ [x]))])
      = (p @ [x]) # map (\<lambda>n. take n (p @ [x])) (rev [0..<Suc (length p)])" by simp
  ultimately show ?thesis unfolding closestList_def by (simp only: find.simps)
qed

lemma closestList_self: "isList root p \<Longrightarrow> closestList root p = Some p"
  by (simp add: closestList_def)

text \<open>The rows of an element, without their paths.\<close>

fun rowsIn :: "'r dom \<Rightarrow> 'r list" where
  "rowsIn (El t r cs) = (case r of None \<Rightarrow> [] | Some x \<Rightarrow> [x]) @ concat (map rowsIn cs)"

lemma rowAt_Cons: "i < length cs \<Longrightarrow> rowAt (El t r cs) (i # p) = rowAt (cs ! i) p"
  by (simp add: rowAt_def)

lemma children_rows:
  assumes "\<And>c. c \<in> set cs \<Longrightarrow> map (rowAt c) (rowPaths c) = map Some (rowsIn c)"
  shows "map (rowAt (El t r cs)) (numbered (map rowPaths cs)) = map Some (concat (map rowsIn cs))"
proof -
  have "map (\<lambda>p. rowAt (El t r cs) (i # p)) (rowPaths (cs ! i)) = map Some (rowsIn (cs ! i))" if "i < length cs" for i
    using assms [of "cs ! i"] that by (simp add: rowAt_Cons)
  then have "map (rowAt (El t r cs)) (numbered (map rowPaths cs)) = concat (map (\<lambda>i. map Some (rowsIn (cs ! i))) [0..<length cs])"
    unfolding map_numbered by (intro arg_cong [of _ _ concat] map_cong refl) simp
  also have "map (\<lambda>i. map Some (rowsIn (cs ! i))) [0..<length cs] = map (map Some \<circ> rowsIn) cs"
    by (rule nth_equalityI) simp_all
  finally show ?thesis by (simp add: map_concat comp_def)
qed

lemma rowAt_paths: "map (rowAt e) (rowPaths e) = map Some (rowsIn e)"
proof (induction e)
  case (El t r cs)
  have "rowAt (El t r cs) [] = r" by (simp add: rowAt_def)
  with children_rows [of cs t r, OF El] show ?case by (cases r) simp_all
qed

lemma rowAt_append: "dom_at root p = Some e \<Longrightarrow> rowAt root (p @ q) = rowAt e q"
  by (simp add: rowAt_def dom_at_append)

lemma first_row:
  assumes "dom_at root p = Some (El t r cs)"
  shows "Option.bind (querySelector root p) (rowAt root) = (case concat (map rowsIn cs) of [] \<Rightarrow> None | x # _ \<Rightarrow> Some x)"
proof -
  have rows: "map (rowAt (El t r cs)) (numbered (map rowPaths cs)) = map Some (concat (map rowsIn cs))"
    by (rule children_rows) (rule rowAt_paths)
  show ?thesis
  proof (cases "numbered (map rowPaths cs)")
    case Nil
    then have "concat (map rowsIn cs) = []" using rows by (metis map_is_Nil_conv)
    then show ?thesis using assms Nil by (simp only:) (simp add: querySelector_def querySelectorAll_def)
  next
    case (Cons q qs)
    then obtain x xs where "concat (map rowsIn cs) = x # xs" "rowAt (El t r cs) q = Some x"
      using rows by (metis (no_types, lifting) list.simps(9) map_eq_Cons_conv)
    then show ?thesis using assms Cons by (simp only:) (simp add: querySelector_def querySelectorAll_def rowAt_append)
  qed
qed

subsection \<open>Views\<close>

text \<open>
  The shapes in which the code renders a row: the button alone, or beside a toggle in a toolbar; followed
  by the list of its children while it is open. A note is an element without rows.
\<close>

datatype 'r view = Note "'r dom" | Closed html_tag "'r dom option" 'r | Opened html_tag "'r dom option" 'r "'r view list"

definition headDom :: "'r dom option \<Rightarrow> 'r \<Rightarrow> 'r dom" where
  "headDom l r = (case l of None \<Rightarrow> El BUTTON (Some r) [] | Some x \<Rightarrow> El DIV None [x, El BUTTON (Some r) []])"

fun headPath :: "'r dom option \<Rightarrow> nat list" where
  "headPath None = [0]"
| "headPath (Some x) = [0, 1]"

fun domOf :: "'r view \<Rightarrow> 'r dom" where
  "domOf (Note e) = e"
| "domOf (Closed t l r) = El t None [headDom l r]"
| "domOf (Opened t l r vs) = El t None [headDom l r, El UL None (map domOf vs)]"

definition toggleOk :: "'r dom option \<Rightarrow> bool" where
  "toggleOk l \<longleftrightarrow> (case l of None \<Rightarrow> True | Some x \<Rightarrow> rowPaths x = [])"

fun viewOk :: "'r view \<Rightarrow> bool" where
  "viewOk (Note e) \<longleftrightarrow> el_tag e \<noteq> UL \<and> rowPaths e = []"
| "viewOk (Closed t l r) \<longleftrightarrow> t \<noteq> UL \<and> toggleOk l"
| "viewOk (Opened t l r vs) \<longleftrightarrow> t \<noteq> UL \<and> toggleOk l \<and> list_all viewOk vs"

fun viewTree :: "'r view \<Rightarrow> 'r row_tree list" where
  "viewTree (Note e) = []"
| "viewTree (Closed t l r) = [RowNode r []]"
| "viewTree (Opened t l r vs) = [RowNode r (concat (map viewTree vs))]"

fun preorder :: "'r row_tree \<Rightarrow> 'r list" where
  "preorder (RowNode r cs) = r # concat (map preorder cs)"

lemma rowsIn_none: "rowPaths e = [] \<Longrightarrow> rowsIn e = []"
  using rowAt_paths [of e] by simp

lemma rowsIn_head: "toggleOk l \<Longrightarrow> rowsIn (headDom l r) = [r]"
  by (cases l) (simp_all add: headDom_def toggleOk_def rowsIn_none)

lemma rowPaths_head: "toggleOk l \<Longrightarrow> map (Cons 0) (rowPaths (headDom l r)) = [headPath l]"
  by (cases l) (simp_all add: headDom_def toggleOk_def)

lemma rowsIn_domOf: "viewOk v \<Longrightarrow> rowsIn (domOf v) = concat (map preorder (viewTree v))"
proof (induction v)
  case (Opened t l r vs)
  then have "map (rowsIn \<circ> domOf) vs = map (concat \<circ> map preorder \<circ> viewTree) vs"
    by (auto simp: list_all_iff)
  then have "concat (map rowsIn (map domOf vs)) = concat (map preorder (concat (map viewTree vs)))"
    by (simp add: map_concat comp_def) (induction vs; simp)
  then show ?case using Opened.prems by (simp add: rowsIn_head)
qed (simp_all add: rowsIn_none rowsIn_head)

lemma rowsIn_views: "list_all viewOk vs \<Longrightarrow> concat (map rowsIn (map domOf vs)) = concat (map preorder (concat (map viewTree vs)))"
  by (induction vs) (simp_all add: rowsIn_domOf)

lemma first_preorder: "(case concat (map preorder ts) of [] \<Rightarrow> None | x # _ \<Rightarrow> Some x) = firstRoot ts"
proof (cases ts)
  case (Cons t ts')
  then show ?thesis by (cases t) (simp add: firstRoot_def)
qed (simp add: firstRoot_def)

lemma domOf_tag: "viewOk v \<Longrightarrow> el_tag (domOf v) \<noteq> UL"
  by (cases v) simp_all

subsection \<open>The lookups follow the tree\<close>

text \<open>The places of a view in the document: its list, whose owner is the parent, and what comes after it.\<close>

definition placed :: "'r dom \<Rightarrow> nat list \<Rightarrow> nat \<Rightarrow> 'r view \<Rightarrow> 'r option \<Rightarrow> bool" where
  "placed root p i v parent \<longleftrightarrow> dom_at root (p @ [i]) = Some (domOf v) \<and> \<not> isList root (p @ [Suc i]) \<and> viewOk v
     \<and> (if isList root p then p \<noteq> [] \<and> Option.bind (querySelector root (butlast p)) (rowAt root) = parent else p = [] \<and> parent = None)"

lemma placed_row:
  assumes "placed root p i v parent" "v = Closed t l r \<or> v = Opened t l r vs"
  shows "rowAt root (p @ i # headPath l) = Some r"
    and "Option.bind (parentRow root (p @ i # headPath l)) (rowAt root) = parent"
proof -
  have at: "dom_at root (p @ i # q) = dom_at (domOf v) q" for q
    using dom_at_append [of root "p @ [i]" q] assms(1) by (simp add: placed_def)
  show "rowAt root (p @ i # headPath l) = Some r"
    using at [of "headPath l"] assms(2) by (cases l) (auto simp: rowAt_def headDom_def)
  have "\<not> isList root (p @ [i])" using at [of "[]"] assms domOf_tag [of v] by (simp add: isList_def placed_def)
  moreover have "\<not> isList root (p @ [i, 0])" "l \<noteq> None \<Longrightarrow> \<not> isList root (p @ [i, 0, 1])"
    using at [of "[0]"] at [of "[0, 1]"] assms(2) by (cases l; auto simp: isList_def headDom_def)+
  moreover note closestList_snoc [of root "p" i] closestList_snoc [of root "p @ [i]" 0] closestList_snoc [of root "p @ [i, 0]" 1]
  ultimately have "closestList root (p @ i # headPath l) = closestList root p" by (cases l) simp_all
  moreover have "closestList root p = (if isList root p then Some p else None)"
    using assms(1) closestList_self [of root p] by (auto simp: placed_def closestList_def)
  ultimately show "Option.bind (parentRow root (p @ i # headPath l)) (rowAt root) = parent"
    using assms(1) by (auto simp: parentRow_def parentElement_def placed_def split: if_splits)
qed

lemma next_of_head:
  assumes "placed root p i v parent" "v = Closed t l r \<or> v = Opened t l r vs"
  shows "find (isList root) (List.map_filter id
      [nextElementSibling root (p @ i # headPath l), Option.bind (parentElement (p @ i # headPath l)) (nextElementSibling root)])
    = (case v of Opened t l r vs \<Rightarrow> Some (p @ [i, 1]) | _ \<Rightarrow> None)"
proof -
  have at: "dom_at root (p @ i # q) = dom_at (domOf v) q" for q
    using dom_at_append [of root "p @ [i]" q] assms(1) by (simp add: placed_def)
  note n = nextElementSibling_def parentElement_def butlast_append isList_def Let_def map_filter_simps headDom_def
  show ?thesis
  proof (cases l)
    case None
    then show ?thesis using assms at [of "[1]"] by (auto simp: n placed_def)
  next
    case (Some x)
    then show ?thesis using assms(2) at [of "[1]"] at [of "[0, 2]"] by (auto simp: n numeral_2_eq_2)
  qed
qed

lemma placed_children:
  assumes "placed root p i (Opened t l r vs) parent" "j < length vs"
  shows "placed root (p @ [i, 1]) j (vs ! j) (Some r)"
    and "dom_at root (p @ [i, 1]) = Some (El UL None (map domOf vs))"
proof -
  have at: "dom_at root (p @ i # q) = dom_at (domOf (Opened t l r vs)) q" for q
    using dom_at_append [of root "p @ [i]" q] assms(1) by (simp add: placed_def)
  show list: "dom_at root (p @ [i, 1]) = Some (El UL None (map domOf vs))" using at [of "[1]"] by simp
  have ok: "toggleOk l" "list_all viewOk vs" using assms(1) by (simp_all add: placed_def)
  have "dom_at root (p @ [i]) = Some (El t None [headDom l r, El UL None (map domOf vs)])" using at [of "[]"] by simp
  from first_row [OF this] have "Option.bind (querySelector root (p @ [i])) (rowAt root) = Some r"
    using rowsIn_head [OF ok(1), of r] by simp
  moreover have "\<not> isList root (p @ [i, 1, Suc j])"
    using at [of "[1, Suc j]"] ok(2) domOf_tag by (auto simp: isList_def list_all_length)
  ultimately show "placed root (p @ [i, 1]) j (vs ! j) (Some r)"
    using assms(2) at [of "[1, j]"] list ok(2) by (simp add: placed_def isList_def list_all_length butlast_append)
qed

lemma family_of_view:
  "placed root p i v parent \<Longrightarrow> map (\<lambda>q. domFamily root (p @ i # q)) (rowPaths (domOf v)) = concat (map (rowFamily parent) (viewTree v))"
proof (induction v arbitrary: p i parent)
  case (Note e)
  then show ?case by (simp add: placed_def)
next
  case (Closed t l r)
  then have "rowPaths (domOf (Closed t l r)) = [headPath l]" by (simp add: placed_def rowPaths_head)
  moreover have "childRow root (p @ i # headPath l) = None" using next_of_head [OF Closed] by (simp add: childRow_def)
  ultimately show ?case using placed_row [OF Closed] by (simp add: domFamily_def firstRoot_def)
next
  case (Opened t l r vs)
  note here = Opened.prems and kids = placed_children [OF Opened.prems]
  have ok: "toggleOk l" "list_all viewOk vs" using here by (simp_all add: placed_def)
  have paths: "rowPaths (domOf (Opened t l r vs)) = headPath l # map (Cons 1) (numbered (map (\<lambda>v. rowPaths (domOf v)) vs))"
    using rowPaths_head [OF ok(1), of r] by (simp add: comp_def)
  have ul: "dom_at root (p @ [i, 1]) = Some (El UL None (map domOf vs))"
    using here dom_at_append [of root "p @ [i]" "[1]"] by (simp add: placed_def)
  have "childRow root (p @ i # headPath l) = querySelector root (p @ [i, 1])" using next_of_head [OF here] by (simp add: childRow_def)
  moreover have "Option.bind (querySelector root (p @ [i, 1])) (rowAt root) = firstRoot (concat (map viewTree vs))"
    unfolding first_row [OF ul] rowsIn_views [OF ok(2)] by (rule first_preorder)
  ultimately have own: "domFamily root (p @ i # headPath l) = (Some r, parent, firstRoot (concat (map viewTree vs)))"
    using placed_row [OF here] by (simp add: domFamily_def)
  have kid: "map (\<lambda>q. domFamily root ((p @ [i, 1]) @ j # q)) (rowPaths (domOf (vs ! j))) = concat (map (rowFamily (Some r)) (viewTree (vs ! j)))"
    if "j < length vs" for j by (rule Opened.IH [OF nth_mem [OF that] kids(1) [OF that]])
  have "map (\<lambda>q. domFamily root (p @ i # 1 # q)) (numbered (map (\<lambda>v. rowPaths (domOf v)) vs))
      = concat (map (\<lambda>j. map (\<lambda>q. domFamily root ((p @ [i, 1]) @ j # q)) (rowPaths (domOf (vs ! j)))) [0..<length vs])"
    by (simp add: map_numbered)
  also have "map (\<lambda>j. map (\<lambda>q. domFamily root ((p @ [i, 1]) @ j # q)) (rowPaths (domOf (vs ! j)))) [0..<length vs]
      = map (\<lambda>j. concat (map (rowFamily (Some r)) (viewTree (vs ! j)))) [0..<length vs]"
    using kid by (intro map_cong refl) (simp only: set_upt atLeastLessThan_iff)
  also have "\<dots> = map (\<lambda>v. concat (map (rowFamily (Some r)) (viewTree v))) vs" by (rule nth_equalityI) simp_all
  also have "concat \<dots> = concat (map (rowFamily (Some r)) (concat (map viewTree vs)))" by (induction vs) simp_all
  finally show ?case unfolding paths by (simp add: own comp_def)
qed

lemma family_of_views:
  assumes "list_all viewOk vs" "t \<noteq> UL"
  shows "map (domFamily (El t None (map domOf vs))) (querySelectorAll (El t None (map domOf vs)) [])
    = concat (map (rowFamily None) (concat (map viewTree vs)))"
proof -
  let ?root = "El t None (map domOf vs)"
  have "placed ?root [] i (vs ! i) None" if "i < length vs" for i
    using that assms domOf_tag by (auto simp: placed_def isList_def list_all_length)
  then have "map (\<lambda>q. domFamily ?root (i # q)) (rowPaths (domOf (vs ! i))) = concat (map (rowFamily None) (viewTree (vs ! i)))"
    if "i < length vs" for i using that family_of_view [of ?root "[]" i "vs ! i" None] by simp
  then have "map (\<lambda>i. map (\<lambda>q. domFamily ?root (i # q)) (rowPaths (domOf (vs ! i)))) [0..<length vs]
      = map (\<lambda>i. concat (map (rowFamily None) (viewTree (vs ! i)))) [0..<length vs]" by (intro map_cong refl) simp
  also have "\<dots> = map (\<lambda>v. concat (map (rowFamily None) (viewTree v))) vs" by (rule nth_equalityI) simp_all
  finally have "map (domFamily ?root) (numbered (map (\<lambda>v. rowPaths (domOf v)) vs)) = concat (map (\<lambda>v. concat (map (rowFamily None) (viewTree v))) vs)"
    by (simp only: map_numbered)
  moreover have "concat (map (\<lambda>v. concat (map (rowFamily None) (viewTree v))) vs) = concat (map (rowFamily None) (concat (map viewTree vs)))"
    by (induction vs) simp_all
  ultimately show ?thesis by (simp add: querySelectorAll_def comp_def)
qed

subsection \<open>The explorer\<close>

fun branchView :: "expansion_state \<Rightarrow> string \<Rightarrow> object_node \<Rightarrow> explorer_row view" where
  "branchView st search (ObjectNode o' cs) = (let row = ObjectRow (ci_oid o'); toggle = Some (if cs \<noteq> [] then El BUTTON None [] else El SPAN None []) in
     if ci_kind o' = ''function'' then Closed LI None row
     else if isExpanded st (branchKey (ci_oid o') search) (search \<noteq> []) \<and> cs \<noteq> [] then Opened LI toggle row (map (branchView st search) cs)
     else Closed LI toggle row)"

definition groupView :: "expansion_state \<Rightarrow> string \<Rightarrow> string \<Rightarrow> nat \<Rightarrow> (nat \<Rightarrow> string \<Rightarrow> group_query) \<Rightarrow> string \<Rightarrow> explorer_row view" where
  "groupView st conn search schemaOid objects kind =
     (let q = objects schemaOid kind; visible = visibleNodes (nullish (gq_data q) []) search in
      if isExpanded st (groupKey conn schemaOid kind search) (search \<noteq> [])
      then Opened LI None (GroupRow schemaOid kind) ((if gq_isLoading q then [Note (El LI None [])] else [])
         @ (if gq_isError q then [Note (El LI None [El BUTTON None []])] else [])
         @ (if gq_data q \<noteq> None \<and> visible = [] then [Note (El LI None [])] else [])
         @ map (branchView st search) visible)
      else Closed LI None (GroupRow schemaOid kind))"

definition schemaView :: "expansion_state \<Rightarrow> string \<Rightarrow> string \<Rightarrow> (nat \<Rightarrow> string \<Rightarrow> group_query) \<Rightarrow> schema_info \<Rightarrow> explorer_row view" where
  "schemaView st conn search objects s = (if isExpanded st (schemaKey conn (sc_oid s)) (sc_name s = ''public'')
     then Opened DIV None (SchemaRow (sc_oid s)) (map (groupView st conn search (sc_oid s) objects) GROUPS)
     else Closed DIV None (SchemaRow (sc_oid s)))"

definition explorerView :: "expansion_state \<Rightarrow> string \<Rightarrow> string \<Rightarrow> schemas_query \<Rightarrow> (nat \<Rightarrow> string \<Rightarrow> group_query) \<Rightarrow> explorer_row view list" where
  "explorerView st conn search schemas objects = (if sq_isLoading schemas then [Note (El PARA None [])] else [])
     @ (if sq_isError schemas then [Note (El PARA None [])] else []) @ map (schemaView st conn search objects) (nullish (sq_data schemas) [])"

lemma branchView_facts:
  "domOf (branchView st search n) = branchDom st search n \<and> viewOk (branchView st search n) \<and> viewTree (branchView st search n) = [branchTree st search n]"
proof (induction n)
  case (ObjectNode o' cs)
  then have "map (domOf \<circ> branchView st search) cs = map (branchDom st search) cs" "list_all viewOk (map (branchView st search) cs)"
    "concat (map viewTree (map (branchView st search) cs)) = map (branchTree st search) cs"
    by (induction cs) simp_all
  then show ?case by (auto simp: Let_def headDom_def toggleOk_def)
qed

lemma branchViews:
  "map domOf (map (branchView st search) ns) = map (branchDom st search) ns" "list_all viewOk (map (branchView st search) ns)"
  "concat (map viewTree (map (branchView st search) ns)) = map (branchTree st search) ns"
  by (induction ns) (simp_all add: branchView_facts)

lemma groupView_facts:
  "domOf (groupView st conn search oid objects kind) = groupDom st conn search oid objects kind
   \<and> viewOk (groupView st conn search oid objects kind)
   \<and> viewTree (groupView st conn search oid objects kind) = [groupTree st conn search oid objects kind]"
  using branchViews [of st search] by (simp add: groupView_def groupDom_def groupTree_def headDom_def toggleOk_def Let_def)

lemma schemaView_facts:
  "domOf (schemaView st conn search objects s) = schemaDom st conn search objects s
   \<and> viewOk (schemaView st conn search objects s) \<and> viewTree (schemaView st conn search objects s) = [schemaTree st conn search objects s]"
  by (simp add: schemaView_def schemaDom_def schemaTree_def headDom_def toggleOk_def GROUPS_def groupView_facts)

lemma explorerView_facts:
  "explorerDom st conn search schemas objects = El DIV None (map domOf (explorerView st conn search schemas objects))"
  "list_all viewOk (explorerView st conn search schemas objects)"
  "concat (map viewTree (explorerView st conn search schemas objects)) = explorerTree st conn search schemas objects"
proof -
  let ?ss = "nullish (sq_data schemas) []"
  have "map domOf (map (schemaView st conn search objects) ss) = map (schemaDom st conn search objects) ss"
    "list_all viewOk (map (schemaView st conn search objects) ss)"
    "concat (map viewTree (map (schemaView st conn search objects) ss)) = map (schemaTree st conn search objects) ss" for ss
    by (induction ss) (simp_all add: schemaView_facts)
  from this [of ?ss] show "explorerDom st conn search schemas objects = El DIV None (map domOf (explorerView st conn search schemas objects))"
    "list_all viewOk (explorerView st conn search schemas objects)"
    "concat (map viewTree (explorerView st conn search schemas objects)) = explorerTree st conn search schemas objects"
    by (simp_all add: explorerDom_def explorerView_def explorerTree_def)
qed

text \<open>Claim C22: the keys of the object explorer follow the tree that is shown. In document order, the rows are
  those of the tree from top to bottom: schemas, their folders, the objects the search leaves, and the
  partitions of what is expanded; and from every row, Left goes to its parent and Right to its first
  child, however the rows are wrapped and whatever notes stand between them.\<close>

theorem explorer_keys_follow_tree:
  "map (domFamily (explorerDom st conn search schemas objects)) (querySelectorAll (explorerDom st conn search schemas objects) [])
     = concat (map (rowFamily None) (explorerTree st conn search schemas objects))"
  using family_of_views [OF explorerView_facts(2), of DIV st conn search schemas objects] by (simp add: explorerView_facts(1,3))

text \<open>Up, Down, Home and End stay on the rows: a row is found exactly when there is one.\<close>

lemma focusByKey_row:
  "(focusByKey root focus pressed = None) = (querySelectorAll root [] = [])"
  "focusByKey root focus pressed = Some p \<Longrightarrow> p \<in> set (querySelectorAll root [])"
proof -
  have "moveRowFocus len i pressed = Some z \<Longrightarrow> nat z < len" for len i z
    unfolding moveRowFocus_def Let_def by (simp split: if_split_asm)
  then show "focusByKey root focus pressed = Some p \<Longrightarrow> p \<in> set (querySelectorAll root [])"
    by (auto simp: focusByKey_def Let_def intro!: nth_mem)
  show "(focusByKey root focus pressed = None) = (querySelectorAll root [] = [])"
    by (simp add: focusByKey_def moveRowFocus_def Let_def)
qed

end
